(* ===== verification/Prelude.thy ===== *)
theory Prelude
  imports Main "HOL-Library.Word" "HOL-Library.Monad_Syntax"
begin

text \<open>
  Shared vocabulary of the development: the machine types of the ARMv8-M target, byte memory,
  C strings in memory, the error codes of \<open>include/errno.h\<close>, and the generic lemmas on words,
  options and lists that the component theories use.

  A C function is translated to a HOL function that takes the memory or the kernel state it reads
  and returns the new one. A result of type \<open>'a option\<close> is \<^const>\<open>None\<close> exactly where the C
  program has no defined result: a null or wild pointer is dereferenced, an array is indexed out of
  its bounds, a division by zero happens, or a loop never ends. Error codes that the C code returns
  are ordinary values of the model.
\<close>

unbundle bit_operations_syntax

section \<open>Machine types\<close>

type_synonym byte = "8 word"
type_synonym u16 = "16 word"
type_synonym u32 = "32 word"
type_synonym u64 = "64 word"
type_synonym addr = "32 word"
type_synonym mem = "addr \<Rightarrow> byte"

text \<open>The null pointer, and a guard for code that dereferences a pointer without a test.\<close>

abbreviation (input) NULL :: addr where
  "NULL \<equiv> 0"

definition require :: "bool \<Rightarrow> unit option" where
  "require b = (if b then Some () else None)"

lemma require_bind [simp]: "(require b \<bind> f) = (if b then f () else None)"
  by (simp add: require_def)

text \<open>String literals of the C source, as bytes without the terminating NUL.\<close>

definition cs :: "string \<Rightarrow> byte list" where
  "cs s = map of_char s"

lemma cs_simps [simp]: "cs [] = []" "cs (c # s) = of_char c # cs s"
  by (simp_all add: cs_def)

section \<open>Collections of the development\<close>

named_theorems mem_simps \<open>reading a memory or a typed heap after an update\<close>
named_theorems cstr_rules \<open>what a libc routine returns on C strings in memory\<close>
named_theorems heap_simps \<open>fields of the allocator or kernel state after an operation\<close>

section \<open>Lemmas on words\<close>

lemma word_lt_Suc_cases: "(i :: 'a::len word) < n \<Longrightarrow> i + 1 \<le> n"
  by (simp add: inc_le)

lemma uint_eq_iff [simp]: "(uint (x :: 'a::len word) = uint y) = (x = y)"
  by (simp add: word_eq_iff_unsigned [where 'a = int])

lemma unat_eq_iff [simp]: "(unat (x :: 'a::len word) = unat y) = (x = y)"
  by (simp add: word_eq_iff_unsigned [where 'a = nat])

lemma unat_lt_exp: "unat (x :: 'a::len word) < 2 ^ LENGTH('a)"
  by simp

lemma unat_Suc_less: "(i :: 'a::len word) < n \<Longrightarrow> unat (i + 1) = Suc (unat i)"
proof -
  assume "i < n"
  then have "unat i < unat n" by (simp add: word_less_nat_alt)
  with unat_lt_exp [of n] have "Suc (unat i) < 2 ^ LENGTH('a)" by linarith
  then have "unat i + unat (1 :: 'a word) < 2 ^ LENGTH('a)" by simp
  then show ?thesis by (simp only: unat_add_lem) simp
qed

lemma unat_diff_step: "(i :: 'a::len word) < n \<Longrightarrow> unat (n - (i + 1)) < unat (n - i)"
  by (simp add: unat_sub inc_le order_less_imp_le unat_Suc_less diff_less_mono2 word_less_nat_alt)

lemma unat_of_nat_less: "n < 2 ^ LENGTH('a) \<Longrightarrow> unat (of_nat n :: 'a::len word) = n"
  by (simp add: unat_of_nat)

lemma unat_div_word: "unat ((v :: 'a::len word) div b) = unat v div unat b"
  by (rule unat_div_distrib)

lemma unat_mod_word: "unat ((v :: 'a::len word) mod b) = unat v mod unat b"
  by (rule unat_mod_distrib)

lemma sint_u32_if: "sint (v :: u32) = (if uint v < 2 ^ 31 then uint v else uint v - 2 ^ 32)"
proof -
  have "sint v = take_bit 32 (uint v + 2 ^ 31) - 2 ^ 31"
    by (simp add: sint_uint signed_take_bit_eq_take_bit_shift)
  moreover have "(u + 2147483648) mod 4294967296 = (if u < 2147483648 then u + 2147483648 else u - 2147483648)"
    if "0 \<le> u" "u < 4294967296" for u :: int
  proof (cases "u < 2147483648")
    case False
    then show ?thesis
      using that mod_add_self2 [of "u - 2147483648" 4294967296]
      by (simp add: mod_pos_pos_trivial add.commute)
  qed (use that in \<open>simp add: mod_pos_pos_trivial\<close>)
  from this [of "uint v"] have "take_bit 32 (uint v + 2 ^ 31) = (if uint v < 2 ^ 31 then uint v + 2 ^ 31 else uint v - 2 ^ 31)"
    using uint_lt2p [of v] by (simp add: take_bit_eq_mod)
  ultimately show ?thesis by simp
qed

lemma unat_uminus_u32: "v \<noteq> 0 \<Longrightarrow> int (unat (- v :: u32)) = 2 ^ 32 - uint v"
  using uint_lt2p [of v] uint_ge_0 [of v]
  by (simp add: uint_word_ariths zmod_zminus1_eq_if uint_0_iff)

text \<open>Addresses of an object that does not wrap around.\<close>

lemma unat_add_of_nat:
  "unat (p :: u32) + n < 2 ^ 32 \<Longrightarrow> unat (p + of_nat n) = unat p + n"
  by (simp add: unat_word_ariths unat_of_nat_less)

lemma unat_available:
  "n \<le> unat (sz :: u32) \<Longrightarrow> unat (sz - of_nat n) = unat sz - n"
  using unat_lt_exp [of sz] by (simp add: unat_sub word_le_nat_alt unat_of_nat_less)

text \<open>An address is at offset \<open>n\<close> of a pointer.\<close>

lemma offset_iff: "n < 2 ^ 32 \<Longrightarrow> (a :: addr) = p + of_nat n \<longleftrightarrow> unat (a - p) = n"
proof -
  assume n: "n < 2 ^ 32"
  have "a = p + of_nat n \<longleftrightarrow> a - p = of_nat n" by (simp add: algebra_simps)
  also have "\<dots> \<longleftrightarrow> unat (a - p) = n"
    using n by (auto simp: unat_of_nat_less)
  finally show ?thesis .
qed

section \<open>Bytes stored in memory\<close>

definition stored :: "mem \<Rightarrow> addr \<Rightarrow> byte list \<Rightarrow> mem" where
  "stored m p bs = (\<lambda>a. if unat (a - p) < length bs then bs ! unat (a - p) else m a)"

lemma stored_Nil [simp]: "stored m p [] = m"
  by (simp add: stored_def)

lemma stored_snoc:
  "length bs < 2 ^ 32 \<Longrightarrow> stored m p (bs @ [b]) = stored (m(p + of_nat (length bs) := b)) p bs"
  by (rule ext) (auto simp: stored_def nth_append less_Suc_eq offset_iff)

lemma stored_extend:
  "length bs < 2 ^ 32 \<Longrightarrow> (stored m p bs)(p + of_nat (length bs) := b) = stored m p (bs @ [b])"
  by (rule ext) (auto simp: stored_def nth_append less_Suc_eq offset_iff)

lemma stored_in [mem_simps]:
  "i < length bs \<Longrightarrow> length bs \<le> 2 ^ 32 \<Longrightarrow> stored m p bs (p + of_nat i) = bs ! i"
  by (simp add: stored_def unat_of_nat_less)

lemma stored_out [mem_simps]: "length bs \<le> unat (a - p) \<Longrightarrow> stored m p bs a = m a"
  by (simp add: stored_def)

lemma stored_append:
  "length xs + length ys \<le> 2 ^ 32 \<Longrightarrow>
    stored (stored m p xs) (p + of_nat (length xs)) ys = stored m p (xs @ ys)"
proof (rule ext)
  fix a
  assume len: "length xs + length ys \<le> 2 ^ 32"
  show "stored (stored m p xs) (p + of_nat (length xs)) ys a = stored m p (xs @ ys) a"
  proof (cases "ys = []")
    case False
    then have "length xs < 2 ^ 32" using len by (cases ys) auto
    then have xs: "unat (of_nat (length xs) :: u32) = length xs" by (simp add: unat_of_nat_less)
    have "unat (a - (p + of_nat (length xs))) = (if length xs \<le> unat (a - p)
      then unat (a - p) - length xs else unat (a - p) + 2 ^ 32 - length xs)"
      using unat_sub_if' [of "a - p" "of_nat (length xs)"] by (simp add: xs diff_diff_eq)
    then show ?thesis using len by (auto simp: stored_def nth_append)
  qed simp
qed

end
