(* ===== verification/Board.thy ===== *)
theory Board
  imports Prelude
begin

text \<open>
  Buses, pins and time: the hardware that the drivers of \<open>src/drivers/\<close> use. The assembly routines \<open>spi_tx\<close> and \<open>spi_rx\<close>
  of \<open>src/drivers/spi.S\<close> exchange one frame of eight bits with the device on a bus; the device, the pins, the delays and the clock
  are the parameter \<open>hardware\<close>, a deterministic machine with any state. The loops that send an array, fill an array,
  and wait for a byte, are here because several drivers use them.
\<close>

section \<open>Buses and pins\<close>

text \<open>The routines of the assembly drivers that configure pins, buses and interrupts, with their parameters.\<close>

datatype set_up_call =
    GPIO_Function_Select nat nat
  | Output_Enable_Pin nat
  | Init_Pin_Output nat
  | Init_Pin_Input_With_Pull nat bool
  | Set_Irq_Pin_Enabled_Edge_Low nat
  | Clr_Interrupt nat
  | Set_Isr nat
  | Spi_Init nat u32 u32 u32

text \<open>The hardware: what one exchange of a frame over a bus does and receives, pins, the rate of a bus, waiting, the clock.\<close>

record 'd hardware =
  spi_exchange :: "nat \<Rightarrow> byte \<Rightarrow> 'd \<Rightarrow> 'd \<times> byte"
  put_pin :: "nat \<Rightarrow> bool \<Rightarrow> 'd \<Rightarrow> 'd"
  spi_set_baudrate :: "nat \<Rightarrow> u32 \<Rightarrow> u32 \<Rightarrow> 'd \<Rightarrow> 'd"
  delay_ms :: "nat \<Rightarrow> 'd \<Rightarrow> 'd"
  ms_since_boot :: "'d \<Rightarrow> 'd \<times> u64"
  set_up :: "set_up_call \<Rightarrow> 'd \<Rightarrow> 'd"

definition spi_tx :: "'d hardware \<Rightarrow> nat \<Rightarrow> byte \<Rightarrow> 'd \<Rightarrow> 'd" where
  "spi_tx hw block data d = fst (spi_exchange hw block data d)"

definition spi_rx :: "'d hardware \<Rightarrow> nat \<Rightarrow> 'd \<Rightarrow> 'd \<times> byte" where
  "spi_rx hw block d = spi_exchange hw block 0xff d"

abbreviation (input) set_pin :: "'d hardware \<Rightarrow> nat \<Rightarrow> 'd \<Rightarrow> 'd" where
  "set_pin hw pin \<equiv> put_pin hw pin True"

abbreviation (input) clr_pin :: "'d hardware \<Rightarrow> nat \<Rightarrow> 'd \<Rightarrow> 'd" where
  "clr_pin hw pin \<equiv> put_pin hw pin False"

text \<open>Loops that send the bytes of an array, and that fill one.\<close>

fun spi_send :: "'d hardware \<Rightarrow> nat \<Rightarrow> byte list \<Rightarrow> 'd \<Rightarrow> 'd" where
  "spi_send hw block [] d = d"
| "spi_send hw block (b # bs) d = spi_send hw block bs (spi_tx hw block b d)"

fun spi_receive :: "'d hardware \<Rightarrow> nat \<Rightarrow> nat \<Rightarrow> 'd \<Rightarrow> 'd \<times> byte list" where
  "spi_receive hw block 0 d = (d, [])"
| "spi_receive hw block (Suc n) d =
     (let (d, r) = spi_rx hw block d; (d, bs) = spi_receive hw block n d in (d, r # bs))"

text \<open>Waiting until a received byte satisfies a condition: at most \<open>n\<close> more times, and without a bound.\<close>

fun spi_poll_limit :: "'d hardware \<Rightarrow> nat \<Rightarrow> (byte \<Rightarrow> bool) \<Rightarrow> nat \<Rightarrow> 'd \<Rightarrow> 'd \<times> byte option" where
  "spi_poll_limit hw block stop 0 d = (let (d, r) = spi_rx hw block d in (d, if stop r then Some r else None))"
| "spi_poll_limit hw block stop (Suc n) d =
     (let (d, r) = spi_rx hw block d in if stop r then (d, Some r) else spi_poll_limit hw block stop n d)"

partial_function (option) spi_poll :: "'d hardware \<Rightarrow> nat \<Rightarrow> (byte \<Rightarrow> bool) \<Rightarrow> 'd \<Rightarrow> ('d \<times> byte) option" where
  "spi_poll hw block stop d =
     (let (d, r) = spi_rx hw block d in if stop r then Some (d, r) else spi_poll hw block stop d)"

declare spi_poll.simps [code]

section \<open>Received bytes\<close>

lemma spi_receive_add:
  "spi_receive hw block (m + n) d =
    (let (d, bs) = spi_receive hw block m d; (d, bs') = spi_receive hw block n d in (d, bs @ bs'))"
  by (induction m arbitrary: d) (simp_all add: split_beta Let_def)

lemma length_spi_receive [simp]: "length (snd (spi_receive hw block n d)) = n"
  by (induction n arbitrary: d) (simp_all add: split_beta Let_def)

lemma spi_receive_append:
  "spi_receive hw block (length (xs @ ys)) d = (d', xs @ ys) \<longleftrightarrow>
   (\<exists>d1. spi_receive hw block (length xs) d = (d1, xs) \<and> spi_receive hw block (length ys) d1 = (d', ys))"
proof -
  obtain d1 bs where 1: "spi_receive hw block (length xs) d = (d1, bs)" by fastforce
  obtain d2 bs' where 2: "spi_receive hw block (length ys) d1 = (d2, bs')" by fastforce
  have "length bs = length xs" using length_spi_receive [of hw block "length xs" d] 1 by simp
  then show ?thesis using 1 2 by (auto simp: spi_receive_add)
qed

lemma spi_receive_Cons:
  "spi_receive hw block (Suc n) d = (d', b # bs) \<longleftrightarrow>
   (\<exists>d1. spi_rx hw block d = (d1, b) \<and> spi_receive hw block n d1 = (d', bs))"
  by (auto simp: split_beta Let_def prod_eq_iff)

lemma spi_poll_found:
  assumes "spi_receive hw block (length (gap @ [b])) d = (d', gap @ [b])" "\<forall>x\<in>set gap. \<not> stop x" "stop b"
  shows "spi_poll hw block stop d = Some (d', b)"
  using assms
proof (induction gap arbitrary: d)
  case Nil
  then have "spi_rx hw block d = (d', b)" by (simp add: split_beta prod_eq_iff)
  then show ?case using Nil by (subst spi_poll.simps) simp
next
  case (Cons g gap)
  then obtain d1 where "spi_rx hw block d = (d1, g)" "spi_receive hw block (length (gap @ [b])) d1 = (d', gap @ [b])"
    by (auto simp: spi_receive_Cons simp del: spi_receive.simps)
  then show ?case using Cons.IH [of d1] Cons.prems(2,3) by (subst spi_poll.simps) simp
qed

lemma spi_poll_limit_found:
  assumes "spi_receive hw block (length (gap @ [b])) d = (d', gap @ [b])" "\<forall>x\<in>set gap. \<not> stop x" "stop b" "length gap \<le> n"
  shows "spi_poll_limit hw block stop n d = (d', Some b)"
  using assms
proof (induction gap arbitrary: d n)
  case Nil
  then have "spi_rx hw block d = (d', b)" by (simp add: split_beta prod_eq_iff)
  then show ?case using Nil by (cases n) simp_all
next
  case (Cons g gap)
  then obtain d1 m where "spi_rx hw block d = (d1, g)" "spi_receive hw block (length (gap @ [b])) d1 = (d', gap @ [b])" "n = Suc m"
    by (cases n) (auto simp: spi_receive_Cons simp del: spi_receive.simps)
  then show ?case using Cons.IH [of d1 m] Cons.prems(2-4) by simp
qed

text \<open>The unbounded loop ends exactly when the device sends, at some time, what it waits for.\<close>

lemma spi_poll_returns:
  "spi_poll hw block stop d \<noteq> None \<longleftrightarrow> (\<exists>n. stop (List.last (snd (spi_receive hw block (Suc n) d))))"
    (is "_ \<longleftrightarrow> (\<exists>n. ?stops d n)")
proof
  have step: "?stops d (Suc n) = ?stops (fst (spi_rx hw block d)) n" for d n
    by (simp only: spi_receive.simps(2) [of hw block "Suc n" d])
      (simp add: split_beta Let_def)
  have now: "?stops d 0 = stop (snd (spi_rx hw block d))" for d by (simp add: split_beta Let_def)
  show "\<exists>n. ?stops d n \<Longrightarrow> spi_poll hw block stop d \<noteq> None"
  proof (elim exE)
    fix n assume "?stops d n"
    then show "spi_poll hw block stop d \<noteq> None"
    proof (induction n arbitrary: d)
      case 0
      then show ?case unfolding now by (subst spi_poll.simps) (simp add: split_beta)
    next
      case (Suc n)
      then show ?case unfolding step by (subst spi_poll.simps) (simp add: split_beta)
    qed
  qed
  show "\<exists>n. ?stops d n" if returns: "spi_poll hw block stop d \<noteq> None"
  proof -
    obtain r where "spi_poll hw block stop d = Some r" using returns by auto
    then show ?thesis
    proof (rule spi_poll.raw_induct [where P = "\<lambda>hw block stop d r. \<exists>n. stop (List.last (snd (spi_receive hw block (Suc n) d)))", rotated])
      fix poll hw block stop d and r :: "'a \<times> byte"
      assume a: "(let (d, r) = spi_rx hw block d in if stop r then Some (d, r) else poll hw block stop d) = Some r"
        and IH: "\<And>hw block stop d r. poll hw block stop d = Some r \<Longrightarrow> \<exists>n. stop (List.last (snd (spi_receive hw block (Suc n) d)))"
      show "\<exists>n. stop (List.last (snd (spi_receive hw block (Suc n) d)))"
      proof (cases "stop (snd (spi_rx hw block d))")
        case True
        then show ?thesis by (intro exI [of _ 0]) (simp add: split_beta)
      next
        case False
        then have "poll hw block stop (fst (spi_rx hw block d)) = Some r" using a by (simp add: split_beta)
        from IH [OF this] obtain n where "stop (List.last (snd (spi_receive hw block (Suc n) (fst (spi_rx hw block d)))))"
          by blast
        then show ?thesis
          by (intro exI [of _ "Suc n"], subst spi_receive.simps) (simp add: split_beta)
      qed
    qed
  qed
qed

end
