(* ===== verification/Libc_Mem.thy ===== *)
theory Libc_Mem
  imports Prelude
begin

text \<open>
  The memory routines of \<open>src/kstdlib/libc.c\<close> (\<open>memcpy\<close>, \<open>memmove\<close>, \<open>memset\<close>,
  \<open>memcmp\<close>) over byte memory, with their loops and their address arithmetic modulo \<open>2 ^ 32\<close>.
  The abstract effects are \<open>copied\<close> (a simultaneous copy of a range) and \<open>filled\<close>; an
  address \<open>a\<close> lies in the range of \<open>n\<close> bytes at \<open>p\<close> when \<open>a - p < n\<close>.
\<close>

section \<open>The routines\<close>

function memcpy_loop :: "mem \<Rightarrow> addr \<Rightarrow> addr \<Rightarrow> u32 \<Rightarrow> u32 \<Rightarrow> mem" where
  "memcpy_loop m dest src count i =
     (if i < count then memcpy_loop (m(dest + i := m (src + i))) dest src count (i + 1) else m)"
  by pat_completeness auto
termination
  by (relation "measure (\<lambda>(m, dest, src, count, i). unat (count - i))")
     (auto intro: unat_diff_step)

declare memcpy_loop.simps [simp del]

definition memcpy :: "mem \<Rightarrow> addr \<Rightarrow> addr \<Rightarrow> u32 \<Rightarrow> mem \<times> addr" where
  "memcpy m dest src count = (memcpy_loop m dest src count 0, dest)"

function memmove_fwd :: "mem \<Rightarrow> addr \<Rightarrow> addr \<Rightarrow> u32 \<Rightarrow> mem" where
  "memmove_fwd m d s len =
     (if len \<noteq> 0 then memmove_fwd (m(d := m s)) (d + 1) (s + 1) (len - 1) else m)"
  by pat_completeness auto
termination
  by (relation "measure (\<lambda>(m, d, s, len). unat len)") (auto intro: measure_unat)

function memmove_bwd :: "mem \<Rightarrow> addr \<Rightarrow> addr \<Rightarrow> u32 \<Rightarrow> mem" where
  "memmove_bwd m d s len =
     (if len \<noteq> 0
      then memmove_bwd (m(d + (len - 1) := m (s + (len - 1)))) d s (len - 1)
      else m)"
  by pat_completeness auto
termination
  by (relation "measure (\<lambda>(m, d, s, len). unat len)") (auto intro: measure_unat)

declare memmove_fwd.simps [simp del] memmove_bwd.simps [simp del]

definition memmove :: "mem \<Rightarrow> addr \<Rightarrow> addr \<Rightarrow> u32 \<Rightarrow> mem \<times> addr" where
  "memmove m dst src len =
     (if dst = src then (m, dst)
      else if src - dst - len \<le> (- 2) * len then memcpy m dst src len
      else if dst < src then (memmove_fwd m dst src len, dst)
      else (memmove_bwd m dst src len, dst))"

function memset_loop :: "mem \<Rightarrow> addr \<Rightarrow> byte \<Rightarrow> u32 \<Rightarrow> u32 \<Rightarrow> mem" where
  "memset_loop m dest c count i =
     (if i < count then memset_loop (m(dest + i := c)) dest c count (i + 1) else m)"
  by pat_completeness auto
termination
  by (relation "measure (\<lambda>(m, dest, c, count, i). unat (count - i))")
     (auto intro: unat_diff_step)

declare memset_loop.simps [simp del]

definition memset :: "mem \<Rightarrow> addr \<Rightarrow> int \<Rightarrow> u32 \<Rightarrow> mem \<times> addr" where
  "memset m dest ch count = (memset_loop m dest (word_of_int ch) count 0, dest)"

function memcmp_loop :: "mem \<Rightarrow> addr \<Rightarrow> addr \<Rightarrow> u32 \<Rightarrow> u32 \<Rightarrow> int" where
  "memcmp_loop m dest src count i =
     (if i < count
      then let left = m (dest + i); right = m (src + i)
           in if left \<noteq> right then uint left - uint right
              else memcmp_loop m dest src count (i + 1)
      else 0)"
  by pat_completeness auto
termination
  by (relation "measure (\<lambda>(m, dest, src, count, i). unat (count - i))")
     (auto intro: unat_diff_step)

declare memcmp_loop.simps [simp del]

definition memcmp :: "mem \<Rightarrow> addr \<Rightarrow> addr \<Rightarrow> u32 \<Rightarrow> int" where
  "memcmp m dest src count = memcmp_loop m dest src count 0"

section \<open>Abstract effects\<close>

definition copied :: "mem \<Rightarrow> addr \<Rightarrow> addr \<Rightarrow> u32 \<Rightarrow> mem" where
  "copied m d s n = (\<lambda>a. if a - d < n then m (s + (a - d)) else m a)"

definition filled :: "mem \<Rightarrow> addr \<Rightarrow> byte \<Rightarrow> u32 \<Rightarrow> mem" where
  "filled m d c n = (\<lambda>a. if a - d < n then c else m a)"

lemma copied_0 [simp]: "copied m d s 0 = m"
  by (simp add: copied_def)

lemma filled_0 [simp]: "filled m d c 0 = m"
  by (simp add: filled_def)

lemma copied_same [simp]: "copied m d d n = m"
  by (simp add: copied_def fun_eq_iff)

lemma copied_in [mem_simps]: "k < n \<Longrightarrow> copied m d s n (d + k) = m (s + k)"
  by (simp add: copied_def)

lemma copied_out [mem_simps]: "\<not> a - d < n \<Longrightarrow> copied m d s n a = m a"
  by (simp add: copied_def)

lemma filled_in [mem_simps]: "k < n \<Longrightarrow> filled m d c n (d + k) = c"
  by (simp add: filled_def)

lemma filled_out [mem_simps]: "\<not> a - d < n \<Longrightarrow> filled m d c n a = m a"
  by (simp add: filled_def)

text \<open>One more byte of a range.\<close>

lemma range_step: "(i :: u32) < n \<Longrightarrow> (a - d < i + 1) = (a - d < i \<or> a = d + i)"
proof -
  assume "i < n"
  then have "unat (i + 1) = Suc (unat i)" by (rule unat_Suc_less)
  then have "(a - d < i + 1) = (a - d < i \<or> a - d = i)"
    by (simp add: word_less_nat_alt less_Suc_eq)
  then show ?thesis by (auto simp: algebra_simps)
qed

lemma copied_step:
  assumes "i < n" and safe: "\<not> s + i - d < i"
  shows "(copied m d s i)(d + i := copied m d s i (s + i)) = copied m d s (i + 1)"
  using safe by (auto simp: fun_eq_iff copied_def range_step [OF assms(1)])

lemma filled_step:
  "i < n \<Longrightarrow> (filled m d c i)(d + i := c) = filled m d c (i + 1)"
  by (auto simp: fun_eq_iff filled_def range_step)

text \<open>
  A forward copy reads byte \<open>k\<close> of the source after it wrote bytes \<open>0..<k\<close> of the destination;
  the source byte must not be one of them.
\<close>

definition fwd_safe :: "addr \<Rightarrow> addr \<Rightarrow> u32 \<Rightarrow> bool" where
  "fwd_safe d s n \<longleftrightarrow> unat (s - d) + unat n \<le> 2 ^ 32"

lemma fwd_safeD: "fwd_safe d s n \<Longrightarrow> k < n \<Longrightarrow> \<not> s + k - d < k"
proof -
  assume "fwd_safe d s n" and "k < n"
  then have "unat (s - d) + unat k < 2 ^ 32"
    by (auto simp: fwd_safe_def word_less_nat_alt)
  then have "unat (s - d + k) = unat (s - d) + unat k"
    by (subst unat_add_lem [THEN iffD1]) auto
  then have "\<not> s - d + k < k" by (simp add: word_less_nat_alt)
  then show ?thesis by (simp add: algebra_simps)
qed

lemma fwd_safe_apart:
  assumes "\<And>i. i < unat n \<Longrightarrow> \<not> (s + of_nat i) - d < n"
  shows "fwd_safe d s n"
proof (rule ccontr)
  assume "\<not> fwd_safe d s n"
  then have gt: "2 ^ 32 < unat (s - d) + unat n" by (simp add: fwd_safe_def)
  define i where "i = 2 ^ 32 - unat (s - d)"
  have "i < unat n" using gt unat_lt_exp [of "s - d"] by (simp add: i_def)
  moreover have "s + of_nat i - d = 0"
  proof -
    have "s + of_nat i - d = of_nat (unat (s - d)) + of_nat i" by simp
    also have "\<dots> = of_nat (unat (s - d) + i)" by simp
    also have "unat (s - d) + i = 2 ^ 32" using unat_lt_exp [of "s - d"] by (simp add: i_def)
    finally show ?thesis by simp
  qed
  ultimately show False using assms [of i] by (simp add: word_less_nat_alt)
qed

lemma memcpy_loop_copied:
  assumes "fwd_safe d s n" and "i \<le> n"
  shows "memcpy_loop (copied m d s i) d s n i = copied m d s n"
  using assms(2)
proof (induction "unat (n - i)" arbitrary: i rule: less_induct)
  case less
  show ?case
  proof (cases "i < n")
    case True
    have "memcpy_loop (copied m d s (i + 1)) d s n (i + 1) = copied m d s n"
      by (rule less) (use True in \<open>auto intro: unat_diff_step inc_le\<close>)
    with True show ?thesis
      by (subst memcpy_loop.simps)
         (simp add: copied_step [OF True fwd_safeD [OF assms(1) True]])
  next
    case False
    with less.prems show ?thesis by (subst memcpy_loop.simps) simp
  qed
qed

lemma memcpy_copied: "fwd_safe d s n \<Longrightarrow> memcpy m d s n = (copied m d s n, d)"
  using memcpy_loop_copied [of d s n 0 m] by (simp add: memcpy_def)

lemma memset_loop_filled: "i \<le> n \<Longrightarrow> memset_loop (filled m d c i) d c n i = filled m d c n"
proof (induction "unat (n - i)" arbitrary: i rule: less_induct)
  case less
  show ?case
  proof (cases "i < n")
    case True
    have "memset_loop (filled m d c (i + 1)) d c n (i + 1) = filled m d c n"
      by (rule less) (use True in \<open>auto intro: unat_diff_step inc_le\<close>)
    with True show ?thesis
      by (subst memset_loop.simps) (simp add: filled_step [OF True])
  next
    case False
    with less.prems show ?thesis by (subst memset_loop.simps) simp
  qed
qed

lemma memset_filled: "memset m d ch n = (filled m d (word_of_int ch) n, d)"
  using memset_loop_filled [of 0 n m d "word_of_int ch"] by (simp add: memset_def)

section \<open>memmove\<close>

lemma memmove_fwd_copied:
  assumes "fwd_safe d s n" and "i \<le> n"
  shows "memmove_fwd (copied m d s i) (d + i) (s + i) (n - i) = copied m d s n"
  using assms(2)
proof (induction "unat (n - i)" arbitrary: i rule: less_induct)
  case less
  show ?case
  proof (cases "i < n")
    case True
    have "memmove_fwd (copied m d s (i + 1)) (d + (i + 1)) (s + (i + 1)) (n - (i + 1))
            = copied m d s n"
      by (rule less) (use True in \<open>auto intro: unat_diff_step inc_le\<close>)
    moreover have "n - i \<noteq> 0" using True by auto
    ultimately show ?thesis
      by (subst memmove_fwd.simps)
         (simp add: copied_step [OF True fwd_safeD [OF assms(1) True]] add.assoc
            diff_diff_eq)
  next
    case False
    with less.prems show ?thesis by (subst memmove_fwd.simps) simp
  qed
qed

text \<open>
  The backward loop writes from the top: \<open>copied_above k\<close> is the memory when the bytes from
  \<open>k\<close> upwards are in place.
\<close>

definition copied_above :: "mem \<Rightarrow> addr \<Rightarrow> addr \<Rightarrow> u32 \<Rightarrow> u32 \<Rightarrow> mem" where
  "copied_above m d s k n = (\<lambda>a. if k \<le> a - d \<and> a - d < n then m (s + (a - d)) else m a)"

lemma copied_above_all [simp]: "copied_above m d s 0 n = copied m d s n"
  by (simp add: copied_above_def copied_def)

lemma copied_above_none [simp]: "copied_above m d s n n = m"
  by (auto simp: copied_above_def fun_eq_iff)

definition bwd_safe :: "addr \<Rightarrow> addr \<Rightarrow> u32 \<Rightarrow> bool" where
  "bwd_safe d s n \<longleftrightarrow> unat (d - s) + unat n \<le> 2 ^ 32"

lemma bwd_safeD:
  assumes "bwd_safe d s n" and "k < n"
  shows "s + k - d \<le> k \<or> n \<le> s + k - d"
proof -
  have e: "s + k - d = k - (d - s)" by (simp add: algebra_simps)
  have "unat (k - (d - s)) = (if unat (d - s) \<le> unat k then unat k - unat (d - s)
          else unat k + 2 ^ 32 - unat (d - s))"
    by (simp add: unat_sub_if_size [of k "d - s"] word_size)
  with assms show ?thesis
    unfolding bwd_safe_def e word_le_nat_alt word_less_nat_alt by (auto split: if_splits)
qed

lemma copied_above_step:
  assumes "bwd_safe d s n" and "k < n"
  shows "(copied_above m d s (k + 1) n)(d + k := copied_above m d s (k + 1) n (s + k))
           = copied_above m d s k n"
proof -
  have k1: "(k + 1 \<le> x) = (k < x)" for x
    using unat_Suc_less [OF assms(2)] by (simp add: word_le_nat_alt word_less_nat_alt Suc_le_eq)
  have src: "copied_above m d s (k + 1) n (s + k) = m (s + k)"
    using bwd_safeD [OF assms] by (auto simp: copied_above_def k1)
  show ?thesis
  proof
    fix a
    show "((copied_above m d s (k + 1) n)(d + k := copied_above m d s (k + 1) n (s + k))) a
            = copied_above m d s k n a"
    proof (cases "a = d + k")
      case True
      with assms(2) show ?thesis by (simp add: src copied_above_def [of m d s k])
    next
      case False
      then have "(k < a - d) = (k \<le> a - d)" by (auto simp: word_le_less_eq algebra_simps)
      with False show ?thesis by (simp add: src copied_above_def k1)
    qed
  qed
qed

lemma memmove_bwd_copied:
  assumes "bwd_safe d s n" and "k \<le> n"
  shows "memmove_bwd (copied_above m d s k n) d s k = copied m d s n"
  using assms(2)
proof (induction "unat k" arbitrary: k rule: less_induct)
  case less
  show ?case
  proof (cases "k = 0")
    case True
    then show ?thesis by (subst memmove_bwd.simps) simp
  next
    case False
    then have "unat (k - 1) < unat k" by (rule measure_unat)
    with less.prems have lt: "k - 1 < n" by (simp add: word_less_nat_alt word_le_nat_alt)
    have IH: "memmove_bwd (copied_above m d s (k - 1) n) d s (k - 1) = copied m d s n"
      by (rule less) (use False lt measure_unat in auto)
    from False copied_above_step [OF assms(1) lt, of m] IH show ?thesis
      by (subst memmove_bwd.simps) simp
  qed
qed

text \<open>
  The branch of \<open>memmove\<close> is decided by unsigned arithmetic modulo \<open>2 ^ 32\<close>. For regions
  that do not wrap around the address space and are at most \<open>2 ^ 31\<close> bytes long, the first test
  is true exactly when the regions are disjoint.
\<close>

lemma memmove_disjoint_test:
  fixes d s n :: u32
  assumes "unat d + unat n \<le> 2 ^ 32" and "unat s + unat n \<le> 2 ^ 32"
    and "unat n < 2 ^ 31" and "n \<noteq> 0"
  shows "(s - d - n \<le> (- 2) * n)
           = (unat d + unat n \<le> unat s \<or> unat s + unat n \<le> unat d)"
proof -
  have n: "0 < unat n" using assms(4) by (simp add: unat_gt_0)
  have nn: "unat (n + n) = 2 * unat n"
    using assms(3) by (subst unat_add_lem [THEN iffD1]) auto
  have "unat (0 - (n + n)) = 2 ^ 32 - 2 * unat n"
    unfolding unat_sub_if_size [of 0 "n + n"] nn using n by (simp add: word_size)
  then have rhs: "unat ((- 2) * n) = 2 ^ 32 - 2 * unat n"
    by simp
  have "unat (s - d) = (if unat d \<le> unat s then unat s - unat d
          else unat s + 2 ^ 32 - unat d)"
    by (simp add: unat_sub_if_size [of s d] word_size)
  then have lhs: "unat (s - d - n) =
       (if unat d + unat n \<le> unat s then unat s - unat d - unat n
        else if unat d \<le> unat s then unat s + 2 ^ 32 - unat d - unat n
        else if unat d + unat n \<le> unat s + 2 ^ 32 then unat s + 2 ^ 32 - unat d - unat n
        else unat s + 2 ^ 33 - unat d - unat n)"
    using unat_lt_exp [of d] unat_lt_exp [of s]
    by (auto simp: unat_sub_if_size [of "s - d" n] word_size)
  show ?thesis
    unfolding word_le_nat_alt rhs lhs using assms(1,2,3) n by auto
qed

theorem memmove_copied:
  assumes "unat dst + unat len \<le> 2 ^ 32" and "unat src + unat len \<le> 2 ^ 32"
    and "unat len < 2 ^ 31"
  shows "memmove m dst src len = (copied m dst src len, dst)"
proof -
  have sub: "unat (x - y) = (if unat y \<le> unat x then unat x - unat y
          else unat x + 2 ^ 32 - unat y)" for x y :: u32
    by (simp add: unat_sub_if_size word_size)
  consider "dst = src" | "len = 0" "dst \<noteq> src" | "len \<noteq> 0" "dst \<noteq> src" by blast
  then show ?thesis
  proof cases
    case 1
    then show ?thesis by (simp add: memmove_def)
  next
    case 2
    then show ?thesis
      by (simp add: memmove_def memmove_fwd.simps memmove_bwd.simps)
  next
    case 3
    show ?thesis
    proof (cases "src - dst - len \<le> (- 2) * len")
      case True
      then have "fwd_safe dst src len"
        using memmove_disjoint_test [OF assms(1,2,3)] 3 assms by (auto simp: fwd_safe_def sub)
      with True 3 show ?thesis by (simp add: memmove_def memcpy_copied)
    next
      case False
      then show ?thesis
      proof (cases "dst < src")
        case lt: True
        then have "fwd_safe dst src len"
          using assms by (auto simp: fwd_safe_def sub word_less_nat_alt)
        from memmove_fwd_copied [OF this, of 0 m] False 3 lt show ?thesis
          by (simp add: memmove_def)
      next
        case ge: False
        then have "bwd_safe dst src len"
          using assms by (auto simp: bwd_safe_def sub word_less_nat_alt)
        from memmove_bwd_copied [OF this, of len m] False 3 ge show ?thesis
          by (simp add: memmove_def)
      qed
    qed
  qed
qed

section \<open>memcmp\<close>

lemma memcmp_loop_zero:
  "i \<le> n \<Longrightarrow> (memcmp_loop m p q n i = 0) = (\<forall>k. i \<le> k \<and> k < n \<longrightarrow> m (p + k) = m (q + k))"
proof (induction "unat (n - i)" arbitrary: i rule: less_induct)
  case less
  show ?case
  proof (cases "i < n")
    case True
    have IH: "(memcmp_loop m p q n (i + 1) = 0)
                = (\<forall>k. i + 1 \<le> k \<and> k < n \<longrightarrow> m (p + k) = m (q + k))"
      by (rule less) (use True in \<open>auto intro: unat_diff_step inc_le\<close>)
    have k: "(i \<le> k) = (k = i \<or> i + 1 \<le> k)" for k
      using unat_Suc_less [OF True]
      by (auto simp: word_le_nat_alt simp flip: unat_eq_iff)
    from True IH show ?thesis
      by (subst memcmp_loop.simps) (auto simp: Let_def k)
  next
    case False
    with less.prems show ?thesis by (subst memcmp_loop.simps) auto
  qed
qed

lemma memcmp_zero_iff: "(memcmp m p q n = 0) = (\<forall>k<n. m (p + k) = m (q + k))"
  using memcmp_loop_zero [of 0 n m p q] by (simp add: memcmp_def)

end
