(* ===== verification/Memory.thy ===== *)
theory Memory
  imports Libc_Mem
begin

text \<open>
  The kernel allocator of \<open>src/kernel/memory.c\<close>: a singly linked list of chunk headers in address
  order, first fit between two chunks, growth at the end. The headers are a typed heap
  (\<open>headers\<close>, an address that holds no \<open>struct Chunk\<close> maps to \<^const>\<open>None\<close>), the contents of the
  chunks are bytes (\<open>contents\<close>). The linker symbols \<open>heap_start_ptr\<close> and \<open>heap_end_ptr\<close> are fields of the state.

  The specification is a list of blocks (header address and size) in address order: \<open>chain\<close> reads it
  off the heap, \<open>placed\<close> says that blocks are aligned and do not overlap, \<open>place\<close> and filtering are
  what allocation and release do to it.
\<close>

section \<open>State\<close>

record chunk =
  ptr :: addr
  csize :: u32
  next_node :: addr

record allocator =
  head :: addr
  allocated_size :: u32
  allocated_chunks :: u32
  heap_start :: addr
  heap_start_ptr :: addr
  heap_end_ptr :: addr
  headers :: "addr \<Rightarrow> chunk option"
  contents :: mem

text \<open>\<open>sizeof(struct Chunk)\<close> on the 32-bit target.\<close>

abbreviation (input) chunk_bytes :: u32 where
  "chunk_bytes \<equiv> 12"

definition deref :: "(addr \<Rightarrow> 'a option) \<Rightarrow> addr \<Rightarrow> 'a option" where
  "deref h a = (if a = NULL then None else h a)"

section \<open>Operations\<close>

definition align_size :: "u32 \<Rightarrow> u32" where
  "align_size sz =
     (let proposed_size = sz - (sz mod 4) + 4 in if proposed_size \<le> 8 then 8 else proposed_size)"

definition align_ptr :: "addr \<Rightarrow> addr" where
  "align_ptr p = (if p mod 4 = 0 then p else (p div 4) * 4 + 4)"

partial_function (option) find_free_chunk_loop ::
    "(addr \<Rightarrow> chunk option) \<Rightarrow> u32 \<Rightarrow> addr \<Rightarrow> addr option" where
  "find_free_chunk_loop h sz chunk = do {
     c \<leftarrow> deref h chunk;
     (if next_node c \<noteq> NULL
      then (let new_chunk_ptr = align_ptr (ptr c + csize c);
                space_between_chunks = next_node c - new_chunk_ptr
            in if sz + chunk_bytes \<le> space_between_chunks then Some chunk
               else find_free_chunk_loop h sz (next_node c))
      else Some chunk)
   }"

definition find_free_chunk_predecessor :: "allocator \<Rightarrow> u32 \<Rightarrow> addr option" where
  "find_free_chunk_predecessor s sz = find_free_chunk_loop (headers s) sz (head s)"

definition get_allocated_size :: "allocator \<Rightarrow> u32" where
  "get_allocated_size s = allocated_size s"

definition get_current_heap_size :: "allocator \<Rightarrow> u32" where
  "get_current_heap_size s = allocated_size s + allocated_chunks s * chunk_bytes"

definition kmalloc :: "allocator \<Rightarrow> u32 \<Rightarrow> (allocator \<times> addr) option" where
  "kmalloc s sz = do {
     let aligned_size = align_size sz;
     (s, chunk) \<leftarrow>
       (if head s = NULL
        then Some (s\<lparr>head := heap_start s\<rparr>,
               \<lparr>ptr = heap_start s + chunk_bytes, csize = aligned_size, next_node = NULL\<rparr>)
        else do {
          previous \<leftarrow> find_free_chunk_predecessor s aligned_size;
          pc \<leftarrow> deref (headers s) previous;
          let new_header = align_ptr (ptr pc + csize pc);
          Some (s\<lparr>headers := (headers s)(previous \<mapsto> pc\<lparr>next_node := new_header\<rparr>)\<rparr>,
                \<lparr>ptr = new_header + chunk_bytes, csize = aligned_size, next_node = next_node pc\<rparr>)
        });
     let heap_size_after_alloc = get_current_heap_size s + csize chunk + chunk_bytes;
     (if heap_end_ptr s - heap_start_ptr s \<le> heap_size_after_alloc then Some (s, NULL)
      else Some (s\<lparr>allocated_size := allocated_size s + csize chunk,
                   allocated_chunks := allocated_chunks s + 1,
                   headers := (headers s)(ptr chunk - chunk_bytes \<mapsto> chunk)\<rparr>, ptr chunk))
   }"

partial_function (option) find_chunk_loop ::
    "(addr \<Rightarrow> chunk option) \<Rightarrow> addr \<Rightarrow> addr \<Rightarrow> addr option" where
  "find_chunk_loop h p temp = do {
     c \<leftarrow> deref h temp;
     (if ptr c \<noteq> p \<and> next_node c \<noteq> NULL then find_chunk_loop h p (next_node c) else Some temp)
   }"

definition find_chunk_by_ptr :: "allocator \<Rightarrow> addr \<Rightarrow> addr option" where
  "find_chunk_by_ptr s p =
     (if p = NULL then Some NULL
      else if head s = NULL then Some NULL
      else do {
        c \<leftarrow> deref (headers s) (head s);
        (if ptr c = NULL then Some NULL
         else do {
           temp \<leftarrow> find_chunk_loop (headers s) p (head s);
           t \<leftarrow> deref (headers s) temp;
           Some (if ptr t \<noteq> p then NULL else temp)
         })
      })"

partial_function (option) kfree_loop ::
    "(addr \<Rightarrow> chunk option) \<Rightarrow> addr \<Rightarrow> addr \<Rightarrow> addr option" where
  "kfree_loop h p temp = do {
     c \<leftarrow> deref h temp;
     (if next_node c \<noteq> NULL
      then do {
        n \<leftarrow> deref h (next_node c);
        (if ptr n \<noteq> p then kfree_loop h p (next_node c) else Some temp)
      }
      else Some temp)
   }"

definition kfree :: "allocator \<Rightarrow> addr \<Rightarrow> allocator option" where
  "kfree s p =
     (if p = NULL then Some s
      else do {
        c \<leftarrow> deref (headers s) (head s);
        (if ptr c = p
         then Some (s\<lparr>head := next_node c, allocated_chunks := allocated_chunks s - 1,
                      allocated_size := allocated_size s - csize c\<rparr>)
         else do {
           temp \<leftarrow> kfree_loop (headers s) p (head s);
           t \<leftarrow> deref (headers s) temp;
           found \<leftarrow> deref (headers s) (next_node t);
           (if ptr found = p
            then Some (s\<lparr>headers := (headers s)(temp \<mapsto> t\<lparr>next_node := next_node found\<rparr>),
                         allocated_chunks := allocated_chunks s - 1,
                         allocated_size := allocated_size s - csize found\<rparr>)
            else Some s)
         })
      })"

definition krealloc :: "allocator \<Rightarrow> addr \<Rightarrow> u32 \<Rightarrow> (allocator \<times> addr) option" where
  "krealloc s p new_size = do {
     let new_size = align_size new_size;
     current \<leftarrow> find_chunk_by_ptr s p;
     c \<leftarrow> (if current = NULL then Some None else map_option Some (deref (headers s) current));
     (case c of
        Some c \<Rightarrow>
          (if next_node c = NULL
           then (let addend = new_size - csize c
                 in Some (s\<lparr>headers := (headers s)(current \<mapsto> c\<lparr>csize := csize c + addend\<rparr>),
                            allocated_size := allocated_size s + addend\<rparr>, p))
           else do {
             (s, new_ptr) \<leftarrow> kmalloc s new_size;
             (if new_ptr = NULL then Some (s, NULL)
              else do {
                c \<leftarrow> deref (headers s) current;
                let s = s\<lparr>contents := fst (memmove (contents s) new_ptr p (csize c))\<rparr>;
                s \<leftarrow> kfree s p;
                Some (s, new_ptr)
              })
           })
      | None \<Rightarrow> do {
          (s, new_ptr) \<leftarrow> kmalloc s new_size;
          (if new_ptr = NULL then Some (s, NULL)
           else do { s \<leftarrow> kfree s p; Some (s, new_ptr) })
        })
   }"

text \<open>
  The system calls charge the calling process: its field \<open>allocated_memory\<close> is the extra argument
  and result.
\<close>

definition sys_malloc :: "allocator \<Rightarrow> u32 \<Rightarrow> u32 \<Rightarrow> (allocator \<times> u32 \<times> addr) option" where
  "sys_malloc s allocated_memory sz = do {
     let size_before = allocated_size s;
     (s, p) \<leftarrow> kmalloc s sz;
     (if p = NULL then Some (s, allocated_memory, NULL)
      else Some (s, allocated_memory + (allocated_size s - size_before), p))
   }"

definition sys_realloc :: "allocator \<Rightarrow> u32 \<Rightarrow> addr \<Rightarrow> u32 \<Rightarrow> (allocator \<times> u32 \<times> addr) option" where
  "sys_realloc s allocated_memory p new_size =
     (if p = NULL then sys_malloc s allocated_memory new_size
      else do {
        let size_before = allocated_size s;
        (s, new_ptr) \<leftarrow> krealloc s p new_size;
        (if new_ptr \<noteq> NULL
         then Some (s, allocated_memory + (allocated_size s - size_before), new_ptr)
         else Some (s, allocated_memory, NULL))
      })"

definition sys_free :: "allocator \<Rightarrow> u32 \<Rightarrow> addr \<Rightarrow> (allocator \<times> u32) option" where
  "sys_free s allocated_memory p =
     (if p = NULL then Some (s, allocated_memory)
      else do {
        let size_before = allocated_size s;
        s \<leftarrow> kfree s p;
        Some (s, allocated_memory - (size_before - allocated_size s))
      })"

declare find_free_chunk_loop.simps [simp del] find_chunk_loop.simps [simp del] kfree_loop.simps [simp del]

section \<open>Alignment\<close>

lemma unat_mod4_add: "unat (sz :: u32) + 4 < 2 ^ 32 \<Longrightarrow> unat (sz - (sz mod 4) + 4) = unat sz div 4 * 4 + 4"
proof -
  assume a: "unat sz + 4 < 2 ^ 32"
  define X where "X = sz - (sz mod 4)"
  have "sz mod 4 \<le> sz" by (simp add: word_le_nat_alt unat_mod_word)
  then have "unat X = unat sz - unat (sz mod 4)" unfolding X_def by (rule unat_sub)
  then have "unat X = unat sz div 4 * 4" by (simp add: unat_mod_word minus_mod_eq_div_mult)
  moreover from this have "unat X + unat (4 :: u32) < 2 ^ LENGTH(32)"
    using a div_times_less_eq_dividend [of "unat sz" 4] by simp
  then have "unat (X + 4) = unat X + unat (4 :: u32)" by (rule iffD1 [OF unat_add_lem])
  ultimately show ?thesis by (simp flip: X_def)
qed

lemma align_size_spec:
  "unat sz + 4 < 2 ^ 32 \<Longrightarrow> unat (align_size sz) = max 8 (unat sz div 4 * 4 + 4)"
  using unat_mod4_add [of sz] by (simp add: align_size_def Let_def word_le_nat_alt max_def)

lemma align_size_bounds:
  assumes "unat sz + 4 < 2 ^ 32"
  shows "unat sz < unat (align_size sz)" "8 \<le> unat (align_size sz)" "4 dvd unat (align_size sz)"
    "unat (align_size sz) \<le> unat sz + 8"
  unfolding align_size_spec [OF assms] by (auto simp: max_def)

lemma align_ptr_aligned: "4 dvd unat p \<Longrightarrow> align_ptr p = p"
  by (simp add: align_ptr_def word_arith_nat_mod dvd_eq_mod_eq_0)


section \<open>Blocks\<close>

text \<open>A block is the address of its header and the size of its chunk.\<close>

type_synonym block = "addr \<times> u32"

fun chain :: "(addr \<Rightarrow> chunk option) \<Rightarrow> addr \<Rightarrow> block list \<Rightarrow> bool" where
  "chain h p [] \<longleftrightarrow> p = NULL"
| "chain h p ((a, n) # bs) \<longleftrightarrow> p = a \<and> a \<noteq> NULL \<and>
     (\<exists>q. h a = Some \<lparr>ptr = a + chunk_bytes, csize = n, next_node = q\<rparr> \<and> chain h q bs)"

definition block_end :: "block \<Rightarrow> nat" where
  "block_end b = unat (fst b) + 12 + unat (snd b)"

fun placed :: "nat \<Rightarrow> block list \<Rightarrow> bool" where
  "placed lo [] \<longleftrightarrow> True"
| "placed lo (b # bs) \<longleftrightarrow> lo \<le> unat (fst b) \<and> 4 dvd unat (fst b) \<and> 4 dvd unat (snd b) \<and>
     8 \<le> unat (snd b) \<and> block_end b < 2 ^ 32 \<and> placed (block_end b) bs"

text \<open>Where a new block goes, and the list with it: the first gap that holds it, or the end.\<close>

fun place :: "u32 \<Rightarrow> block list \<Rightarrow> block list \<times> addr" where
  "place n [] = ([], NULL)"
| "place n [b] = ([b, (fst b + 12 + snd b, n)], fst b + 12 + snd b)"
| "place n (b # c # bs) =
     (if unat n + 12 \<le> unat (fst c) - block_end b
      then (b # (fst b + 12 + snd b, n) # c # bs, fst b + 12 + snd b)
      else let (bs', a) = place n (c # bs) in (b # bs', a))"

definition blocks_size :: "block list \<Rightarrow> nat" where
  "blocks_size bs = (\<Sum>b\<leftarrow>bs. unat (snd b))"

text \<open>The invariant of the allocator, with the blocks it represents.\<close>

definition heap_inv :: "allocator \<Rightarrow> block list \<Rightarrow> bool" where
  "heap_inv s bs \<longleftrightarrow> chain (headers s) (head s) bs \<and> placed (unat (heap_start s)) bs \<and>
     heap_start s \<noteq> NULL \<and> 4 dvd unat (heap_start s) \<and>
     unat (allocated_chunks s) = length bs \<and> unat (allocated_size s) = blocks_size bs"

lemma chain_unique: "chain h p bs \<Longrightarrow> chain h p ds \<Longrightarrow> bs = ds"
proof (induction bs arbitrary: p ds)
  case Nil
  then show ?case by (cases ds) auto
next
  case (Cons b bs)
  then show ?case by (cases b; cases ds) auto
qed

lemma placed_antimono: "placed lo bs \<Longrightarrow> lo' \<le> lo \<Longrightarrow> placed lo' bs"
  by (cases bs) auto

lemma placed_lower: "placed lo bs \<Longrightarrow> b \<in> set bs \<Longrightarrow> lo \<le> unat (fst b)"
proof (induction bs arbitrary: lo)
  case (Cons c bs)
  then show ?case by (fastforce simp: block_end_def)
qed simp

lemma placed_member:
  "placed lo bs \<Longrightarrow> b \<in> set bs \<Longrightarrow>
    4 dvd unat (fst b) \<and> 4 dvd unat (snd b) \<and> 8 \<le> unat (snd b) \<and> block_end b < 2 ^ 32"
  by (induction bs arbitrary: lo) auto

lemma placed_append:
  "placed lo (bs @ ds) \<longleftrightarrow> placed lo bs \<and> placed (if bs = [] then lo else block_end (last bs)) ds"
  by (induction bs arbitrary: lo) auto

text \<open>Blocks of a placed list are disjoint, and in order.\<close>

lemma placed_ordered: "placed lo bs \<Longrightarrow> sorted_wrt (\<lambda>b c. block_end b \<le> unat (fst c)) bs"
  by (induction bs arbitrary: lo) (auto dest: placed_lower)

lemma placed_distinct: "placed lo bs \<Longrightarrow> distinct (map fst bs)"
proof (induction bs arbitrary: lo)
  case (Cons b bs)
  then have "fst b \<noteq> fst c" if "c \<in> set bs" for c
    using placed_lower [of "block_end b" bs c] that by (auto simp: block_end_def)
  with Cons show ?case by auto
qed simp

lemma block_end_aligned: "4 dvd unat (fst b) \<Longrightarrow> 4 dvd unat (snd b) \<Longrightarrow> 4 dvd block_end b"
  unfolding block_end_def by (intro dvd_add) auto

lemma unat_block_end: "block_end b < 2 ^ 32 \<Longrightarrow> unat (fst b + 12 + snd b) = block_end b"
proof -
  assume "block_end b < 2 ^ 32"
  then have "unat (fst b) + 12 + unat (snd b) < 2 ^ 32" by (simp add: block_end_def)
  then show ?thesis by (simp add: block_end_def unat_word_ariths)
qed

lemma chain_frame: "chain h p bs \<Longrightarrow> a \<notin> set (map fst bs) \<Longrightarrow> chain (h(a := x)) p bs"
  by (induction bs arbitrary: p) auto

lemma chain_split: "chain h p (ys @ b # zs) \<Longrightarrow> fst b \<noteq> NULL \<and>
    (\<exists>q. h (fst b) = Some \<lparr>ptr = fst b + chunk_bytes, csize = snd b, next_node = q\<rparr> \<and> chain h q zs)"
  by (induction ys arbitrary: p) (cases b; auto)+

lemma chain_replace:
  "chain h p (ys @ b # zs) \<Longrightarrow> fst b \<notin> set (map fst ys) \<Longrightarrow> chain h' q zs' \<Longrightarrow>
    h' (fst b) = Some \<lparr>ptr = fst b + chunk_bytes, csize = n, next_node = q\<rparr> \<Longrightarrow>
    (\<And>a. a \<in> set (map fst ys) \<Longrightarrow> h' a = h a) \<Longrightarrow> chain h' p (ys @ (fst b, n) # zs')"
  by (induction ys arbitrary: p) (cases b; auto)+

lemma chain_head_next:
  "chain h p zs \<Longrightarrow> (p = NULL) = (zs = [])" "chain h p (z # zs) \<Longrightarrow> p = fst z"
  by (cases zs; auto) (cases z; auto)

section \<open>First fit\<close>

lemma find_free_chunk_place:
  "chain h p bs \<Longrightarrow> placed lo bs \<Longrightarrow> bs \<noteq> [] \<Longrightarrow> unat n + 12 < 2 ^ 32 \<Longrightarrow>
    \<exists>ys b zs. bs = ys @ b # zs \<and> find_free_chunk_loop h n p = Some (fst b) \<and>
      place n bs = (ys @ b # (fst b + 12 + snd b, n) # zs, fst b + 12 + snd b) \<and>
      (zs = [] \<or> unat n + 12 \<le> unat (fst (hd zs)) - block_end b)"
proof (induction n bs arbitrary: p lo rule: place.induct)
  case (2 n b)
  then show ?case
    by (cases b) (fastforce simp: find_free_chunk_loop.simps [of h n p] deref_def)
next
  case (3 n b c bs)
  obtain q where p: "p = fst b" "p \<noteq> NULL"
    and hb: "h p = Some \<lparr>ptr = fst b + chunk_bytes, csize = snd b, next_node = q\<rparr>"
    and q: "chain h q (c # bs)"
    using "3.prems"(1) by (cases b) auto
  have qc: "q = fst c" "q \<noteq> NULL" using q by (cases c, auto)+
  have e: "unat (fst b + 12 + snd b) = block_end b"
    using "3.prems"(2) by (intro unat_block_end) simp
  moreover have "4 dvd block_end b" using "3.prems"(2) by (intro block_end_aligned) auto
  ultimately have al: "align_ptr (fst b + 12 + snd b) = fst b + 12 + snd b"
    by (intro align_ptr_aligned) simp
  have le: "block_end b \<le> unat (fst c)" using "3.prems"(2) by simp
  have n12: "unat (n + 12) = unat n + 12"
    using "3.prems"(4) unat_add_lem [of n 12] by simp
  have gap: "(n + 12 \<le> fst c - (fst b + 12 + snd b)) = (unat n + 12 \<le> unat (fst c) - block_end b)"
    using le e unat_sub [of "fst b + 12 + snd b" "fst c"] by (simp add: word_le_nat_alt n12)
  have step: "find_free_chunk_loop h n p =
    (if unat n + 12 \<le> unat (fst c) - block_end b then Some p else find_free_chunk_loop h n (fst c))"
    using p hb qc gap al by (subst find_free_chunk_loop.simps) (simp add: deref_def Let_def)
  show ?case
  proof (cases "unat n + 12 \<le> unat (fst c) - block_end b")
    case True
    then have "b # c # bs = [] @ b # c # bs \<and> find_free_chunk_loop h n p = Some (fst b) \<and>
      place n (b # c # bs) = ([] @ b # (fst b + 12 + snd b, n) # c # bs, fst b + 12 + snd b) \<and>
      (c # bs = [] \<or> unat n + 12 \<le> unat (fst (hd (c # bs))) - block_end b)"
      using step p by simp
    then show ?thesis by blast
  next
    case False
    from "3.IH" [OF False q _ _ "3.prems"(4), of "block_end b"] "3.prems"(2) obtain ys d zs where
      split: "c # bs = ys @ d # zs" and found: "find_free_chunk_loop h n q = Some (fst d)"
      and pl: "place n (c # bs) = (ys @ d # (fst d + 12 + snd d, n) # zs, fst d + 12 + snd d)"
      and gap_d: "zs = [] \<or> unat n + 12 \<le> unat (fst (hd zs)) - block_end d" by auto
    have "place n (b # c # bs) = ((b # ys) @ d # (fst d + 12 + snd d, n) # zs, fst d + 12 + snd d)"
      using False pl by simp
    moreover have "find_free_chunk_loop h n p = Some (fst d)"
      using False step found qc by simp
    moreover have "b # c # bs = (b # ys) @ d # zs" using split by simp
    ultimately show ?thesis using gap_d by blast
  qed
qed simp

text \<open>The new block keeps the list aligned and disjoint.\<close>

lemma placed_insert:
  assumes "placed lo (ys @ b # zs)" and "zs = [] \<or> unat n + 12 \<le> unat (fst (hd zs)) - block_end b"
    and "4 dvd unat n" "8 \<le> unat n" and "zs = [] \<Longrightarrow> block_end b + 12 + unat n < 2 ^ 32"
  shows "placed lo (ys @ b # (fst b + 12 + snd b, n) # zs)"
proof -
  let ?e = "fst b + 12 + snd b"
  have b: "block_end b < 2 ^ 32" "4 dvd unat (fst b)" "4 dvd unat (snd b)"
    using placed_member [OF assms(1), of b] by auto
  have e: "unat ?e = block_end b" using b(1) by (rule unat_block_end)
  have be: "block_end (?e, n) = block_end b + 12 + unat n" by (simp add: block_end_def [of "(?e, n)"] e)
  have zs: "placed (block_end b) zs" using assms(1) by (simp add: placed_append)
  have "block_end (?e, n) < 2 ^ 32 \<and> placed (block_end (?e, n)) zs"
  proof (cases zs)
    case Nil
    then show ?thesis using assms(5) be by simp
  next
    case (Cons z zs')
    then have "unat n + 12 \<le> unat (fst z) - block_end b" using assms(2) by simp
    then have "block_end (?e, n) \<le> unat (fst z)" using be by linarith
    then show ?thesis using zs Cons unat_lt_exp [of "fst z"] by auto
  qed
  then show ?thesis
    using assms(1,3,4) b e block_end_aligned [OF b(2,3)] by (auto simp: placed_append)
qed

lemma placed_total:
  "placed lo bs \<Longrightarrow> bs \<noteq> [] \<Longrightarrow> lo + 12 * length bs + blocks_size bs \<le> block_end (last bs)"
proof (induction bs arbitrary: lo)
  case (Cons b bs)
  have "block_end b + 12 * length bs + blocks_size bs \<le> block_end (last bs)" if "bs \<noteq> []"
    using Cons.IH [of "block_end b"] Cons.prems(1) that by simp
  moreover have "lo + 12 + unat (snd b) \<le> block_end b"
    using Cons.prems(1) by (simp add: block_end_def)
  ultimately show ?case by (cases "bs = []") (auto simp: blocks_size_def)
qed simp

section \<open>kmalloc\<close>

text \<open>The blocks after an allocation of \<open>n\<close> bytes (already aligned), and the header of the new one.\<close>

definition place_block :: "addr \<Rightarrow> u32 \<Rightarrow> block list \<Rightarrow> block list \<times> addr" where
  "place_block start n bs = (if bs = [] then ([(start, n)], start) else place n bs)"

definition heap_top :: "allocator \<Rightarrow> block list \<Rightarrow> nat" where
  "heap_top s bs = (if bs = [] then unat (heap_start s) else block_end (last bs))"

text \<open>The memory that the code's limit test compares with the heap: chunks and their headers.\<close>

definition heap_used :: "block list \<Rightarrow> nat" where
  "heap_used bs = blocks_size bs + 12 * length bs"

lemma blocks_size_simps [simp]:
  "blocks_size [] = 0" "blocks_size (b # bs) = unat (snd b) + blocks_size bs"
  "blocks_size (bs @ ds) = blocks_size bs + blocks_size ds"
  by (simp_all add: blocks_size_def)

lemma heap_inv_used:
  assumes "heap_inv s bs"
  shows "unat (get_current_heap_size s) = heap_used bs" "heap_used bs + unat (heap_start s) \<le> heap_top s bs"
proof -
  show top: "heap_used bs + unat (heap_start s) \<le> heap_top s bs"
    using assms placed_total [of "unat (heap_start s)" bs]
    by (cases "bs = []") (auto simp: heap_inv_def heap_used_def heap_top_def)
  have "heap_top s bs < 2 ^ 32"
    using assms placed_member [of "unat (heap_start s)" bs "last bs"] unat_lt_exp [of "heap_start s"]
    by (auto simp: heap_inv_def heap_top_def)
  then have lt: "heap_used bs < 2 ^ 32" using top by simp
  then have "unat (allocated_chunks s * 12) = 12 * length bs"
    using assms unat_mult_lem [of "allocated_chunks s" 12] by (simp add: heap_inv_def heap_used_def)
  then show "unat (get_current_heap_size s) = heap_used bs"
    using assms lt unat_add_lem [of "allocated_size s" "allocated_chunks s * 12"]
    by (simp add: heap_inv_def heap_used_def get_current_heap_size_def)
qed

text \<open>The room that an allocation needs, in addresses and in the code's own account.\<close>

definition kmalloc_room :: "allocator \<Rightarrow> block list \<Rightarrow> u32 \<Rightarrow> bool" where
  "kmalloc_room s bs sz \<longleftrightarrow> unat sz + 4 < 2 ^ 32 \<and>
     heap_top s bs + 12 + unat (align_size sz) < 2 ^ 32 \<and>
     heap_used bs + unat (align_size sz) + 12 < unat (heap_end_ptr s - heap_start_ptr s)"

lemma kmalloc_limit:
  assumes "heap_inv s bs" and "kmalloc_room s bs sz"
  shows "\<not> heap_end_ptr s - heap_start_ptr s \<le> get_current_heap_size s + align_size sz + 12"
proof -
  have "heap_used bs + unat (align_size sz) + 12 < 2 ^ 32"
    using heap_inv_used(2) [OF assms(1)] assms(2) by (simp add: kmalloc_room_def)
  then have "unat (get_current_heap_size s + align_size sz + 12) = heap_used bs + unat (align_size sz) + 12"
    using heap_inv_used(1) [OF assms(1)] by (simp add: unat_word_ariths)
  then show ?thesis using assms(2) by (simp add: kmalloc_room_def word_le_nat_alt)
qed

lemma get_current_heap_size_update [simp]:
  "get_current_heap_size (s\<lparr>head := x\<rparr>) = get_current_heap_size s"
  "get_current_heap_size (s\<lparr>headers := h\<rparr>) = get_current_heap_size s"
  by (simp_all add: get_current_heap_size_def)

lemma unat_count_Suc: "unat (c :: u32) = n \<Longrightarrow> n + 1 < 2 ^ 32 \<Longrightarrow> unat (c + 1) = n + 1"
  using unat_add_lem [of c 1] by simp

theorem kmalloc_places:
  assumes inv: "heap_inv s bs" and room: "kmalloc_room s bs sz"
    and pl: "place_block (heap_start s) (align_size sz) bs = (bs', a)"
  shows "\<exists>s'. kmalloc s sz = Some (s', a + 12) \<and> heap_inv s' bs' \<and> a \<noteq> NULL \<and>
    contents s' = contents s \<and> heap_start s' = heap_start s \<and>
    heap_start_ptr s' = heap_start_ptr s \<and> heap_end_ptr s' = heap_end_ptr s"
proof -
  let ?n = "align_size sz"
  have n: "8 \<le> unat ?n" "4 dvd unat ?n" using room align_size_bounds [of sz] by (auto simp: kmalloc_room_def)
  have lim: "\<not> heap_end_ptr s - heap_start_ptr s \<le> get_current_heap_size s + ?n + 12"
    by (rule kmalloc_limit [OF inv room])
  have used: "heap_used bs + unat ?n + 12 < 2 ^ 32"
    using heap_inv_used(2) [OF inv] room by (simp add: kmalloc_room_def)
  have cnt: "unat (allocated_chunks s + 1) = length bs + 1"
    using inv used by (intro unat_count_Suc) (auto simp: heap_inv_def heap_used_def)
  have tot: "unat (allocated_size s + ?n) = blocks_size bs + unat ?n"
    using inv used unat_add_lem [of "allocated_size s" ?n] by (simp add: heap_inv_def heap_used_def)
  show ?thesis
  proof (cases "bs = []")
    case True
    then have "head s = NULL" "bs' = [(heap_start s, ?n)]" "a = heap_start s"
      using inv pl by (auto simp: heap_inv_def place_block_def)
    then show ?thesis
      using True lim n inv room cnt tot
      by (simp add: kmalloc_def Let_def heap_inv_def block_end_def kmalloc_room_def heap_top_def)
  next
    case False
    let ?h = "headers s"
    have ch: "chain ?h (head s) bs" "placed (unat (heap_start s)) bs"
      using inv by (auto simp: heap_inv_def)
    then have hd: "head s \<noteq> NULL" using False chain_head_next(1) by blast
    have "unat ?n + 12 < 2 ^ 32" using used by simp
    from find_free_chunk_place [OF ch False this] obtain ys b zs where bs: "bs = ys @ b # zs"
      and find: "find_free_chunk_loop ?h ?n (head s) = Some (fst b)"
      and place: "place ?n bs = (ys @ b # (fst b + 12 + snd b, ?n) # zs, fst b + 12 + snd b)"
      and gap: "zs = [] \<or> unat ?n + 12 \<le> unat (fst (hd zs)) - block_end b" by blast
    let ?e = "fst b + 12 + snd b"
    have a: "a = ?e" and bs': "bs' = ys @ b # (?e, ?n) # zs"
      using pl place False by (auto simp: place_block_def)
    obtain q where b: "fst b \<noteq> NULL" "?h (fst b) = Some \<lparr>ptr = fst b + 12, csize = snd b, next_node = q\<rparr>"
      and q: "chain ?h q zs"
      using chain_split [OF ch(1) [unfolded bs]] by blast
    have bm: "block_end b < 2 ^ 32" "4 dvd block_end b"
      using placed_member [OF ch(2), of b] block_end_aligned [of b] bs by auto
    then have e: "unat ?e = block_end b" "align_ptr ?e = ?e"
      using unat_block_end align_ptr_aligned by auto
    have new: "placed (unat (heap_start s)) bs'"
      unfolding bs' using ch(2) gap n room bs False
      by (intro placed_insert) (auto simp: kmalloc_room_def heap_top_def)
    have e0: "?e \<noteq> NULL" using e(1) by (auto simp: block_end_def)
    have dist: "distinct (map fst bs')" using placed_distinct [OF new] .
    let ?c = "\<lparr>ptr = ?e + 12, csize = ?n, next_node = q\<rparr>"
    let ?h' = "?h(fst b \<mapsto> \<lparr>ptr = fst b + 12, csize = snd b, next_node = ?e\<rparr>, ?e \<mapsto> ?c)"
    let ?s = "s\<lparr>headers := ?h', allocated_size := allocated_size s + ?n,
      allocated_chunks := allocated_chunks s + 1\<rparr>"
    have "chain ?h' q zs" using q dist bs' by (intro chain_frame) auto
    then have che: "chain ?h' ?e ((?e, ?n) # zs)" using e0 by simp
    have nb: "fst b \<notin> set (map fst ys)" "?e \<notin> set (map fst ys)" using dist bs' by auto
    have "chain ?h' (head s) (ys @ (fst b, snd b) # (?e, ?n) # zs)"
    proof (rule chain_replace [OF ch(1) [unfolded bs] nb(1) che])
      show "?h' a = ?h a" if "a \<in> set (map fst ys)" for a
      proof -
        have "a \<noteq> fst b" "a \<noteq> ?e" using that nb by blast+
        then show ?thesis by simp
      qed
      show "?h' (fst b) = Some \<lparr>ptr = fst b + 12, csize = snd b, next_node = ?e\<rparr>"
        using dist bs' by simp
    qed
    then have "heap_inv ?s bs'"
      using inv new cnt tot by (simp add: heap_inv_def bs bs')
    moreover have "kmalloc s sz = Some (?s, ?e + 12)"
      using hd find b e(2) lim
      by (simp add: kmalloc_def find_free_chunk_predecessor_def deref_def Let_def ac_simps)
    ultimately show ?thesis using e0 a by auto
  qed
qed

section \<open>kfree\<close>

lemma chain_Cons_iff:
  "chain h p (b # bs) \<longleftrightarrow> p = fst b \<and> p \<noteq> NULL \<and>
    (\<exists>q. h p = Some \<lparr>ptr = p + chunk_bytes, csize = snd b, next_node = q\<rparr> \<and> chain h q bs)"
  by (cases b) auto

lemma kfree_loop_step:
  assumes "chain h p (b # c # bs)"
  shows "kfree_loop h x p = (if fst c + 12 = x then Some p else kfree_loop h x (fst c))"
  using assms by (subst kfree_loop.simps) (auto simp: chain_Cons_iff deref_def)

lemma kfree_loop_last: "chain h p [b] \<Longrightarrow> kfree_loop h x p = Some p"
  by (subst kfree_loop.simps) (auto simp: chain_Cons_iff deref_def)

lemma kfree_loop_found:
  "chain h p (ys @ b # (a, n) # zs) \<Longrightarrow> distinct (map fst (ys @ b # (a, n) # zs)) \<Longrightarrow>
    kfree_loop h (a + 12) p = Some (fst b)"
proof (induction ys arbitrary: p)
  case Nil
  then have "kfree_loop h (a + 12) p = Some p" by (simp add: kfree_loop_step)
  with Nil show ?case by (simp add: chain_Cons_iff)
next
  case (Cons y ys)
  from Cons.prems obtain q where q: "chain h q (ys @ b # (a, n) # zs)" by (auto simp: chain_Cons_iff)
  obtain c ds where c: "ys @ b # (a, n) # zs = c # ds" by (cases ys) auto
  have "fst c \<noteq> a" using Cons.prems(2) c by (cases ys) auto
  with Cons.prems c q show ?case
    using kfree_loop_step [of h p y c ds "a + 12"] Cons.IH [OF q] by (auto simp: chain_Cons_iff)
qed

lemma kfree_loop_missing:
  "chain h p bs \<Longrightarrow> bs \<noteq> [] \<Longrightarrow> \<forall>b\<in>set (tl bs). fst b + 12 \<noteq> x \<Longrightarrow>
    kfree_loop h x p = Some (fst (last bs))"
proof (induction bs arbitrary: p)
  case (Cons b bs)
  show ?case
  proof (cases bs)
    case Nil
    then show ?thesis using Cons.prems kfree_loop_last [of h p b x] by (auto simp: chain_Cons_iff)
  next
    case (Cons c ds)
    from Cons.prems(1) obtain q where "chain h q bs" by (auto simp: chain_Cons_iff)
    with Cons.prems Cons.IH [of q] Cons kfree_loop_step [of h p b c ds x] show ?thesis
      by (auto simp: chain_Cons_iff)
  qed
qed simp

lemma placed_remove: "placed lo (ys @ b # zs) \<Longrightarrow> placed lo (ys @ zs)"
proof (induction ys arbitrary: lo)
  case Nil
  then show ?case using placed_antimono [of "block_end b" zs lo] by (auto simp: block_end_def)
qed auto

lemma unat_count_pred: "unat (c :: u32) = Suc n \<Longrightarrow> unat (c - 1) = n"
  by (subst unat_sub) (auto simp: word_le_nat_alt)

text \<open>Releasing a block takes it out of the list and leaves the others where they are.\<close>

lemma kfree_removes:
  assumes inv: "heap_inv s (ys @ (a, n) # zs)"
  shows "\<exists>s'. kfree s (a + 12) = Some s' \<and> heap_inv s' (ys @ zs) \<and> contents s' = contents s \<and>
    heap_start s' = heap_start s \<and> heap_start_ptr s' = heap_start_ptr s \<and> heap_end_ptr s' = heap_end_ptr s"
proof -
  let ?h = "headers s" and ?bs = "ys @ (a, n) # zs"
  have ch: "chain ?h (head s) ?bs" and pl: "placed (unat (heap_start s)) ?bs"
    using inv by (auto simp: heap_inv_def)
  have dist: "distinct (map fst ?bs)" using placed_distinct [OF pl] .
  have "block_end (a, n) < 2 ^ 32" using placed_member [OF pl, of "(a, n)"] by simp
  then have "unat (a + 12) = unat a + 12" by (simp add: block_end_def unat_word_ariths)
  then have ne: "a + 12 \<noteq> NULL" by auto
  have new: "placed (unat (heap_start s)) (ys @ zs)" using pl by (rule placed_remove)
  have cnt: "unat (allocated_chunks s - 1) = length ys + length zs"
    using inv by (intro unat_count_pred) (simp add: heap_inv_def)
  have tot: "unat (allocated_size s - n) = blocks_size (ys @ zs)"
    using inv by (subst unat_sub) (auto simp: heap_inv_def word_le_nat_alt)
  obtain q where ha: "a \<noteq> NULL" "?h a = Some \<lparr>ptr = a + 12, csize = n, next_node = q\<rparr>" and q: "chain ?h q zs"
    using chain_split [OF ch] by auto
  show ?thesis
  proof (cases ys rule: rev_cases)
    case Nil
    then have "head s = a" using ch by simp
    then show ?thesis
      using ne ha q inv new cnt tot Nil by (simp add: kfree_def deref_def heap_inv_def)
  next
    case (snoc xs b)
    have bs: "?bs = xs @ b # (a, n) # zs" using snoc by simp
    obtain r where hb: "fst b \<noteq> NULL" "?h (fst b) = Some \<lparr>ptr = fst b + 12, csize = snd b, next_node = r\<rparr>"
      and r: "chain ?h r ((a, n) # zs)"
      using chain_split [OF ch [unfolded bs]] by blast
    have ra: "r = a" using r by simp
    obtain c ds where c: "?bs = c # ds" "fst c \<noteq> a"
      using dist bs by (cases xs) auto
    then have hd: "head s \<noteq> NULL" "\<exists>m q. ?h (head s) = Some \<lparr>ptr = head s + 12, csize = m, next_node = q\<rparr>"
      "head s + 12 \<noteq> a + 12"
      using ch by (auto simp: chain_Cons_iff)
    have loop: "kfree_loop ?h (a + 12) (head s) = Some (fst b)"
      using kfree_loop_found ch dist unfolding bs by blast
    let ?h' = "?h(fst b \<mapsto> \<lparr>ptr = fst b + 12, csize = snd b, next_node = q\<rparr>)"
    let ?s = "s\<lparr>headers := ?h', allocated_chunks := allocated_chunks s - 1, allocated_size := allocated_size s - n\<rparr>"
    have nb: "fst b \<notin> set (map fst xs)" "fst b \<notin> set (map fst zs)" using dist snoc by auto
    have chq: "chain ?h' q zs" using q nb(2) by (rule chain_frame)
    have "chain ?h' (head s) (xs @ (fst b, snd b) # zs)"
    proof (rule chain_replace [OF ch [unfolded bs] nb(1) chq])
      show "?h' d = ?h d" if "d \<in> set (map fst xs)" for d
        using that nb(1) by (metis fun_upd_other)
    qed simp
    then have "heap_inv ?s (ys @ zs)"
      using inv new cnt tot snoc by (simp add: heap_inv_def)
    moreover have "kfree s (a + 12) = Some ?s"
      using ne hd loop hb ra ha by (auto simp: kfree_def deref_def)
    ultimately show ?thesis by auto
  qed
qed

text \<open>Releasing a pointer that no chunk has dereferences a null pointer.\<close>

lemma kfree_unknown:
  assumes "heap_inv s bs" and "p \<noteq> NULL" and "\<forall>b\<in>set bs. fst b + 12 \<noteq> p"
  shows "kfree s p = None"
proof (cases bs)
  case Nil
  then show ?thesis using assms by (simp add: kfree_def heap_inv_def deref_def)
next
  case (Cons b ds)
  have ch: "chain (headers s) (head s) bs" using assms(1) by (simp add: heap_inv_def)
  have loop: "kfree_loop (headers s) p (head s) = Some (fst (last bs))"
    using kfree_loop_missing [OF ch] assms(3) Cons by simp
  have "bs = butlast bs @ [last bs]" using Cons by simp
  then obtain q where "headers s (fst (last bs)) = Some \<lparr>ptr = fst (last bs) + 12, csize = snd (last bs), next_node = q\<rparr>"
      "chain (headers s) q []"
    using chain_split ch by metis
  then show ?thesis
    using ch assms(2,3) Cons loop by (auto simp: kfree_def deref_def chain_Cons_iff)
qed

section \<open>krealloc\<close>

lemma find_chunk_loop_found:
  "chain h p (ys @ (a, n) # zs) \<Longrightarrow> distinct (map fst (ys @ (a, n) # zs)) \<Longrightarrow>
    find_chunk_loop h (a + 12) p = Some a"
proof (induction ys arbitrary: p)
  case Nil
  then show ?case by (subst find_chunk_loop.simps) (auto simp: deref_def)
next
  case (Cons y ys)
  from Cons.prems obtain q where p: "p = fst y" "p \<noteq> NULL" "h p = Some \<lparr>ptr = p + 12, csize = snd y, next_node = q\<rparr>"
    and q: "chain h q (ys @ (a, n) # zs)"
    by (auto simp: chain_Cons_iff)
  have "q \<noteq> NULL" using chain_head_next(1) [OF q] by simp
  moreover have "fst y \<noteq> a" using Cons.prems(2) by auto
  ultimately show ?case
    using p Cons.IH [OF q] Cons.prems(2) by (subst find_chunk_loop.simps) (simp add: deref_def)
qed

lemma heap_inv_block_ptr:
  assumes "heap_inv s bs" and "b \<in> set bs"
  shows "unat (fst b + 12) = unat (fst b) + 12" "fst b + 12 \<noteq> NULL" "fst b \<noteq> NULL"
proof -
  have b: "block_end b < 2 ^ 32" "unat (heap_start s) \<le> unat (fst b)" "heap_start s \<noteq> NULL"
    using assms placed_member placed_lower unfolding heap_inv_def by blast+
  then show u: "unat (fst b + 12) = unat (fst b) + 12" by (simp add: block_end_def unat_word_ariths)
  then show "fst b + 12 \<noteq> NULL" by auto
  show "fst b \<noteq> NULL" using b(2,3) by (auto simp: unat_eq_zero)
qed

lemma heap_inv_distinct: "heap_inv s bs \<Longrightarrow> distinct (map fst bs)"
  unfolding heap_inv_def using placed_distinct by blast

lemma find_chunk_by_ptr_found:
  assumes inv: "heap_inv s (ys @ (a, n) # zs)"
  shows "find_chunk_by_ptr s (a + 12) = Some a"
proof -
  let ?bs = "ys @ (a, n) # zs"
  have ch: "chain (headers s) (head s) ?bs" "distinct (map fst ?bs)"
    using inv heap_inv_distinct [OF inv] by (auto simp: heap_inv_def)
  have ne: "a + 12 \<noteq> NULL" "a \<noteq> NULL" using heap_inv_block_ptr [OF inv, of "(a, n)"] by auto
  obtain b ds where b: "?bs = b # ds" by (cases ys) auto
  then have hd: "fst b + 12 \<noteq> NULL" using heap_inv_block_ptr(2) [OF inv, of b] by simp
  obtain q where ha: "headers s a = Some \<lparr>ptr = a + 12, csize = n, next_node = q\<rparr>"
    using chain_split [OF ch(1)] by auto
  have "find_chunk_loop (headers s) (a + 12) (head s) = Some a"
    using find_chunk_loop_found ch by blast
  then show ?thesis
    using ne ha ch(1) hd unfolding b by (auto simp: find_chunk_by_ptr_def chain_Cons_iff deref_def)
qed

text \<open>The last chunk is resized in place.\<close>

lemma krealloc_tail:
  assumes inv: "heap_inv s (ys @ [(a, n)])" and "unat sz + 4 < 2 ^ 32"
    and "unat a + 12 + unat (align_size sz) < 2 ^ 32"
  shows "\<exists>s'. krealloc s (a + 12) sz = Some (s', a + 12) \<and> heap_inv s' (ys @ [(a, align_size sz)]) \<and>
    contents s' = contents s"
proof -
  let ?h = "headers s" and ?m = "align_size sz"
  have inv': "heap_inv s (ys @ (a, n) # [])" using inv by simp
  have ch: "chain ?h (head s) (ys @ (a, n) # [])" and pl: "placed (unat (heap_start s)) (ys @ [(a, n)])"
    using inv by (auto simp: heap_inv_def)
  obtain q where ha: "a \<noteq> NULL" "?h a = Some \<lparr>ptr = a + 12, csize = n, next_node = q\<rparr>" and "chain ?h q []"
    using chain_split [OF ch] by auto
  then have q: "q = NULL" by simp
  let ?h' = "?h(a \<mapsto> \<lparr>ptr = a + 12, csize = ?m, next_node = NULL\<rparr>)"
  let ?s = "s\<lparr>headers := ?h', allocated_size := allocated_size s + (?m - n)\<rparr>"
  have na: "a \<notin> set (map fst ys)" using placed_distinct [OF pl] by auto
  have "chain ?h' (head s) (ys @ (a, ?m) # [])"
    using chain_replace [OF ch, of ?h' NULL "[]" ?m] na by fastforce
  moreover have "placed (unat (heap_start s)) (ys @ [(a, ?m)])"
    using pl assms(3) align_size_bounds [OF assms(2)] by (simp add: placed_append block_end_def)
  moreover have "unat (allocated_size s + (?m - n)) = blocks_size (ys @ [(a, ?m)])"
  proof -
    have "heap_used (ys @ [(a, n)]) + unat (heap_start s) \<le> unat a + 12 + unat n"
      using heap_inv_used(2) [OF inv] by (simp add: heap_top_def block_end_def)
    then have le: "blocks_size ys + unat ?m < 2 ^ 32" using assms(3) by (simp add: heap_used_def)
    have "allocated_size s = of_nat (blocks_size ys) + n"
      using inv by (simp add: heap_inv_def) (metis of_nat_add of_nat_unat ucast_id)
    then have "allocated_size s + (?m - n) = of_nat (blocks_size ys + unat ?m)" by simp
    then have "unat (allocated_size s + (?m - n)) = unat (of_nat (blocks_size ys + unat ?m) :: u32)"
      by (rule arg_cong)
    also have "\<dots> = blocks_size ys + unat ?m" using le by (intro unat_of_nat_less) simp
    finally show ?thesis by simp
  qed
  ultimately have "heap_inv ?s (ys @ [(a, ?m)])" using inv by (simp add: heap_inv_def)
  moreover have "krealloc s (a + 12) sz = Some (?s, a + 12)"
    using find_chunk_by_ptr_found [OF inv'] ha q by (simp add: krealloc_def Let_def deref_def)
  ultimately show ?thesis by auto
qed

lemma place_inserts:
  "bs \<noteq> [] \<Longrightarrow> place n bs = (bs', a) \<Longrightarrow> \<exists>ys zs. bs = ys @ zs \<and> bs' = ys @ (a, n) # zs"
proof (induction n bs arbitrary: bs' rule: place.induct)
  case (2 n b)
  then have "[b] = [b] @ [] \<and> bs' = [b] @ (a, n) # []" by auto
  then show ?case by blast
next
  case (3 n b c bs)
  show ?case
  proof (cases "unat n + 12 \<le> unat (fst c) - block_end b")
    case True
    then have "b # c # bs = [b] @ c # bs \<and> bs' = [b] @ (a, n) # c # bs" using "3.prems" by auto
    then show ?thesis by blast
  next
    case False
    then obtain ds where ds: "place n (c # bs) = (ds, a)" "bs' = b # ds"
      using "3.prems"(2) by (auto simp del: place.simps(3) simp: place.simps(3) split: prod.splits if_splits)
    from "3.IH" [OF False _ ds(1)] obtain ys zs where "c # bs = ys @ zs" "ds = ys @ (a, n) # zs" by auto
    then show ?thesis using ds(2) by (metis append_Cons)
  qed
qed simp

lemma place_block_inserts:
  "place_block start n bs = (bs', a) \<Longrightarrow> \<exists>ys zs. bs = ys @ zs \<and> bs' = ys @ (a, n) # zs"
  using place_inserts [of bs n bs' a] by (auto simp: place_block_def split: if_splits)

lemma heap_inv_update_contents [simp]: "heap_inv (s\<lparr>contents := m\<rparr>) bs = heap_inv s bs"
  by (simp add: heap_inv_def)

text \<open>
  Any other chunk is moved: its bytes are copied to a new one, which is at least as large, and the
  old one is released. Bytes outside the new chunk keep their value.
\<close>

lemma krealloc_moves:
  assumes inv: "heap_inv s (ys @ (a, n) # zs)" and "zs \<noteq> []"
    and room: "kmalloc_room s (ys @ (a, n) # zs) (align_size sz)"
    and pl: "place_block (heap_start s) (align_size (align_size sz)) (ys @ (a, n) # zs) = (bs', b)"
    and n: "unat n \<le> unat (align_size (align_size sz))" "unat n < 2 ^ 31"
  shows "\<exists>s' us vs. krealloc s (a + 12) sz = Some (s', b + 12) \<and> bs' = us @ (a, n) # vs \<and>
    heap_inv s' (us @ vs) \<and> contents s' = copied (contents s) (b + 12) (a + 12) n"
proof -
  let ?bs = "ys @ (a, n) # zs" and ?m = "align_size (align_size sz)"
  obtain s1 where s1: "kmalloc s (align_size sz) = Some (s1, b + 12)" "heap_inv s1 bs'" "b \<noteq> NULL"
    "contents s1 = contents s"
    using kmalloc_places [OF inv room pl] by blast
  obtain u v where uv: "?bs = u @ v" "bs' = u @ (b, ?m) # v" using place_block_inserts [OF pl] by blast
  have "(a, n) \<in> set (u @ v)" unfolding uv(1) [symmetric] by simp
  then have mem: "(a, n) \<in> set bs'" "(b, ?m) \<in> set bs'" using uv(2) by auto
  obtain us vs where bs': "bs' = us @ (a, n) # vs" using mem(1) by (meson split_list)
  have b0: "b + 12 \<noteq> NULL" using heap_inv_block_ptr(2) [OF s1(2) mem(2)] by simp
  have ends: "block_end (a, n) < 2 ^ 32" "block_end (b, ?m) < 2 ^ 32"
    using s1(2) mem placed_member unfolding heap_inv_def by blast+
  have u: "unat (a + 12) = unat a + 12" "unat (b + 12) = unat b + 12"
    using heap_inv_block_ptr(1) [OF s1(2)] mem by fastforce+
  have mv: "fst (memmove (contents s) (b + 12) (a + 12) n) = copied (contents s) (b + 12) (a + 12) n"
    using ends n u memmove_copied [of "b + 12" n "a + 12" "contents s"] by (simp add: block_end_def)
  let ?s1 = "s1\<lparr>contents := copied (contents s) (b + 12) (a + 12) n\<rparr>"
  have "heap_inv ?s1 (us @ (a, n) # vs)" using s1(2) bs' by simp
  then obtain s2 where s2: "kfree ?s1 (a + 12) = Some s2" "heap_inv s2 (us @ vs)"
    "contents s2 = copied (contents s) (b + 12) (a + 12) n"
    using kfree_removes by fastforce
  have ch: "chain (headers s) (head s) ?bs" using inv by (simp add: heap_inv_def)
  obtain q where ha: "a \<noteq> NULL" "headers s a = Some \<lparr>ptr = a + 12, csize = n, next_node = q\<rparr>" "chain (headers s) q zs"
    using chain_split [OF ch] by auto
  then have q: "q \<noteq> NULL" using chain_head_next(1) \<open>zs \<noteq> []\<close> by blast
  obtain r where ha1: "headers s1 a = Some \<lparr>ptr = a + 12, csize = n, next_node = r\<rparr>"
    using s1(2) bs' chain_split [of "headers s1" "head s1" us "(a, n)" vs] by (auto simp: heap_inv_def)
  have "krealloc s (a + 12) sz = Some (s2, b + 12)"
    using find_chunk_by_ptr_found [OF inv] ha q s1 ha1 b0 s2(1) mv
    by (simp add: krealloc_def Let_def deref_def)
  then show ?thesis using s2 bs' by blast
qed

section \<open>The allocator's contract\<close>

text \<open>
  What the kernel relies on when it calls the allocator: \<open>live\<close> relates a state to the blocks it
  has handed out, an allocation adds one, a release removes one, and live blocks never overlap.
\<close>

definition chunk_region :: "block \<Rightarrow> nat set" where
  "chunk_region b = {unat (fst b) + 12..<block_end b}"

locale heap_contract =
  fixes live :: "'s \<Rightarrow> block list \<Rightarrow> bool"
    and room :: "'s \<Rightarrow> block list \<Rightarrow> u32 \<Rightarrow> bool"
    and alloc :: "'s \<Rightarrow> u32 \<Rightarrow> ('s \<times> addr) option"
    and release :: "'s \<Rightarrow> addr \<Rightarrow> 's option"
  assumes live_placed: "live s bs \<Longrightarrow> placed 0 bs"
    and alloc_adds: "live s bs \<Longrightarrow> room s bs sz \<Longrightarrow>
      \<exists>s' a ys zs. alloc s sz = Some (s', a + 12) \<and> bs = ys @ zs \<and>
        live s' (ys @ (a, align_size sz) # zs) \<and> unat sz \<le> unat (align_size sz)"
    and release_removes: "live s (ys @ (a, n) # zs) \<Longrightarrow>
      \<exists>s'. release s (a + 12) = Some s' \<and> live s' (ys @ zs)"
begin

lemma live_regions_disjoint:
  assumes "live s (ys @ b # zs)" and "c \<in> set (ys @ zs)"
  shows "chunk_region b \<inter> chunk_region c = {}"
proof -
  have "sorted_wrt (\<lambda>b c. block_end b \<le> unat (fst c)) (ys @ b # zs)"
    using live_placed [OF assms(1)] by (rule placed_ordered)
  with assms(2) show ?thesis
    by (force simp: sorted_wrt_append chunk_region_def)
qed

text \<open>A new chunk holds the requested bytes and shares no byte with the chunks in use.\<close>

lemma alloc_fresh:
  assumes "live s bs" and "room s bs sz"
  shows "\<exists>s' p. alloc s sz = Some (s', p) \<and> (\<exists>ys a zs. p = a + 12 \<and> bs = ys @ zs \<and>
    live s' (ys @ (a, align_size sz) # zs) \<and> unat sz \<le> card (chunk_region (a, align_size sz)) \<and>
    (\<forall>b\<in>set bs. chunk_region (a, align_size sz) \<inter> chunk_region b = {}))"
proof -
  obtain s' a ys zs where r: "alloc s sz = Some (s', a + 12)" "bs = ys @ zs"
    "live s' (ys @ (a, align_size sz) # zs)" "unat sz \<le> unat (align_size sz)"
    using alloc_adds [OF assms] by blast
  moreover have "card (chunk_region (a, align_size sz)) = unat (align_size sz)"
    by (simp add: chunk_region_def block_end_def)
  ultimately show ?thesis using live_regions_disjoint [OF r(3)] by metis
qed

text \<open>Allocating and releasing again restores the set of live blocks.\<close>

lemma alloc_release:
  assumes "live s bs" and "room s bs sz"
  shows "\<exists>s' p s''. alloc s sz = Some (s', p) \<and> release s' p = Some s'' \<and> live s'' bs"
  using alloc_adds [OF assms] release_removes by metis

end

interpretation kheap: heap_contract heap_inv kmalloc_room kmalloc kfree
proof
  show "placed 0 bs" if "heap_inv s bs" for s bs
    using that placed_antimono by (auto simp: heap_inv_def)
next
  fix s bs sz
  assume h: "heap_inv s bs" "kmalloc_room s bs sz"
  obtain bs' a where pl: "place_block (heap_start s) (align_size sz) bs = (bs', a)" by fastforce
  from kmalloc_places [OF h pl] place_block_inserts [OF pl] align_size_bounds(1) [of sz] h(2)
  show "\<exists>s' a ys zs. kmalloc s sz = Some (s', a + 12) \<and> bs = ys @ zs \<and>
      heap_inv s' (ys @ (a, align_size sz) # zs) \<and> unat sz \<le> unat (align_size sz)"
    unfolding kmalloc_room_def by (metis order_less_imp_le)
next
  show "\<exists>s'. kfree s (a + 12) = Some s' \<and> heap_inv s' (ys @ zs)" if "heap_inv s (ys @ (a, n) # zs)" for s ys a n zs
    using kfree_removes [OF that] by blast
qed

declare find_free_chunk_loop.simps [code] kfree_loop.simps [code] find_chunk_loop.simps [code]

section \<open>Runs of the allocator\<close>

text \<open>
  The states that a sequence of successful allocations and of releases of live chunks reaches from an
  empty heap, with the blocks in use.
\<close>

definition heap_boot :: "addr \<Rightarrow> addr \<Rightarrow> allocator" where
  "heap_boot start end_ptr = \<lparr>head = NULL, allocated_size = 0, allocated_chunks = 0,
     heap_start = start, heap_start_ptr = start, heap_end_ptr = end_ptr,
     headers = (\<lambda>_. None), contents = (\<lambda>_. 0)\<rparr>"

inductive heap_run :: "allocator \<Rightarrow> block list \<Rightarrow> allocator \<Rightarrow> block list \<Rightarrow> bool" where
  run_done: "heap_run s bs s bs"
| run_kmalloc: "heap_run s bs s1 bs1 \<Longrightarrow> kmalloc_room s1 bs1 sz \<Longrightarrow>
    place_block (heap_start s1) (align_size sz) bs1 = (bs2, a) \<Longrightarrow>
    kmalloc s1 sz = Some (s2, p) \<Longrightarrow> heap_run s bs s2 bs2"
| run_kfree: "heap_run s bs s1 (ys @ (a, n) # zs) \<Longrightarrow> kfree s1 (a + 12) = Some s2 \<Longrightarrow>
    heap_run s bs s2 (ys @ zs)"

lemma heap_run_inv: "heap_run s bs s' bs' \<Longrightarrow> heap_inv s bs \<Longrightarrow> heap_inv s' bs'"
proof (induction rule: heap_run.induct)
  case (run_kmalloc s bs s1 bs1 sz bs2 a s2 p)
  then show ?case using kmalloc_places [of s1 bs1 sz bs2 a] by auto
next
  case (run_kfree s bs s1 ys a n zs s2)
  then show ?case using kfree_removes [of s1 ys a n zs] by auto
qed

lemma heap_boot_inv: "start \<noteq> NULL \<Longrightarrow> 4 dvd unat start \<Longrightarrow> heap_inv (heap_boot start e) []"
  by (simp add: heap_inv_def heap_boot_def)

lemma placed_regions_disjoint:
  "placed lo bs \<Longrightarrow> j < i \<Longrightarrow> i < length bs \<Longrightarrow> chunk_region (bs ! i) \<inter> chunk_region (bs ! j) = {}"
  using sorted_wrt_nth_less [OF placed_ordered, of lo bs j i]
  by (fastforce simp: chunk_region_def)

section \<open>Properties\<close>


lemma heap_boot_kmalloc:
  "kmalloc (heap_boot 0x20000000 0x20001000) 40 = Some
    (\<lparr>head = 0x20000000, allocated_size = 44, allocated_chunks = 1, heap_start = 0x20000000,
      heap_start_ptr = 0x20000000, heap_end_ptr = 0x20001000,
      headers = [0x20000000 \<mapsto> \<lparr>ptr = 0x2000000C, csize = 44, next_node = NULL\<rparr>],
      contents = (\<lambda>_. 0)\<rparr>, 0x2000000C)"
  by (simp add: kmalloc_def heap_boot_def align_size_def get_current_heap_size_def Let_def)

lemma heap_boot_room: "kmalloc_room (heap_boot 0x20000000 0x20001000) [] 40"
  by (simp add: kmalloc_room_def heap_boot_def heap_top_def heap_used_def align_size_def)

lemma heap_boot_run:
  "heap_run (heap_boot 0x20000000 0x20001000) [] (fst (the (kmalloc (heap_boot 0x20000000 0x20001000) 40)))
    [(0x20000000, 44)]"
  using heap_boot_kmalloc
  by (intro run_kmalloc [OF run_done heap_boot_room]) (simp_all add: place_block_def heap_boot_def align_size_def)


text \<open>C2: An allocation that has room succeeds. It puts the new block where first fit says
  (\<open>place_block\<close>), gives at least the requested bytes, keeps the allocator well formed with
  exactly this block added, and the new chunk shares no byte with any chunk in use; no byte of the heap contents changes.\<close>

theorem kmalloc_first_fit:
  assumes "heap_inv s bs" and "kmalloc_room s bs sz"
  shows "\<exists>s' ys a zs. kmalloc s sz = Some (s', a + 12) \<and> bs = ys @ zs \<and>
    place_block (heap_start s) (align_size sz) bs = (ys @ (a, align_size sz) # zs, a) \<and>
    heap_inv s' (ys @ (a, align_size sz) # zs) \<and> unat sz < unat (align_size sz) \<and>
    (\<forall>b\<in>set bs. chunk_region (a, align_size sz) \<inter> chunk_region b = {}) \<and> contents s' = contents s"
proof -
  obtain bs' a where pl: "place_block (heap_start s) (align_size sz) bs = (bs', a)" by fastforce
  obtain ys zs where split: "bs = ys @ zs" "bs' = ys @ (a, align_size sz) # zs"
    using place_block_inserts [OF pl] by blast
  obtain s' where s': "kmalloc s sz = Some (s', a + 12)" "heap_inv s' bs'" "contents s' = contents s"
    using kmalloc_places [OF assms pl] by blast
  moreover have "unat sz < unat (align_size sz)"
    using assms(2) align_size_bounds(1) by (simp add: kmalloc_room_def)
  ultimately show ?thesis
    using split pl kheap.live_regions_disjoint [of s' ys "(a, align_size sz)" zs] by blast
qed

theorem kmalloc_first_fit_witness:
  "\<exists>a s'. kmalloc (heap_boot 0x20000000 0x20001000) 40 = Some (s', a + 12) \<and>
    heap_inv s' [(a, align_size 40)]"
  using kmalloc_first_fit [OF heap_boot_inv heap_boot_room] by fastforce

text \<open>Releasing a chunk in use succeeds, takes exactly its block out of the list and leaves every
  other block and all contents where they are; releasing a pointer that belongs to no chunk never
  returns normally, because the search runs into the null pointer.\<close>

theorem kfree_exact:
  assumes "heap_inv s bs"
  shows "(\<forall>ys a n zs. bs = ys @ (a, n) # zs \<longrightarrow>
      (\<exists>s'. kfree s (a + 12) = Some s' \<and> heap_inv s' (ys @ zs) \<and> contents s' = contents s)) \<and>
    (\<forall>p. p \<noteq> NULL \<longrightarrow> (\<forall>b\<in>set bs. fst b + 12 \<noteq> p) \<longrightarrow> kfree s p = None)"
  using kfree_removes kfree_unknown [OF assms] assms by blast

theorem kfree_exact_witness:
  "\<exists>s'. kfree (fst (the (kmalloc (heap_boot 0x20000000 0x20001000) 40))) 0x2000000C = Some s' \<and> heap_inv s' []"
proof -
  have "heap_inv (fst (the (kmalloc (heap_boot 0x20000000 0x20001000) 40))) [(0x20000000, 44)]"
    using heap_run_inv [OF heap_boot_run heap_boot_inv] by simp
  from kfree_exact [OF this, THEN conjunct1, rule_format, of "[]" "0x20000000" 44 "[]"]
  show ?thesis by auto
qed



definition heap_two :: allocator where
  "heap_two = \<lparr>head = 0x20000000, allocated_size = 52, allocated_chunks = 2, heap_start = 0x20000000,
     heap_start_ptr = 0x20000000, heap_end_ptr = 0x20001000,
     headers = [0x20000000 \<mapsto> \<lparr>ptr = 0x2000000C, csize = 44, next_node = 0x20000038\<rparr>,
                0x20000038 \<mapsto> \<lparr>ptr = 0x20000044, csize = 8, next_node = NULL\<rparr>],
     contents = (\<lambda>a. ucast a)\<rparr>"

lemma heap_two_inv: "heap_inv heap_two ([] @ (0x20000000, 44) # [(0x20000038, 8)])"
  by (simp add: heap_inv_def heap_two_def block_end_def)


text \<open>The limit test counts bytes in use and not addresses, so a chunk can lie beyond the end of the
  heap: in a heap of 128 bytes, after allocating 40 and 4 bytes and releasing the first chunk, 60 bytes are
  granted at offset 88, and they end 24 bytes past \<open>heap_end_ptr\<close>.\<close>

theorem kmalloc_beyond_heap_end:
  "(case (do { (s, p) \<leftarrow> kmalloc (heap_boot 0x20000000 0x20000080) 40; (s, _) \<leftarrow> kmalloc s 4;
              s \<leftarrow> kfree s p; (s, q) \<leftarrow> kmalloc s 60; Some (heap_end_ptr s, q) }) of
     Some (e, q) \<Rightarrow> q = 0x20000058 \<and> q < e \<and> e < q + align_size 60
   | None \<Rightarrow> False)"
  by code_simp

text \<open>A refused allocation is not without effect. \<open>kmalloc\<close> links the new header before it tests the
  limit, so after a refusal the list ends in a header that was never written, and the next allocation
  follows it.\<close>

theorem kmalloc_refusal_dangles:
  "(case (do { (s, _) \<leftarrow> kmalloc (heap_boot 0x20000000 0x20000040) 8; kmalloc s 40 }) of
     Some (s, p) \<Rightarrow> p = NULL \<and> (\<exists>c. headers s (head s) = Some c \<and> next_node c \<noteq> NULL \<and> headers s (next_node c) = None) \<and>
       kmalloc s 4 = None
   | None \<Rightarrow> False)"
proof -
  let ?h = "[0x20000000 \<mapsto> \<lparr>ptr = 0x2000000C, csize = 12, next_node = 0x20000018\<rparr>]"
  let ?s = "\<lparr>head = 0x20000000, allocated_size = 12, allocated_chunks = 1, heap_start = 0x20000000,
      heap_start_ptr = 0x20000000, heap_end_ptr = 0x20000040, headers = ?h, contents = (\<lambda>_. 0)\<rparr>"
  have "(do { (s, _) \<leftarrow> kmalloc (heap_boot 0x20000000 0x20000040) 8; kmalloc s 40 }) = Some (?s, NULL)"
    by (simp add: kmalloc_def heap_boot_def align_size_def get_current_heap_size_def Let_def deref_def
        find_free_chunk_predecessor_def find_free_chunk_loop.simps align_ptr_def fun_upd_def fun_eq_iff)
  moreover have "kmalloc ?s 4 = None" by code_simp
  ultimately show ?thesis by simp
qed
end
