(* ===== verification/Queues.thy ===== *)
theory Queues
  imports Memory
begin

text \<open>
  Singly linked FIFO queues in allocated memory. \<open>src/kernel/resources.c\<close> (wait queues) and
  \<open>src/kernel/signal.c\<close> (signal queues) both keep a head pointer to entries with one payload field
  and a \<open>next\<close> pointer, append with \<open>kmalloc\<close> at the end and release the first entry with \<open>kfree\<close>. This theory has
  what they share: the entry, the walk to the last one, the abstraction to a list, and the contract
  \<open>fifo\<close> that both queues, and other queues of the kernel, satisfy.
\<close>

section \<open>Entries and chains\<close>

record 'a entry =
  item :: 'a
  next_entry :: addr

text \<open>\<open>while (entry->next) entry = entry->next;\<close>\<close>

partial_function (option) entry_last :: "(addr \<Rightarrow> 'a entry option) \<Rightarrow> addr \<Rightarrow> addr option" where
  "entry_last h p = do {
     e \<leftarrow> deref h p;
     (if next_entry e \<noteq> NULL then entry_last h (next_entry e) else Some p)
   }"

declare entry_last.simps [simp del] entry_last.simps [code]

fun entries :: "(addr \<Rightarrow> 'a entry option) \<Rightarrow> addr \<Rightarrow> (addr \<times> 'a) list \<Rightarrow> bool" where
  "entries h p [] \<longleftrightarrow> p = NULL"
| "entries h p ((a, x) # es) \<longleftrightarrow> p = a \<and> a \<noteq> NULL \<and>
     (\<exists>q. h a = Some \<lparr>item = x, next_entry = q\<rparr> \<and> entries h q es)"

lemma entries_Cons_iff:
  "entries h p (e # es) \<longleftrightarrow> p = fst e \<and> p \<noteq> NULL \<and>
    (\<exists>q. h p = Some \<lparr>item = snd e, next_entry = q\<rparr> \<and> entries h q es)"
  by (cases e) auto

lemma entries_NULL [simp]: "entries h NULL es = (es = [])"
  by (cases es) (auto simp: entries_Cons_iff)

lemma entries_unique: "entries h p es \<Longrightarrow> entries h p fs \<Longrightarrow> es = fs"
proof (induction es arbitrary: p fs)
  case Nil
  then show ?case by (cases fs) (auto simp: entries_Cons_iff)
next
  case (Cons e es)
  then show ?case by (cases fs) (auto simp: entries_Cons_iff prod_eq_iff)
qed

lemma entries_frame: "entries h p es \<Longrightarrow> a \<notin> set (map fst es) \<Longrightarrow> entries (h(a := x)) p es"
  by (induction es arbitrary: p) (auto simp: entries_Cons_iff)

lemma entries_cong:
  "entries h p es \<Longrightarrow> (\<And>a. a \<in> set (map fst es) \<Longrightarrow> h' a = h a) \<Longrightarrow> entries h' p es"
  by (induction es arbitrary: p) (auto simp: entries_Cons_iff)

lemma entry_last_entries: "entries h p es \<Longrightarrow> es \<noteq> [] \<Longrightarrow> entry_last h p = Some (fst (last es))"
proof (induction es arbitrary: p)
  case (Cons e es)
  then obtain q where q: "p = fst e" "p \<noteq> NULL" "h p = Some \<lparr>item = snd e, next_entry = q\<rparr>" "entries h q es"
    by (auto simp: entries_Cons_iff)
  show ?case
  proof (cases es)
    case Nil
    then show ?thesis using q by (subst entry_last.simps) (simp add: deref_def)
  next
    case (Cons f fs)
    then have "q \<noteq> NULL" using q(4) unfolding Cons entries_Cons_iff by blast
    then show ?thesis using q Cons.IH [OF q(4)] \<open>es = f # fs\<close>
      by (subst entry_last.simps) (simp add: deref_def del: entries.simps)
  qed
qed simp

lemma entries_last_item:
  "entries h p (es @ [(a, x)]) \<Longrightarrow> a \<noteq> NULL \<and> h a = Some \<lparr>item = x, next_entry = NULL\<rparr>"
  by (induction es arbitrary: p) (auto simp: entries_Cons_iff)

lemma entries_append_one:
  "entries h p (es @ [(a, x)]) \<Longrightarrow> distinct (map fst (es @ [(a, x)])) \<Longrightarrow> b \<noteq> NULL \<Longrightarrow>
    b \<notin> set (map fst (es @ [(a, x)])) \<Longrightarrow>
    entries (h(b \<mapsto> \<lparr>item = y, next_entry = NULL\<rparr>, a \<mapsto> \<lparr>item = x, next_entry = b\<rparr>)) p (es @ [(a, x), (b, y)])"
proof (induction es arbitrary: p)
  case (Cons e es)
  then show ?case by (auto simp: entries_Cons_iff image_iff)
qed auto

section \<open>Queues on the kernel heap\<close>

text \<open>The state of a queue: the allocator, the typed heap of its entries, and the head pointer.\<close>

record 'a kqueue =
  qheap :: allocator
  qentries :: "addr \<Rightarrow> 'a entry option"
  qhead :: addr

definition live_ptrs :: "block list \<Rightarrow> addr set" where
  "live_ptrs bs = {p. p - chunk_bytes \<in> set (map fst bs)}"

lemma live_ptrs_insert:
  assumes "distinct (map fst (ys @ (a, n) # zs))"
  shows "live_ptrs (ys @ (a, n) # zs) = insert (a + 12) (live_ptrs (ys @ zs))"
    and "a + 12 \<notin> live_ptrs (ys @ zs)"
proof -
  have "p - 12 = a \<longleftrightarrow> p = a + 12" for p by (auto simp: algebra_simps)
  then show "live_ptrs (ys @ (a, n) # zs) = insert (a + 12) (live_ptrs (ys @ zs))"
    by (auto simp: live_ptrs_def)
  have "a \<notin> set (map fst (ys @ zs))" using assms by simp
  then show "a + 12 \<notin> live_ptrs (ys @ zs)" by (simp add: live_ptrs_def)
qed

text \<open>A queue holds a list: its entries are distinct live chunks.\<close>

definition kqueue_inv :: "'a kqueue \<Rightarrow> block list \<Rightarrow> (addr \<times> 'a) list \<Rightarrow> bool" where
  "kqueue_inv q bs es \<longleftrightarrow> heap_inv (qheap q) bs \<and> entries (qentries q) (qhead q) es \<and>
     distinct (map fst es) \<and> set (map fst es) \<subseteq> live_ptrs bs"

lemma kmalloc_live_ptrs:
  assumes "heap_inv s bs" and "kmalloc_room s bs sz"
  obtains s' bs' p where "kmalloc s sz = Some (s', p)" and "heap_inv s' bs'" and "p \<noteq> NULL"
    and "p \<notin> live_ptrs bs" and "live_ptrs bs' = insert p (live_ptrs bs)"
proof -
  obtain s' a ys zs where r: "kmalloc s sz = Some (s', a + 12)" "bs = ys @ zs"
    "heap_inv s' (ys @ (a, align_size sz) # zs)"
    using kheap.alloc_adds [OF assms] by blast
  have "a + 12 \<noteq> NULL" using heap_inv_block_ptr(2) [OF r(3), of "(a, align_size sz)"] by simp
  then show thesis
    using that [OF r(1,3)] live_ptrs_insert [OF heap_inv_distinct [OF r(3)]] unfolding r(2) by blast
qed

lemma kfree_live_ptrs:
  assumes "heap_inv s bs" and "p \<in> live_ptrs bs"
  obtains s' bs' where "kfree s p = Some s'" and "heap_inv s' bs'" and "live_ptrs bs' = live_ptrs bs - {p}"
proof -
  from assms(2) obtain b where b: "b \<in> set bs" "p - 12 = fst b" by (auto simp: live_ptrs_def)
  define a n where "a = fst b" and "n = snd b"
  have a: "(a, n) \<in> set bs" "p = a + 12" using b by (auto simp: a_def n_def algebra_simps)
  then obtain ys zs where bs: "bs = ys @ (a, n) # zs" by (meson split_list)
  have "live_ptrs (ys @ zs) = live_ptrs bs - {p}"
    using live_ptrs_insert [OF heap_inv_distinct [OF assms(1) [unfolded bs]]] unfolding bs a(2) by blast
  then show thesis using that kfree_removes [OF assms(1) [unfolded bs]] a(2) by blast
qed

section \<open>The contract of a FIFO queue\<close>

locale fifo =
  fixes holds :: "'s \<Rightarrow> 'a list \<Rightarrow> bool"
    and room :: "'s \<Rightarrow> bool"
    and enq :: "'s \<Rightarrow> 'a \<Rightarrow> 's option"
    and deq :: "'s \<Rightarrow> ('s \<times> 'a) option"
  assumes enq_appends: "holds q xs \<Longrightarrow> room q \<Longrightarrow> \<exists>q'. enq q x = Some q' \<and> holds q' (xs @ [x])"
    and deq_first: "holds q (x # xs) \<Longrightarrow> \<exists>q'. deq q = Some (q', x) \<and> holds q' xs"
begin

text \<open>Taking out as many items as are held yields them in the order of their arrival.\<close>

fun deq_all :: "nat \<Rightarrow> 's \<Rightarrow> ('s \<times> 'a list) option" where
  "deq_all 0 q = Some (q, [])"
| "deq_all (Suc n) q = do {
     (q, x) \<leftarrow> deq q;
     (q, xs) \<leftarrow> deq_all n q;
     Some (q, x # xs)
   }"

lemma deq_all_holds: "holds q (xs @ ys) \<Longrightarrow> \<exists>q'. deq_all (length xs) q = Some (q', xs) \<and> holds q' ys"
proof (induction xs arbitrary: q)
  case (Cons x xs)
  obtain q1 where q1: "deq q = Some (q1, x)" "holds q1 (xs @ ys)"
    using deq_first [of q x "xs @ ys"] Cons.prems by auto
  obtain q2 where "deq_all (length xs) q1 = Some (q2, xs)" "holds q2 ys"
    using Cons.IH [OF q1(2)] by blast
  then show ?case using q1 by simp
qed simp

lemma enq_then_deq_empty:
  "holds q [] \<Longrightarrow> room q \<Longrightarrow> \<exists>q1 q2. enq q x = Some q1 \<and> deq q1 = Some (q2, x) \<and> holds q2 []"
  using enq_appends [of q "[]" x] deq_first by fastforce

text \<open>A new item waits for exactly the items that were there before it.\<close>

lemma enq_deq_order:
  assumes "holds q xs" and "room q"
  shows "\<exists>q1 q2. enq q x = Some q1 \<and> deq_all (Suc (length xs)) q1 = Some (q2, xs @ [x]) \<and> holds q2 []"
  using enq_appends [OF assms] deq_all_holds [of _ "xs @ [x]" "[]"] by fastforce

end

section \<open>Appending and taking\<close>

text \<open>What both queues of the kernel do: append a fresh entry, take the first one and release it.\<close>

definition kqueue_append :: "'a kqueue \<Rightarrow> 'a \<Rightarrow> 'a kqueue option" where
  "kqueue_append q x = do {
     (heap, new_entry) \<leftarrow> kmalloc (qheap q) 8;
     require (new_entry \<noteq> NULL);
     let h = (qentries q)(new_entry \<mapsto> \<lparr>item = x, next_entry = NULL\<rparr>);
     (if qhead q = NULL then Some \<lparr>qheap = heap, qentries = h, qhead = new_entry\<rparr>
      else do {
        entry \<leftarrow> entry_last h (qhead q);
        e \<leftarrow> deref h entry;
        Some \<lparr>qheap = heap, qentries = h(entry \<mapsto> e\<lparr>next_entry := new_entry\<rparr>), qhead = qhead q\<rparr>
      })
   }"

definition kqueue_pop :: "'a kqueue \<Rightarrow> ('a kqueue \<times> 'a) option" where
  "kqueue_pop q = do {
     old_head \<leftarrow> deref (qentries q) (qhead q);
     heap \<leftarrow> kfree (qheap q) (qhead q);
     Some (q\<lparr>qheap := heap, qhead := next_entry old_head\<rparr>, item old_head)
   }"

lemma kqueue_invD:
  assumes "kqueue_inv q bs es"
  shows "heap_inv (qheap q) bs" "entries (qentries q) (qhead q) es" "distinct (map fst es)"
    "set (map fst es) \<subseteq> live_ptrs bs"
  using assms by (auto simp: kqueue_inv_def)

lemma kqueue_append_adds:
  assumes inv: "kqueue_inv q bs es" and room: "kmalloc_room (qheap q) bs 8"
  shows "\<exists>q' bs' p. kqueue_append q y = Some q' \<and> kqueue_inv q' bs' (es @ [(p, y)]) \<and>
    p \<notin> live_ptrs bs \<and> live_ptrs bs' = insert p (live_ptrs bs) \<and>
    (\<forall>a. a \<notin> insert p (set (map fst es)) \<longrightarrow> qentries q' a = qentries q a)"
proof -
  note d = kqueue_invD [OF inv]
  obtain s' bs' p where p: "kmalloc (qheap q) 8 = Some (s', p)" "heap_inv s' bs'" "p \<noteq> NULL"
    "p \<notin> live_ptrs bs" "live_ptrs bs' = insert p (live_ptrs bs)"
    using kmalloc_live_ptrs [OF d(1) room] .
  have np: "p \<notin> set (map fst es)" using d(4) p(4) by blast
  let ?h = "(qentries q)(p \<mapsto> \<lparr>item = y, next_entry = NULL\<rparr>)"
  show ?thesis
  proof (cases es rule: rev_cases)
    case Nil
    then have "qhead q = NULL" using d(2) by simp
    then have "kqueue_append q y = Some \<lparr>qheap = s', qentries = ?h, qhead = p\<rparr>"
      using p by (simp add: kqueue_append_def)
    moreover have "kqueue_inv \<lparr>qheap = s', qentries = ?h, qhead = p\<rparr> bs' (es @ [(p, y)])"
      using p Nil by (simp add: kqueue_inv_def)
    ultimately show ?thesis using p by fastforce
  next
    case (snoc fs e)
    obtain a x where e: "e = (a, x)" by fastforce
    have ne: "qhead q \<noteq> NULL" using d(2) snoc by auto
    have ents: "entries ?h (qhead q) (fs @ [(a, x)])"
      using entries_frame [OF d(2) np] snoc e by simp
    then have last: "entry_last ?h (qhead q) = Some a" using entry_last_entries by fastforce
    have "a \<noteq> NULL \<and> ?h a = Some \<lparr>item = x, next_entry = NULL\<rparr>"
      using ents by (rule entries_last_item)
    moreover have "a \<noteq> p" using np snoc e by auto
    ultimately have "kqueue_append q y = Some \<lparr>qheap = s',
        qentries = ?h(a \<mapsto> \<lparr>item = x, next_entry = p\<rparr>), qhead = qhead q\<rparr>"
      using p ne last by (simp add: kqueue_append_def deref_def)
    moreover have "entries (?h(a \<mapsto> \<lparr>item = x, next_entry = p\<rparr>)) (qhead q) (es @ [(p, y)])"
      using entries_append_one [of "qentries q" "qhead q" fs a x p y] d(2,3) p(3) np snoc e by simp
    ultimately show ?thesis
      using p d(3,4) np snoc e by (intro exI conjI) (auto simp: kqueue_inv_def)
  qed
qed

lemma kqueue_pop_first:
  assumes inv: "kqueue_inv q bs ((p, y) # es)"
  shows "\<exists>q' bs'. kqueue_pop q = Some (q', y) \<and> kqueue_inv q' bs' es \<and>
    live_ptrs bs' = live_ptrs bs - {p} \<and> qentries q' = qentries q"
proof -
  note d = kqueue_invD [OF inv]
  obtain r where r: "qhead q = p" "p \<noteq> NULL" "qentries q p = Some \<lparr>item = y, next_entry = r\<rparr>"
    "entries (qentries q) r es"
    using d(2) by auto
  obtain s' bs' where s': "kfree (qheap q) p = Some s'" "heap_inv s' bs'" "live_ptrs bs' = live_ptrs bs - {p}"
    using kfree_live_ptrs [OF d(1), of p] d(4) by auto
  have "kqueue_pop q = Some (q\<lparr>qheap := s', qhead := r\<rparr>, y)"
    using r s' by (simp add: kqueue_pop_def deref_def)
  moreover have "kqueue_inv (q\<lparr>qheap := s', qhead := r\<rparr>) bs' es"
  proof -
    have "distinct (map fst es)" "p \<notin> set (map fst es)" "set (map fst es) \<subseteq> live_ptrs bs" using d(3,4) by auto
    then have "set (map fst es) \<subseteq> live_ptrs bs'" using s'(3) by blast
    with \<open>distinct (map fst es)\<close> show ?thesis using r s' by (simp add: kqueue_inv_def)
  qed
  ultimately show ?thesis using s'(3) by auto
qed

text \<open>Both satisfy the contract, on any type of items.\<close>

definition kqueue_holds :: "'a kqueue \<Rightarrow> 'a list \<Rightarrow> bool" where
  "kqueue_holds q xs \<longleftrightarrow> (\<exists>bs es. kqueue_inv q bs es \<and> map snd es = xs)"

definition kqueue_room :: "'a kqueue \<Rightarrow> bool" where
  "kqueue_room q \<longleftrightarrow> (\<forall>bs. heap_inv (qheap q) bs \<longrightarrow> kmalloc_room (qheap q) bs 8)"

interpretation kqueue: fifo kqueue_holds kqueue_room kqueue_append kqueue_pop
proof
  fix q :: "'a kqueue" and xs :: "'a list" and x :: 'a
  assume h: "kqueue_holds q xs" and r: "kqueue_room q"
  then obtain bs es where inv: "kqueue_inv q bs es" "map snd es = xs"
    by (auto simp: kqueue_holds_def)
  then have "kmalloc_room (qheap q) bs 8" using r kqueue_invD(1) by (auto simp: kqueue_room_def)
  from kqueue_append_adds [OF inv(1) this, of x] inv(2)
  show "\<exists>q'. kqueue_append q x = Some q' \<and> kqueue_holds q' (xs @ [x])"
    by (fastforce simp: kqueue_holds_def)
next
  fix q :: "'a kqueue" and xs :: "'a list" and x :: 'a
  assume "kqueue_holds q (x # xs)"
  then obtain bs p es where "kqueue_inv q bs ((p, x) # es)" "map snd es = xs"
    by (auto simp: kqueue_holds_def map_eq_Cons_conv)
  from kqueue_pop_first [OF this(1)] this(2)
  show "\<exists>q'. kqueue_pop q = Some (q', x) \<and> kqueue_holds q' xs"
    by (fastforce simp: kqueue_holds_def)
qed

end
