(* ===== verification/Bytes.thy ===== *)
theory Bytes
  imports Prelude
begin

text \<open>
  Integers in byte memory: the target is little-endian, so a \<open>uint16_t\<close> or \<open>uint32_t\<close> that the C code
  reads or writes through a cast pointer occupies the bytes at its address in order of significance.
\<close>

definition bytes16 :: "u16 \<Rightarrow> byte list" where
  "bytes16 w = [ucast w, ucast (drop_bit 8 w)]"

definition bytes32 :: "u32 \<Rightarrow> byte list" where
  "bytes32 w = [ucast w, ucast (drop_bit 8 w), ucast (drop_bit 16 w), ucast (drop_bit 24 w)]"

definition word16 :: "byte \<Rightarrow> byte \<Rightarrow> u16" where
  "word16 b0 b1 = ucast b0 OR push_bit 8 (ucast b1)"

definition word32 :: "byte \<Rightarrow> byte \<Rightarrow> byte \<Rightarrow> byte \<Rightarrow> u32" where
  "word32 b0 b1 b2 b3 =
     ucast b0 OR push_bit 8 (ucast b1) OR push_bit 16 (ucast b2) OR push_bit 24 (ucast b3)"

definition load16 :: "mem \<Rightarrow> addr \<Rightarrow> u16" where
  "load16 m a = word16 (m a) (m (a + 1))"

definition load32 :: "mem \<Rightarrow> addr \<Rightarrow> u32" where
  "load32 m a = word32 (m a) (m (a + 1)) (m (a + 2)) (m (a + 3))"

definition store16 :: "mem \<Rightarrow> addr \<Rightarrow> u16 \<Rightarrow> mem" where
  "store16 m a w = stored m a (bytes16 w)"

definition store32 :: "mem \<Rightarrow> addr \<Rightarrow> u32 \<Rightarrow> mem" where
  "store32 m a w = stored m a (bytes32 w)"

lemma word16_bytes16: "word16 (ucast w) (ucast (drop_bit 8 w)) = w"
proof (rule bit_eqI)
  show "bit (word16 (ucast w) (ucast (drop_bit 8 w))) n = bit w n" if "possible_bit TYPE(u16) n" for n
    using that unfolding word16_def by (cases "n < 8") (auto simp: bit_simps)
qed

lemma word32_bytes32:
  "word32 (ucast w) (ucast (drop_bit 8 w)) (ucast (drop_bit 16 w)) (ucast (drop_bit 24 w)) = w"
proof (rule bit_eqI)
  show "bit (word32 (ucast w) (ucast (drop_bit 8 w)) (ucast (drop_bit 16 w)) (ucast (drop_bit 24 w))) n = bit w n"
    if "possible_bit TYPE(u32) n" for n
    using that unfolding word32_def
    by (cases "n < 8"; cases "n < 16"; cases "n < 24") (auto simp: bit_simps)
qed

lemma stored_at [mem_simps]:
  "unat k < length bs \<Longrightarrow> stored m a bs (a + k) = bs ! unat k"
  by (simp add: stored_def)

lemma load32_store32 [simp]: "load32 (store32 m a w) a = w"
  using word32_bytes32 [of w]
  by (simp add: load32_def store32_def stored_def bytes32_def)

lemma load16_store16 [simp]: "load16 (store16 m a w) a = w"
  using word16_bytes16 [of w]
  by (simp add: load16_def store16_def stored_def bytes16_def)

lemma store32_out: "4 \<le> unat (x - a) \<Longrightarrow> store32 m a w x = m x"
  by (simp add: store32_def stored_def bytes32_def)

lemma store16_out: "2 \<le> unat (x - a) \<Longrightarrow> store16 m a w x = m x"
  by (simp add: store16_def stored_def bytes16_def)

text \<open>Words at addresses that are at least four bytes apart do not disturb each other.\<close>

lemma load32_store32_apart:
  assumes "4 \<le> unat (b - a)" and "4 \<le> unat (a - b)"
  shows "load32 (store32 m a w) b = load32 m b"
proof -
  have "b - a \<noteq> 0" using assms(1) by auto
  from unat_uminus_u32 [OF this] have "uint (a - b) + uint (b - a) = 2 ^ 32" by simp
  then have "int (unat (a - b) + unat (b - a)) = int (2 ^ 32)" by simp
  then have "unat (a - b) + unat (b - a) = 2 ^ 32" by (simp only: of_nat_eq_iff)
  then have d: "unat (b - a) + 4 \<le> 2 ^ 32" using assms(2) by simp
  have "store32 m a w (b + of_nat k) = m (b + of_nat k)" if "k < 4" for k
  proof -
    have "unat ((b - a) + of_nat k) = unat (b - a) + k" using that d by (intro unat_add_of_nat) simp
    then have "4 \<le> unat (b + of_nat k - a)" using assms(1) by (simp add: algebra_simps)
    then show ?thesis by (rule store32_out)
  qed
  from this [of 0] this [of 1] this [of 2] this [of 3] show ?thesis by (simp add: load32_def)
qed

end
