(* ===== verification/Kernel_State.thy ===== *)
theory Kernel_State
  imports Queues Bytes
begin

text \<open>
  The state that the process, signal and resource code of \<open>src/kernel/\<close> shares: \<open>struct Process\<close> of
  \<open>include/kernel/proc.h\<close> and the \<open>scheduler\<close> structure of \<open>proc.c\<close>. A \<open>struct Process *\<close> points
  into the process table or at the idle process, so it is a value of \<open>proc_ptr\<close>. Objects that the
  kernel allocates (queue entries, descriptor tables, child tables, open files, process pages) are typed heaps, maps from
  their address; releasing an object does not change its typed heap, only the allocator.
\<close>

section \<open>Error codes and signals\<close>

definition ENOENT :: int where "ENOENT = 2"
definition ESRCH :: int where "ESRCH = 3"
definition EBADF :: int where "EBADF = 9"
definition ENOEXEC :: int where "ENOEXEC = 8"
definition ENOMEM :: int where "ENOMEM = 12"
definition ENODEV :: int where "ENODEV = 19"
definition EINVAL :: int where "EINVAL = 22"
definition EMFILE :: int where "EMFILE = 24"

abbreviation (input) SIGHUP :: int where "SIGHUP \<equiv> 1"
abbreviation (input) SIGINT :: int where "SIGINT \<equiv> 2"
abbreviation (input) SIGKILL :: int where "SIGKILL \<equiv> 9"
abbreviation (input) SIGTERM :: int where "SIGTERM \<equiv> 15"
abbreviation (input) SIGCHLD :: int where "SIGCHLD \<equiv> 20"

section \<open>Processes\<close>

datatype pstate = NEW | RUNNING | READY | WAITING_FOR_RESOURCE | WAITING_FOR_CHILD_EXIT | TERMINATED

datatype proc_ptr = PNull | PIdle | PSlot nat

text \<open>A signal handler: none, the kernel's two actions, or the address of a user function.\<close>

datatype sighandler = HNone | HTerminate | HIgnore | HUser addr

record process =
  pid :: int
  pgid :: int
  pname :: addr
  pstate :: pstate
  priority_level :: u32
  exit_code :: int
  kernel_mode :: bool
  ppage :: addr
  stack_page_ptr :: addr
  pstack :: addr
  kstack :: addr
  heap_pages :: "addr list"
  allocated_memory :: u32
  files_count :: u32
  fdtable :: addr
  p_root :: addr
  p_pwd :: addr
  parent :: proc_ptr
  max_children_count :: u32
  children_count :: u32
  children :: addr
  unnamed_pipes :: addr
  unnamed_pipes_count :: int
  signal_mask :: u32
  pending_signals :: addr
  signal_handled :: bool
  sighandlers :: "sighandler list"

text \<open>\<open>(struct Process){0}\<close>, the content of a free slot of the table.\<close>

definition process_zero :: process where
  "process_zero = \<lparr>pid = 0, pgid = 0, pname = NULL, pstate = NEW, priority_level = 0, exit_code = 0,
     kernel_mode = False, ppage = NULL, stack_page_ptr = NULL, pstack = NULL, kstack = NULL,
     heap_pages = [NULL, NULL, NULL, NULL], allocated_memory = 0, files_count = 0, fdtable = NULL, p_root = NULL,
     p_pwd = NULL, parent = PNull, max_children_count = 0, children_count = 0, children = NULL,
     unnamed_pipes = NULL, unnamed_pipes_count = 0, signal_mask = 0, pending_signals = NULL,
     signal_handled = False, sighandlers = replicate 32 HNone\<rparr>"

text \<open>\<open>struct File\<close> and \<open>struct ProcessPage\<close>; the operations of a file are its table's address.\<close>

record kfile =
  f_inode :: addr
  f_op :: addr
  f_flags :: u32
  f_pos :: int
  f_owner :: int

record process_page =
  page_ptr :: addr
  page_size :: u32
  start_offset :: int
  static_base :: addr
  static_base_len :: u32

text \<open>\<open>struct Pipe_Inode\<close>, the part of it that is used; 92 bytes on the target.\<close>

record pipe_inode =
  pipe_size :: int
  pipe_ptr :: addr
  pipe_fop :: addr
  read_offset :: u32
  write_offset :: u32

text \<open>
  The objects of a file system: operation tables, whose members are addresses of functions or null,
  inodes (\<open>struct VFS_Inode\<close> with the members that \<open>struct RAMFS_Inode\<close> adds), super blocks and
  directory entries in memory. Sizes and offsets are 32-bit words; \<open>off_t\<close> is signed.
\<close>

record fop_table =
  fop_lseek :: addr
  fop_read :: addr
  fop_write :: addr
  fop_readdir :: addr
  fop_open :: addr
  fop_close :: addr
  fop_flush :: addr
  fop_ioctl :: addr
  fop_poll :: addr

definition empty_fop :: fop_table where
  "empty_fop = \<lparr>fop_lseek = NULL, fop_read = NULL, fop_write = NULL, fop_readdir = NULL, fop_open = NULL,
     fop_close = NULL, fop_flush = NULL, fop_ioctl = NULL, fop_poll = NULL\<rparr>"

record iop_table =
  iop_lookup :: addr
  iop_create :: addr
  iop_unlink :: addr

record sop_table =
  sop_alloc_inode :: addr
  sop_destroy_inode :: addr
  sop_free_inode :: addr

record super_block =
  s_name :: addr
  s_op :: addr
  s_root :: addr

record dentry =
  d_name :: addr
  d_inode :: addr
  d_sb :: addr

record inode =
  i_mode :: u16
  i_uid :: u16
  i_gid :: u16
  i_op :: addr
  i_fop :: addr
  i_sb :: addr
  i_parent :: addr
  i_size :: u32
  i_mtime :: u32
  bytes_allocated :: u32
  file_begin :: addr

definition inode_zero :: inode where
  "inode_zero = \<lparr>i_mode = 0, i_uid = 0, i_gid = 0, i_op = NULL, i_fop = NULL, i_sb = NULL, i_parent = NULL,
     i_size = 0, i_mtime = 0, bytes_allocated = 0, file_begin = NULL\<rparr>"

section \<open>The kernel\<close>

text \<open>\<open>processes_base\<close> and \<open>process_bytes\<close> are the address of the process table and \<open>sizeof(struct Process)\<close>.\<close>

record kernel =
  k_heap :: allocator
  max_processes :: u32
  processes_count :: u32
  processes :: "process list"
  processes_base :: addr
  process_bytes :: u32
  current_process :: proc_ptr
  total_allocated_memory :: u32
  main_kernel_stack :: addr
  process_idle :: process
  current_index :: u32
  next_pid :: int
  signal_entries :: "addr \<Rightarrow> int entry option"
  wait_entries :: "addr \<Rightarrow> proc_ptr entry option"
  fdtables :: "addr \<Rightarrow> addr list option"
  children_tables :: "addr \<Rightarrow> proc_ptr list option"
  file_objects :: "addr \<Rightarrow> kfile option"
  process_pages :: "addr \<Rightarrow> process_page option"
  pipe_inodes :: "addr \<Rightarrow> pipe_inode option"
  inodes :: "addr \<Rightarrow> inode option"
  fop_tables :: "addr \<Rightarrow> fop_table option"
  iop_tables :: "addr \<Rightarrow> iop_table option"
  sop_tables :: "addr \<Rightarrow> sop_table option"
  super_blocks :: "addr \<Rightarrow> super_block option"
  dentries :: "addr \<Rightarrow> dentry option"
  strtok_ptr :: addr

definition proc_at :: "kernel \<Rightarrow> proc_ptr \<Rightarrow> process option" where
  "proc_at k p = (case p of
     PNull \<Rightarrow> None
   | PIdle \<Rightarrow> Some (process_idle k)
   | PSlot i \<Rightarrow> (if i < length (processes k) then Some (processes k ! i) else None))"

definition set_proc :: "kernel \<Rightarrow> proc_ptr \<Rightarrow> process \<Rightarrow> kernel" where
  "set_proc k p x = (case p of
     PNull \<Rightarrow> k
   | PIdle \<Rightarrow> k\<lparr>process_idle := x\<rparr>
   | PSlot i \<Rightarrow> k\<lparr>processes := (processes k)[i := x]\<rparr>)"

text \<open>An update of one field of a process, \<open>p->field = ...\<close>.\<close>

definition upd_proc :: "kernel \<Rightarrow> proc_ptr \<Rightarrow> (process \<Rightarrow> process) \<Rightarrow> kernel option" where
  "upd_proc k p f = do { x \<leftarrow> proc_at k p; Some (set_proc k p (f x)) }"

definition scheduler_get_current_process :: "kernel \<Rightarrow> proc_ptr" where
  "scheduler_get_current_process k = current_process k"

lemma proc_at_set_same [simp]: "proc_at k p = Some x \<Longrightarrow> proc_at (set_proc k p y) p = Some y"
  by (auto simp: proc_at_def set_proc_def split: proc_ptr.splits if_splits)

lemma proc_at_set_other [simp]: "p \<noteq> q \<Longrightarrow> proc_at (set_proc k p y) q = proc_at k q"
  by (cases p; cases q) (auto simp: proc_at_def set_proc_def nth_list_update)

lemma set_proc_fields [simp]:
  "k_heap (set_proc k p x) = k_heap k" "max_processes (set_proc k p x) = max_processes k"
  "processes_count (set_proc k p x) = processes_count k"
  "length (processes (set_proc k p x)) = length (processes k)"
  "current_process (set_proc k p x) = current_process k"
  "total_allocated_memory (set_proc k p x) = total_allocated_memory k"
  "main_kernel_stack (set_proc k p x) = main_kernel_stack k"
  "current_index (set_proc k p x) = current_index k" "next_pid (set_proc k p x) = next_pid k"
  "signal_entries (set_proc k p x) = signal_entries k" "wait_entries (set_proc k p x) = wait_entries k"
  "fdtables (set_proc k p x) = fdtables k" "children_tables (set_proc k p x) = children_tables k"
  "file_objects (set_proc k p x) = file_objects k" "process_pages (set_proc k p x) = process_pages k"
  "inodes (set_proc k p x) = inodes k" "fop_tables (set_proc k p x) = fop_tables k"
  "iop_tables (set_proc k p x) = iop_tables k" "sop_tables (set_proc k p x) = sop_tables k"
  "super_blocks (set_proc k p x) = super_blocks k" "dentries (set_proc k p x) = dentries k"
  "strtok_ptr (set_proc k p x) = strtok_ptr k"
  "pipe_inodes (set_proc k p x) = pipe_inodes k" "processes_base (set_proc k p x) = processes_base k"
  "process_bytes (set_proc k p x) = process_bytes k"
  by (simp_all add: set_proc_def split: proc_ptr.splits)

text \<open>Fields of the kernel that no process lookup reads.\<close>

lemma proc_at_update [simp]:
  "proc_at (k\<lparr>k_heap := a\<rparr>) p = proc_at k p" "proc_at (k\<lparr>signal_entries := b\<rparr>) p = proc_at k p"
  "proc_at (k\<lparr>wait_entries := c\<rparr>) p = proc_at k p" "proc_at (k\<lparr>current_process := d\<rparr>) p = proc_at k p"
  "proc_at (k\<lparr>current_index := e\<rparr>) p = proc_at k p" "proc_at (k\<lparr>fdtables := f\<rparr>) p = proc_at k p"
  "proc_at (k\<lparr>children_tables := g\<rparr>) p = proc_at k p" "proc_at (k\<lparr>file_objects := h\<rparr>) p = proc_at k p"
  "proc_at (k\<lparr>total_allocated_memory := t\<rparr>) p = proc_at k p"
  "proc_at (k\<lparr>process_pages := pp\<rparr>) p = proc_at k p" "proc_at (k\<lparr>pipe_inodes := pi\<rparr>) p = proc_at k p"
  "proc_at (k\<lparr>main_kernel_stack := ms\<rparr>) p = proc_at k p"
  "proc_at (k\<lparr>inodes := is\<rparr>) p = proc_at k p" "proc_at (k\<lparr>fop_tables := ft\<rparr>) p = proc_at k p"
  "proc_at (k\<lparr>strtok_ptr := sp\<rparr>) p = proc_at k p"
  "proc_at (k\<lparr>processes_count := n\<rparr>) p = proc_at k p" "proc_at (k\<lparr>next_pid := np\<rparr>) p = proc_at k p"
  by (simp_all add: proc_at_def split: proc_ptr.splits)

end
