(* ===== verification/Signal.thy ===== *)
theory Signal
  imports Kernel_State
begin

text \<open>
  Signals, \<open>src/kernel/signal.c\<close>: the queue of pending signals of a process, delivery
  (\<open>signal_notify\<close>, with the process's mask), and dispatch to the handler. \<open>handle_pending_signal\<close> ends in
  \<open>sys_exit\<close> for the terminating action; that call is a value of its result here, and
  \<open>context_switch\<close> in theory \<open>Proc\<close> performs it. The frame that a handler starts on is built by
  \<open>create_process_stack_frame\<close> of \<open>src/kernel/ctx.S\<close>.
\<close>

section \<open>The signal queue\<close>

type_synonym signal_queue_entry = "int entry"

definition add_to_signal_queue :: "int kqueue \<Rightarrow> int \<Rightarrow> int kqueue option" where
  "add_to_signal_queue q signal = do {
     (heap, new_entry) \<leftarrow> kmalloc (qheap q) 8;
     require (new_entry \<noteq> NULL);
     let h = (qentries q)(new_entry \<mapsto> \<lparr>item = signal, next_entry = NULL\<rparr>);
     (if qhead q = NULL then Some \<lparr>qheap = heap, qentries = h, qhead = new_entry\<rparr>
      else do {
        entry \<leftarrow> entry_last h (qhead q);
        e \<leftarrow> deref h entry;
        Some \<lparr>qheap = heap, qentries = h(entry \<mapsto> e\<lparr>next_entry := new_entry\<rparr>), qhead = qhead q\<rparr>
      })
   }"

definition pop_from_signal_queue :: "int kqueue \<Rightarrow> (int kqueue \<times> int) option" where
  "pop_from_signal_queue q =
     (if qhead q = NULL then Some (q, - 1)
      else do {
        old_head \<leftarrow> deref (qentries q) (qhead q);
        heap \<leftarrow> kfree (qheap q) (qhead q);
        Some (q\<lparr>qheap := heap, qhead := next_entry old_head\<rparr>, item old_head)
      })"

definition top_from_signal_queue :: "int kqueue \<Rightarrow> int option" where
  "top_from_signal_queue q = do { e \<leftarrow> deref (qentries q) (qhead q); Some (item e) }"

partial_function (option) deallocate_signal_queue :: "int kqueue \<Rightarrow> int kqueue option" where
  "deallocate_signal_queue q =
     (if qhead q \<noteq> NULL
      then do { (q, _) \<leftarrow> pop_from_signal_queue q; deallocate_signal_queue q }
      else Some q)"

declare deallocate_signal_queue.simps [simp del] deallocate_signal_queue.simps [code]

section \<open>Signals of a process\<close>

definition signal_queue :: "kernel \<Rightarrow> process \<Rightarrow> int kqueue" where
  "signal_queue k x = \<lparr>qheap = k_heap k, qentries = signal_entries k, qhead = pending_signals x\<rparr>"

definition put_signal_queue :: "kernel \<Rightarrow> proc_ptr \<Rightarrow> int kqueue \<Rightarrow> kernel option" where
  "put_signal_queue k p q =
     upd_proc (k\<lparr>k_heap := qheap q, signal_entries := qentries q\<rparr>) p (pending_signals_update (\<lambda>_. qhead q))"

definition init_default_sighandlers :: "process \<Rightarrow> process" where
  "init_default_sighandlers x = x\<lparr>sighandlers := (sighandlers x)
     [nat SIGTERM := HTerminate, nat SIGKILL := HTerminate, nat SIGINT := HTerminate,
      nat SIGHUP := HTerminate, nat SIGCHLD := HIgnore]\<rparr>"

definition signal_notify :: "kernel \<Rightarrow> proc_ptr \<Rightarrow> int \<Rightarrow> kernel option" where
  "signal_notify k p sig = do {
     x \<leftarrow> proc_at k p;
     (if signal_mask x AND push_bit (nat sig) 1 = 0
      then do {
        q \<leftarrow> add_to_signal_queue (signal_queue k x) sig;
        put_signal_queue k p q
      }
      else Some k)
   }"

definition get_pending_signal :: "kernel \<Rightarrow> (kernel \<times> int) option" where
  "get_pending_signal k = do {
     let p = scheduler_get_current_process k;
     x \<leftarrow> proc_at k p;
     (if pending_signals x \<noteq> NULL
      then do {
        (q, sig) \<leftarrow> pop_from_signal_queue (signal_queue k x);
        k \<leftarrow> put_signal_queue k p q;
        Some (k, sig)
      }
      else Some (k, - 1))
   }"

text \<open>
  The frame that \<open>create_process_stack_frame\<close> writes below a stack pointer: the exception return
  code, CONTROL, the return address, the program counter and the initial xPSR.
\<close>

definition create_process_stack_frame :: "mem \<Rightarrow> addr \<Rightarrow> addr \<Rightarrow> addr \<Rightarrow> u32 \<Rightarrow> mem \<times> addr" where
  "create_process_stack_frame m sp lr pc exc_return =
     (let sp = sp - 72;
          m = store32 m sp exc_return;
          m = store32 m (sp + 4) 3;
          m = store32 m (sp + 60) lr;
          m = store32 m (sp + 64) pc;
          m = store32 m (sp + 68) 0x01000000
      in (m, sp))"

definition EXC_RETURN_THREAD_PSP_CODE :: u32 where
  "EXC_RETURN_THREAD_PSP_CODE = 0xfffffffd"

text \<open>What \<open>handle_pending_signal\<close> does: return false or true, or call \<open>sys_exit\<close> with a status.\<close>

datatype signal_action = Not_Handled | Handled | Call_Exit int

text \<open>\<open>sigreturn\<close> is the address of the user-mode trampoline.\<close>

definition handle_pending_signal :: "addr \<Rightarrow> kernel \<Rightarrow> int \<Rightarrow> (kernel \<times> signal_action) option" where
  "handle_pending_signal sigreturn k pending_signal = do {
     let p = scheduler_get_current_process k;
     x \<leftarrow> proc_at k p;
     (if pending_signal < 0 \<or> 32 \<le> pending_signal then Some (k, Not_Handled)
      else (case sighandlers x ! nat pending_signal of
         HNone \<Rightarrow> Some (k, Not_Handled)
       | HTerminate \<Rightarrow> Some (k, Call_Exit (128 + pending_signal))
       | HIgnore \<Rightarrow> Some (k, Not_Handled)
       | HUser h \<Rightarrow>
           (let (m, sp) = create_process_stack_frame (contents (k_heap k)) (pstack x) sigreturn h
                  EXC_RETURN_THREAD_PSP_CODE;
                m = store32 m (sp + 40) (word_of_int pending_signal);
                k = set_proc k p (x\<lparr>signal_handled := True, pstack := sp\<rparr>)
            in Some (k\<lparr>k_heap := (k_heap k)\<lparr>contents := m\<rparr>\<rparr>, Handled))))
   }"

text \<open>\<open>sys_sigreturn\<close> up to its context switch: \<open>psp\<close> is the process stack pointer register.\<close>

definition sys_sigreturn_resume :: "kernel \<Rightarrow> addr \<Rightarrow> kernel option" where
  "sys_sigreturn_resume k psp =
     upd_proc k (scheduler_get_current_process k)
       (\<lambda>x. x\<lparr>pstack := psp + 40, signal_handled := False, pstate := READY\<rparr>)"

definition sys_signal :: "kernel \<Rightarrow> int \<Rightarrow> sighandler \<Rightarrow> (kernel \<times> sighandler) option" where
  "sys_signal k signum handler = do {
     let p = scheduler_get_current_process k;
     x \<leftarrow> proc_at k p;
     (if signum < 0 \<or> 32 \<le> signum then Some (k, HNone)
      else Some (set_proc k p (x\<lparr>sighandlers := (sighandlers x)[nat signum := handler]\<rparr>),
                 sighandlers x ! nat signum))
   }"

section \<open>The queue is a FIFO\<close>

section \<open>Pending signals of all processes\<close>

lemma add_to_signal_queue_eq: "add_to_signal_queue q s = kqueue_append q s"
  by (simp add: add_to_signal_queue_def kqueue_append_def)

lemma pop_from_signal_queue_eq: "qhead q \<noteq> NULL \<Longrightarrow> pop_from_signal_queue q = kqueue_pop q"
  by (simp add: pop_from_signal_queue_def kqueue_pop_def)

text \<open>
  \<open>Q p\<close> lists the pending signals of process \<open>p\<close> with the addresses of their entries. The queues
  of different processes share no entry.
\<close>

definition sig_inv :: "kernel \<Rightarrow> block list \<Rightarrow> (proc_ptr \<Rightarrow> (addr \<times> int) list) \<Rightarrow> bool" where
  "sig_inv k bs Q \<longleftrightarrow> heap_inv (k_heap k) bs \<and>
     (\<forall>p x. proc_at k p = Some x \<longrightarrow> kqueue_inv (signal_queue k x) bs (Q p)) \<and>
     (\<forall>p q. p \<noteq> q \<longrightarrow> set (map fst (Q p)) \<inter> set (map fst (Q q)) = {}) \<and>
     (\<forall>p. proc_at k p = None \<longrightarrow> Q p = [])"

text \<open>Process \<open>q\<close> differs from before in its pending signals only.\<close>

definition only_pending_changed :: "kernel \<Rightarrow> kernel \<Rightarrow> bool" where
  "only_pending_changed k k' \<longleftrightarrow> (\<forall>q. map_option (pending_signals_update (\<lambda>_. NULL)) (proc_at k' q) =
     map_option (pending_signals_update (\<lambda>_. NULL)) (proc_at k q)) \<and>
     current_process k' = current_process k"

lemma signal_queue_sel [simp]:
  "qheap (signal_queue k x) = k_heap k" "qentries (signal_queue k x) = signal_entries k"
  "qhead (signal_queue k x) = pending_signals x"
  by (simp_all add: signal_queue_def)

lemma put_signal_queue_inv:
  assumes inv: "sig_inv k bs Q" and p: "proc_at k p = Some x"
    and q: "kqueue_inv q bs' es" and live: "live_ptrs bs' \<supseteq> live_ptrs bs - D"
    and D: "\<And>r. r \<noteq> p \<Longrightarrow> D \<inter> set (map fst (Q r)) = {}"
    and frame: "\<And>r a. r \<noteq> p \<Longrightarrow> a \<in> set (map fst (Q r)) \<Longrightarrow> qentries q a = signal_entries k a"
    and es: "\<And>r. r \<noteq> p \<Longrightarrow> set (map fst es) \<inter> set (map fst (Q r)) = {}"
  shows "\<exists>k'. put_signal_queue k p q = Some k' \<and> sig_inv k' bs' (Q(p := es)) \<and> only_pending_changed k k' \<and>
    k_heap k' = qheap q"
proof -
  let ?k = "k\<lparr>k_heap := qheap q, signal_entries := qentries q\<rparr>"
  let ?x = "x\<lparr>pending_signals := qhead q\<rparr>"
  let ?k' = "set_proc ?k p ?x"
  have pk: "proc_at ?k p = Some x" using p by simp
  have put: "put_signal_queue k p q = Some ?k'"
    using pk by (simp add: put_signal_queue_def upd_proc_def)
  have other: "proc_at ?k' r = (if r = p then Some ?x else proc_at k r)" for r
    using pk by (cases "r = p") simp_all
  have "kqueue_inv (signal_queue ?k' y) bs' ((Q(p := es)) r)" if "proc_at ?k' r = Some y" for r y
  proof (cases "r = p")
    case True
    then have y: "y = ?x" using that other [of r] by (metis option.inject)
    have "kqueue_inv (signal_queue ?k' ?x) bs' es" using q by (simp add: kqueue_inv_def)
    then show ?thesis unfolding y using True by simp
  next
    case False
    then have y: "proc_at k r = Some y" using that other by simp
    then have old: "kqueue_inv (signal_queue k y) bs (Q r)" using inv by (simp add: sig_inv_def)
    have "entries (qentries q) (pending_signals y) (Q r)"
      using entries_cong old frame [OF False] by (fastforce simp: kqueue_inv_def)
    moreover have "set (map fst (Q r)) \<subseteq> live_ptrs bs'"
    proof -
      have "set (map fst (Q r)) \<subseteq> live_ptrs bs" using old unfolding kqueue_inv_def by blast
      then show ?thesis using live D [OF False] by blast
    qed
    ultimately show ?thesis using old q False by (simp add: kqueue_inv_def)
  qed
  moreover have "(Q(p := es)) r = []" if "proc_at ?k' r = None" for r
    using that other inv by (auto simp: sig_inv_def split: if_splits)
  moreover have "set (map fst ((Q(p := es)) r)) \<inter> set (map fst ((Q(p := es)) r')) = {}" if "r \<noteq> r'" for r r'
    using that inv es [of r] es [of r'] by (auto simp: sig_inv_def)
  ultimately have "sig_inv ?k' bs' (Q(p := es))"
    using q unfolding sig_inv_def by (simp add: kqueue_inv_def)
  moreover have "only_pending_changed k ?k'"
    using other p by (simp add: only_pending_changed_def)
  ultimately show ?thesis using put by simp
qed

text \<open>Delivery appends the signal to the queue of its target, unless the mask of the process blocks it.\<close>

lemma signal_notify_appends:
  assumes inv: "sig_inv k bs Q" and p: "proc_at k p = Some x"
    and mask: "signal_mask x AND push_bit (nat sig) 1 = 0" and room: "kmalloc_room (k_heap k) bs 8"
  shows "\<exists>k' bs' a. signal_notify k p sig = Some k' \<and> sig_inv k' bs' (Q(p := Q p @ [(a, sig)])) \<and>
    only_pending_changed k k' \<and> live_ptrs bs' = insert a (live_ptrs bs)"
proof -
  have q: "kqueue_inv (signal_queue k x) bs (Q p)" using inv p by (simp add: sig_inv_def)
  obtain q' bs' a where a: "kqueue_append (signal_queue k x) sig = Some q'" "kqueue_inv q' bs' (Q p @ [(a, sig)])"
    "a \<notin> live_ptrs bs" "live_ptrs bs' = insert a (live_ptrs bs)"
    "\<forall>b. b \<notin> insert a (set (map fst (Q p))) \<longrightarrow> qentries q' b = signal_entries k b"
    using kqueue_append_adds [OF q, of sig] room unfolding signal_queue_sel by blast
  have live: "set (map fst (Q r)) \<subseteq> live_ptrs bs" for r
  proof (cases "proc_at k r")
    case None
    then have "Q r = []" using inv unfolding sig_inv_def by blast
    then show ?thesis by simp
  next
    case (Some y)
    then show ?thesis using inv unfolding sig_inv_def kqueue_inv_def by blast
  qed
  have disj: "set (map fst (Q p)) \<inter> set (map fst (Q r)) = {}" if "r \<noteq> p" for r
    using inv that unfolding sig_inv_def by blast
  have fr: "qentries q' b = signal_entries k b" if "r \<noteq> p" "b \<in> set (map fst (Q r))" for r b
  proof -
    have "b \<noteq> a" using a(3) live [of r] that(2) by blast
    moreover have "b \<notin> set (map fst (Q p))" using disj [OF that(1)] that(2) by blast
    ultimately show ?thesis using a(5) by simp
  qed
  have new: "set (map fst (Q p @ [(a, sig)])) \<inter> set (map fst (Q r)) = {}" if "r \<noteq> p" for r
  proof -
    have "a \<notin> set (map fst (Q r))" using a(3) live [of r] by blast
    then show ?thesis using disj [OF that] by simp
  qed
  have sub: "live_ptrs bs - {} \<subseteq> live_ptrs bs'" using a(4) by blast
  have "\<exists>k'. put_signal_queue k p q' = Some k' \<and> sig_inv k' bs' (Q(p := Q p @ [(a, sig)])) \<and>
    only_pending_changed k k' \<and> k_heap k' = qheap q'"
    by (rule put_signal_queue_inv [OF inv p a(2) sub]) (use fr new in blast)+
  then obtain k' where "put_signal_queue k p q' = Some k'" "sig_inv k' bs' (Q(p := Q p @ [(a, sig)]))"
    "only_pending_changed k k'" by blast
  moreover from this have "signal_notify k p sig = Some k'"
    using p mask a(1) by (simp add: signal_notify_def add_to_signal_queue_eq)
  ultimately show ?thesis using a(4) by blast
qed

lemma signal_notify_masked:
  "proc_at k p = Some x \<Longrightarrow> signal_mask x AND push_bit (nat sig) 1 \<noteq> 0 \<Longrightarrow> signal_notify k p sig = Some k"
  by (simp add: signal_notify_def)

text \<open>The scheduler takes the pending signals of the current process in order of their arrival.\<close>

lemma get_pending_signal_first:
  assumes inv: "sig_inv k bs Q" and Q: "Q (current_process k) = (a, sig) # es"
  shows "\<exists>k' bs'. get_pending_signal k = Some (k', sig) \<and> sig_inv k' bs' (Q(current_process k := es)) \<and>
    only_pending_changed k k' \<and> live_ptrs bs' = live_ptrs bs - {a}"
proof -
  let ?p = "current_process k"
  obtain x where p: "proc_at k ?p = Some x" using inv Q unfolding sig_inv_def by fastforce
  have "kqueue_inv (signal_queue k x) bs (Q ?p)" using inv p unfolding sig_inv_def by blast
  then have q: "kqueue_inv (signal_queue k x) bs ((a, sig) # es)" using Q by simp
  have hd: "pending_signals x \<noteq> NULL" using q by (auto simp: kqueue_inv_def)
  obtain q' bs' where q': "kqueue_pop (signal_queue k x) = Some (q', sig)" "kqueue_inv q' bs' es"
    "live_ptrs bs' = live_ptrs bs - {a}" "qentries q' = signal_entries k"
    using kqueue_pop_first [OF q] by auto
  have disj: "set (map fst (Q ?p)) \<inter> set (map fst (Q r)) = {}" if "r \<noteq> ?p" for r
    using inv that unfolding sig_inv_def by blast
  have "{a} \<inter> set (map fst (Q r)) = {}" "set (map fst es) \<inter> set (map fst (Q r)) = {}" if "r \<noteq> ?p" for r
    using disj [OF that] Q by auto
  then obtain k' where "put_signal_queue k ?p q' = Some k'" "sig_inv k' bs' (Q(?p := es))" "only_pending_changed k k'"
    using put_signal_queue_inv [OF inv p q'(2), of "{a}"] q'(3,4) by auto
  then show ?thesis
    using p hd q' by (auto simp: get_pending_signal_def scheduler_get_current_process_def
        pop_from_signal_queue_eq)
qed

lemma get_pending_signal_none:
  "proc_at k (current_process k) = Some x \<Longrightarrow> pending_signals x = NULL \<Longrightarrow>
    get_pending_signal k = Some (k, - 1)"
  by (simp add: get_pending_signal_def scheduler_get_current_process_def)

text \<open>Deallocation empties a queue, whatever its length.\<close>

lemma deallocate_signal_queue_empty:
  "kqueue_inv q bs es \<Longrightarrow> \<exists>q' bs'. deallocate_signal_queue q = Some q' \<and> kqueue_inv q' bs' [] \<and>
    live_ptrs bs' = live_ptrs bs - set (map fst es) \<and> qentries q' = qentries q"
proof (induction es arbitrary: q bs)
  case Nil
  then have "qhead q = NULL" by (auto simp: kqueue_inv_def)
  then show ?case using Nil by (subst deallocate_signal_queue.simps) auto
next
  case (Cons e es)
  obtain p s where e: "e = (p, s)" by fastforce
  have hd: "qhead q \<noteq> NULL" using Cons.prems e by (auto simp: kqueue_inv_def)
  obtain q1 bs1 where q1: "kqueue_pop q = Some (q1, s)" "kqueue_inv q1 bs1 es"
    "live_ptrs bs1 = live_ptrs bs - {p}" "qentries q1 = qentries q"
    using kqueue_pop_first [OF Cons.prems [unfolded e]] by blast
  obtain q2 bs2 where q2: "deallocate_signal_queue q1 = Some q2" "kqueue_inv q2 bs2 []"
    "live_ptrs bs2 = live_ptrs bs1 - set (map fst es)" "qentries q2 = qentries q1"
    using Cons.IH [OF q1(2)] by blast
  have "live_ptrs bs2 = live_ptrs bs - set (map fst (e # es))" using q1(3) q2(3) e by auto
  moreover have "deallocate_signal_queue q = Some q2"
    using hd q1(1) q2(1) by (subst deallocate_signal_queue.simps) (simp add: pop_from_signal_queue_eq)
  ultimately show ?case using q1(4) q2(2,4) by auto
qed

section \<open>Handler frames\<close>

lemma store32_frame:
  assumes "k + 4 \<le> n" and "n \<le> unat (x - sp)"
  shows "store32 m (sp + of_nat k) w x = m x"
proof -
  have "unat (x - sp - of_nat k) = unat (x - sp) - k" using assms by (intro unat_available) simp
  then have "4 \<le> unat (x - (sp + of_nat k))" using assms by (simp add: diff_diff_eq)
  then show ?thesis by (rule store32_out)
qed

text \<open>Reading one word of a frame under the stores to its other words.\<close>

lemma frame_words:
  assumes "j + 4 \<le> i \<or> i + 4 \<le> j" and "i < 2 ^ 31" and "j < 2 ^ 31"
  shows "load32 (store32 m (sp + of_nat j) w) (sp + of_nat i) = load32 m (sp + of_nat i)"
proof -
  have diff: "unat (of_nat a - of_nat b :: u32) \<ge> 4" if "b + 4 \<le> a \<or> a + 4 \<le> b" "a < 2 ^ 31" "b < 2 ^ 31" for a b
  proof (cases "b \<le> a")
    case True
    then show ?thesis
      using that unat_available [of b "of_nat a"] by (simp add: unat_of_nat_less)
  next
    case False
    then have "(of_nat a - of_nat b :: u32) = of_nat (2 ^ 32 - (b - a))"
      using that by (simp add: of_nat_diff)
    then show ?thesis using that False by (simp only:) (subst unat_of_nat_less, auto)
  qed
  show ?thesis
    using diff [of i j] diff [of j i] assms by (intro load32_store32_apart) (auto simp: algebra_simps)
qed


lemma create_process_stack_frame_words:
  assumes "create_process_stack_frame m sp lr pc exc = (m', sp')"
  shows "sp' = sp - 72" and "load32 m' sp' = exc" and "load32 m' (sp' + 60) = lr"
    and "load32 m' (sp' + 64) = pc" and "load32 m' (sp' + 68) = 0x01000000"
    and "72 \<le> unat (x - sp') \<Longrightarrow> m' x = m x"
proof -
  show sp: "sp' = sp - 72" using assms by (simp add: create_process_stack_frame_def Let_def)
  have m': "m' = store32 (store32 (store32 (store32 (store32 m (sp' + of_nat 0) exc) (sp' + of_nat 4) 3)
      (sp' + of_nat 60) lr) (sp' + of_nat 64) pc) (sp' + of_nat 68) 0x01000000"
    unfolding sp using assms by (auto simp add: create_process_stack_frame_def Let_def)
  have "load32 m' (sp' + of_nat 0) = exc"
    unfolding m' by (simp add: frame_words [where i = 0, simplified] del: of_nat_numeral)
  then show "load32 m' sp' = exc" by simp
  have "load32 m' (sp' + of_nat 60) = lr" unfolding m' by (simp add: frame_words del: of_nat_numeral)
  then show "load32 m' (sp' + 60) = lr" by simp
  have "load32 m' (sp' + of_nat 64) = pc" unfolding m' by (simp add: frame_words del: of_nat_numeral)
  then show "load32 m' (sp' + 64) = pc" by simp
  have "load32 m' (sp' + of_nat 68) = 0x01000000" unfolding m' by simp
  then show "load32 m' (sp' + 68) = 0x01000000" by simp
  show "72 \<le> unat (x - sp') \<Longrightarrow> m' x = m x"
    unfolding m' by (simp add: store32_frame [where n = 72] store32_frame [where n = 72 and k = 0, simplified] del: of_nat_numeral)
qed


section \<open>Properties\<close>

text \<open>A kernel with an empty heap and two processes, the first one running.\<close>

definition kernel_example :: kernel where
  "kernel_example = \<lparr>k_heap = heap_boot 0x20000000 0x20010000, max_processes = 20, processes_count = 2,
     processes = process_zero\<lparr>pid := 1, pstate := RUNNING, max_children_count := 19,
         stack_page_ptr := 0x20000800, pstack := 0x20001000, sighandlers := (replicate 32 HNone)[2 := HUser 0x10002000]\<rparr> #
       process_zero\<lparr>pid := 2, pstate := READY, parent := PSlot 0\<rparr> # replicate 18 process_zero,
     processes_base = 0x20002000, process_bytes = 256,
     current_process = PSlot 0, total_allocated_memory = 0, main_kernel_stack = 0x20080000,
     process_idle = process_zero\<lparr>pid := 0xffff\<rparr>,
     current_index = 1, next_pid = 3, signal_entries = (\<lambda>_. None), wait_entries = (\<lambda>_. None),
     fdtables = (\<lambda>_. None), children_tables = (\<lambda>_. None), file_objects = (\<lambda>_. None),
     process_pages = (\<lambda>_. None), pipe_inodes = (\<lambda>_. None),
     inodes = (\<lambda>_. None), fop_tables = (\<lambda>_. None), iop_tables = (\<lambda>_. None), sop_tables = (\<lambda>_. None),
     super_blocks = (\<lambda>_. None), dentries = (\<lambda>_. None), strtok_ptr = NULL\<rparr>"

lemma kernel_example_sel [simp]:
  "k_heap kernel_example = heap_boot 0x20000000 0x20010000" "current_process kernel_example = PSlot 0"
  by (simp_all add: kernel_example_def)

lemma kernel_example_current:
  "proc_at kernel_example (PSlot 0) = Some (process_zero\<lparr>pid := 1, pstate := RUNNING, max_children_count := 19,
         stack_page_ptr := 0x20000800, pstack := 0x20001000, sighandlers := (replicate 32 HNone)[2 := HUser 0x10002000]\<rparr>)"
  by (simp add: proc_at_def kernel_example_def)

lemma kernel_example_no_signals: "proc_at kernel_example p = Some x \<Longrightarrow> pending_signals x = NULL"
  by (auto simp: proc_at_def kernel_example_def process_zero_def nth_Cons' nth_append split: proc_ptr.splits if_splits)

lemma kernel_example_inv: "sig_inv kernel_example [] (\<lambda>_. [])"
  using kernel_example_no_signals heap_boot_inv [of "0x20000000" "0x20010000"]
  by (auto simp: sig_inv_def kqueue_inv_def)

lemma kernel_example_room: "kmalloc_room (heap_boot 0x20000000 0x20010000) [] 8"
  by (simp add: kmalloc_room_def heap_boot_def heap_top_def heap_used_def align_size_def)

text \<open>C14: Delivering a signal appends it to the pending queue of its target, or has no effect when the
  target masks it; the queues of all other processes and all other fields of every process keep their value.\<close>

theorem signal_notify_correct:
  assumes "sig_inv k bs Q" and "proc_at k p = Some x" and "kmalloc_room (k_heap k) bs 8"
  shows "\<exists>k' bs' Q'. signal_notify k p sig = Some k' \<and> sig_inv k' bs' Q' \<and> only_pending_changed k k' \<and>
    (\<forall>q. q \<noteq> p \<longrightarrow> Q' q = Q q) \<and>
    map snd (Q' p) = map snd (Q p) @ (if signal_mask x AND push_bit (nat sig) 1 = 0 then [sig] else [])"
proof (cases "signal_mask x AND push_bit (nat sig) 1 = 0")
  case True
  then obtain k' bs' a where "signal_notify k p sig = Some k'" "sig_inv k' bs' (Q(p := Q p @ [(a, sig)]))"
    "only_pending_changed k k'"
    using signal_notify_appends [OF assms(1,2) True assms(3)] by blast
  then show ?thesis using True by (intro exI [of _ k'] exI [of _ bs'] exI [of _ "Q(p := Q p @ [(a, sig)])"]) simp
next
  case False
  then have "signal_notify k p sig = Some k \<and> sig_inv k bs Q \<and> only_pending_changed k k"
    using signal_notify_masked [OF assms(2) False] assms(1) by (simp add: only_pending_changed_def)
  with False show ?thesis by auto
qed

theorem signal_notify_correct_witness:
  "\<exists>k' bs' Q'. signal_notify kernel_example (PSlot 0) SIGTERM = Some k' \<and> sig_inv k' bs' Q' \<and>
    map snd (Q' (PSlot 0)) = [SIGTERM]"
proof -
  let ?x = "process_zero\<lparr>pid := 1, pstate := RUNNING, max_children_count := 19,
         stack_page_ptr := 0x20000800, pstack := 0x20001000, sighandlers := (replicate 32 HNone)[2 := HUser 0x10002000]\<rparr>"
  have room: "kmalloc_room (k_heap kernel_example) [] 8" using kernel_example_room by simp
  from signal_notify_correct [OF kernel_example_inv kernel_example_current room, of SIGTERM]
  obtain k' bs' Q' where r: "signal_notify kernel_example (PSlot 0) SIGTERM = Some k'" "sig_inv k' bs' Q'"
    "map snd (Q' (PSlot 0)) = map snd ([] :: (addr \<times> int) list) @ (if signal_mask ?x AND push_bit (nat SIGTERM) 1 = 0 then [SIGTERM] else [])"
    by (elim exE conjE) (rule that; assumption)
  moreover have "signal_mask ?x AND push_bit (nat SIGTERM) 1 = 0" by (simp add: process_zero_def)
  ultimately have "map snd (Q' (PSlot 0)) = [SIGTERM]" by simp
  with r(1,2) show ?thesis by (intro exI [of _ k'] exI [of _ bs'] exI [of _ Q'] conjI)
qed

text \<open>\<open>get_pending_signal\<close> takes the oldest pending signal of the current process, and only it, or
  returns -1 and changes nothing when none is pending.\<close>

theorem get_pending_signal_correct:
  assumes "sig_inv k bs Q" and "proc_at k (current_process k) = Some x"
  shows "\<exists>k' bs' Q'. get_pending_signal k =
      Some (k', case Q (current_process k) of [] \<Rightarrow> - 1 | (a, sig) # es \<Rightarrow> sig) \<and>
    sig_inv k' bs' Q' \<and> only_pending_changed k k' \<and> Q' = Q(current_process k := tl (Q (current_process k)))"
proof (cases "Q (current_process k)")
  case Nil
  then have "pending_signals x = NULL" using assms unfolding sig_inv_def kqueue_inv_def by fastforce
  then have "get_pending_signal k = Some (k, - 1)" using get_pending_signal_none assms(2) by blast
  moreover have "Q = Q(current_process k := tl (Q (current_process k)))" using Nil by auto
  moreover have "only_pending_changed k k" by (simp add: only_pending_changed_def)
  ultimately show ?thesis using assms(1) Nil by (metis list.simps(4))
next
  case (Cons e es)
  obtain a s where e: "e = (a, s)" by fastforce
  from get_pending_signal_first [OF assms(1)] Cons e
  obtain k' bs' where "get_pending_signal k = Some (k', s)" "sig_inv k' bs' (Q(current_process k := es))"
    "only_pending_changed k k'" by blast
  then show ?thesis using Cons e by auto
qed

theorem get_pending_signal_correct_witness:
  "\<exists>k' k''. signal_notify kernel_example (PSlot 0) SIGTERM = Some k' \<and> get_pending_signal k' = Some (k'', SIGTERM)"
proof -
  obtain k' bs' a where k': "signal_notify kernel_example (PSlot 0) SIGTERM = Some k'"
    "sig_inv k' bs' ((\<lambda>_. [])(PSlot 0 := [] @ [(a, SIGTERM)]))" "only_pending_changed kernel_example k'"
    using signal_notify_appends [OF kernel_example_inv kernel_example_current, of SIGTERM] kernel_example_room
    by (auto simp: process_zero_def)
  have cur: "current_process k' = PSlot 0" using k'(3) by (simp add: only_pending_changed_def)
  have "proc_at k' (PSlot 0) \<noteq> None"
    using k'(3) kernel_example_current by (auto simp: only_pending_changed_def dest!: spec [of _ "PSlot 0"])
  then obtain x where "proc_at k' (current_process k') = Some x" using cur by auto
  from get_pending_signal_correct [OF k'(2) this] k'(1) cur show ?thesis by auto
qed



end
