(* ===== verification/Resources.thy ===== *)
theory Resources
  imports Signal
begin

text \<open>
  Wait queues, \<open>src/kernel/resources.c\<close>. A process that waits for a resource appends itself to the
  queue of the resource and gives up the processor until the condition holds; the interrupt handler
  that provides the resource makes the first process of the queue ready. The C function
  \<open>wait_event_interruptible\<close> is its two halves here, before and after the loop that tests the condition:
  each test that fails is one context switch, performed by theory \<open>Proc\<close>. The head of a wait queue is a variable of its
  owner, taken and returned; its address is never null at any call.
\<close>

section \<open>Operations\<close>

type_synonym wait_queue_entry = "proc_ptr entry"

definition wait_queue :: "kernel \<Rightarrow> addr \<Rightarrow> proc_ptr kqueue" where
  "wait_queue k wq = \<lparr>qheap = k_heap k, qentries = wait_entries k, qhead = wq\<rparr>"

definition put_wait_queue :: "kernel \<Rightarrow> proc_ptr kqueue \<Rightarrow> kernel" where
  "put_wait_queue k q = k\<lparr>k_heap := qheap q, wait_entries := qentries q\<rparr>"

definition add_to_wait_queue :: "kernel \<Rightarrow> addr \<Rightarrow> proc_ptr \<Rightarrow> (kernel \<times> addr) option" where
  "add_to_wait_queue k wq_head process = do {
     (heap, new_entry) \<leftarrow> kmalloc (k_heap k) 8;
     require (new_entry \<noteq> NULL);
     let k = k\<lparr>k_heap := heap, wait_entries := (wait_entries k)(new_entry \<mapsto> \<lparr>item = process, next_entry = NULL\<rparr>)\<rparr>;
     (if wq_head = NULL then Some (k, new_entry)
      else do {
        entry \<leftarrow> entry_last (wait_entries k) wq_head;
        e \<leftarrow> deref (wait_entries k) entry;
        let k = k\<lparr>wait_entries := (wait_entries k)(entry \<mapsto> e\<lparr>next_entry := new_entry\<rparr>)\<rparr>;
        k \<leftarrow> upd_proc k process (pstate_update (\<lambda>_. WAITING_FOR_RESOURCE));
        Some (k, wq_head)
      })
   }"

definition pop_from_wait_queue :: "kernel \<Rightarrow> addr \<Rightarrow> (kernel \<times> addr \<times> proc_ptr) option" where
  "pop_from_wait_queue k wq_head =
     (if wq_head = NULL then Some (k, wq_head, PNull)
      else do {
        old_head \<leftarrow> deref (wait_entries k) wq_head;
        x \<leftarrow> proc_at k (item old_head);
        (if stack_page_ptr x = NULL then Some (k, wq_head, PNull)
         else do {
           heap \<leftarrow> kfree (k_heap k) wq_head;
           Some (k\<lparr>k_heap := heap\<rparr>, next_entry old_head, item old_head)
         })
      })"

definition top_from_wait_queue :: "kernel \<Rightarrow> addr \<Rightarrow> proc_ptr option" where
  "top_from_wait_queue k wq_head =
     (if wq_head = NULL then Some PNull
      else do {
        e \<leftarrow> deref (wait_entries k) wq_head;
        x \<leftarrow> proc_at k (item e);
        Some (if stack_page_ptr x = NULL then PNull else item e)
      })"

definition wait_event_begin :: "kernel \<Rightarrow> addr \<Rightarrow> (kernel \<times> addr) option" where
  "wait_event_begin k wq_head = do {
     let process = scheduler_get_current_process k;
     (k, wq_head) \<leftarrow> add_to_wait_queue k wq_head process;
     k \<leftarrow> upd_proc k process (pstate_update (\<lambda>_. WAITING_FOR_RESOURCE));
     Some (k, wq_head)
   }"

definition wait_event_end :: "kernel \<Rightarrow> addr \<Rightarrow> (kernel \<times> addr) option" where
  "wait_event_end k wq_head = do {
     (k, wq_head, process) \<leftarrow> pop_from_wait_queue k wq_head;
     k \<leftarrow> upd_proc k process (pstate_update (\<lambda>_. READY));
     Some (k, wq_head)
   }"

definition wake_up_interruptible :: "kernel \<Rightarrow> addr \<Rightarrow> kernel option" where
  "wake_up_interruptible k wq_head = do {
     head_process \<leftarrow> top_from_wait_queue k wq_head;
     (if head_process \<noteq> PNull then upd_proc k head_process (pstate_update (\<lambda>_. READY)) else Some k)
   }"

section \<open>The queue of waiting processes\<close>

text \<open>The processes that wait at a queue, in order of arrival.\<close>

definition waiting :: "kernel \<Rightarrow> block list \<Rightarrow> addr \<Rightarrow> (addr \<times> proc_ptr) list \<Rightarrow> bool" where
  "waiting k bs wq es \<longleftrightarrow> kqueue_inv (wait_queue k wq) bs es"

text \<open>Only the states of the processes in \<open>P\<close> differ.\<close>

definition pstates_changed :: "proc_ptr set \<Rightarrow> kernel \<Rightarrow> kernel \<Rightarrow> bool" where
  "pstates_changed P k k' \<longleftrightarrow> current_process k' = current_process k \<and>
     (\<forall>p. p \<notin> P \<longrightarrow> proc_at k' p = proc_at k p) \<and>
     (\<forall>p. map_option (pstate_update (\<lambda>_. NEW)) (proc_at k' p) = map_option (pstate_update (\<lambda>_. NEW)) (proc_at k p))"

lemma upd_proc_simp: "proc_at k p = Some x \<Longrightarrow> upd_proc k p f = Some (set_proc k p (f x))"
  by (simp add: upd_proc_def)

lemma wait_queue_sel [simp]:
  "qheap (wait_queue k wq) = k_heap k" "qentries (wait_queue k wq) = wait_entries k"
  "qhead (wait_queue k wq) = wq"
  by (simp_all add: wait_queue_def)

lemma wait_queue_set_proc [simp]: "wait_queue (set_proc k p x) wq = wait_queue k wq"
  by (simp add: wait_queue_def)

lemma pstates_changed_set:
  "proc_at k p = Some x \<Longrightarrow> p \<in> P \<Longrightarrow> pstates_changed P k (set_proc k p (x\<lparr>pstate := s\<rparr>))"
proof -
  assume p: "proc_at k p = Some x" "p \<in> P"
  have "map_option (pstate_update (\<lambda>_. NEW)) (proc_at (set_proc k p (x\<lparr>pstate := s\<rparr>)) q) =
    map_option (pstate_update (\<lambda>_. NEW)) (proc_at k q)" for q
    using p by (cases "q = p") simp_all
  moreover have "proc_at (set_proc k p (x\<lparr>pstate := s\<rparr>)) q = proc_at k q" if "q \<notin> P" for q
    using p that by (cases "q = p") simp_all
  ultimately show ?thesis by (simp add: pstates_changed_def)
qed

lemma add_to_wait_queue_append:
  assumes "waiting k bs wq es" and "kmalloc_room (k_heap k) bs 8" and p: "proc_at k p = Some x"
  shows "\<exists>k' wq' bs' a. add_to_wait_queue k wq p = Some (k', wq') \<and> waiting k' bs' wq' (es @ [(a, p)]) \<and>
    live_ptrs bs' = insert a (live_ptrs bs) \<and>
    proc_at k' p = Some (if wq = NULL then x else x\<lparr>pstate := WAITING_FOR_RESOURCE\<rparr>) \<and>
    pstates_changed {p} k k'"
proof -
  obtain q' bs' a where q': "kqueue_append (wait_queue k wq) p = Some q'" "kqueue_inv q' bs' (es @ [(a, p)])"
    "live_ptrs bs' = insert a (live_ptrs bs)"
    using kqueue_append_adds [of "wait_queue k wq" bs es p] assms(1,2) by (auto simp: waiting_def)
  obtain heap n where km: "kmalloc (k_heap k) 8 = Some (heap, n)" "n \<noteq> NULL"
    using q'(1) by (auto simp: kqueue_append_def bind_eq_Some_conv split: if_splits)
  let ?k = "put_wait_queue k q'"
  let ?k' = "if wq = NULL then ?k else set_proc ?k p (x\<lparr>pstate := WAITING_FOR_RESOURCE\<rparr>)"
  have pk: "proc_at ?k q = proc_at k q" for q by (simp add: put_wait_queue_def)
  have "add_to_wait_queue k wq p = Some (?k', qhead q')"
    using q'(1) km pk p
    by (auto simp: add_to_wait_queue_def kqueue_append_def put_wait_queue_def upd_proc_def bind_eq_Some_conv
        Let_def split: if_splits)
  moreover have "wait_queue ?k' (qhead q') = q'" by (simp add: wait_queue_def put_wait_queue_def)
  then have "waiting ?k' bs' (qhead q') (es @ [(a, p)])" using q'(2) by (simp add: waiting_def)
  moreover have "pstates_changed {p} k ?k'"
  proof (cases "wq = NULL")
    case True
    then show ?thesis by (simp add: pstates_changed_def pk) (simp add: put_wait_queue_def)
  next
    case False
    have "pstates_changed {p} ?k (set_proc ?k p (x\<lparr>pstate := WAITING_FOR_RESOURCE\<rparr>))"
      using pk p by (intro pstates_changed_set) auto
    then show ?thesis using False by (simp add: pstates_changed_def pk) (simp add: put_wait_queue_def)
  qed
  moreover have "proc_at ?k' p = Some (if wq = NULL then x else x\<lparr>pstate := WAITING_FOR_RESOURCE\<rparr>)"
    using p pk by simp
  ultimately show ?thesis using q'(3) by blast
qed

lemma waiting_set_proc [simp]: "waiting (set_proc k p x) bs wq es = waiting k bs wq es"
  by (simp add: waiting_def)

lemma pop_from_wait_queue_first:
  assumes "waiting k bs wq ((a, p) # es)" and p: "proc_at k p = Some x" "stack_page_ptr x \<noteq> NULL"
  shows "\<exists>k' wq' bs'. pop_from_wait_queue k wq = Some (k', wq', p) \<and> waiting k' bs' wq' es \<and>
    live_ptrs bs' = live_ptrs bs - {a} \<and> pstates_changed {} k k'"
proof -
  have wq: "wq \<noteq> NULL" using assms(1) by (auto simp: waiting_def kqueue_inv_def)
  obtain q' bs' where q': "kqueue_pop (wait_queue k wq) = Some (q', p)" "kqueue_inv q' bs' es"
    "live_ptrs bs' = live_ptrs bs - {a}" "qentries q' = wait_entries k"
    using kqueue_pop_first [of "wait_queue k wq" bs a p es] assms(1) by (auto simp: waiting_def)
  obtain e heap where e: "deref (wait_entries k) wq = Some e" "kfree (k_heap k) wq = Some heap" "item e = p"
    "q' = (wait_queue k wq)\<lparr>qheap := heap, qhead := next_entry e\<rparr>"
    using q'(1) by (auto simp: kqueue_pop_def bind_eq_Some_conv)
  let ?k = "k\<lparr>k_heap := heap\<rparr>"
  have "pop_from_wait_queue k wq = Some (?k, next_entry e, p)"
    using wq e p by (simp add: pop_from_wait_queue_def)
  moreover have "wait_queue ?k (next_entry e) = q'" using e(4) by (simp add: wait_queue_def)
  then have "waiting ?k bs' (next_entry e) es" using q'(2) by (simp add: waiting_def)
  moreover have "pstates_changed {} k ?k" by (simp add: pstates_changed_def)
  ultimately show ?thesis using q'(3) by blast
qed

section \<open>Properties\<close>

text \<open>A process that starts to wait is appended to the queue behind every earlier waiter and is
  no longer ready; no other process is touched.\<close>

theorem wait_event_begin_last:
  assumes "waiting k bs wq es" and "kmalloc_room (k_heap k) bs 8" and "proc_at k (current_process k) = Some x"
  shows "\<exists>k' wq' bs' a. wait_event_begin k wq = Some (k', wq') \<and>
    waiting k' bs' wq' (es @ [(a, current_process k)]) \<and>
    proc_at k' (current_process k) = Some (x\<lparr>pstate := WAITING_FOR_RESOURCE\<rparr>) \<and>
    (\<forall>p. p \<noteq> current_process k \<longrightarrow> proc_at k' p = proc_at k p)"
proof -
  let ?c = "current_process k"
  obtain k1 wq' bs' a where k1: "add_to_wait_queue k wq ?c = Some (k1, wq')" "waiting k1 bs' wq' (es @ [(a, ?c)])"
    "proc_at k1 ?c = Some (if wq = NULL then x else x\<lparr>pstate := WAITING_FOR_RESOURCE\<rparr>)" "pstates_changed {?c} k k1"
    using add_to_wait_queue_append [OF assms] by blast
  define k2 where "k2 = set_proc k1 ?c (x\<lparr>pstate := WAITING_FOR_RESOURCE\<rparr>)"
  have "wait_event_begin k wq = Some (k2, wq')"
    using k1(1,3) by (simp add: wait_event_begin_def scheduler_get_current_process_def upd_proc_def k2_def)
  moreover have "waiting k2 bs' wq' (es @ [(a, ?c)])" using k1(2) by (simp add: k2_def)
  moreover have "proc_at k2 ?c = Some (x\<lparr>pstate := WAITING_FOR_RESOURCE\<rparr>)" using k1(3) by (simp add: k2_def)
  moreover have "proc_at k2 p = proc_at k p" if "p \<noteq> ?c" for p
    using that k1(4) by (simp add: k2_def pstates_changed_def)
  ultimately show ?thesis by blast
qed

text \<open>The process that leaves the wait releases the first waiter of the queue, whoever the caller
  is: the first waiter becomes ready and leaves the queue.\<close>

theorem wait_event_end_first:
  assumes "waiting k bs wq ((a, p) # es)" and "proc_at k p = Some x" and "stack_page_ptr x \<noteq> NULL"
  shows "\<exists>k' wq' bs'. wait_event_end k wq = Some (k', wq') \<and> waiting k' bs' wq' es \<and>
    proc_at k' p = Some (x\<lparr>pstate := READY\<rparr>) \<and> (\<forall>q. q \<noteq> p \<longrightarrow> proc_at k' q = proc_at k q)"
proof -
  obtain k1 wq' bs' where k1: "pop_from_wait_queue k wq = Some (k1, wq', p)" "waiting k1 bs' wq' es"
    "pstates_changed {} k k1"
    using pop_from_wait_queue_first [OF assms] by blast
  have pa: "proc_at k1 q = proc_at k q" for q using k1(3) by (simp add: pstates_changed_def)
  define k2 where "k2 = set_proc k1 p (x\<lparr>pstate := READY\<rparr>)"
  have "wait_event_end k wq = Some (k2, wq')"
    using k1(1) pa assms(2) by (simp add: wait_event_end_def upd_proc_def k2_def)
  moreover have "waiting k2 bs' wq' es" using k1(2) by (simp add: k2_def)
  moreover have "proc_at k2 p = Some (x\<lparr>pstate := READY\<rparr>)" using pa assms(2) by (simp add: k2_def)
  moreover have "proc_at k2 q = proc_at k q" if "q \<noteq> p" for q using that pa by (simp add: k2_def)
  ultimately show ?thesis by blast
qed


text \<open>The example kernel with its first process waiting, its entry in the second chunk of a heap.\<close>

definition kernel_waiting :: kernel where
  "kernel_waiting = kernel_example\<lparr>k_heap := heap_two,
     wait_entries := [0x20000044 \<mapsto> \<lparr>item = PSlot 0, next_entry = NULL\<rparr>]\<rparr>"

lemma kernel_waiting_queue:
  "waiting kernel_waiting ([] @ (0x20000000, 44) # [(0x20000038, 8)]) 0x20000044 [(0x20000044, PSlot 0)]"
  using heap_two_inv by (simp add: waiting_def kqueue_inv_def wait_queue_def kernel_waiting_def live_ptrs_def)

lemma kernel_waiting_proc [simp]: "proc_at kernel_waiting p = proc_at kernel_example p"
  by (simp add: kernel_waiting_def)

theorem wait_event_begin_last_witness:
  "\<exists>k' wq' bs' a. wait_event_begin kernel_example NULL = Some (k', wq') \<and> waiting k' bs' wq' [(a, PSlot 0)]"
proof -
  have "waiting kernel_example [] NULL []"
    using heap_boot_inv [of "0x20000000" "0x20010000"] by (simp add: waiting_def kqueue_inv_def wait_queue_def)
  from wait_event_begin_last [OF this] show ?thesis
    using kernel_example_room kernel_example_current by fastforce
qed

theorem wait_event_end_first_witness:
  "\<exists>k' wq' bs'. wait_event_end kernel_waiting 0x20000044 = Some (k', wq') \<and> waiting k' bs' wq' []"
  using wait_event_end_first [OF kernel_waiting_queue, unfolded kernel_waiting_proc, OF kernel_example_current] by auto


end
