(* ===== verification/Proc.thy ===== *)
theory Proc
  imports Resources
begin

text \<open>
  Processes and the scheduler, \<open>src/kernel/proc.c\<close>: the process table, the choice of the next
  process, context switches with signal delivery, creation, termination and reaping of processes,
  process groups and pipes. A switch to a process does not return; it is a value of \<open>switch\<close> that names the
  process and the mode in which it resumes. \<open>sys_wait\<close> is its two halves, before and after the switch that it may make.
  The behaviour of the \<open>close\<close> members of operation tables is the parameter \<open>close_op\<close>.
\<close>

section \<open>The process table\<close>

definition DEFAULT_PROCESS_STACK_SIZE :: u32 where "DEFAULT_PROCESS_STACK_SIZE = 2 * 1024"
definition DEFAULT_PROCESS_SP_OFFSET :: u32 where "DEFAULT_PROCESS_SP_OFFSET = 1024"
definition IDLE_PROCESS_STACK_SIZE :: u32 where "IDLE_PROCESS_STACK_SIZE = 1024"
definition IDLE_PROCESS_SP_OFFSET :: u32 where "IDLE_PROCESS_SP_OFFSET = 512"
definition MAX_OPEN_FILE_DESCRIPTORS :: nat where "MAX_OPEN_FILE_DESCRIPTORS = 8"
definition PID_IDLE :: int where "PID_IDLE = 0xffff"

text \<open>The first index of a list whose element satisfies a test, as the \<open>for\<close> loops with \<open>break\<close> find it.\<close>

fun first_index :: "('a \<Rightarrow> bool) \<Rightarrow> 'a list \<Rightarrow> nat option" where
  "first_index P [] = None"
| "first_index P (x # xs) = (if P x then Some 0 else map_option Suc (first_index P xs))"

definition scheduler_can_populate_process :: "kernel \<Rightarrow> bool" where
  "scheduler_can_populate_process k \<longleftrightarrow> processes_count k \<le> max_processes k"

definition scheduler_populate_process :: "kernel \<Rightarrow> process \<Rightarrow> kernel \<times> int" where
  "scheduler_populate_process k process =
     (if \<not> scheduler_can_populate_process k then (k, - ENOMEM)
      else (let k = (case first_index (\<lambda>x. x = process_zero) (take (unat (max_processes k)) (processes k)) of
                       Some i \<Rightarrow> k\<lparr>processes := (processes k)[i := process]\<rparr>
                     | None \<Rightarrow> k)
            in (k\<lparr>processes_count := processes_count k + 1,
                  total_allocated_memory := total_allocated_memory k + allocated_memory process\<rparr>, 0)))"

definition scheduler_get_process_by_pid :: "kernel \<Rightarrow> int \<Rightarrow> proc_ptr" where
  "scheduler_get_process_by_pid k p =
     (case first_index (\<lambda>x. pid x = p) (take (unat (max_processes k)) (processes k)) of
        Some i \<Rightarrow> PSlot i
      | None \<Rightarrow> PNull)"

definition scheduler_evaporate_process :: "kernel \<Rightarrow> int \<Rightarrow> kernel \<times> int" where
  "scheduler_evaporate_process k p =
     (let process = scheduler_get_process_by_pid k p
      in if process \<noteq> PNull
         then ((set_proc k process process_zero)\<lparr>processes_count := processes_count k - 1\<rparr>, 0)
         else (k, - 1))"

section \<open>The choice of the next process\<close>

text \<open>
  The \<open>do\<close> loop of \<open>scheduler_get_next_process\<close>; the first argument counts the iterations that are
  left before \<open>max_depth_counter\<close> reaches twice the size of the table.
\<close>

fun scheduler_next_loop :: "nat \<Rightarrow> kernel \<Rightarrow> u32 \<Rightarrow> (u32 \<times> proc_ptr) option" where
  "scheduler_next_loop 0 k index = None"
| "scheduler_next_loop (Suc left) k index =
     (let index = index + 1;
          index = (if index = max_processes k then 0 else index)
      in if left = 0 then Some (index, PIdle)
         else do {
           x \<leftarrow> proc_at k (PSlot (unat index));
           (if pending_signals x \<noteq> NULL then Some (index, PSlot (unat index))
            else if pstate x \<noteq> READY then scheduler_next_loop left k index
            else Some (index, PSlot (unat index)))
         })"

definition scheduler_get_next_process :: "kernel \<Rightarrow> (kernel \<times> proc_ptr) option" where
  "scheduler_get_next_process k =
     (if processes_count k = 0 then Some (k, PNull)
      else if processes_count k = 1 then Some (k, current_process k)
      else do {
        (index, p) \<leftarrow> scheduler_next_loop (2 * unat (max_processes k)) k (current_index k);
        Some (k\<lparr>current_index := index\<rparr>, p)
      })"

definition scheduler_update_process :: "kernel \<Rightarrow> addr \<Rightarrow> addr \<Rightarrow> kernel option" where
  "scheduler_update_process k psp msp =
     upd_proc k (current_process k) (\<lambda>x. x\<lparr>pstate := if kernel_mode x then pstate x else READY,
       pstack := psp, kstack := msp\<rparr>)"

definition is_in_kernel_mode :: "kernel \<Rightarrow> bool option" where
  "is_in_kernel_mode k = map_option kernel_mode (proc_at k (current_process k))"

definition set_kernel_mode_flag :: "kernel \<Rightarrow> kernel option" where
  "set_kernel_mode_flag k = upd_proc k (current_process k) (kernel_mode_update (\<lambda>_. True))"

definition reset_kernel_mode_flag :: "kernel \<Rightarrow> kernel option" where
  "reset_kernel_mode_flag k = upd_proc k (current_process k) (kernel_mode_update (\<lambda>_. False))"

section \<open>Termination\<close>

definition kfree_k :: "kernel \<Rightarrow> addr \<Rightarrow> kernel option" where
  "kfree_k k p = do { heap \<leftarrow> kfree (k_heap k) p; Some (k\<lparr>k_heap := heap\<rparr>) }"

definition kmalloc_k :: "kernel \<Rightarrow> u32 \<Rightarrow> (kernel \<times> addr) option" where
  "kmalloc_k k sz = do { (heap, p) \<leftarrow> kmalloc (k_heap k) sz; Some (k\<lparr>k_heap := heap\<rparr>, p) }"

text \<open>A loop over the elements of an array, each step an operation of the kernel.\<close>

fun for_each :: "('a \<Rightarrow> 's \<Rightarrow> 's option) \<Rightarrow> 'a list \<Rightarrow> 's \<Rightarrow> 's option" where
  "for_each f [] s = Some s"
| "for_each f (x # xs) s = do { s \<leftarrow> f x s; for_each f xs s }"

text \<open>What a \<open>close\<close> member does, by the address of the function.\<close>

type_synonym close_ops = "addr \<Rightarrow> addr \<Rightarrow> kernel \<Rightarrow> kernel option"

definition pipe_addr :: "addr \<Rightarrow> nat \<Rightarrow> addr" where
  "pipe_addr base i = base + of_nat i * 92"

definition close_all_pipes :: "kernel \<Rightarrow> process \<Rightarrow> kernel option" where
  "close_all_pipes k x = for_each (\<lambda>i k. do {
       p \<leftarrow> pipe_inodes k (pipe_addr (unnamed_pipes x) i);
       k \<leftarrow> kfree_k k (pipe_ptr p);
       k \<leftarrow> kfree_k k (pipe_fop p);
       Some (k\<lparr>pipe_inodes := (pipe_inodes k)
         (pipe_addr (unnamed_pipes x) i \<mapsto> p\<lparr>pipe_ptr := NULL, pipe_fop := NULL\<rparr>)\<rparr>)
     }) [0..<nat (unnamed_pipes_count x)] k"

definition close_file :: "close_ops \<Rightarrow> int \<Rightarrow> addr \<Rightarrow> kernel \<Rightarrow> kernel option" where
  "close_file close_op owner file k = do {
     f \<leftarrow> deref (file_objects k) file;
     (if f_owner f = owner
      then do {
        ops \<leftarrow> deref (fop_tables k) (f_op f);
        k \<leftarrow> (if fop_close ops \<noteq> NULL then close_op (fop_close ops) file k else Some k);
        kfree_k k file
      }
      else Some k)
   }"

definition table_prefix :: "'a list option \<Rightarrow> nat \<Rightarrow> 'a list option" where
  "table_prefix t n = (case t of None \<Rightarrow> (if n = 0 then Some [] else None)
     | Some xs \<Rightarrow> (if n \<le> length xs then Some (take n xs) else None))"

definition sys_kill :: "close_ops \<Rightarrow> kernel \<Rightarrow> int \<Rightarrow> int \<Rightarrow> kernel option" where
  "sys_kill close_op k pid' sig =
     (let process = scheduler_get_process_by_pid k pid'
      in if process = PNull then Some k
      else if sig = SIGTERM then signal_notify k process SIGTERM
      else do {
        x \<leftarrow> proc_at k process;
        k \<leftarrow> signal_notify k (parent x) SIGCHLD;
        kids \<leftarrow> table_prefix (children_tables k (children x)) (unat (children_count x));
        k \<leftarrow> for_each (\<lambda>c k. signal_notify k c SIGHUP) kids k;
        files \<leftarrow> table_prefix (fdtables k (fdtable x)) (unat (files_count x));
        k \<leftarrow> for_each (close_file close_op (pid x)) files k;
        k \<leftarrow> (if ppage x \<noteq> NULL
             then do {
               pp \<leftarrow> process_pages k (ppage x);
               k \<leftarrow> kfree_k k (page_ptr pp);
               k \<leftarrow> kfree_k k (static_base pp);
               kfree_k k (ppage x)
             }
             else Some k);
        k \<leftarrow> for_each (\<lambda>h k. if h \<noteq> NULL then kfree_k k h else Some k) (heap_pages x) k;
        k \<leftarrow> (if unnamed_pipes x \<noteq> NULL
             then do { k \<leftarrow> close_all_pipes k x; kfree_k k (unnamed_pipes x) }
             else Some k);
        k \<leftarrow> kfree_k k (fdtable x);
        k \<leftarrow> kfree_k k (children x);
        x \<leftarrow> proc_at k process;
        q \<leftarrow> deallocate_signal_queue (signal_queue k x);
        k \<leftarrow> put_signal_queue k process q;
        k \<leftarrow> kfree_k k (stack_page_ptr x);
        let k = k\<lparr>total_allocated_memory := total_allocated_memory k - allocated_memory x\<rparr>;
        upd_proc k process (\<lambda>x. x\<lparr>allocated_memory := 0, pstate := TERMINATED\<rparr>)
      })"

text \<open>\<open>sys_exit\<close> up to its context switch.\<close>

definition sys_exit_state :: "close_ops \<Rightarrow> kernel \<Rightarrow> int \<Rightarrow> kernel option" where
  "sys_exit_state close_op k status = do {
     let p = current_process k;
     k \<leftarrow> upd_proc k p (\<lambda>x. x\<lparr>pstate := TERMINATED, exit_code := status\<rparr>);
     x \<leftarrow> proc_at k p;
     sys_kill close_op k (pid x) SIGKILL
   }"

section \<open>Context switches\<close>

datatype switch = To_User proc_ptr | To_Kernel proc_ptr

partial_function (option) context_switch :: "close_ops \<Rightarrow> addr \<Rightarrow> kernel \<Rightarrow> (kernel \<times> switch) option" where
  "context_switch close_op sigreturn k = do {
     (k, p) \<leftarrow> scheduler_get_next_process k;
     let k = k\<lparr>current_process := p\<rparr>;
     x \<leftarrow> proc_at k p;
     (if signal_handled x
      then Some (set_proc k p (x\<lparr>pstate := RUNNING\<rparr>), To_User p)
      else do {
        (k, sig) \<leftarrow> get_pending_signal k;
        x \<leftarrow> proc_at k p;
        (if sig = SIGCHLD \<and> pstate x = WAITING_FOR_CHILD_EXIT
         then Some (set_proc k p (x\<lparr>pstate := READY\<rparr>), To_Kernel p)
         else do {
           (k, action) \<leftarrow> (if 0 \<le> sig then handle_pending_signal sigreturn k sig else Some (k, Not_Handled));
           (case action of
              Call_Exit status \<Rightarrow> do {
                k \<leftarrow> sys_exit_state close_op k status;
                context_switch close_op sigreturn k
              }
            | Handled \<Rightarrow> do {
                x \<leftarrow> proc_at k p;
                Some (set_proc k p (x\<lparr>pstate := RUNNING\<rparr>), To_User p)
              }
            | Not_Handled \<Rightarrow> do {
                x \<leftarrow> proc_at k p;
                (if kernel_mode x then Some (k, To_Kernel p)
                 else Some (set_proc k p (x\<lparr>pstate := RUNNING\<rparr>), To_User p))
              })
         })
      })
   }"

declare context_switch.simps [simp del] context_switch.simps [code]

definition sys_exit :: "close_ops \<Rightarrow> addr \<Rightarrow> kernel \<Rightarrow> int \<Rightarrow> (kernel \<times> switch) option" where
  "sys_exit close_op sigreturn k status = do {
     k \<leftarrow> sys_exit_state close_op k status;
     context_switch close_op sigreturn k
   }"

section \<open>Process creation\<close>

text \<open>
  The loop of \<open>process_stack_init_argv\<close>: the words of \<open>argv\<close>, its null pointer included, from the last
  one at \<open>pstack\<close> downwards.
\<close>

fun argv_loop :: "mem \<Rightarrow> addr \<Rightarrow> nat \<Rightarrow> addr list \<Rightarrow> mem" where
  "argv_loop m sp i [] = m"
| "argv_loop m sp i (a # as) = argv_loop (store32 m (sp - of_nat i * 4) a) sp (i + 1) as"

definition process_stack_init_argv :: "mem \<Rightarrow> addr \<Rightarrow> addr list option \<Rightarrow> mem \<times> u32" where
  "process_stack_init_argv m sp argv =
     (case argv of
        None \<Rightarrow> (m, 0)
      | Some args \<Rightarrow> (argv_loop m sp 0 (rev (args @ [NULL])), of_nat (length args + 1) * 4))"

text \<open>The stack of a new process in its page; \<open>exit_fn\<close> is the address of the user-mode \<open>exit\<close>.\<close>

definition init_process_stack ::
    "mem \<Rightarrow> addr \<Rightarrow> addr \<Rightarrow> addr \<Rightarrow> addr \<Rightarrow> addr list option \<Rightarrow> mem \<times> addr" where
  "init_process_stack m exit_fn process_page entry_ptr static_base_ptr argv =
     (let pstack_begin = process_page + DEFAULT_PROCESS_SP_OFFSET - 4;
          (m, offset) = process_stack_init_argv m pstack_begin argv;
          (m, sp) = create_process_stack_frame m (pstack_begin - offset) exit_fn entry_ptr
                          EXC_RETURN_THREAD_PSP_CODE;
          m = store32 m (pstack_begin - offset - 28) (pstack_begin - offset + 4);
          m = store32 m (pstack_begin - offset - 32) ((offset - 4) div 4);
          m = store32 m (sp + 28) static_base_ptr
      in (m, sp))"

definition create_blank_process ::
    "addr \<Rightarrow> kernel \<Rightarrow> addr \<Rightarrow> addr \<Rightarrow> addr list option \<Rightarrow> (kernel \<times> proc_ptr) option" where
  "create_blank_process exit_fn k entry_ptr static_base_ptr argv =
     (if \<not> scheduler_can_populate_process k then Some (k, PNull)
      else do {
        (k, process_page) \<leftarrow> kmalloc_k k DEFAULT_PROCESS_STACK_SIZE;
        (if process_page = NULL then Some (k, PNull)
         else do {
           args \<leftarrow> argv;
           let (m, sp) = init_process_stack (contents (k_heap k)) exit_fn process_page entry_ptr
                           static_base_ptr argv;
           let k = k\<lparr>k_heap := (k_heap k)\<lparr>contents := m\<rparr>\<rparr>;
           let process = init_default_sighandlers (process_zero\<lparr>
             pid := next_pid k, pname := hd (args @ [NULL]), pstate := NEW,
             stack_page_ptr := process_page, pstack := sp,
             kstack := process_page + DEFAULT_PROCESS_STACK_SIZE - 4,
             allocated_memory := DEFAULT_PROCESS_STACK_SIZE\<rparr>);
           let (k, r) = scheduler_populate_process k process;
           (if r = 0
            then Some (k\<lparr>next_pid := next_pid k + 1\<rparr>, scheduler_get_process_by_pid k (next_pid k))
            else Some (k, PNull))
         })
      })"

text \<open>The address of a process structure, which two error paths hand to \<open>kfree\<close>.\<close>

definition proc_addr :: "kernel \<Rightarrow> proc_ptr \<Rightarrow> addr" where
  "proc_addr k p = (case p of PSlot i \<Rightarrow> processes_base k + of_nat i * process_bytes k | _ \<Rightarrow> NULL)"

definition register_child :: "kernel \<Rightarrow> proc_ptr \<Rightarrow> proc_ptr \<Rightarrow> kernel option" where
  "register_child k current new_process = do {
     cur \<leftarrow> proc_at k current;
     kids \<leftarrow> table_prefix (children_tables k (children cur)) (unat (max_children_count cur));
     (case first_index (\<lambda>c. c = PNull) kids of
        None \<Rightarrow> Some k
      | Some i \<Rightarrow> do {
          table \<leftarrow> children_tables k (children cur);
          upd_proc (k\<lparr>children_tables := (children_tables k)(children cur \<mapsto> table[i := new_process])\<rparr>)
            current (\<lambda>x. x\<lparr>children_count := children_count x + 1\<rparr>)
        })
   }"

definition fill_process_and_spawn :: "kernel \<Rightarrow> proc_ptr \<Rightarrow> (kernel \<times> int) option" where
  "fill_process_and_spawn k new_process = do {
     let current = current_process k;
     cur \<leftarrow> proc_at k current;
     (k, fdt) \<leftarrow> kmalloc_k k (4 * of_nat MAX_OPEN_FILE_DESCRIPTORS);
     (if fdt = NULL then do { k \<leftarrow> kfree_k k (proc_addr k new_process); Some (k, - 1) }
      else do {
        (k, kids) \<leftarrow> kmalloc_k k (4 * (max_children_count cur - 1));
        (if kids = NULL
         then do { k \<leftarrow> kfree_k k fdt; k \<leftarrow> kfree_k k (proc_addr k new_process); Some (k, - 1) }
         else do {
           files \<leftarrow> table_prefix (fdtables k (fdtable cur)) MAX_OPEN_FILE_DESCRIPTORS;
           let k = k\<lparr>fdtables := (fdtables k)(fdt \<mapsto> files),
                     children_tables := (children_tables k)
                       (kids \<mapsto> replicate (unat (max_children_count cur - 1)) PNull)\<rparr>;
           k \<leftarrow> upd_proc k new_process (\<lambda>x. x\<lparr>files_count := files_count cur, fdtable := fdt,
                  p_root := p_root cur, p_pwd := p_pwd cur, parent := current, pgid := pgid cur,
                  max_children_count := max_children_count cur - 1, children := kids\<rparr>);
           k \<leftarrow> register_child k current new_process;
           k \<leftarrow> upd_proc k new_process (pstate_update (\<lambda>_. READY));
           x \<leftarrow> proc_at k new_process;
           Some (k, pid x)
         })
      })
   }"

definition sys_spawnp_process :: "addr \<Rightarrow> kernel \<Rightarrow> addr \<Rightarrow> addr list option \<Rightarrow> (kernel \<times> int) option" where
  "sys_spawnp_process exit_fn k entry_ptr argv = do {
     (k, new_process) \<leftarrow> create_blank_process exit_fn k entry_ptr NULL argv;
     (if new_process = PNull then Some (k, - 1) else fill_process_and_spawn k new_process)
   }"

section \<open>Waiting for a child\<close>

definition terminated_child :: "kernel \<Rightarrow> proc_ptr \<Rightarrow> bool" where
  "terminated_child k c \<longleftrightarrow> (case proc_at k c of None \<Rightarrow> False | Some x \<Rightarrow> pstate x = TERMINATED)"

text \<open>The first half of \<open>sys_wait\<close>; the result tells whether it has to switch to another process.\<close>

definition sys_wait_begin :: "kernel \<Rightarrow> (kernel \<times> bool) option" where
  "sys_wait_begin k = do {
     k \<leftarrow> upd_proc k (current_process k) (pstate_update (\<lambda>_. WAITING_FOR_CHILD_EXIT));
     cur \<leftarrow> proc_at k (current_process k);
     kids \<leftarrow> table_prefix (children_tables k (children cur)) (unat (max_children_count cur));
     Some (k, \<not> list_ex (terminated_child k) kids)
   }"

text \<open>The index of the last terminated child: the \<open>for\<close> loop has no \<open>break\<close>.\<close>

fun last_index :: "('a \<Rightarrow> bool) \<Rightarrow> 'a list \<Rightarrow> nat option" where
  "last_index P [] = None"
| "last_index P (x # xs) =
     (case last_index P xs of Some i \<Rightarrow> Some (Suc i) | None \<Rightarrow> (if P x then Some 0 else None))"

text \<open>The second half; when no child has terminated the code indexes \<open>children[-1]\<close>.\<close>

definition sys_wait_end :: "kernel \<Rightarrow> (kernel \<times> int \<times> int) option" where
  "sys_wait_end k = do {
     let current = current_process k;
     k \<leftarrow> upd_proc k current (pstate_update (\<lambda>_. RUNNING));
     cur \<leftarrow> proc_at k current;
     kids \<leftarrow> table_prefix (children_tables k (children cur)) (unat (max_children_count cur));
     i \<leftarrow> last_index (terminated_child k) kids;
     child \<leftarrow> proc_at k (kids ! i);
     let stat_loc = exit_code child;
     let dead_process = pid child;
     let (k, _) = scheduler_evaporate_process k dead_process;
     k \<leftarrow> upd_proc k current (\<lambda>x. x\<lparr>children_count := children_count x - 1\<rparr>);
     table \<leftarrow> children_tables k (children cur);
     Some (k\<lparr>children_tables := (children_tables k)(children cur \<mapsto> table[i := PNull])\<rparr>, dead_process, stat_loc)
   }"

section \<open>Identifiers and process groups\<close>

definition sys_getpid :: "kernel \<Rightarrow> int option" where
  "sys_getpid k = map_option pid (proc_at k (current_process k))"

definition sys_getppid :: "kernel \<Rightarrow> int option" where
  "sys_getppid k = do {
     x \<leftarrow> proc_at k (current_process k);
     p \<leftarrow> proc_at k (parent x);
     Some (pid p)
   }"

text \<open>The loops over \<open>children[0..children_count)\<close>; a null entry before the child is dereferenced.\<close>

fun find_child :: "kernel \<Rightarrow> int \<Rightarrow> proc_ptr list \<Rightarrow> proc_ptr option option" where
  "find_child k p [] = Some None"
| "find_child k p (c # cs') = do {
     x \<leftarrow> proc_at k c;
     (if pid x = p then Some (Some c) else find_child k p cs')
   }"

definition sys_getpgid :: "kernel \<Rightarrow> int \<Rightarrow> int option" where
  "sys_getpgid k p = do {
     cur \<leftarrow> proc_at k (current_process k);
     (if p = 0 then Some (pgid cur)
      else do {
        kids \<leftarrow> table_prefix (children_tables k (children cur)) (unat (children_count cur));
        r \<leftarrow> find_child k p kids;
        (case r of None \<Rightarrow> Some (- ESRCH) | Some c \<Rightarrow> map_option pgid (proc_at k c))
      })
   }"

definition sys_setpgid :: "kernel \<Rightarrow> int \<Rightarrow> int \<Rightarrow> (kernel \<times> int) option" where
  "sys_setpgid k p g = do {
     cur \<leftarrow> proc_at k (current_process k);
     (if p = 0 then do { k \<leftarrow> upd_proc k (current_process k) (pgid_update (\<lambda>_. g)); Some (k, 0) }
      else do {
        kids \<leftarrow> table_prefix (children_tables k (children cur)) (unat (children_count cur));
        r \<leftarrow> find_child k p kids;
        (case r of None \<Rightarrow> Some (k, - ESRCH)
         | Some c \<Rightarrow> do { k \<leftarrow> upd_proc k c (pgid_update (\<lambda>_. g)); Some (k, 0) })
      })
   }"

section \<open>Start of the scheduler\<close>

definition create_idle_process :: "addr \<Rightarrow> addr \<Rightarrow> addr \<Rightarrow> kernel \<Rightarrow> (kernel \<times> int) option" where
  "create_idle_process exit_fn idle_fn idle_name k = do {
     (k, process_page) \<leftarrow> kmalloc_k k IDLE_PROCESS_STACK_SIZE;
     (if process_page = NULL then Some (k, - ENOMEM)
      else (let (m, sp) = create_process_stack_frame (contents (k_heap k))
                  (process_page + IDLE_PROCESS_SP_OFFSET - 4) exit_fn idle_fn EXC_RETURN_THREAD_PSP_CODE;
                process = process_zero\<lparr>pid := PID_IDLE, pname := idle_name, pstate := READY, stack_page_ptr := process_page,
                  pstack := sp, kstack := process_page + IDLE_PROCESS_STACK_SIZE - 4,
                  allocated_memory := IDLE_PROCESS_STACK_SIZE, signal_mask := 0xffffffff,
                  sighandlers := replicate 32 HIgnore\<rparr>
            in Some (k\<lparr>k_heap := (k_heap k)\<lparr>contents := m\<rparr>, process_idle := process\<rparr>, PID_IDLE)))
   }"

definition INITIAL_PROCESS_COUNT :: u32 where "INITIAL_PROCESS_COUNT = 20"

definition scheduler_init :: "addr \<Rightarrow> addr \<Rightarrow> addr \<Rightarrow> addr \<Rightarrow> kernel \<Rightarrow> (kernel \<times> int) option" where
  "scheduler_init exit_fn idle_fn idle_name current_main_kernel_stack k = do {
     let k = k\<lparr>max_processes := INITIAL_PROCESS_COUNT, processes_count := 0\<rparr>;
     (k, table) \<leftarrow> kmalloc_k k (process_bytes k * INITIAL_PROCESS_COUNT);
     (if table = NULL then Some (k, - ENOMEM)
      else do {
        let k = k\<lparr>processes_base := table,
                  processes := replicate (unat INITIAL_PROCESS_COUNT) process_zero,
                  total_allocated_memory := 0, current_process := PNull,
                  main_kernel_stack := current_main_kernel_stack\<rparr>;
        (k, _) \<leftarrow> create_idle_process exit_fn idle_fn idle_name k;
        Some (k\<lparr>current_process := PSlot 0\<rparr>, 0)
      })
   }"

section \<open>Pipes\<close>

text \<open>
  Pipe inodes are elements of an array of the process, 92 bytes apart, that \<open>sys_pipe\<close> reallocates;
  a move of the array moves its elements in the typed heap. \<open>pipe_read\<close> is one pass of its
  waiting loop: the inner \<^const>\<open>None\<close> is a pass that finds the pipe empty and switches to another process.
\<close>

definition pipe_read :: "kernel \<Rightarrow> addr \<Rightarrow> addr \<Rightarrow> u32 \<Rightarrow> u32 \<Rightarrow> (kernel \<times> u32 option) option" where
  "pipe_read k file buf count file_offset = do {
     f \<leftarrow> deref (file_objects k) file;
     pipe \<leftarrow> pipe_inodes k (f_inode f);
     (if write_offset pipe \<le> read_offset pipe
      then do {
        k \<leftarrow> upd_proc k (current_process k) (pstate_update (\<lambda>_. READY));
        Some (k, None)
      }
      else (let i_size = word_of_int (pipe_size pipe);
                to_read = (if file_offset + count \<le> i_size then count else i_size);
                m = fst (memcpy (contents (k_heap k)) buf (pipe_ptr pipe + file_offset) to_read)
            in Some (k\<lparr>k_heap := (k_heap k)\<lparr>contents := m\<rparr>\<rparr>, Some to_read)))
   }"

definition pipe_write :: "kernel \<Rightarrow> addr \<Rightarrow> addr \<Rightarrow> u32 \<Rightarrow> u32 \<Rightarrow> (kernel \<times> int) option" where
  "pipe_write k file buf count file_offset = do {
     f \<leftarrow> deref (file_objects k) file;
     pipe \<leftarrow> pipe_inodes k (f_inode f);
     (heap, p) \<leftarrow> (if word_of_int (pipe_size pipe) < file_offset + count
                   then krealloc (k_heap k) (pipe_ptr pipe) (file_offset + count)
                   else Some (k_heap k, pipe_ptr pipe));
     let grown = (word_of_int (pipe_size pipe) < file_offset + count);
     (if grown \<and> p = NULL then Some (k\<lparr>k_heap := heap\<rparr>, - ENOMEM)
      else (let pipe = (if grown then pipe\<lparr>pipe_ptr := p, pipe_size := sint (file_offset + count)\<rparr> else pipe);
                m = fst (memcpy (contents heap) (pipe_ptr pipe + file_offset) buf count)
            in Some (k\<lparr>k_heap := heap\<lparr>contents := m\<rparr>,
                       pipe_inodes := (pipe_inodes k)
                         (f_inode f \<mapsto> pipe\<lparr>write_offset := file_offset + count\<rparr>)\<rparr>, sint count)))
   }"

text \<open>The first free descriptor from 3 on gets the file.\<close>

definition install_fd :: "kernel \<Rightarrow> addr \<Rightarrow> (kernel \<times> nat) option" where
  "install_fd k file = do {
     cur \<leftarrow> proc_at k (current_process k);
     table \<leftarrow> fdtables k (fdtable cur);
     slots \<leftarrow> table_prefix (Some table) MAX_OPEN_FILE_DESCRIPTORS;
     (case first_index (\<lambda>f. f = NULL) (drop 3 slots) of
        None \<Rightarrow> Some (k, 0)
      | Some i \<Rightarrow> do {
          k \<leftarrow> upd_proc (k\<lparr>fdtables := (fdtables k)(fdtable cur \<mapsto> table[3 + i := file])\<rparr>)
                 (current_process k) (\<lambda>x. x\<lparr>files_count := files_count x + 1\<rparr>);
          Some (k, 3 + i)
        })
   }"

definition move_pipes :: "(addr \<Rightarrow> pipe_inode option) \<Rightarrow> addr \<Rightarrow> addr \<Rightarrow> nat \<Rightarrow> addr \<Rightarrow> pipe_inode option" where
  "move_pipes h old new n = fold (\<lambda>i g. g(pipe_addr new i := h (pipe_addr old i))) [0..<n] h"

text \<open>\<open>ops\<close> is the table of pipe operations: the addresses of \<open>pipe_read\<close>, \<open>pipe_write\<close> and \<open>pipe_close\<close>.\<close>

definition sys_pipe :: "fop_table \<Rightarrow> kernel \<Rightarrow> (kernel \<times> (nat \<times> nat) option \<times> int) option" where
  "sys_pipe ops k = do {
     let current = current_process k;
     cur \<leftarrow> proc_at k current;
     (if of_nat MAX_OPEN_FILE_DESCRIPTORS < files_count cur + 2 then Some (k, None, - EMFILE)
      else do {
        let n = unnamed_pipes_count cur;
        let k = set_proc k current (cur\<lparr>unnamed_pipes_count := n + 1\<rparr>);
        (heap, base) \<leftarrow> krealloc (k_heap k) (unnamed_pipes cur) (word_of_int (n + 1) * 92);
        let k = k\<lparr>k_heap := heap\<rparr>;
        (if base = NULL then Some (k, None, - ENOMEM)
         else do {
           k \<leftarrow> upd_proc k current (\<lambda>x. x\<lparr>unnamed_pipes := base\<rparr>);
           let inode = pipe_addr base (nat n);
           let k = k\<lparr>pipe_inodes := (move_pipes (pipe_inodes k) (unnamed_pipes cur) base (nat n))
             (inode \<mapsto> \<lparr>pipe_size = 0, pipe_ptr = NULL, pipe_fop = NULL, read_offset = 0, write_offset = 0\<rparr>)\<rparr>;
           (k, pipe_op) \<leftarrow> kmalloc_k k 36;
           (if pipe_op = NULL then Some (k, None, - ENOMEM)
            else do {
              let k = k\<lparr>fop_tables := (fop_tables k)(pipe_op \<mapsto> ops),
                pipe_inodes := (pipe_inodes k)(inode \<mapsto>
                \<lparr>pipe_size = 0, pipe_ptr = NULL, pipe_fop = pipe_op, read_offset = 0, write_offset = 0\<rparr>)\<rparr>;
              let file = \<lparr>f_inode = inode, f_op = pipe_op, f_flags = 0, f_pos = 0, f_owner = pid cur\<rparr>;
              (k, file_read) \<leftarrow> kmalloc_k k 24;
              (if file_read = NULL then Some (k, None, - ENOMEM)
               else do {
                 let k = k\<lparr>file_objects := (file_objects k)(file_read \<mapsto> file)\<rparr>;
                 (k, file_write) \<leftarrow> kmalloc_k k 24;
                 (if file_write = NULL then Some (k, None, - ENOMEM)
                  else do {
                    let k = k\<lparr>file_objects := (file_objects k)(file_write \<mapsto> file)\<rparr>;
                    (k, fd_read) \<leftarrow> install_fd k file_read;
                    (k, fd_write) \<leftarrow> install_fd k file_write;
                    Some (k, Some (fd_read, fd_write), 0)
                  })
               })
            })
         })
      })
   }"

section \<open>Round-robin choice\<close>

text \<open>A table of \<open>n\<close> slots with a valid scheduler index.\<close>

definition table_ok :: "kernel \<Rightarrow> nat \<Rightarrow> bool" where
  "table_ok k n \<longleftrightarrow> 0 < n \<and> n = unat (max_processes k) \<and> n = length (processes k) \<and> unat (current_index k) < n"

text \<open>The scheduler may pick a slot whose process is ready or has a pending signal.\<close>

definition runnable :: "kernel \<Rightarrow> nat \<Rightarrow> bool" where
  "runnable k i \<longleftrightarrow> i < length (processes k) \<and>
     (pending_signals (processes k ! i) \<noteq> NULL \<or> pstate (processes k ! i) = READY)"

lemma index_step:
  assumes "n = unat (max_processes k)" and "unat i < n"
  shows "unat (if i + 1 = max_processes k then 0 else i + 1) = Suc (unat i) mod n"
proof -
  have "i < max_processes k" using assms by (simp add: word_less_nat_alt)
  then have s: "unat (i + 1) = Suc (unat i)" by (rule unat_Suc_less)
  show ?thesis
  proof (cases "Suc (unat i) = n")
    case True
    then have "i + 1 = max_processes k" using s assms(1) by (metis unat_eq_iff)
    then show ?thesis using True by simp
  next
    case False
    then have "i + 1 \<noteq> max_processes k" using s assms(1) by auto
    then show ?thesis using False s assms by simp
  qed
qed

lemma scheduler_next_loop_found:
  assumes "n = unat (max_processes k)" and "n = length (processes k)"
  shows "unat i < n \<Longrightarrow> j < d \<Longrightarrow> runnable k ((unat i + Suc j) mod n) \<Longrightarrow>
    (\<forall>l<j. \<not> runnable k ((unat i + Suc l) mod n)) \<Longrightarrow>
    \<exists>i'. scheduler_next_loop (Suc d) k i = Some (i', PSlot (unat i')) \<and> unat i' = (unat i + Suc j) mod n"
proof (induction d arbitrary: i j)
  case (Suc d)
  define i1 where "i1 = (if i + 1 = max_processes k then 0 else i + 1)"
  have i1: "unat i1 = Suc (unat i) mod n" unfolding i1_def by (rule index_step [OF assms(1) Suc.prems(1)])
  have lt: "unat i1 < n" using Suc.prems(1) i1 by simp
  have at: "proc_at k (PSlot (unat i1)) = Some (processes k ! unat i1)"
    using lt assms(2) by (simp add: proc_at_def)
  have step: "scheduler_next_loop (Suc (Suc d)) k i =
    (if runnable k (unat i1) then Some (i1, PSlot (unat i1)) else scheduler_next_loop (Suc d) k i1)"
    using at lt assms(2) by (auto simp: Let_def runnable_def simp flip: i1_def)
  show ?case
  proof (cases j)
    case 0
    then show ?thesis using step Suc.prems(3) i1 by (simp del: scheduler_next_loop.simps)
  next
    case (Suc j')
    have shift: "(unat i1 + Suc l) mod n = (unat i + Suc (Suc l)) mod n" for l
      unfolding i1 by (simp only: mod_add_left_eq) simp
    have "\<not> runnable k (unat i1)" using Suc.prems(4) Suc i1 by force
    moreover have "\<exists>i'. scheduler_next_loop (Suc d) k i1 = Some (i', PSlot (unat i')) \<and>
        unat i' = (unat i1 + Suc j') mod n"
    proof (rule Suc.IH [OF lt])
      show "j' < d" using Suc.prems(2) Suc by simp
      show "runnable k ((unat i1 + Suc j') mod n)" using Suc.prems(3) Suc shift by simp
      show "\<forall>l<j'. \<not> runnable k ((unat i1 + Suc l) mod n)" using Suc.prems(4) Suc shift by auto
    qed
    ultimately show ?thesis using step shift Suc by (simp del: scheduler_next_loop.simps)
  qed
qed simp

lemma scheduler_next_loop_idle:
  assumes "n = unat (max_processes k)" and "n = length (processes k)" and "\<forall>i<n. \<not> runnable k i"
  shows "unat i < n \<Longrightarrow>
    \<exists>i'. scheduler_next_loop (Suc d) k i = Some (i', PIdle) \<and> unat i' = (unat i + Suc d) mod n"
proof (induction d arbitrary: i)
  case 0
  then show ?case using index_step [OF assms(1), of i] by (simp add: Let_def)
next
  case (Suc d)
  define i1 where "i1 = (if i + 1 = max_processes k then 0 else i + 1)"
  have i1: "unat i1 = Suc (unat i) mod n" unfolding i1_def by (rule index_step [OF assms(1) Suc.prems])
  have lt: "unat i1 < n" using Suc.prems i1 by simp
  have at: "proc_at k (PSlot (unat i1)) = Some (processes k ! unat i1)"
    using lt assms(2) by (simp add: proc_at_def)
  have "scheduler_next_loop (Suc (Suc d)) k i = scheduler_next_loop (Suc d) k i1"
    using at lt assms(2,3) by (auto simp: Let_def runnable_def simp flip: i1_def)
  moreover have "(unat i1 + Suc d) mod n = (unat i + Suc (Suc d)) mod n"
    unfolding i1 by (simp only: mod_add_left_eq) simp
  ultimately show ?case using Suc.IH [OF lt] by simp
qed

text \<open>The number of slots from the index to slot \<open>i\<close>, between 1 and the size of the table.\<close>

definition turns :: "nat \<Rightarrow> nat \<Rightarrow> nat \<Rightarrow> nat" where
  "turns n c i = (if i \<le> c then i + n - c else i - c)"

lemma turns_bounds: "c < n \<Longrightarrow> i < n \<Longrightarrow> 1 \<le> turns n c i \<and> turns n c i \<le> n \<and> (c + turns n c i) mod n = i"
  by (auto simp: turns_def)

lemma turns_unique: "c < n \<Longrightarrow> i < n \<Longrightarrow> 1 \<le> j \<Longrightarrow> j \<le> n \<Longrightarrow> (c + j) mod n = i \<Longrightarrow> j = turns n c i"
proof (cases "c + j < n")
  case False
  assume "c < n" "i < n" "1 \<le> j" "j \<le> n" "(c + j) mod n = i"
  moreover from this False have "(c + j) mod n = c + j - n" by (simp add: le_mod_geq)
  ultimately show ?thesis using False by (auto simp: turns_def)
qed (auto simp: turns_def)

lemma scheduler_next_round_robin:
  assumes "table_ok k n" and "1 < processes_count k" and i: "runnable k i"
  shows "\<exists>k' i'. scheduler_get_next_process k = Some (k', PSlot i') \<and> runnable k i' \<and>
    k' = k\<lparr>current_index := of_nat i'\<rparr> \<and> table_ok k' n \<and>
    (\<forall>l. runnable k l \<longrightarrow> turns n (unat (current_index k)) i' \<le> turns n (unat (current_index k)) l)"
proof -
  let ?c = "unat (current_index k)"
  have n: "0 < n" "n = unat (max_processes k)" "n = length (processes k)" "?c < n"
    using assms(1) by (auto simp: table_ok_def)
  define P where "P j \<longleftrightarrow> runnable k ((?c + Suc j) mod n)" for j
  have "i < n" using i n(3) by (simp add: runnable_def)
  then have t: "1 \<le> turns n ?c i" "turns n ?c i \<le> n" "(?c + turns n ?c i) mod n = i"
    using turns_bounds [OF n(4)] by blast+
  then have "P (turns n ?c i - 1)" using i by (simp add: P_def)
  then have ex: "\<exists>j. P j" by blast
  define j where "j = (LEAST j. P j)"
  have j: "P j" "\<And>l. l < j \<Longrightarrow> \<not> P l" unfolding j_def using LeastI_ex [OF ex] not_less_Least by blast+
  have "j \<le> turns n ?c i - 1" using \<open>P (turns n ?c i - 1)\<close> unfolding j_def by (rule Least_le)
  then have jn: "j < n" using t by linarith
  let ?i = "(?c + Suc j) mod n"
  have "\<exists>i'. scheduler_next_loop (Suc (2 * n - 1)) k (current_index k) = Some (i', PSlot (unat i')) \<and> unat i' = ?i"
    using j jn n by (intro scheduler_next_loop_found) (auto simp: P_def)
  then obtain i' where i': "scheduler_next_loop (2 * n) k (current_index k) = Some (i', PSlot (unat i'))" "unat i' = ?i"
    using n(1) by auto
  have "?i < n" using n(1) by simp
  have "Suc j = turns n ?c ?i"
    by (rule turns_unique [OF n(4) \<open>?i < n\<close> _ _ refl]) (use jn in auto)
  then have ti: "turns n ?c ?i = Suc j" by (rule sym)
  have "turns n ?c ?i \<le> turns n ?c l" if "runnable k l" for l
  proof -
    have "l < n" using that n(3) by (simp add: runnable_def)
    then have "P (turns n ?c l - 1)" "1 \<le> turns n ?c l"
      using that turns_bounds [OF n(4), of l] by (auto simp: P_def)
    then show ?thesis using j(2) ti by (metis Suc_le_eq Suc_le_mono diff_Suc_1 leI le_SucE not_less_eq_eq One_nat_def Suc_pred)
  qed
  moreover have "i' = of_nat ?i" using i'(2) by (metis of_nat_unat ucast_id)
  moreover have "scheduler_get_next_process k = Some (k\<lparr>current_index := i'\<rparr>, PSlot ?i)"
    using assms(2) i' n(2) by (auto simp: scheduler_get_next_process_def)
  moreover have "table_ok (k\<lparr>current_index := i'\<rparr>) n" using n i'(2) by (simp add: table_ok_def)
  ultimately show ?thesis using j(1) by (auto simp: P_def)
qed

lemma scheduler_next_none:
  assumes "table_ok k n" and "1 < processes_count k" and none: "\<forall>i. \<not> runnable k i"
  shows "scheduler_get_next_process k = Some (k, PIdle)"
proof -
  have n: "0 < n" "n = unat (max_processes k)" "n = length (processes k)" "unat (current_index k) < n"
    using assms(1) by (auto simp: table_ok_def)
  obtain i' where i': "scheduler_next_loop (Suc (2 * n - 1)) k (current_index k) = Some (i', PIdle)"
    "unat i' = (unat (current_index k) + Suc (2 * n - 1)) mod n"
    using scheduler_next_loop_idle [OF n(2,3) _ n(4), of "2 * n - 1"] none by blast
  have "(unat (current_index k) + Suc (2 * n - 1)) mod n = unat (current_index k)"
    using n(1,4) by (simp add: mult_2 add.assoc [symmetric])
  then have "i' = current_index k" using i'(2) by simp
  then show ?thesis using assms(2) i'(1) n(1,2) by (auto simp: scheduler_get_next_process_def)
qed

lemma turns_decrease:
  assumes "c < n" "i < n" "i' < n" "i' \<noteq> i" "turns n c i' \<le> turns n c i"
  shows "turns n i' i < turns n c i"
  using assms by (auto simp: turns_def split: if_splits)

lemma turns_self: "turns n i i = n" by (simp add: turns_def)

section \<open>Properties of the scheduler\<close>

text \<open>C4: With at least two processes the scheduler picks the runnable slot that comes first after the
  last one it picked, cyclically, and remembers it; when no slot is runnable it picks the idle process. It
  never picks a slot that is neither ready nor has a pending signal.\<close>

theorem scheduler_picks_next_runnable:
  assumes "table_ok k n" and "1 < processes_count k"
  shows "\<exists>k' p. scheduler_get_next_process k = Some (k', p) \<and> table_ok k' n \<and>
    (case p of
       PSlot i \<Rightarrow> runnable k i \<and> unat (current_index k') = i \<and>
         (\<forall>l. runnable k l \<longrightarrow> turns n (unat (current_index k)) i \<le> turns n (unat (current_index k)) l)
     | PIdle \<Rightarrow> k' = k \<and> (\<forall>i. \<not> runnable k i)
     | PNull \<Rightarrow> False)"
proof (cases "\<exists>i. runnable k i")
  case True
  then obtain k' i' where r: "scheduler_get_next_process k = Some (k', PSlot i')" "runnable k i'"
    "k' = k\<lparr>current_index := of_nat i'\<rparr>" "table_ok k' n"
    "\<forall>l. runnable k l \<longrightarrow> turns n (unat (current_index k)) i' \<le> turns n (unat (current_index k)) l"
    using scheduler_next_round_robin [OF assms] by blast
  have "i' < n" using r(2) assms(1) by (simp add: runnable_def table_ok_def)
  then have "i' < 2 ^ 32" using assms(1) unat_lt_exp [of "max_processes k"] by (simp add: table_ok_def)
  then have "unat (current_index k') = i'" using r(3) by (simp add: unat_of_nat_less)
  then show ?thesis using r by auto
next
  case False
  then show ?thesis using scheduler_next_none [OF assms] assms(1) by auto
qed

theorem scheduler_picks_next_runnable_witness:
  "map_option snd (scheduler_get_next_process kernel_example) = Some (PSlot 1) \<and>
   (\<exists>k' p. scheduler_get_next_process kernel_example = Some (k', p) \<and> table_ok k' 20)"
proof -
  have "table_ok kernel_example 20" "1 < processes_count kernel_example"
    by (simp_all add: table_ok_def kernel_example_def)
  from scheduler_picks_next_runnable [OF this]
  have "\<exists>k' p. scheduler_get_next_process kernel_example = Some (k', p) \<and> table_ok k' 20" by blast
  moreover have "map_option snd (scheduler_get_next_process kernel_example) = Some (PSlot 1)" by code_simp
  ultimately show ?thesis by blast
qed

text \<open>C5: No runnable process starves: in any sequence of scheduling decisions, whatever happens to the
  kernel between them as long as the scheduler's index is left alone, a slot that stays runnable is picked
  within as many decisions as the table has slots.\<close>

theorem scheduler_no_starvation:
  assumes ok: "\<And>j. j < n \<Longrightarrow> table_ok (ks j) n \<and> 1 < processes_count (ks j) \<and> runnable (ks j) i"
    and pick: "\<And>j. j < n \<Longrightarrow> scheduler_get_next_process (ks j) = Some (ks' j, p j)"
    and index: "\<And>j. Suc j < n \<Longrightarrow> current_index (ks (Suc j)) = current_index (ks' j)"
    and "0 < n"
  shows "\<exists>j<n. p j = PSlot i"
proof (rule ccontr)
  assume never: "\<not> ?thesis"
  let ?c = "\<lambda>j. unat (current_index (ks j))"
  have step: "\<exists>i'. p j = PSlot i' \<and> i' < n \<and> i' \<noteq> i \<and> unat (current_index (ks' j)) = i' \<and>
      turns n (?c j) i' \<le> turns n (?c j) i" if j: "j < n" for j
  proof -
    obtain k' i' where r: "scheduler_get_next_process (ks j) = Some (k', PSlot i')" "runnable (ks j) i'"
      "k' = (ks j)\<lparr>current_index := of_nat i'\<rparr>"
      "\<forall>l. runnable (ks j) l \<longrightarrow> turns n (?c j) i' \<le> turns n (?c j) l"
      using scheduler_next_round_robin ok [OF j] by blast
    have b: "i' < n" using r(2) ok [OF j] by (simp add: runnable_def table_ok_def)
    then have b2: "i' < 2 ^ 32"
      using ok [OF j] unat_lt_exp [of "max_processes (ks j)"] by (simp add: table_ok_def)
    have p: "p j = PSlot i'" and k': "ks' j = k'" using r(1) pick [OF j] by auto
    have "i' \<noteq> i" using never j p by blast
    moreover have "unat (current_index (ks' j)) = i'" using k' r(3) b2 by (simp add: unat_of_nat_less)
    moreover have "turns n (?c j) i' \<le> turns n (?c j) i" using r(4) ok [OF j] by blast
    ultimately show ?thesis using p b by blast
  qed
  have "runnable (ks 0) i" "table_ok (ks 0) n" using ok [OF \<open>0 < n\<close>] by blast+
  then have "i < n" by (simp add: runnable_def table_ok_def)
  moreover have "?c j < n" if "j < n" for j using ok [OF that] by (simp add: table_ok_def)
  ultimately have il: "i < n" "\<And>j. j < n \<Longrightarrow> ?c j < n" by blast+
  have "j < n \<Longrightarrow> turns n (?c j) i + j \<le> n" for j
  proof (induction j)
    case 0
    then show ?case using turns_bounds [OF il(2) il(1)] by simp
  next
    case (Suc j)
    then obtain i' where i': "i' < n" "i' \<noteq> i" "unat (current_index (ks' j)) = i'" "turns n (?c j) i' \<le> turns n (?c j) i"
      using step [of j] by auto
    have "?c (Suc j) = i'" using index [OF Suc.prems] i'(3) by simp
    then have "turns n (?c (Suc j)) i < turns n (?c j) i"
      using turns_decrease [OF il(2) il(1) i'(1,2,4)] Suc.prems by simp
    then show ?case using Suc by simp
  qed
  from this [of "n - 1"] have last: "turns n (?c (n - 1)) i \<le> 1" using \<open>0 < n\<close> by simp
  obtain i' where i': "i' < n" "i' \<noteq> i" "turns n (?c (n - 1)) i' \<le> turns n (?c (n - 1)) i"
    using step [of "n - 1"] \<open>0 < n\<close> by auto
  have "?c (n - 1) < n" using il(2) \<open>0 < n\<close> by simp
  from turns_bounds [OF this il(1)] turns_bounds [OF this i'(1)] last i'(3)
  have "turns n (?c (n - 1)) i' = turns n (?c (n - 1)) i" by linarith
  then show False
    using turns_bounds [OF \<open>?c (n - 1) < n\<close> il(1)] turns_bounds [OF \<open>?c (n - 1) < n\<close> i'(1)] i'(2) by metis
qed

theorem scheduler_no_starvation_witness:
  "scheduler_get_next_process kernel_example = Some (kernel_example\<lparr>current_index := 1\<rparr>, PSlot 1) \<and>
   (\<exists>j<20. (\<lambda>_. PSlot 1) (j :: nat) = PSlot 1)"
proof -
  have pick: "scheduler_get_next_process kernel_example = Some (kernel_example\<lparr>current_index := 1\<rparr>, PSlot 1)"
  proof -
    have "map_option snd (scheduler_get_next_process kernel_example) = Some (PSlot 1)" by code_simp
    moreover have r1: "runnable kernel_example 1" by (simp add: runnable_def kernel_example_def)
    moreover have t: "table_ok kernel_example 20" "1 < processes_count kernel_example"
      by (simp_all add: table_ok_def kernel_example_def)
    obtain k' i' where "scheduler_get_next_process kernel_example = Some (k', PSlot i')"
      "k' = kernel_example\<lparr>current_index := of_nat i'\<rparr>"
      using scheduler_next_round_robin [OF t] r1 by blast
    ultimately show ?thesis by auto
  qed
  have t: "table_ok kernel_example 20 \<and> 1 < processes_count kernel_example \<and> runnable kernel_example 1"
    by (simp add: table_ok_def kernel_example_def runnable_def)
  have c: "current_index kernel_example = current_index (kernel_example\<lparr>current_index := 1\<rparr>)"
    by (simp add: kernel_example_def)
  have "\<exists>j<20. (\<lambda>_. PSlot 1) (j :: nat) = PSlot 1"
    by (rule scheduler_no_starvation [of 20 "\<lambda>_. kernel_example" 1 "\<lambda>_. kernel_example\<lparr>current_index := 1\<rparr>" "\<lambda>_. PSlot 1"])
      (use t pick c in simp_all)
  then show ?thesis using pick by simp
qed

end
