(* ===== verification/Libc_String.thy ===== *)
theory Libc_String
  imports Libc_Mem "HOL-Library.Sublist"
begin

text \<open>
  The string routines of \<open>src/kstdlib/libc.c\<close> over byte memory. \<open>char\<close> is unsigned on the ARM
  target, so a character is a byte and comparisons subtract values in \<open>0..255\<close>. A loop that walks a
  string is a \<^theory_text>\<open>partial_function\<close>: it has no result when memory holds no NUL byte.
  \<open>cstr m p s\<close> says that memory \<open>m\<close> holds the NUL-terminated string \<open>s\<close> at \<open>p\<close>; each routine
  comes with a lemma that gives its result on such memory as a function of the byte lists.
\<close>

section \<open>Strings in memory\<close>

primrec cstr :: "mem \<Rightarrow> addr \<Rightarrow> byte list \<Rightarrow> bool" where
  "cstr m p [] \<longleftrightarrow> m p = 0"
| "cstr m p (c # s) \<longleftrightarrow> m p = c \<and> c \<noteq> 0 \<and> cstr m (p + 1) s"

lemma cstr_unique: "cstr m p s \<Longrightarrow> cstr m p t \<Longrightarrow> s = t"
proof (induction s arbitrary: p t)
  case Nil
  then show ?case by (cases t) auto
next
  case (Cons c s)
  then show ?case by (cases t) auto
qed

lemma cstr_nonzero: "cstr m p s \<Longrightarrow> 0 \<notin> set s"
  by (induction s arbitrary: p) auto

lemma cstr_append:
  "cstr m p (s @ t) \<longleftrightarrow> (\<forall>i<length s. m (p + of_nat i) = s ! i \<and> s ! i \<noteq> 0)
     \<and> cstr m (p + of_nat (length s)) t"
proof (induction s arbitrary: p)
  case Nil
  then show ?case by simp
next
  case (Cons c s)
  show ?case
    unfolding append_Cons cstr.simps Cons.IH
    by (auto simp: less_Suc_eq_0_disj add.assoc)
qed

lemma cstr_nth: "cstr m p s \<Longrightarrow> i < length s \<Longrightarrow> m (p + of_nat i) = s ! i"
  using cstr_append [of m p s "[]"] by simp

lemma cstr_end: "cstr m p s \<Longrightarrow> m (p + of_nat (length s)) = 0"
  using cstr_append [of m p s "[]"] by simp

lemma cstr_drop: "cstr m p s \<Longrightarrow> i \<le> length s \<Longrightarrow> cstr m (p + of_nat i) (drop i s)"
  using cstr_append [of m p "take i s" "drop i s"] by (simp add: min.absorb2)

lemma cstr_iff:
  "cstr m p s \<longleftrightarrow> (\<forall>i<length s. m (p + of_nat i) = s ! i) \<and> 0 \<notin> set s
     \<and> m (p + of_nat (length s)) = 0"
  using cstr_append [of m p s "[]"] by (auto simp: in_set_conv_nth)

text \<open>A string survives an update of memory outside of it.\<close>

lemma cstr_cong:
  "(\<And>i. i \<le> length s \<Longrightarrow> m' (p + of_nat i) = m (p + of_nat i)) \<Longrightarrow> cstr m' p s = cstr m p s"
  by (simp add: cstr_iff)

section \<open>Lengths and spans\<close>

partial_function (option) strlen_loop :: "mem \<Rightarrow> addr \<Rightarrow> u32 \<Rightarrow> u32 option" where
  "strlen_loop m str len =
     (if m (str + len) \<noteq> 0 then strlen_loop m str (len + 1) else Some len)"

definition strlen :: "mem \<Rightarrow> addr \<Rightarrow> u32 option" where
  "strlen m str = strlen_loop m str 0"

text \<open>The inner loops of \<open>strcspn\<close> and \<open>strspn\<close>: is the byte among the first \<open>n\<close> at \<open>p\<close>?\<close>

definition byte_among :: "mem \<Rightarrow> addr \<Rightarrow> u32 \<Rightarrow> byte \<Rightarrow> bool" where
  "byte_among m p n c = list_ex (\<lambda>i. c = m (p + of_nat i)) [0..<unat n]"

partial_function (option) strcspn_loop ::
    "mem \<Rightarrow> addr \<Rightarrow> addr \<Rightarrow> u32 \<Rightarrow> u32 \<Rightarrow> u32 option" where
  "strcspn_loop m str delims delims_len len =
     (if m (str + len) \<noteq> 0
      then (if byte_among m delims delims_len (m (str + len)) then Some len
            else strcspn_loop m str delims delims_len (len + 1))
      else Some len)"

definition strcspn :: "mem \<Rightarrow> addr \<Rightarrow> addr \<Rightarrow> u32 option" where
  "strcspn m str delims = do {
     delims_len \<leftarrow> strlen m delims;
     strcspn_loop m str delims delims_len 0
   }"

partial_function (option) strspn_loop ::
    "mem \<Rightarrow> addr \<Rightarrow> addr \<Rightarrow> u32 \<Rightarrow> u32 \<Rightarrow> u32 option" where
  "strspn_loop m str src src_len len =
     (if m (str + len) \<noteq> 0
      then (if \<not> byte_among m src src_len (m (str + len)) then Some len
            else strspn_loop m str src src_len (len + 1))
      else Some len)"

definition strspn :: "mem \<Rightarrow> addr \<Rightarrow> addr \<Rightarrow> u32 option" where
  "strspn m str src = do {
     src_len \<leftarrow> strlen m src;
     strspn_loop m str src src_len 0
   }"

lemma strlen_loop_cstr: "cstr m (p + len) s \<Longrightarrow> strlen_loop m p len = Some (len + of_nat (length s))"
proof (induction s arbitrary: len)
  case Nil
  then show ?case by (subst strlen_loop.simps) simp
next
  case (Cons c s)
  then have "cstr m (p + (len + 1)) s" by (simp add: add.assoc)
  with Cons.IH Cons.prems show ?case by (subst strlen_loop.simps) (simp add: algebra_simps)
qed

lemma strlen_cstr [cstr_rules]: "cstr m p s \<Longrightarrow> strlen m p = Some (of_nat (length s))"
  using strlen_loop_cstr [of m p 0 s] by (simp add: strlen_def)

lemma byte_among_cstr:
  "cstr m d ds \<Longrightarrow> length ds < 2 ^ 32 \<Longrightarrow> byte_among m d (of_nat (length ds)) c = (c \<in> set ds)"
  by (simp add: byte_among_def list_ex_iff in_set_conv_nth unat_of_nat)
     (metis atLeastLessThan_iff bot_nat_0.extremum cstr_nth set_upt)

lemma strcspn_loop_cstr:
  assumes "\<And>c. byte_among m d n c = (c \<in> set ds)"
  shows "cstr m (p + len) s \<Longrightarrow> strcspn_loop m p d n len
           = Some (len + of_nat (length (takeWhile (\<lambda>c. c \<notin> set ds) s)))"
proof (induction s arbitrary: len)
  case Nil
  then show ?case by (subst strcspn_loop.simps) simp
next
  case (Cons c s)
  then have "cstr m (p + (len + 1)) s" by (simp add: add.assoc)
  with Cons.IH Cons.prems show ?case
    by (subst strcspn_loop.simps) (simp add: assms algebra_simps)
qed

lemma strcspn_cstr [cstr_rules]:
  assumes "cstr m p s" and "cstr m d ds" and "length ds < 2 ^ 32"
  shows "strcspn m p d = Some (of_nat (length (takeWhile (\<lambda>c. c \<notin> set ds) s)))"
  using strcspn_loop_cstr [OF byte_among_cstr [OF assms(2,3)], of p 0 s] assms
  by (simp add: strcspn_def strlen_cstr)

lemma strspn_loop_cstr:
  assumes "\<And>c. byte_among m d n c = (c \<in> set ds)"
  shows "cstr m (p + len) s \<Longrightarrow> strspn_loop m p d n len
           = Some (len + of_nat (length (takeWhile (\<lambda>c. c \<in> set ds) s)))"
proof (induction s arbitrary: len)
  case Nil
  then show ?case by (subst strspn_loop.simps) simp
next
  case (Cons c s)
  then have "cstr m (p + (len + 1)) s" by (simp add: add.assoc)
  with Cons.IH Cons.prems show ?case
    by (subst strspn_loop.simps) (simp add: assms algebra_simps)
qed

lemma strspn_cstr [cstr_rules]:
  assumes "cstr m p s" and "cstr m d ds" and "length ds < 2 ^ 32"
  shows "strspn m p d = Some (of_nat (length (takeWhile (\<lambda>c. c \<in> set ds) s)))"
  using strspn_loop_cstr [OF byte_among_cstr [OF assms(2,3)], of p 0 s] assms
  by (simp add: strspn_def strlen_cstr)

section \<open>Tokens\<close>

text \<open>
  \<open>strtok\<close> keeps its position in a static variable, which the model takes and returns:
  \<open>strtok m ptr str delim\<close> gives the new memory, the new static pointer and the token.
\<close>

function strtok_clear :: "mem \<Rightarrow> addr \<Rightarrow> u32 \<Rightarrow> mem \<times> addr" where
  "strtok_clear m ptr n = (if n \<noteq> 0 then strtok_clear (m(ptr := 0)) (ptr + 1) (n - 1) else (m, ptr))"
  by pat_completeness auto
termination
  by (relation "measure (\<lambda>(m, ptr, n). unat n)") (auto intro: measure_unat)

declare strtok_clear.simps [simp del]

definition strtok :: "mem \<Rightarrow> addr \<Rightarrow> addr \<Rightarrow> addr \<Rightarrow> (mem \<times> addr \<times> addr) option" where
  "strtok m ptr str delim =
     (let ptr = (if str \<noteq> NULL then str else ptr)
      in if ptr = NULL \<or> m ptr = 0 then Some (m, ptr, NULL)
         else do {
           let token_start = ptr;
           n \<leftarrow> strcspn m ptr delim;
           let ptr = ptr + n;
           delims_len \<leftarrow> strspn m ptr delim;
           let (m, ptr) = strtok_clear m ptr delims_len;
           Some (m, ptr, token_start)
         })"

section \<open>Copies\<close>

definition strcpy :: "mem \<Rightarrow> addr \<Rightarrow> addr \<Rightarrow> (mem \<times> addr) option" where
  "strcpy m dst src = do {
     n \<leftarrow> strlen m src;
     Some (memcpy m dst src (n + 1))
   }"

partial_function (option) strcat_loop :: "mem \<Rightarrow> addr \<Rightarrow> addr \<Rightarrow> u32 \<Rightarrow> mem option" where
  "strcat_loop m ptr src i = do {
     n \<leftarrow> strlen m src;
     (if i < n + 1 then strcat_loop (m(ptr + i := m (src + i))) ptr src (i + 1) else Some m)
   }"

definition strcat :: "mem \<Rightarrow> addr \<Rightarrow> addr \<Rightarrow> (mem \<times> addr) option" where
  "strcat m dst src = do {
     n \<leftarrow> strlen m dst;
     m \<leftarrow> strcat_loop m (dst + n) src 0;
     Some (m, dst)
   }"

section \<open>Comparisons\<close>

text \<open>\<open>tolower\<close> and \<open>toupper\<close> are the inline functions of \<open>include/libc.h\<close>.\<close>

definition tolower :: "byte \<Rightarrow> byte" where
  "tolower c = (if 65 \<le> c \<and> c \<le> 90 then c + 32 else c)"

definition toupper :: "byte \<Rightarrow> byte" where
  "toupper c = (if 97 \<le> c \<and> c \<le> 122 then c - 32 else c)"

definition isalpha :: "int \<Rightarrow> bool" where
  "isalpha c \<longleftrightarrow> (65 \<le> c \<and> c \<le> 90) \<or> (97 \<le> c \<and> c \<le> 122)"

definition isalnum :: "int \<Rightarrow> bool" where
  "isalnum c \<longleftrightarrow> (65 \<le> c \<and> c \<le> 90) \<or> (97 \<le> c \<and> c \<le> 122) \<or> (48 \<le> c \<and> c \<le> 57)"

definition isprint :: "int \<Rightarrow> bool" where
  "isprint c \<longleftrightarrow>
     (if c = 13 \<or> c = 9 \<or> c = 10 \<or> c = 8 then True else 0x20 \<le> c \<and> c \<le> 0xff)"

partial_function (option) strcmp :: "mem \<Rightarrow> addr \<Rightarrow> addr \<Rightarrow> int option" where
  "strcmp m s1 s2 =
     (if m s1 \<noteq> 0 \<and> m s1 = m s2 then strcmp m (s1 + 1) (s2 + 1)
      else Some (uint (m s1) - uint (m s2)))"

partial_function (option) strcasecmp :: "mem \<Rightarrow> addr \<Rightarrow> addr \<Rightarrow> int option" where
  "strcasecmp m s1 s2 =
     (if m s1 \<noteq> 0 \<and> tolower (m s1) = tolower (m s2) then strcasecmp m (s1 + 1) (s2 + 1)
      else Some (uint (tolower (m s1)) - uint (tolower (m s2))))"

text \<open>The bound of \<open>strncmp\<close> and \<open>strncasecmp\<close> is only tested after a byte has matched.\<close>

partial_function (option) strncmp_loop :: "mem \<Rightarrow> addr \<Rightarrow> addr \<Rightarrow> u32 \<Rightarrow> u32 \<Rightarrow> int option" where
  "strncmp_loop m s1 s2 n i =
     (if m (s1 + i) \<noteq> 0 \<and> m (s1 + i) = m (s2 + i)
      then (if i + 1 = n then Some 0 else strncmp_loop m s1 s2 n (i + 1))
      else Some (uint (m (s1 + i)) - uint (m (s2 + i))))"

definition strncmp :: "mem \<Rightarrow> addr \<Rightarrow> addr \<Rightarrow> u32 \<Rightarrow> int option" where
  "strncmp m s1 s2 n = strncmp_loop m s1 s2 n 0"

partial_function (option) strncasecmp_loop ::
    "mem \<Rightarrow> addr \<Rightarrow> addr \<Rightarrow> u32 \<Rightarrow> u32 \<Rightarrow> int option" where
  "strncasecmp_loop m s1 s2 n i =
     (if m (s1 + i) \<noteq> 0 \<and> tolower (m (s1 + i)) = tolower (m (s2 + i))
      then (if i + 1 = n then Some 0 else strncasecmp_loop m s1 s2 n (i + 1))
      else Some (uint (tolower (m (s1 + i))) - uint (tolower (m (s2 + i)))))"

definition strncasecmp :: "mem \<Rightarrow> addr \<Rightarrow> addr \<Rightarrow> u32 \<Rightarrow> int option" where
  "strncasecmp m s1 s2 n = strncasecmp_loop m s1 s2 n 0"

section \<open>Searches\<close>

function strchr_loop :: "mem \<Rightarrow> addr \<Rightarrow> byte \<Rightarrow> u32 \<Rightarrow> u32 \<Rightarrow> addr" where
  "strchr_loop m str c n i =
     (if i < n then (if m (str + i) = c then str + i else strchr_loop m str c n (i + 1))
      else NULL)"
  by pat_completeness auto
termination
  by (relation "measure (\<lambda>(m, str, c, n, i). unat (n - i))") (auto intro: unat_diff_step)

declare strchr_loop.simps [simp del]

definition strchr :: "mem \<Rightarrow> addr \<Rightarrow> int \<Rightarrow> addr option" where
  "strchr m str ch =
     (if str = NULL then Some NULL
      else do {
        n \<leftarrow> strlen m str;
        Some (strchr_loop m str (word_of_int ch) (n + 1) 0)
      })"

partial_function (option) strrchr_loop :: "mem \<Rightarrow> addr \<Rightarrow> byte \<Rightarrow> addr \<Rightarrow> addr option" where
  "strrchr_loop m str c end =
     (if str \<le> end
      then (if m end = c then Some end else strrchr_loop m str c (end - 1))
      else Some NULL)"

definition strrchr :: "mem \<Rightarrow> addr \<Rightarrow> int \<Rightarrow> addr option" where
  "strrchr m str ch =
     (if str = NULL then Some NULL
      else do {
        n \<leftarrow> strlen m str;
        strrchr_loop m str (word_of_int ch) (str + n)
      })"

text \<open>
  \<open>strstr\<close> is the shift-or algorithm on a 64-bit register. \<open>unsigned long\<close> is 32 bits wide, so the
  masks \<open>1UL << i\<close> are 32-bit values; a shift by 32 or more has no defined result. A needle of
  more than 63 bytes is not looked for at all.
\<close>

function strstr_masks :: "mem \<Rightarrow> addr \<Rightarrow> u32 \<Rightarrow> u32 \<Rightarrow> (byte \<Rightarrow> u64) \<Rightarrow> (byte \<Rightarrow> u64) option" where
  "strstr_masks m needle n i pattern_mask =
     (if i < n
      then if i < 32
           then (let c = m (needle + i);
                     bit = ucast (NOT (push_bit (unat i) (1 :: u32))) :: u64
                 in strstr_masks m needle n (i + 1)
                      (pattern_mask(c := pattern_mask c AND bit)))
           else None
      else Some pattern_mask)"
  by pat_completeness auto
termination
  by (relation "measure (\<lambda>(m, needle, n, i, pm). unat (n - i))") (auto intro: unat_diff_step)

declare strstr_masks.simps [simp del]

partial_function (option) strstr_loop ::
    "mem \<Rightarrow> addr \<Rightarrow> u32 \<Rightarrow> (byte \<Rightarrow> u64) \<Rightarrow> u64 \<Rightarrow> u32 \<Rightarrow> addr option" where
  "strstr_loop m haystack n pattern_mask R i =
     (if m (haystack + i) \<noteq> 0
      then let R = push_bit 1 (R OR pattern_mask (m (haystack + i)))
           in if \<not> n < 32 then None
              else if R AND ucast (push_bit (unat n) (1 :: u32)) = 0
                   then Some (haystack + i - n + 1)
                   else strstr_loop m haystack n pattern_mask R (i + 1)
      else Some NULL)"

definition strstr :: "mem \<Rightarrow> addr \<Rightarrow> addr \<Rightarrow> addr option" where
  "strstr m haystack needle = do {
     n \<leftarrow> strlen m needle;
     (if n = 0 then Some haystack
      else if 63 < n then Some NULL
      else do {
        pattern_mask \<leftarrow> strstr_masks m needle n 0 (\<lambda>_. 0xffffffffffffffff);
        strstr_loop m haystack n pattern_mask (NOT 1) 0
      })
   }"

section \<open>Comparisons on strings\<close>

fun cmp_bytes :: "byte list \<Rightarrow> byte list \<Rightarrow> int" where
  "cmp_bytes [] [] = 0"
| "cmp_bytes (c # s) [] = uint c"
| "cmp_bytes [] (d # t) = - uint d"
| "cmp_bytes (c # s) (d # t) = (if c = d then cmp_bytes s t else uint c - uint d)"

lemma cmp_bytes_zero_iff:
  "0 \<notin> set s \<Longrightarrow> 0 \<notin> set t \<Longrightarrow> (cmp_bytes s t = 0) = (s = t)"
  by (induction s t rule: cmp_bytes.induct) (auto simp: uint_0_iff)

lemma cmp_bytes_swap: "cmp_bytes t s = - cmp_bytes s t"
  by (induction s t rule: cmp_bytes.induct) auto

lemma strcmp_cstr [cstr_rules]:
  "cstr m p s \<Longrightarrow> cstr m q t \<Longrightarrow> strcmp m p q = Some (cmp_bytes s t)"
proof (induction s t arbitrary: p q rule: cmp_bytes.induct)
  case (4 c s d t)
  then show ?case by (subst strcmp.simps) auto
qed (subst strcmp.simps, auto)+

lemma tolower_zero_iff [simp]: "(tolower c = 0) = (c = 0)"
  by (auto simp: tolower_def word_le_nat_alt simp flip: eq_neg_iff_add_eq_0)

lemma strcasecmp_cstr [cstr_rules]:
  "cstr m p s \<Longrightarrow> cstr m q t \<Longrightarrow>
     strcasecmp m p q = Some (cmp_bytes (map tolower s) (map tolower t))"
proof (induction s arbitrary: p q t)
  case Nil
  have "tolower 0 = 0" by simp
  with Nil show ?case by (cases t; subst strcasecmp.simps) (auto simp del: tolower_zero_iff)
next
  case (Cons c s)
  have z: "tolower 0 = 0" by simp
  have "tolower c \<noteq> 0" using Cons.prems by simp
  with Cons z show ?case by (cases t; subst strcasecmp.simps) (auto simp del: tolower_zero_iff)
qed

lemma strncmp_loop_cstr:
  assumes "unat i < n" and "n < 2 ^ 32"
  shows "cstr m (p + i) s \<Longrightarrow> cstr m (q + i) t \<Longrightarrow> length s < 2 ^ 32 \<Longrightarrow>
     strncmp_loop m p q (of_nat n) i = Some (cmp_bytes (take (n - unat i) s) (take (n - unat i) t))"
  using assms(1)
proof (induction s t arbitrary: i rule: cmp_bytes.induct)
  case (4 c s d t)
  have lt: "i < of_nat n"
    using 4 assms(2) by (simp add: word_less_nat_alt unat_of_nat)
  have Suc: "unat (i + 1) = Suc (unat i)" by (rule unat_Suc_less [OF lt])
  have last: "(i + 1 = of_nat n) = (Suc (unat i) = n)"
    using assms(2) by (auto simp: Suc unat_of_nat simp flip: unat_eq_iff)
  obtain k where k: "n - unat i = Suc k" "n - Suc (unat i) = k"
    using "4.prems"(4) by (cases "n - unat i") auto
  show ?case
  proof (cases "c = d \<and> Suc (unat i) \<noteq> n")
    case True
    then have "strncmp_loop m p q (of_nat n) (i + 1)
                 = Some (cmp_bytes (take (n - unat (i + 1)) s) (take (n - unat (i + 1)) t))"
      using "4.prems" by (intro "4.IH") (auto simp: Suc add.assoc)
    with True "4.prems" k show ?thesis
      by (subst strncmp_loop.simps) (simp add: last Suc)
  next
    case False
    with "4.prems" k show ?thesis by (subst strncmp_loop.simps) (auto simp: last)
  qed
qed (subst strncmp_loop.simps, simp add: take_Cons split: nat.splits)+

lemma strncmp_cstr:
  assumes "cstr m p s" and "cstr m q t" and "0 < n" and "length s < 2 ^ 32"
  shows "strncmp m p q n = Some (cmp_bytes (take (unat n) s) (take (unat n) t))"
  using strncmp_loop_cstr [of 0 "unat n" m p s q t] assms unat_lt_exp [of n]
  by (simp add: strncmp_def unat_gt_0)

section \<open>Searches on strings\<close>

lemma strchr_loop_cstr:
  assumes "cstr m (p + i) s" and "unat i + length s + 1 = N" and "N < 2 ^ 32"
  shows "strchr_loop m p c (of_nat N) i =
     (if c \<in> set (s @ [0]) then p + i + of_nat (length (takeWhile (\<lambda>x. x \<noteq> c) s)) else NULL)"
  using assms(1,2)
proof (induction s arbitrary: i)
  case Nil
  have lt: "i < of_nat N" using Nil assms(3) by (simp add: word_less_nat_alt unat_of_nat)
  have last: "\<not> i + 1 < of_nat N"
    using Nil assms(3) unat_Suc_less [OF lt] by (simp add: word_less_nat_alt unat_of_nat)
  from Nil lt last show ?case
    by (subst strchr_loop.simps) (auto simp: strchr_loop.simps [of _ _ _ _ "i + 1"])
next
  case (Cons d s)
  have lt: "i < of_nat N" using Cons.prems assms(3) by (simp add: word_less_nat_alt unat_of_nat)
  have "strchr_loop m p c (of_nat N) (i + 1) =
     (if c \<in> set (s @ [0]) then p + (i + 1) + of_nat (length (takeWhile (\<lambda>x. x \<noteq> c) s)) else NULL)"
    using Cons.prems by (intro Cons.IH) (auto simp: unat_Suc_less [OF lt] add.assoc)
  with Cons.prems lt show ?case by (subst strchr_loop.simps) auto
qed

lemma strchr_cstr [cstr_rules]:
  assumes "cstr m p s" and "p \<noteq> NULL" and "length s + 1 < 2 ^ 32"
  shows "strchr m p ch =
     (let c = word_of_int ch
      in Some (if c \<in> set (s @ [0]) then p + of_nat (length (takeWhile (\<lambda>x. x \<noteq> c) s)) else NULL))"
  using strchr_loop_cstr [of m p 0 s "length s + 1"] assms
  by (simp add: strchr_def strlen_cstr Let_def add.commute [of 1])

lemma strrchr_loop_cstr:
  assumes "p \<noteq> NULL" and "unat p + length s < 2 ^ 32"
    and "\<And>k. k < length s \<Longrightarrow> m (p + of_nat k) = s ! k"
  shows "strrchr_loop m p c (p + of_nat (length s) - 1) =
     Some (if c \<in> set s
           then p + of_nat (length s - 1 - length (takeWhile (\<lambda>x. x \<noteq> c) (rev s))) else NULL)"
  using assms(2,3)
proof (induction s rule: rev_induct)
  case Nil
  have "\<not> p \<le> p - 1"
    using assms(1) by (simp add: not_le word_less_nat_alt measure_unat)
  then show ?case by (subst strrchr_loop.simps) simp
next
  case (snoc d s)
  have "unat (p + of_nat (length s)) = unat p + length s"
    using snoc.prems(1) by (subst unat_add_lem [THEN iffD1]) (auto simp: unat_of_nat)
  then have le: "p \<le> p + of_nat (length s)" by (simp add: word_le_nat_alt)
  have IH: "strrchr_loop m p c (p + of_nat (length s) - 1) =
     Some (if c \<in> set s
           then p + of_nat (length s - 1 - length (takeWhile (\<lambda>x. x \<noteq> c) (rev s))) else NULL)"
  proof (rule snoc.IH)
    show "unat p + length s < 2 ^ 32" using snoc.prems(1) by simp
    fix k assume "k < length s"
    then show "m (p + of_nat k) = s ! k" using snoc.prems(2) [of k] by (simp add: nth_append)
  qed
  have d: "m (p + of_nat (length s)) = d" using snoc.prems(2) [of "length s"] by simp
  have e: "p + of_nat (length (s @ [d])) - 1 = p + of_nat (length s)" by simp
  from d IH show ?case
    unfolding e using le by (subst strrchr_loop.simps) auto
qed

lemma strrchr_cstr [cstr_rules]:
  assumes "cstr m p s" and "p \<noteq> NULL" and "unat p + length s + 1 < 2 ^ 32"
    and "c = word_of_int ch" and "c \<noteq> 0"
  shows "strrchr m p ch =
     Some (if c \<in> set s
           then p + of_nat (length s - 1 - length (takeWhile (\<lambda>x. x \<noteq> c) (rev s))) else NULL)"
proof -
  have "strrchr_loop m p c (p + of_nat (length (s @ [0])) - 1) =
     Some (if c \<in> set (s @ [0])
           then p + of_nat (length (s @ [0]) - 1
                  - length (takeWhile (\<lambda>x. x \<noteq> c) (rev (s @ [0])))) else NULL)"
    using assms cstr_end [OF assms(1)]
    by (intro strrchr_loop_cstr) (auto simp: nth_append cstr_nth less_Suc_eq)
  with assms show ?thesis by (simp add: strrchr_def strlen_cstr)
qed

section \<open>strstr\<close>

lemma strstr_masks_bits:
  assumes "cstr m p ns" and "length ns < 32" and "unat i \<le> length ns"
  shows "\<exists>pm'. strstr_masks m p (of_nat (length ns)) i pm = Some pm' \<and>
     (\<forall>c j. j < 32 \<longrightarrow>
        bit (pm' c) j = (bit (pm c) j \<and> \<not> (unat i \<le> j \<and> j < length ns \<and> ns ! j = c)))"
  using assms(3)
proof (induction "length ns - unat i" arbitrary: i pm)
  case 0
  then have "\<not> i < of_nat (length ns)"
    using assms(2) by (simp add: word_less_nat_alt unat_of_nat)
  with 0 show ?case by (subst strstr_masks.simps) auto
next
  case (Suc k)
  then have lt: "i < of_nat (length ns)"
    using assms(2) by (simp add: word_less_nat_alt unat_of_nat)
  then have i32: "i < 32" using Suc.prems assms(2) by (simp add: word_less_nat_alt unat_of_nat)
  have S: "unat (i + 1) = Suc (unat i)" by (rule unat_Suc_less [OF lt])
  define pm1 where "pm1 = pm(ns ! unat i := pm (ns ! unat i)
     AND (ucast (NOT (push_bit (unat i) (1 :: u32))) :: u64))"
  have ci: "m (p + i) = ns ! unat i"
    using cstr_nth [OF assms(1), of "unat i"] Suc.hyps(2) by simp
  have "\<exists>pm'. strstr_masks m p (of_nat (length ns)) (i + 1) pm1 = Some pm' \<and>
     (\<forall>c j. j < 32 \<longrightarrow>
        bit (pm' c) j = (bit (pm1 c) j \<and> \<not> (unat (i + 1) \<le> j \<and> j < length ns \<and> ns ! j = c)))"
    using Suc.hyps(2) by (intro Suc.hyps(1)) (auto simp: S)
  then obtain pm' where pm': "strstr_masks m p (of_nat (length ns)) (i + 1) pm1 = Some pm'"
    and bits: "\<And>c j. j < 32 \<Longrightarrow>
        bit (pm' c) j = (bit (pm1 c) j \<and> \<not> (Suc (unat i) \<le> j \<and> j < length ns \<and> ns ! j = c))"
    by (auto simp: S)
  have pm1: "bit (pm1 c) j = (bit (pm c) j \<and> \<not> (j = unat i \<and> ns ! j = c))" if "j < 32" for c j
    using that by (auto simp: pm1_def bit_simps)
  have "strstr_masks m p (of_nat (length ns)) i pm = Some pm'"
    using lt i32 pm' by (subst strstr_masks.simps) (simp add: Let_def ci pm1_def)
  moreover have "bit (pm' c) j
      = (bit (pm c) j \<and> \<not> (unat i \<le> j \<and> j < length ns \<and> ns ! j = c))" if "j < 32" for c j
    using Suc.hyps(2) by (auto simp: bits [OF that] pm1 [OF that] le_eq_less_or_eq Suc_le_eq)
  ultimately show ?case by blast
qed

definition shift_or_inv :: "byte list \<Rightarrow> byte list \<Rightarrow> u64 \<Rightarrow> bool" where
  "shift_or_inv ns pre R \<longleftrightarrow>
     (\<forall>j\<le>length ns. bit R j = (\<not> (j \<le> length pre \<and> drop (length pre - j) pre = take j ns)))"

lemma shift_or_step:
  assumes "shift_or_inv ns pre R" and "length ns < 32"
    and "\<And>j. j < length ns \<Longrightarrow> bit M j = (ns ! j \<noteq> c)"
  shows "shift_or_inv ns (pre @ [c]) (push_bit 1 (R OR M))"
  unfolding shift_or_inv_def
proof (intro allI impI)
  fix j assume j: "j \<le> length ns"
  show "bit (push_bit 1 (R OR M)) j
    = (\<not> (j \<le> length (pre @ [c]) \<and> drop (length (pre @ [c]) - j) (pre @ [c]) = take j ns))"
  proof (cases j)
    case 0
    then show ?thesis unfolding bit_push_bit_iff by simp
  next
    case (Suc k)
    with j assms(2,3) have "bit (push_bit 1 (R OR M)) j = (bit R k \<or> ns ! k \<noteq> c)"
      unfolding bit_push_bit_iff by (simp add: bit_or_iff)
    also have "bit R k = (\<not> (k \<le> length pre \<and> drop (length pre - k) pre = take k ns))"
      using assms(1) j Suc by (simp add: shift_or_inv_def)
    finally show ?thesis
      using j Suc by (auto simp: take_Suc_conv_app_nth)
  qed
qed

lemma shift_or_test:
  assumes "n < 32"
  shows "((R :: u64) AND ucast (push_bit n (1 :: u32)) = 0) = (\<not> bit R n)"
proof -
  have "ucast (push_bit n (1 :: u32)) = (2 ^ n :: u64)"
    using assms by (intro bit_word_eqI) (auto simp: bit_simps)
  then show ?thesis by (simp add: and_exp_eq_0_iff_not_bit)
qed

text \<open>The specification: the offset of the first occurrence of the needle.\<close>

definition occurs_at :: "byte list \<Rightarrow> byte list \<Rightarrow> nat \<Rightarrow> bool" where
  "occurs_at ns hs k \<longleftrightarrow> prefix ns (drop k hs)"

definition first_occurrence :: "byte list \<Rightarrow> byte list \<Rightarrow> nat option" where
  "first_occurrence ns hs = find (occurs_at ns hs) [0..<Suc (length hs)]"

lemma find_first:
  "P k \<Longrightarrow> k < n \<Longrightarrow> (\<And>j. j < k \<Longrightarrow> \<not> P j) \<Longrightarrow> find P [0..<n] = Some k"
  by (auto simp: find_Some_iff intro!: exI [of _ k])

lemma find_none: "(\<And>k. \<not> P k) \<Longrightarrow> find P [0..<n] = None"
  by (simp add: find_None_iff)

lemma shift_or_match:
  assumes "shift_or_inv ns pre R" and "ns \<noteq> []"
  shows "(\<not> bit R (length ns)) = (length ns \<le> length pre \<and>
           occurs_at ns (pre @ rest) (length pre - length ns))"
  using assms by (auto simp: shift_or_inv_def occurs_at_def prefix_def append_eq_append_conv_if
      intro: exI [of _ rest] dest: sym)

lemma strstr_loop_first:
  assumes "ns \<noteq> []" and "length ns < 32"
    and masks: "\<And>c j. j < length ns \<Longrightarrow> bit (pm c) j = (ns ! j \<noteq> c)"
  shows "cstr m (h + of_nat (length pre)) rest \<Longrightarrow> shift_or_inv ns pre R \<Longrightarrow>
     (\<And>k. k + length ns \<le> length pre \<Longrightarrow> \<not> occurs_at ns (pre @ rest) k) \<Longrightarrow>
     strstr_loop m h (of_nat (length ns)) pm R (of_nat (length pre)) =
       Some (case first_occurrence ns (pre @ rest) of None \<Rightarrow> NULL | Some k \<Rightarrow> h + of_nat k)"
proof (induction rest arbitrary: pre R)
  case Nil
  have "\<not> occurs_at ns pre k" for k
  proof
    assume occ: "occurs_at ns pre k"
    then have "length ns \<le> length pre - k"
      unfolding occurs_at_def by (metis length_drop prefix_length_le)
    with assms(1) have "k + length ns \<le> length pre" by (cases ns) auto
    with Nil.prems(3) [of k] occ show False by simp
  qed
  then have "first_occurrence ns (pre @ []) = None"
    unfolding first_occurrence_def by (intro find_none) simp
  with Nil.prems(1) show ?case by (subst strstr_loop.simps) simp
next
  case (Cons c rest)
  define R' where "R' = push_bit 1 (R OR pm c)"
  have R': "R * 2 OR pm c * 2 = R'" by (simp add: R'_def)
  have n32: "(of_nat (length ns) :: u32) < 32"
    using assms(2) by (simp add: word_less_nat_alt unat_of_nat)
  have c: "m (h + of_nat (length pre)) = c" "c \<noteq> 0" using Cons.prems(1) by auto
  have inv': "shift_or_inv ns (pre @ [c]) R'"
    unfolding R'_def by (rule shift_or_step [OF Cons.prems(2) assms(2)]) (rule masks)
  have test: "(R' AND ucast (2 ^ length ns :: u32) = 0) = (\<not> bit R' (length ns))"
    using shift_or_test [OF assms(2), of R'] by simp
  have un: "unat (of_nat (length ns) :: u32) = length ns"
    using assms(2) by (simp add: unat_of_nat)
  show ?case
  proof (cases "bit R' (length ns)")
    case False
    then have le: "length ns \<le> Suc (length pre)"
      and occ: "occurs_at ns (pre @ c # rest) (Suc (length pre) - length ns)"
      using shift_or_match [OF inv' assms(1), of rest] by auto
    have "first_occurrence ns (pre @ c # rest) = Some (Suc (length pre) - length ns)"
      unfolding first_occurrence_def
    proof (rule find_first [where P = "occurs_at ns (pre @ c # rest)", OF occ])
      fix j assume "j < Suc (length pre) - length ns"
      then show "\<not> occurs_at ns (pre @ c # rest) j" by (intro Cons.prems(3)) simp
    qed simp
    moreover have "h + of_nat (Suc (length pre) - length ns)
        = h + of_nat (length pre) - of_nat (length ns) + 1"
      using le by (simp add: of_nat_diff algebra_simps)
    ultimately show ?thesis
      using False n32 c
      by (subst strstr_loop.simps) (simp add: Let_def R' un test)
  next
    case True
    have "strstr_loop m h (of_nat (length ns)) pm R' (of_nat (length (pre @ [c]))) =
       Some (case first_occurrence ns ((pre @ [c]) @ rest) of None \<Rightarrow> NULL | Some k \<Rightarrow> h + of_nat k)"
    proof (rule Cons.IH [OF _ inv'])
      show "cstr m (h + of_nat (length (pre @ [c]))) rest"
        using Cons.prems(1) by (simp add: add.assoc add.commute [of 1])
      fix k assume k: "k + length ns \<le> length (pre @ [c])"
      show "\<not> occurs_at ns ((pre @ [c]) @ rest) k"
      proof (cases "k + length ns = Suc (length pre)")
        case eq: True
        then have "k = length (pre @ [c]) - length ns" by simp
        with shift_or_match [OF inv' assms(1), of rest] True eq show ?thesis by auto
      next
        case False
        with k Cons.prems(3) [of k] show ?thesis by simp
      qed
    qed
    with True n32 c show ?thesis
      by (subst strstr_loop.simps)
         (simp add: Let_def R' un test add.commute [of 1])
  qed
qed

lemma strstr_cstr [cstr_rules]:
  assumes "cstr m h hs" and "cstr m n ns" and "length ns < 32"
  shows "strstr m h n =
     Some (case first_occurrence ns hs of None \<Rightarrow> NULL | Some k \<Rightarrow> h + of_nat k)"
proof (cases "ns = []")
  case True
  have "first_occurrence [] hs = Some 0"
    unfolding first_occurrence_def by (rule find_first) (auto simp: occurs_at_def)
  moreover have "strlen m n = Some 0" using strlen_cstr [OF assms(2)] True by simp
  ultimately show ?thesis using True by (simp add: strstr_def)
next
  case False
  from strstr_masks_bits [OF assms(2,3), of 0 "\<lambda>_. 0xffffffffffffffff"]
  obtain pm where pm: "strstr_masks m n (of_nat (length ns)) 0 (\<lambda>_. 0xffffffffffffffff) = Some pm"
    and bits: "\<And>c j. j < 32 \<Longrightarrow> bit (pm c) j = (bit (0xffffffffffffffff :: u64) j
                 \<and> \<not> (j < length ns \<and> ns ! j = c))"
    by auto
  have ones: "bit (0xffffffffffffffff :: u64) j" if "j < 32" for j
  proof -
    have "(0xffffffffffffffff :: u64) = NOT 0" by simp
    then show ?thesis using that by (simp only: bit_not_iff) simp
  qed
  have inv: "shift_or_inv ns [] (NOT 1)"
    using assms(3) by (auto simp: shift_or_inv_def bit_not_iff bit_1_iff)
  have "strstr_loop m h (of_nat (length ns)) pm (NOT 1) (of_nat (length ([] :: byte list)))
     = Some (case first_occurrence ns ([] @ hs) of None \<Rightarrow> NULL | Some k \<Rightarrow> h + of_nat k)"
    using assms False ones
    by (intro strstr_loop_first [of ns pm m h "[]" hs "NOT 1", OF False assms(3) _ _ inv])
       (auto simp: bits)
  moreover have "(of_nat (length ns) :: u32) \<noteq> 0" "\<not> (63 :: u32) < of_nat (length ns)"
    using False assms(3)
    by (auto simp: word_less_nat_alt unat_of_nat simp flip: unat_eq_iff)
  ultimately show ?thesis
    using assms pm by (simp add: strstr_def strlen_cstr)
qed

end
