(* ===== verification/Ramfs.thy ===== *)
theory Ramfs
  imports Proc Libc_String
begin

text \<open>
  The file system in memory, \<open>src/fs/ramfs.c\<close>: files whose bytes are one chunk of the heap that grows by
  reallocation, and directories that are files of 40 byte entries. \<open>read_op\<close> and \<open>write_op\<close> give the
  behaviour of the functions that an operation table names: a directory is read and written through its own table.
\<close>

section \<open>Files\<close>

definition S_IFDIR :: u16 where "S_IFDIR = 0x4000"
definition S_IFCHR :: u16 where "S_IFCHR = 0x2000"
definition S_IFREG :: u16 where "S_IFREG = 0x8000"
definition MAX_FILENAME_LEN :: u32 where "MAX_FILENAME_LEN = 32"
definition dirent_bytes :: u32 where "dirent_bytes = 40"

type_synonym read_ops = "addr \<Rightarrow> kernel \<Rightarrow> kfile \<Rightarrow> addr \<Rightarrow> u32 \<Rightarrow> u32 \<Rightarrow> (kernel \<times> int) option"

text \<open>The storage that a write to the bytes from \<open>file_offset\<close> needs; a failed allocation is found when it is used.\<close>

definition ramfs_reserve :: "kernel \<Rightarrow> inode \<Rightarrow> u32 \<Rightarrow> u32 \<Rightarrow> (kernel \<times> inode) option" where
  "ramfs_reserve k ino count file_offset = do {
     (k, ino) \<leftarrow> (if bytes_allocated ino = 0
        then do {
          (k, p) \<leftarrow> kmalloc_k k (count + 512);
          Some (k, ino\<lparr>file_begin := p, bytes_allocated := count + 512\<rparr>)
        }
        else Some (k, ino));
     (if bytes_allocated ino < file_offset + count
      then do {
        (heap, p) \<leftarrow> krealloc (k_heap k) (file_begin ino) (file_offset + count + 512);
        Some (k\<lparr>k_heap := heap\<rparr>, ino\<lparr>file_begin := p, bytes_allocated := file_offset + count + 512\<rparr>)
      }
      else Some (k, ino))
   }"

definition ramfs_write :: "kernel \<Rightarrow> kfile \<Rightarrow> addr \<Rightarrow> u32 \<Rightarrow> u32 \<Rightarrow> (kernel \<times> int) option" where
  "ramfs_write k f buf count file_offset = do {
     ino \<leftarrow> deref (inodes k) (f_inode f);
     (k, ino) \<leftarrow> ramfs_reserve k ino count file_offset;
     require (file_begin ino \<noteq> NULL \<or> count = 0);
     let m = fst (memcpy (contents (k_heap k)) (file_begin ino + file_offset) buf count);
     Some (k\<lparr>k_heap := (k_heap k)\<lparr>contents := m\<rparr>,
             inodes := (inodes k)(f_inode f \<mapsto> ino\<lparr>i_size := i_size ino + count\<rparr>)\<rparr>, sint count)
   }"

function ramfs_read_loop :: "mem \<Rightarrow> inode \<Rightarrow> addr \<Rightarrow> u32 \<Rightarrow> u32 \<Rightarrow> u32 \<Rightarrow> mem \<times> u32" where
  "ramfs_read_loop m ino buf count file_offset offset =
     (if offset < count \<and> sint (file_offset + offset) < sint (i_size ino) \<and>
         file_offset + offset < bytes_allocated ino
      then ramfs_read_loop (m(buf + offset := m (file_begin ino + file_offset + offset))) ino buf count
             file_offset (offset + 1)
      else (m, offset))"
  by pat_completeness auto
termination
  by (relation "measure (\<lambda>(m, ino, buf, count, file_offset, offset). unat (count - offset))")
    (auto simp: unat_diff_step)

declare ramfs_read_loop.simps [simp del]

definition ramfs_read :: "kernel \<Rightarrow> kfile \<Rightarrow> addr \<Rightarrow> u32 \<Rightarrow> u32 \<Rightarrow> (kernel \<times> int) option" where
  "ramfs_read k f buf count file_offset = do {
     ino \<leftarrow> deref (inodes k) (f_inode f);
     let (m, n) = ramfs_read_loop (contents (k_heap k)) ino buf count file_offset 0;
     Some (k\<lparr>k_heap := (k_heap k)\<lparr>contents := m\<rparr>\<rparr>, sint n)
   }"

definition ramfs_readdir :: "kernel \<Rightarrow> addr \<Rightarrow> kfile \<Rightarrow> addr \<Rightarrow> u32 \<Rightarrow> (kernel \<times> int) option" where
  "ramfs_readdir k dir f buf count = do {
     ino \<leftarrow> deref (inodes k) (f_inode f);
     d \<leftarrow> deref (inodes k) dir;
     let dentries_to_read = count div dirent_bytes;
     let dentries_bytes = (if dentries_to_read * dirent_bytes \<le> i_size d
                           then dentries_to_read * dirent_bytes else i_size d);
     let m = fst (memcpy (contents (k_heap k)) buf (file_begin ino + word_of_int (f_pos f)) dentries_bytes);
     Some (k\<lparr>k_heap := (k_heap k)\<lparr>contents := m\<rparr>\<rparr>, sint dentries_bytes)
   }"

text \<open>\<open>ramfs_close\<close> does nothing and its result is never used.\<close>

definition ramfs_close :: "addr \<Rightarrow> kernel \<Rightarrow> kernel option" where
  "ramfs_close file k = Some k"

section \<open>Directories\<close>

text \<open>
  A directory entry: the type at offset 0, the inode at 4 and the name at 8. The loop of \<open>ramfs_lookup\<close> over
  the copy of the directory; the name that it returns points into that copy, which is released afterwards.
\<close>

partial_function (option) ramfs_lookup_loop :: "kernel \<Rightarrow> addr \<Rightarrow> u32 \<Rightarrow> dentry \<Rightarrow> u32 \<Rightarrow> dentry option option" where
  "ramfs_lookup_loop k buf sz file offset =
     (if offset < sz
      then do {
        let entry = buf + offset;
        let m = contents (k_heap k);
        let file_inode = load32 m (entry + 4);
        c \<leftarrow> strcmp m (entry + 8) (d_name file);
        (if c = 0 \<or> file_inode = d_inode file
         then do {
           ino \<leftarrow> deref (inodes k) file_inode;
           Some (Some \<lparr>d_name = entry + 8, d_inode = file_inode, d_sb = i_sb ino\<rparr>)
         }
         else ramfs_lookup_loop k buf sz file (offset + dirent_bytes))
      }
      else Some None)"

declare ramfs_lookup_loop.simps [simp del] ramfs_lookup_loop.simps [code]

definition wrapper_file :: "addr \<Rightarrow> kfile" where
  "wrapper_file inode = \<lparr>f_inode = inode, f_op = NULL, f_flags = 0, f_pos = 0, f_owner = 0\<rparr>"

definition ramfs_lookup :: "read_ops \<Rightarrow> kernel \<Rightarrow> addr \<Rightarrow> dentry \<Rightarrow> (kernel \<times> dentry option) option" where
  "ramfs_lookup read_op k dirp file = do {
     dir \<leftarrow> deref (inodes k) dirp;
     (k, buf) \<leftarrow> kmalloc_k k (i_size dir);
     require (buf \<noteq> NULL \<or> i_size dir = 0);
     ops \<leftarrow> deref (fop_tables k) (i_fop dir);
     (k, _) \<leftarrow> read_op (fop_read ops) k (wrapper_file dirp) buf (i_size dir) 0;
     r \<leftarrow> ramfs_lookup_loop k buf (i_size dir) file 0;
     k \<leftarrow> kfree_k k buf;
     Some (k, r)
   }"

text \<open>The 40 bytes of the entry of a new file; bytes that the code does not set keep what the chunk held.\<close>

definition write_dirent :: "mem \<Rightarrow> addr \<Rightarrow> addr \<Rightarrow> addr \<Rightarrow> u16 \<Rightarrow> mem option" where
  "write_dirent m entry inode name mode = do {
     let m = store32 m (entry + 4) inode;
     let m = (if mode AND S_IFREG \<noteq> 0 then m(entry := of_char CHR ''-'')
              else if mode AND S_IFDIR \<noteq> 0 then m(entry := of_char CHR ''d'')
              else if mode AND S_IFCHR \<noteq> 0 then m(entry := of_char CHR ''c'')
              else m);
     n \<leftarrow> strlen m name;
     let name_len = (if n > MAX_FILENAME_LEN - 1 then MAX_FILENAME_LEN - 1 else n + 1);
     let m = fst (memcpy m (entry + 8) name name_len);
     Some (m(entry + 8 + (MAX_FILENAME_LEN - 1) := 0))
   }"

definition ramfs_create_file :: "read_ops \<Rightarrow> kernel \<Rightarrow> addr \<Rightarrow> dentry \<Rightarrow> u16 \<Rightarrow> (kernel \<times> int) option" where
  "ramfs_create_file write_op k dirp new_file mode = do {
     dir \<leftarrow> deref (inodes k) dirp;
     (if d_inode new_file = NULL then Some (k, - 1)
      else do {
        ino \<leftarrow> deref (inodes k) (d_inode new_file);
        let k = k\<lparr>inodes := (inodes k)(d_inode new_file \<mapsto> ino\<lparr>i_mode := mode, i_parent := dirp\<rparr>)\<rparr>;
        (k, entry) \<leftarrow> kmalloc_k k dirent_bytes;
        require (entry \<noteq> NULL);
        m \<leftarrow> write_dirent (contents (k_heap k)) entry (d_inode new_file) (d_name new_file) mode;
        let k = k\<lparr>k_heap := (k_heap k)\<lparr>contents := m\<rparr>\<rparr>;
        dir \<leftarrow> deref (inodes k) dirp;
        ops \<leftarrow> deref (fop_tables k) (i_fop dir);
        (k, _) \<leftarrow> write_op (fop_write ops) k (wrapper_file dirp) entry dirent_bytes (i_size dir);
        k \<leftarrow> kfree_k k entry;
        Some (k, 0)
      })
   }"

definition ramfs_unlink :: "kernel \<Rightarrow> addr \<Rightarrow> dentry \<Rightarrow> (kernel \<times> int) option" where
  "ramfs_unlink k dirp file = do {
     ino \<leftarrow> deref (inodes k) (d_inode file);
     k \<leftarrow> kfree_k k (file_begin ino);
     k \<leftarrow> kfree_k k (i_fop ino);
     k \<leftarrow> kfree_k k (i_op ino);
     k \<leftarrow> kfree_k k (d_inode file);
     dir \<leftarrow> deref (inodes k) dirp;
     Some (k\<lparr>inodes := (inodes k)(dirp \<mapsto> dir\<lparr>i_size := i_size dir - dirent_bytes\<rparr>)\<rparr>, 0)
   }"

section \<open>Inodes and the mount\<close>

text \<open>The operation tables that the file system installs: the addresses of its functions.\<close>

definition ramfs_alloc_inode :: "iop_table \<Rightarrow> fop_table \<Rightarrow> kernel \<Rightarrow> addr \<Rightarrow> (kernel \<times> addr) option" where
  "ramfs_alloc_inode iops fops k sb = do {
     (k, iop) \<leftarrow> kmalloc_k k 12;
     require (iop \<noteq> NULL);
     let k = k\<lparr>iop_tables := (iop_tables k)(iop \<mapsto> iops)\<rparr>;
     (k, fop) \<leftarrow> kmalloc_k k 36;
     require (fop \<noteq> NULL);
     let k = k\<lparr>fop_tables := (fop_tables k)(fop \<mapsto> fops)\<rparr>;
     (k, p) \<leftarrow> kmalloc_k k 64;
     require (p \<noteq> NULL);
     Some (k\<lparr>inodes := (inodes k)(p \<mapsto> inode_zero\<lparr>i_op := iop, i_fop := fop, i_sb := sb, file_begin := NULL\<rparr>)\<rparr>, p)
   }"

definition ramfs_mount ::
    "iop_table \<Rightarrow> fop_table \<Rightarrow> sop_table \<Rightarrow> addr \<Rightarrow> addr \<Rightarrow> kernel \<Rightarrow> (kernel \<times> addr) option" where
  "ramfs_mount iops fops sops name_ramfs name_root k = do {
     (k, sb_op) \<leftarrow> kmalloc_k k 12;
     require (sb_op \<noteq> NULL);
     let k = k\<lparr>sop_tables := (sop_tables k)(sb_op \<mapsto> sops)\<rparr>;
     (k, sb) \<leftarrow> kmalloc_k k 12;
     require (sb \<noteq> NULL);
     let k = k\<lparr>super_blocks := (super_blocks k)(sb \<mapsto> \<lparr>s_name = name_ramfs, s_op = sb_op, s_root = NULL\<rparr>)\<rparr>;
     (k, root_inode) \<leftarrow> ramfs_alloc_inode iops fops k sb;
     ino \<leftarrow> deref (inodes k) root_inode;
     let k = k\<lparr>inodes := (inodes k)(root_inode \<mapsto> ino\<lparr>i_mode := i_mode ino OR S_IFDIR\<rparr>)\<rparr>;
     (k, root) \<leftarrow> kmalloc_k k 12;
     require (root \<noteq> NULL);
     Some (k\<lparr>dentries := (dentries k)(root \<mapsto> \<lparr>d_name = name_root, d_inode = root_inode, d_sb = sb\<rparr>),
             super_blocks := (super_blocks k)(sb \<mapsto> \<lparr>s_name = name_ramfs, s_op = sb_op, s_root = root\<rparr>)\<rparr>, root)
   }"

lemma unat_zero_iff [simp]: "(unat (x :: 'a::len word) = 0) = (x = 0)"
  using unat_eq_iff [of x 0] by simp

lemma unat_before: "i < n \<Longrightarrow> n < 2 ^ 32 \<Longrightarrow> unat (of_nat i - of_nat n :: u32) = 2 ^ 32 - (n - i)"
proof -
  assume i: "i < n" "n < 2 ^ 32"
  define w :: u32 where "w = of_nat (n - i)"
  have v: "unat w = n - i" unfolding w_def using i by (intro unat_of_nat_less) simp
  have "w \<noteq> 0" using i v by auto
  have "int (unat w) = uint w" by simp
  then have "uint w = int (n - i)" by (simp only: v)
  then have "int (unat (- w)) = 2 ^ 32 - int (n - i)" using unat_uminus_u32 [OF \<open>w \<noteq> 0\<close>] by (simp only:)
  then have "int (unat (- w)) = int (2 ^ 32 - (n - i))" using i by (simp only: of_nat_diff) simp
  then have "unat (- w) = 2 ^ 32 - (n - i)" by (simp only: of_nat_eq_iff)
  moreover have "(of_nat i - of_nat n :: u32) = - w" using i by (simp add: w_def of_nat_diff)
  ultimately show ?thesis by simp
qed

section \<open>What a file holds\<close>

text \<open>
  The storage of an inode in a well-formed heap: its chunk, and the bytes of the file. A chunk is at most
  8 bytes longer than what the inode accounts for.
\<close>

definition ramfs_storage :: "kernel \<Rightarrow> block list \<Rightarrow> inode \<Rightarrow> byte list \<Rightarrow> bool" where
  "ramfs_storage k bs ino data \<longleftrightarrow> heap_inv (k_heap k) bs \<and> unat (i_size ino) = length data \<and>
     length data \<le> unat (bytes_allocated ino) \<and>
     (bytes_allocated ino = 0 \<or> (\<exists>n. (file_begin ino - 12, n) \<in> set bs \<and>
        unat (bytes_allocated ino) \<le> unat n \<and> unat n \<le> unat (bytes_allocated ino) + 8)) \<and>
     (\<forall>i<length data. contents (k_heap k) (file_begin ino + of_nat i) = data ! i)"

text \<open>The bytes of the chunks in use, other than the one at \<open>a\<close>, are the same in two states.\<close>

definition other_chunks_kept :: "block list \<Rightarrow> addr \<Rightarrow> mem \<Rightarrow> mem \<Rightarrow> bool" where
  "other_chunks_kept bs a m m' \<longleftrightarrow>
     (\<forall>b\<in>set bs. fst b \<noteq> a \<longrightarrow> (\<forall>x :: addr. unat x \<in> chunk_region b \<longrightarrow> m' x = m x))"

lemma align_size_large: "8 \<le> unat sz \<Longrightarrow> unat sz + 4 < 2 ^ 32 \<Longrightarrow> unat (align_size sz) \<le> unat sz + 4"
  by (simp add: align_size_spec max_def)

text \<open>An address at an offset within a chunk.\<close>

lemma chunk_offset:
  assumes "heap_inv s bs" and "(a, n) \<in> set bs" and "unat (x - (a + 12)) < unat n"
  shows "unat x \<in> chunk_region (a, n)"
proof -
  have e: "unat a + 12 + unat n < 2 ^ 32"
    using assms(1,2) placed_member [of "unat (heap_start s)" bs "(a, n)"] by (auto simp: heap_inv_def block_end_def)
  have "unat (a + 12) = unat a + 12" using heap_inv_block_ptr(1) [OF assms(1,2)] by simp
  moreover have "unat (a + 12 + of_nat (unat (x - (a + 12)))) = unat (a + 12) + unat (x - (a + 12))"
    using e assms(3) calculation by (intro unat_add_of_nat) simp
  ultimately show ?thesis using assms(3) by (simp add: chunk_region_def block_end_def)
qed

lemma chunks_disjoint:
  assumes "heap_inv s bs" and "b \<in> set bs" "c \<in> set bs" "fst b \<noteq> fst c"
  shows "chunk_region b \<inter> chunk_region c = {}"
proof -
  obtain ys zs where bs: "bs = ys @ b # zs" using split_list [OF assms(2)] by blast
  then have "c \<in> set (ys @ zs)" using assms(3,4) by auto
  then show ?thesis using kheap.live_regions_disjoint assms(1) bs by blast
qed

lemma other_chunks_kept_refl [simp]: "other_chunks_kept bs a m m"
  by (simp add: other_chunks_kept_def)

text \<open>Reallocation of a file's chunk, at the end of the heap or by a move.\<close>

lemma krealloc_chunk:
  assumes inv: "heap_inv s bs" and blk: "(a, n) \<in> set bs"
    and room: "kmalloc_room s bs (align_size sz)" and sz: "8 \<le> unat sz" "unat n \<le> unat sz" "unat sz < 2 ^ 31"
  shows "\<exists>s' b N bs'. krealloc s (a + 12) sz = Some (s', b + 12) \<and> heap_inv s' bs' \<and> (b, N) \<in> set bs' \<and>
    unat sz \<le> unat N \<and> unat N \<le> unat sz + 8 \<and> set bs - {(a, n)} \<subseteq> set bs' \<and>
    (\<forall>c\<in>set bs. fst c \<noteq> a \<longrightarrow> fst c \<noteq> b) \<and>
    (\<forall>k<unat n. contents s' (b + 12 + of_nat k) = contents s (a + 12 + of_nat k)) \<and>
    other_chunks_kept bs a (contents s) (contents s')"
proof -
  obtain ys zs where bs: "bs = ys @ (a, n) # zs" using split_list [OF blk] by blast
  have al: "unat sz < unat (align_size sz)" "unat (align_size sz) \<le> unat sz + 4"
    using align_size_bounds(1) [of sz] align_size_large [of sz] sz by simp_all
  have al2: "unat (align_size sz) < unat (align_size (align_size sz))"
    "unat (align_size (align_size sz)) \<le> unat (align_size sz) + 4"
    using align_size_bounds(1) [of "align_size sz"] align_size_large [of "align_size sz"] al sz by simp_all
  show ?thesis
  proof (cases "zs = []")
    case True
    have "unat a + 12 + unat (align_size sz) < 2 ^ 32"
      using room al al2 bs True by (simp add: kmalloc_room_def heap_top_def block_end_def)
    then obtain s' where s': "krealloc s (a + 12) sz = Some (s', a + 12)" "heap_inv s' (ys @ [(a, align_size sz)])"
      "contents s' = contents s"
      using krealloc_tail [of s ys a n sz] inv bs True sz by auto
    then show ?thesis using al bs True
      by (intro exI [of _ s'] exI [of _ a] exI [of _ "align_size sz"] exI [of _ "ys @ [(a, align_size sz)]"]) auto
  next
    case False
    obtain bs' b where pl: "place_block (heap_start s) (align_size (align_size sz)) bs = (bs', b)" by fastforce
    obtain s' us vs where s': "krealloc s (a + 12) sz = Some (s', b + 12)" "bs' = us @ (a, n) # vs"
      "heap_inv s' (us @ vs)" "contents s' = copied (contents s) (b + 12) (a + 12) n"
      using krealloc_moves [of s ys a n zs sz bs' b] inv room pl bs False al al2 sz by auto
    let ?N = "align_size (align_size sz)"
    obtain ps qs where ins: "bs = ps @ qs" "bs' = ps @ (b, ?N) # qs" using place_block_inserts [OF pl] by blast
    obtain s1 where s1: "heap_inv s1 bs'" using kmalloc_places [OF inv room pl] by blast
    have d: "distinct (map fst bs')" using heap_inv_distinct [OF s1] .
    have "b \<noteq> a" using d ins blk by (force simp: image_iff)
    moreover have "(b, ?N) \<in> set bs'" unfolding ins(2) by simp
    moreover have "set bs' = insert (a, n) (set us \<union> set vs)" unfolding s'(2) by simp
    ultimately have new: "(b, ?N) \<in> set (us @ vs)" by auto
    have sub: "set bs - {(a, n)} \<subseteq> set (us @ vs)"
    proof -
      have "set bs \<subseteq> set bs'" using ins by auto
      then show ?thesis using s'(2) by auto
    qed
    have keep: "contents s' (b + 12 + of_nat k) = contents s (a + 12 + of_nat k)" if "k < unat n" for k
    proof -
      have "(of_nat k :: u32) < n" using that unat_lt_exp [of n] by (simp add: word_less_nat_alt unat_of_nat_less)
      then show ?thesis by (simp add: s'(4) copied_in)
    qed
    have "contents s' x = contents s x" if "c \<in> set bs" "fst c \<noteq> a" "unat x \<in> chunk_region c" for c x
    proof (rule ccontr)
      assume "contents s' x \<noteq> contents s x"
      then have "x - (b + 12) < n" using copied_out by (metis s'(4))
      then have "unat (x - (b + 12)) < unat ?N" using sz(2) al al2 by (simp add: word_less_nat_alt)
      then have "unat x \<in> chunk_region (b, ?N)" using chunk_offset [OF s1] ins(2) by simp
      moreover have "fst c \<noteq> b" using d ins that(1) by (force simp: image_iff)
      then have "chunk_region (b, ?N) \<inter> chunk_region c = {}"
        using chunks_disjoint [OF s1, of "(b, ?N)" c] ins that(1) by auto
      ultimately show False using that(3) by blast
    qed
    then have "other_chunks_kept bs a (contents s) (contents s')" by (auto simp: other_chunks_kept_def)
    moreover have "\<forall>c\<in>set bs. fst c \<noteq> b" using d ins by (force simp: image_iff)
    ultimately show ?thesis using s' new sub keep al al2
      by (intro exI [of _ s'] exI [of _ b] exI [of _ ?N] exI [of _ "us @ vs"]) auto
  qed
qed

lemma kmalloc_room_weaken:
  assumes "kmalloc_room s bs (align_size sz)" and "unat sz < 2 ^ 31"
  shows "kmalloc_room s bs sz"
  using assms align_size_bounds(1) [of sz] align_size_bounds(1) [of "align_size sz"] by (auto simp: kmalloc_room_def)

text \<open>Reserving storage for an append keeps the bytes of the file and of every other chunk.\<close>

lemma ramfs_reserve_storage:
  assumes st: "ramfs_storage k bs ino data" and off: "unat off = length data"
    and sz: "unat off + unat count + 512 < 2 ^ 31"
    and room: "kmalloc_room (k_heap k) bs (align_size (off + count + 512))"
  shows "\<exists>heap' p n bs'. ramfs_reserve k ino count off =
      Some (k\<lparr>k_heap := heap'\<rparr>, ino\<lparr>file_begin := p, bytes_allocated := n\<rparr>) \<and>
    ramfs_storage (k\<lparr>k_heap := heap'\<rparr>) bs' (ino\<lparr>file_begin := p, bytes_allocated := n\<rparr>) data \<and>
    unat off + unat count \<le> unat n \<and> (n \<noteq> 0 \<longrightarrow> p \<noteq> NULL) \<and>
    {b \<in> set bs. fst b \<noteq> file_begin ino - 12} \<subseteq> set bs' \<and>
    (\<forall>b\<in>set bs. fst b \<noteq> file_begin ino - 12 \<longrightarrow> fst b \<noteq> p - 12) \<and>
    other_chunks_kept bs (file_begin ino - 12) (contents (k_heap k)) (contents heap')"
proof -
  let ?sz = "off + count + 512"
  have inv: "heap_inv (k_heap k) bs" using st by (simp add: ramfs_storage_def)
  have "unat (off + count) = unat off + unat count"
    using sz by (simp add: unat_word_ariths)
  then have oc: "unat (off + count) = unat off + unat count" "unat ?sz = unat off + unat count + 512"
    using sz by (simp_all add: unat_word_ariths)
  have bp: "b \<noteq> NULL \<and> b + 12 \<noteq> NULL" if "heap_inv s ds" "(b, N) \<in> set ds" for s ds b N
    using heap_inv_block_ptr(2,3) [OF that] by simp
  show ?thesis
  proof (cases "bytes_allocated ino = 0")
    case True
    then have "data = []" using st by (simp add: ramfs_storage_def)
    moreover from this have "unat off = unat (0 :: u32)" using off by simp
    ultimately have d: "data = []" "off = 0" by (simp_all only: unat_eq_iff)
    obtain bs' a where pl: "place_block (heap_start (k_heap k)) (align_size ?sz) bs = (bs', a)" by fastforce
    have "kmalloc_room (k_heap k) bs ?sz" using kmalloc_room_weaken room oc sz by simp
    from kmalloc_places [OF inv this pl] obtain heap' where h: "kmalloc (k_heap k) ?sz = Some (heap', a + 12)"
      "heap_inv heap' bs'" "contents heap' = contents (k_heap k)" by blast
    have blk: "(a, align_size ?sz) \<in> set bs'" "set bs \<subseteq> set bs'" using place_block_inserts [OF pl] by auto
    have new: "\<forall>b\<in>set bs. fst b \<noteq> a"
      using heap_inv_distinct [OF h(2)] place_block_inserts [OF pl] by (force simp: image_iff)
    have al: "unat ?sz \<le> unat (align_size ?sz)" "unat (align_size ?sz) \<le> unat ?sz + 8"
      using align_size_bounds(1,4) [of ?sz] oc sz by simp_all
    have "unat (count + 512) = unat count + 512" using oc d by simp
    moreover from this have "\<not> count + 512 < off + count" using d by (simp add: word_less_nat_alt)
    moreover have "count + 512 = ?sz" using d by simp
    ultimately have r: "ramfs_reserve k ino count off =
        Some (k\<lparr>k_heap := heap'\<rparr>, ino\<lparr>file_begin := a + 12, bytes_allocated := ?sz\<rparr>)"
      using h(1) True by (simp add: ramfs_reserve_def kmalloc_k_def)
    have "ramfs_storage (k\<lparr>k_heap := heap'\<rparr>) bs' (ino\<lparr>file_begin := a + 12, bytes_allocated := ?sz\<rparr>) data"
      using h(2) d st blk(1) al by (auto simp: ramfs_storage_def)
    then show ?thesis using r oc bp [OF h(2) blk(1)] blk(2) h(3) new
      by (intro exI [of _ heap'] exI [of _ "a + 12"] exI [of _ ?sz] exI [of _ bs']) auto
  next
    case False
    then obtain n where n: "(file_begin ino - 12, n) \<in> set bs" "unat (bytes_allocated ino) \<le> unat n"
      "unat n \<le> unat (bytes_allocated ino) + 8"
      using st by (auto simp: ramfs_storage_def)
    show ?thesis
    proof (cases "bytes_allocated ino < off + count")
      case True
      have nz: "8 \<le> unat ?sz" "unat n \<le> unat ?sz" "unat ?sz < 2 ^ 31"
        using oc sz n(3) True by (simp_all add: word_less_nat_alt)
      obtain heap' b N bs' where h: "krealloc (k_heap k) (file_begin ino) ?sz = Some (heap', b + 12)"
        "heap_inv heap' bs'" "(b, N) \<in> set bs'" "unat ?sz \<le> unat N" "unat N \<le> unat ?sz + 8"
        "set bs - {(file_begin ino - 12, n)} \<subseteq> set bs'"
        "\<forall>c\<in>set bs. fst c \<noteq> file_begin ino - 12 \<longrightarrow> fst c \<noteq> b"
        "\<forall>k'<unat n. contents heap' (b + 12 + of_nat k') = contents (k_heap k) (file_begin ino + of_nat k')"
        "other_chunks_kept bs (file_begin ino - 12) (contents (k_heap k)) (contents heap')"
        using krealloc_chunk [OF inv n(1) room nz] by auto
      have r: "ramfs_reserve k ino count off =
          Some (k\<lparr>k_heap := heap'\<rparr>, ino\<lparr>file_begin := b + 12, bytes_allocated := ?sz\<rparr>)"
        using h(1) True False by (simp add: ramfs_reserve_def)
      have "ramfs_storage (k\<lparr>k_heap := heap'\<rparr>) bs' (ino\<lparr>file_begin := b + 12, bytes_allocated := ?sz\<rparr>) data"
        using h(2-5,8) st n off oc by (auto simp: ramfs_storage_def)
      then show ?thesis using r oc bp [OF h(2,3)] h(6,7,9)
        by (intro exI [of _ heap'] exI [of _ "b + 12"] exI [of _ ?sz] exI [of _ bs']) auto
    next
      case fits: False
      then have "ramfs_reserve k ino count off = Some (k, ino)"
        using False by (simp add: ramfs_reserve_def)
      then show ?thesis using st fits oc bp [OF inv n(1)]
        by (intro exI [of _ "k_heap k"] exI [of _ "file_begin ino"] exI [of _ "bytes_allocated ino"] exI [of _ bs])
          (auto simp: word_less_nat_alt)
    qed
  qed
qed

text \<open>A buffer of \<open>n\<close> bytes within a chunk in use other than the one at \<open>a\<close>.\<close>

definition buffer_chunk :: "block list \<Rightarrow> addr \<Rightarrow> addr \<Rightarrow> nat \<Rightarrow> bool" where
  "buffer_chunk bs a buf n \<longleftrightarrow> (\<exists>b\<in>set bs. fst b \<noteq> a \<and> (\<forall>i<n. unat (buf + of_nat i) \<in> chunk_region b))"

text \<open>Copying between different chunks.\<close>

lemma chunks_apart:
  assumes "heap_inv s bs" and "(a - 12, n) \<in> set bs" and "b \<in> set bs" "fst b \<noteq> a - 12"
    and "\<forall>i<unat count. unat (buf + of_nat i) \<in> chunk_region b" and "unat off + unat count \<le> unat n"
    and "i < unat count"
  shows "\<not> buf + of_nat i - (a + off) < count" and "\<not> (a + off) + of_nat i - buf < count"
proof -
  have sep: "buf + of_nat i \<noteq> a + off + of_nat j" if "i < unat count" "j < unat count" for i j
  proof
    assume eq: "buf + of_nat i = a + off + of_nat j"
    have "unat (off + of_nat j) = unat off + j"
      using that(2) assms(6) unat_lt_exp [of n] by (intro unat_add_of_nat) simp
    then have "unat (a + off + of_nat j - (a - 12 + 12)) < unat n" using that assms(6) by simp
    then have "unat (buf + of_nat i) \<in> chunk_region (a - 12, n)"
      using chunk_offset [OF assms(1,2)] eq by simp
    then show False using assms(5) that(1) chunks_disjoint [OF assms(1,2,3)] assms(4) by auto
  qed
  show "\<not> buf + of_nat i - (a + off) < count"
  proof
    assume "buf + of_nat i - (a + off) < count"
    then have "unat (buf + of_nat i - (a + off)) < unat count" by (simp add: word_less_nat_alt)
    from sep [OF assms(7) this] show False by simp
  qed
  show "\<not> (a + off) + of_nat i - buf < count"
  proof
    assume "(a + off) + of_nat i - buf < count"
    then have "unat ((a + off) + of_nat i - buf) < unat count" by (simp add: word_less_nat_alt)
    from sep [OF this assms(7)] show False by simp
  qed
qed

lemma memcpy_chunks:
  assumes "heap_inv s bs" and "(a - 12, n) \<in> set bs" and "b \<in> set bs" "fst b \<noteq> a - 12"
    and "\<forall>i<unat count. unat (buf + of_nat i) \<in> chunk_region b" and "unat off + unat count \<le> unat n"
  shows "fst (memcpy m (a + off) buf count) = copied m (a + off) buf count"
    and "fst (memcpy m buf (a + off) count) = copied m buf (a + off) count"
  using memcpy_copied [OF fwd_safe_apart] chunks_apart [OF assms] by simp_all

lemma sint_small: "unat (v :: u32) < 2 ^ 31 \<Longrightarrow> sint v = int (unat v)"
proof -
  assume v: "unat v < 2 ^ 31"
  have "int (unat v) < int (2 ^ 31)" using v by (simp only: of_nat_less_iff)
  then have "uint v < 2 ^ 31" by simp
  then show ?thesis by (simp add: sint_u32_if)
qed

text \<open>Bytes copied behind the bytes of a file.\<close>

lemma copied_behind:
  assumes "\<forall>i<length data. m (p + of_nat i) = data ! i" and "length data + unat count < 2 ^ 31"
    and "i < length data + unat count"
  shows "copied m (p + of_nat (length data)) buf count (p + of_nat i) =
    (data @ map (\<lambda>i. m (buf + of_nat i)) [0..<unat count]) ! i"
proof (cases "i < length data")
  case True
  have "p + of_nat i - (p + of_nat (length data)) = of_nat i - of_nat (length data)" by (simp add: algebra_simps)
  then have "unat (p + of_nat i - (p + of_nat (length data))) = 2 ^ 32 - (length data - i)"
    using unat_before [OF True] assms(2) by simp
  then have "\<not> p + of_nat i - (p + of_nat (length data)) < count"
    using assms(2) True by (simp add: word_less_nat_alt)
  then show ?thesis using True assms(1) by (simp add: copied_out nth_append)
next
  case False
  define j where "j = i - length data"
  have j: "j < unat count" "i = length data + j" using False assms(3) by (simp_all add: j_def)
  have pi: "p + of_nat i = p + of_nat (length data) + of_nat j" unfolding j(2) by simp
  have "(of_nat j :: u32) < count"
    using j(1) assms(2) by (simp add: word_less_nat_alt unat_of_nat_less)
  then have "copied m (p + of_nat (length data)) buf count (p + of_nat (length data) + of_nat j) = m (buf + of_nat j)"
    by (rule copied_in)
  then show ?thesis unfolding pi using j by (simp add: nth_append add.assoc)
qed

lemma copied_into_chunk:
  assumes "heap_inv s bs'" and "(a, n) \<in> set bs'" and "unat off + unat count \<le> unat n"
    and "c \<in> set bs'" "fst c \<noteq> a" "unat x \<in> chunk_region c"
  shows "copied m (a + 12 + off) buf count x = m x"
proof -
  have "\<not> x - (a + 12 + off) < count"
  proof
    define e where "e = x - (a + 12 + off)"
    assume "x - (a + 12 + off) < count"
    then have e: "unat e < unat count" by (simp add: e_def word_less_nat_alt)
    then have "unat (off + e) = unat off + unat e"
      using assms(3) unat_lt_exp [of n] by (simp add: unat_word_ariths)
    moreover have "x - (a + 12) = off + e" by (simp add: e_def)
    ultimately have "unat (x - (a + 12)) < unat n" using e assms(3) by simp
    from chunk_offset [OF assms(1,2) this] show False
      using chunks_disjoint [OF assms(1,2,4)] assms(5,6) by fastforce
  qed
  then show ?thesis by (rule copied_out)
qed

text \<open>A write at the end of a file appends, whether its storage is allocated, grown or moved.\<close>

lemma ramfs_write_bytes:
  assumes ino: "f_inode f \<noteq> NULL" "inodes k (f_inode f) = Some ino" and st: "ramfs_storage k bs ino data"
    and sz: "length data + unat count + 512 < 2 ^ 31"
    and room: "kmalloc_room (k_heap k) bs (align_size (i_size ino + count + 512))"
    and src: "buffer_chunk bs (file_begin ino - 12) buf (unat count)"
  shows "\<exists>k' ino' bs'. ramfs_write k f buf count (i_size ino) = Some (k', int (unat count)) \<and>
    inodes k' = (inodes k)(f_inode f \<mapsto> ino') \<and>
    ramfs_storage k' bs' ino' (data @ map (\<lambda>i. contents (k_heap k) (buf + of_nat i)) [0..<unat count]) \<and>
    {b \<in> set bs. fst b \<noteq> file_begin ino - 12} \<subseteq> {b \<in> set bs'. fst b \<noteq> file_begin ino' - 12} \<and>
    other_chunks_kept bs (file_begin ino - 12) (contents (k_heap k)) (contents (k_heap k'))"
proof -
  define off where "off = i_size ino"
  have off: "unat off = length data" using st by (simp add: off_def ramfs_storage_def)
  have "off = of_nat (unat off)" by simp
  then have off': "off = of_nat (length data)" by (simp only: off)
  obtain heap' p n bs' where r: "ramfs_reserve k ino count off =
      Some (k\<lparr>k_heap := heap'\<rparr>, ino\<lparr>file_begin := p, bytes_allocated := n\<rparr>)"
    "ramfs_storage (k\<lparr>k_heap := heap'\<rparr>) bs' (ino\<lparr>file_begin := p, bytes_allocated := n\<rparr>) data"
    "unat off + unat count \<le> unat n" "n \<noteq> 0 \<longrightarrow> p \<noteq> NULL"
    "{b \<in> set bs. fst b \<noteq> file_begin ino - 12} \<subseteq> set bs'"
    "\<forall>b\<in>set bs. fst b \<noteq> file_begin ino - 12 \<longrightarrow> fst b \<noteq> p - 12"
    "other_chunks_kept bs (file_begin ino - 12) (contents (k_heap k)) (contents heap')"
    using ramfs_reserve_storage [OF st off, of count] sz room unfolding off [symmetric] off_def by auto
  obtain b where b: "b \<in> set bs" "fst b \<noteq> file_begin ino - 12"
    "\<forall>i<unat count. unat (buf + of_nat i) \<in> chunk_region b"
    using src by (auto simp: buffer_chunk_def)
  have b': "b \<in> set bs'" "fst b \<noteq> p - 12" using r(5,6) b(1,2) by auto
  have same: "map (\<lambda>i. contents heap' (buf + of_nat i)) [0..<unat count] =
      map (\<lambda>i. contents (k_heap k) (buf + of_nat i)) [0..<unat count]"
    using r(7) b by (auto simp: other_chunks_kept_def)
  have inv: "heap_inv heap' bs'" using r(2) by (simp add: ramfs_storage_def)
  let ?m = "copied (contents heap') (p + off) buf count"
  let ?ino = "ino\<lparr>file_begin := p, bytes_allocated := n, i_size := i_size ino + count\<rparr>"
  let ?k = "k\<lparr>k_heap := heap'\<lparr>contents := ?m\<rparr>, inodes := (inodes k)(f_inode f \<mapsto> ?ino)\<rparr>"
  have own: "count = 0 \<or> (\<exists>N. (p - 12, N) \<in> set bs' \<and> unat off + unat count \<le> unat N)"
    using r(2,3) by (auto simp: ramfs_storage_def)
  have "fst (memcpy (contents heap') (p + off) buf count) = ?m"
    using own memcpy_chunks(1) [OF inv _ b'(1) b'(2) b(3), of _ off "contents heap'"] memcpy_copied [OF fwd_safe_apart, of 0] by auto
  moreover have "p \<noteq> NULL \<or> count = 0" using r(3,4) by auto
  moreover have "sint count = int (unat count)" by (rule sint_small) (use sz in simp)
  ultimately have w: "ramfs_write k f buf count (i_size ino) = Some (?k, int (unat count))"
    using ino r(1) by (simp add: ramfs_write_def deref_def off_def)
  have "unat (i_size ino + count) = length data + unat count"
    using off sz by (simp add: unat_word_ariths off_def)
  moreover have "?m (p + of_nat i) = (data @ map (\<lambda>i. contents (k_heap k) (buf + of_nat i)) [0..<unat count]) ! i"
    if "i < length data + unat count" for i
    using copied_behind [of data "contents heap'" p count i buf] that r(2) sz
    unfolding off' same by (simp add: ramfs_storage_def)
  ultimately have "ramfs_storage ?k bs' ?ino (data @ map (\<lambda>i. contents (k_heap k) (buf + of_nat i)) [0..<unat count])"
    using r(2,3) off by (auto simp: ramfs_storage_def)
  moreover have "other_chunks_kept bs (file_begin ino - 12) (contents (k_heap k)) ?m"
    using own r(5,6,7) copied_into_chunk [OF inv, of "p - 12"]
    by (fastforce simp: other_chunks_kept_def)
  moreover have "{b \<in> set bs. fst b \<noteq> file_begin ino - 12} \<subseteq> {b \<in> set bs'. fst b \<noteq> p - 12}" using r(5,6) by blast
  ultimately show ?thesis using w by (intro exI [of _ ?k] exI [of _ ?ino] exI [of _ bs']) simp
qed

lemma ramfs_read_loop_copied:
  assumes len: "unat (i_size ino) < 2 ^ 31" "i_size ino \<le> bytes_allocated ino" "unat off + unat count < 2 ^ 31"
    and n: "unat n = min (unat count) (unat (i_size ino) - unat off)"
    and safe: "fwd_safe buf (file_begin ino + off) n"
  shows "i \<le> n \<Longrightarrow> ramfs_read_loop (copied m buf (file_begin ino + off) i) ino buf count off i =
    (copied m buf (file_begin ino + off) n, n)"
proof (induction "unat (n - i)" arbitrary: i rule: less_induct)
  case less
  have i: "unat i \<le> unat n" using less.prems by (simp add: word_le_nat_alt)
  then have oi: "unat (off + i) = unat off + unat i" using len(3) n by (simp add: unat_word_ariths)
  have "sint (off + i) = int (unat (off + i))" by (rule sint_small) (use len(3) oi i n in simp)
  then have "(sint (off + i) < sint (i_size ino)) = (unat off + unat i < unat (i_size ino))"
    by (simp only: sint_small [OF len(1)] of_nat_less_iff oi)
  then have cond: "(i < count \<and> sint (off + i) < sint (i_size ino) \<and> off + i < bytes_allocated ino) = (i < n)"
    using len(2) oi n i by (auto simp: word_less_nat_alt word_le_nat_alt)
  show ?case
  proof (cases "i < n")
    case True
    have "(copied m buf (file_begin ino + off) i)(buf + i := copied m buf (file_begin ino + off) i (file_begin ino + off + i))
        = copied m buf (file_begin ino + off) (i + 1)"
      using copied_step [OF True, of "file_begin ino + off" buf m] fwd_safeD [OF safe True] by simp
    moreover have "i + 1 \<le> n" using True by (rule word_lt_Suc_cases)
    moreover have "unat (n - (i + 1)) < unat (n - i)" using True by (rule unat_diff_step)
    ultimately show ?thesis
      using less.hyps [of "i + 1"] True cond by (subst ramfs_read_loop.simps) simp
  next
    case False
    then have "i = n" using less.prems by simp
    then show ?thesis using cond by (subst ramfs_read_loop.simps) auto
  qed
qed

lemma ramfs_read_bytes:
  assumes ino: "f_inode f \<noteq> NULL" "inodes k (f_inode f) = Some ino" and st: "ramfs_storage k bs ino data"
    and sz: "length data < 2 ^ 31" "unat off + unat count < 2 ^ 31"
    and dst: "n = 0 \<or> buffer_chunk bs (file_begin ino - 12) buf (unat count)"
    and n: "n = min (unat count) (length data - unat off)"
  shows "\<exists>m'. ramfs_read k f buf count off = Some (k\<lparr>k_heap := (k_heap k)\<lparr>contents := m'\<rparr>\<rparr>, int n) \<and>
    (\<forall>i<n. m' (buf + of_nat i) = data ! (unat off + i)) \<and>
    (\<forall>x. n \<le> unat (x - buf) \<longrightarrow> m' x = contents (k_heap k) x)"
proof -
  let ?m = "contents (k_heap k)"
  let ?n = "of_nat n :: u32"
  have inv: "heap_inv (k_heap k) bs" and size: "unat (i_size ino) = length data"
    and alloc: "i_size ino \<le> bytes_allocated ino"
    and bytes: "\<And>i. i < length data \<Longrightarrow> ?m (file_begin ino + of_nat i) = data ! i"
    using st by (auto simp: ramfs_storage_def word_le_nat_alt)
  have un: "unat ?n = n" using n sz by (intro unat_of_nat_less) simp
  have "fwd_safe buf (file_begin ino + off) ?n"
  proof (cases "n = 0")
    case False
    obtain b where b: "b \<in> set bs" "fst b \<noteq> file_begin ino - 12"
      "\<forall>i<unat ?n. unat (buf + of_nat i) \<in> chunk_region b"
      using dst un n False by (auto simp: buffer_chunk_def)
    from False obtain N where N: "(file_begin ino - 12, N) \<in> set bs" "unat (bytes_allocated ino) \<le> unat N"
      using st n by (auto simp: ramfs_storage_def)
    have "n \<le> length data - unat off" using n by simp
    then have "unat off + n \<le> length data" using False by linarith
    then have "unat off + unat ?n \<le> unat N" using N(2) alloc size unfolding un by (simp add: word_le_nat_alt)
    from chunks_apart [OF inv N(1) b(1,2,3) this] show ?thesis by (intro fwd_safe_apart) simp
  qed (auto intro: fwd_safe_apart)
  from ramfs_read_loop_copied [OF _ alloc sz(2) _ this, of 0 ?m]
  have loop: "ramfs_read_loop ?m ino buf count off 0 = (copied ?m buf (file_begin ino + off) ?n, ?n)"
    using size sz(1) un n by simp
  have "sint ?n = int (unat ?n)" by (rule sint_small) (use un n sz in simp)
  then have "ramfs_read k f buf count off =
      Some (k\<lparr>k_heap := (k_heap k)\<lparr>contents := copied ?m buf (file_begin ino + off) ?n\<rparr>\<rparr>, int n)"
    using ino loop un by (simp add: ramfs_read_def deref_def)
  moreover have "copied ?m buf (file_begin ino + off) ?n (buf + of_nat i) = data ! (unat off + i)" if "i < n" for i
  proof -
    have "(of_nat i :: u32) < ?n" using that un n sz by (simp add: word_less_nat_alt unat_of_nat_less)
    then have "copied ?m buf (file_begin ino + off) ?n (buf + of_nat i) = ?m (file_begin ino + off + of_nat i)"
      by (rule copied_in)
    moreover have "unat off + i < length data" using that n by linarith
    ultimately show ?thesis using bytes [of "unat off + i"] by (simp add: add.assoc)
  qed
  moreover have "copied ?m buf (file_begin ino + off) ?n x = ?m x" if "n \<le> unat (x - buf)" for x
    using that un by (intro copied_out) (simp add: word_less_nat_alt)
  ultimately show ?thesis by blast
qed

lemma map_slice: "n = min c (length d - j) \<Longrightarrow> \<forall>i<n. g i = d ! (j + i) \<Longrightarrow> map g [0..<n] = take c (drop j d)"
  by (rule nth_equalityI) auto

text \<open>C17: Files keep what is written to them: a write at the end of a file appends, whether its storage is
  allocated, grown or moved, every other chunk in use keeps its place and its bytes, and from then on a read at
  any offset returns the old bytes followed by the written ones, as far as they reach.\<close>

theorem ramfs_write_then_read:
  assumes "f_inode f \<noteq> NULL" "inodes k (f_inode f) = Some ino" and "ramfs_storage k bs ino data"
    and "length data + unat count + 512 < 2 ^ 31"
    and "kmalloc_room (k_heap k) bs (align_size (i_size ino + count + 512))"
    and "buffer_chunk bs (file_begin ino - 12) buf (unat count)"
  shows "\<exists>k' bs'. ramfs_write k f buf count (i_size ino) = Some (k', int (unat count)) \<and>
    other_chunks_kept bs (file_begin ino - 12) (contents (k_heap k)) (contents (k_heap k')) \<and>
    (\<exists>ino'. inodes k' = (inodes k)(f_inode f \<mapsto> ino') \<and>
      {b \<in> set bs. fst b \<noteq> file_begin ino - 12} \<subseteq> {b \<in> set bs'. fst b \<noteq> file_begin ino' - 12} \<and>
      (\<forall>buf' off count'. buffer_chunk bs' (file_begin ino' - 12) buf' (unat count') \<and> unat off + unat count' < 2 ^ 31 \<longrightarrow>
        (\<exists>m' n. ramfs_read k' f buf' count' off = Some (k'\<lparr>k_heap := (k_heap k')\<lparr>contents := m'\<rparr>\<rparr>, int n) \<and>
          map (\<lambda>i. m' (buf' + of_nat i)) [0..<n] = take (unat count') (drop (unat off)
            (data @ map (\<lambda>i. contents (k_heap k) (buf + of_nat i)) [0..<unat count])))))"
proof -
  let ?data = "data @ map (\<lambda>i. contents (k_heap k) (buf + of_nat i)) [0..<unat count]"
  obtain k' ino' bs' where w: "ramfs_write k f buf count (i_size ino) = Some (k', int (unat count))"
    "inodes k' = (inodes k)(f_inode f \<mapsto> ino')" "ramfs_storage k' bs' ino' ?data"
    "{b \<in> set bs. fst b \<noteq> file_begin ino - 12} \<subseteq> {b \<in> set bs'. fst b \<noteq> file_begin ino' - 12}"
    "other_chunks_kept bs (file_begin ino - 12) (contents (k_heap k)) (contents (k_heap k'))"
    using ramfs_write_bytes [OF assms] by blast
  have "\<exists>m' n. ramfs_read k' f buf' count' off = Some (k'\<lparr>k_heap := (k_heap k')\<lparr>contents := m'\<rparr>\<rparr>, int n) \<and>
      map (\<lambda>i. m' (buf' + of_nat i)) [0..<n] = take (unat count') (drop (unat off) ?data)"
    if h: "buffer_chunk bs' (file_begin ino' - 12) buf' (unat count')" "unat off + unat count' < 2 ^ 31" for buf' off count'
  proof -
    define n where "n = min (unat count') (length ?data - unat off)"
    have "length ?data < 2 ^ 31" using assms(4) by simp
    moreover have "inodes k' (f_inode f) = Some ino'" using w(2) by simp
    moreover have "n = 0 \<or> buffer_chunk bs' (file_begin ino' - 12) buf' (unat count')" using h(1) by simp
    ultimately obtain m' where m': "ramfs_read k' f buf' count' off = Some (k'\<lparr>k_heap := (k_heap k')\<lparr>contents := m'\<rparr>\<rparr>, int n)"
      "\<forall>i<n. m' (buf' + of_nat i) = ?data ! (unat off + i)"
      using ramfs_read_bytes [OF assms(1) _ w(3) _ h(2) _ n_def] by blast
    moreover have "map (\<lambda>i. m' (buf' + of_nat i)) [0..<n] = take (unat count') (drop (unat off) ?data)"
      using n_def m'(2) by (rule map_slice)
    ultimately show ?thesis by blast
  qed
  then show ?thesis using w by blast
qed

end
