(* ===== verification/Vfs.thy ===== *)
theory Vfs
  imports Ramfs
begin

text \<open>
  The virtual file system, \<open>src/fs/file.c\<close>: paths, descriptors and the file system calls of a process. What the
  members of operation tables do is the parameter \<open>vfs\<close>, keyed by the address of the function, and so are the
  addresses of the string literals \<open>"/"\<close> and \<open>".."\<close>. A lookup changes the directory entry that it is given and
  returns its address, so that its result is the entry, or nothing when the code returns another pointer.
  The lines that report a wrong descriptor are not modelled; \<open>sys_open\<close> and the others go on as the code does.
\<close>

section \<open>What file systems provide\<close>

record vfs =
  lookup_op :: "addr \<Rightarrow> kernel \<Rightarrow> addr \<Rightarrow> dentry \<Rightarrow> (kernel \<times> dentry option) option"
  create_op :: "addr \<Rightarrow> kernel \<Rightarrow> addr \<Rightarrow> dentry \<Rightarrow> u16 \<Rightarrow> (kernel \<times> int) option"
  unlink_op :: "addr \<Rightarrow> kernel \<Rightarrow> addr \<Rightarrow> dentry \<Rightarrow> (kernel \<times> int) option"
  alloc_inode_op :: "addr \<Rightarrow> kernel \<Rightarrow> addr \<Rightarrow> (kernel \<times> addr) option"
  read_op :: "addr \<Rightarrow> kernel \<Rightarrow> kfile \<Rightarrow> addr \<Rightarrow> u32 \<Rightarrow> u32 \<Rightarrow> (kernel \<times> int) option"
  write_op :: "addr \<Rightarrow> kernel \<Rightarrow> kfile \<Rightarrow> addr \<Rightarrow> u32 \<Rightarrow> u32 \<Rightarrow> (kernel \<times> int) option"
  readdir_op :: "addr \<Rightarrow> kernel \<Rightarrow> addr \<Rightarrow> kfile \<Rightarrow> addr \<Rightarrow> u32 \<Rightarrow> (kernel \<times> int) option"
  file_close_op :: close_ops
  ioctl_op :: "addr \<Rightarrow> kernel \<Rightarrow> kfile \<Rightarrow> u64 \<Rightarrow> addr \<Rightarrow> (kernel \<times> int) option"
  slash_str :: addr
  dotdot_str :: addr

definition O_APPEND :: u32 where "O_APPEND = 0x8"
definition O_CREAT :: u32 where "O_CREAT = 0x200"
definition O_TRUNC :: u32 where "O_TRUNC = 0x400"
definition O_DIRECTORY :: u32 where "O_DIRECTORY = 0x200000"
definition SEEK_SET :: int where "SEEK_SET = 0"
definition SEEK_CUR :: int where "SEEK_CUR = 1"
definition SEEK_END :: int where "SEEK_END = 2"

text \<open>A result of 32-bit signed arithmetic; an overflow has no defined result.\<close>

definition signed32 :: "int \<Rightarrow> int option" where
  "signed32 x = (if - (2 ^ 31) \<le> x \<and> x < 2 ^ 31 then Some x else None)"

definition memory_k :: "kernel \<Rightarrow> mem" where
  "memory_k k = contents (k_heap k)"

definition set_memory :: "kernel \<Rightarrow> mem \<Rightarrow> kernel" where
  "set_memory k m = k\<lparr>k_heap := (k_heap k)\<lparr>contents := m\<rparr>\<rparr>"

definition named :: "addr \<Rightarrow> dentry" where
  "named name = \<lparr>d_name = name, d_inode = NULL, d_sb = NULL\<rparr>"

section \<open>Paths\<close>

definition strtok_k :: "vfs \<Rightarrow> kernel \<Rightarrow> addr \<Rightarrow> (kernel \<times> addr) option" where
  "strtok_k v k str = do {
     (m, p, token) \<leftarrow> strtok (memory_k k) (strtok_ptr k) str (slash_str v);
     Some ((set_memory k m)\<lparr>strtok_ptr := p\<rparr>, token)
   }"

definition lookup_in :: "vfs \<Rightarrow> kernel \<Rightarrow> addr \<Rightarrow> dentry \<Rightarrow> (kernel \<times> dentry option) option" where
  "lookup_in v k dirp d = do {
     dir \<leftarrow> deref (inodes k) dirp;
     ops \<leftarrow> deref (iop_tables k) (i_op dir);
     lookup_op v (iop_lookup ops) k dirp d
   }"

text \<open>The loop over the components of a path; the result is null when a component is not a directory.\<close>

partial_function (option) walk_path :: "vfs \<Rightarrow> kernel \<Rightarrow> addr \<Rightarrow> addr \<Rightarrow> (kernel \<times> addr) option" where
  "walk_path v k inode token =
     (if token = NULL then Some (k, inode)
      else do {
        c \<leftarrow> strcmp (memory_k k) token (dotdot_str v);
        (if c = 0
         then do {
           ino \<leftarrow> deref (inodes k) inode;
           (k, token) \<leftarrow> strtok_k v k NULL;
           walk_path v k (i_parent ino) token
         }
         else do {
           (k, r) \<leftarrow> lookup_in v k inode (named token);
           (case r of
              None \<Rightarrow> Some (k, NULL)
            | Some d \<Rightarrow> do {
                target \<leftarrow> deref (inodes k) (d_inode d);
                (if i_mode target AND S_IFDIR = 0 then Some (k, NULL)
                 else do {
                   (k, token) \<leftarrow> strtok_k v k NULL;
                   walk_path v k (d_inode d) token
                 })
              })
         })
      })"

declare walk_path.simps [simp del] walk_path.simps [code]

definition get_parent_directory :: "vfs \<Rightarrow> kernel \<Rightarrow> addr \<Rightarrow> (kernel \<times> addr) option" where
  "get_parent_directory v k name = do {
     cur \<leftarrow> proc_at k (current_process k);
     (if name = NULL then Some (k, p_pwd cur)
      else do {
        let absolute = (memory_k k name = of_char CHR ''/'');
        let inode = (if absolute then p_root cur else p_pwd cur);
        let name = (if absolute then name + 1 else name);
        n \<leftarrow> strlen (memory_k k) name;
        (if n = 0 then Some (k, inode)
         else do {
           (k, path) \<leftarrow> kmalloc_k k (n + 1);
           require (path \<noteq> NULL);
           (m, _) \<leftarrow> strcpy (memory_k k) path name;
           (k, token) \<leftarrow> strtok_k v (set_memory k m) path;
           (k, inode) \<leftarrow> walk_path v k inode token;
           k \<leftarrow> kfree_k k path;
           Some (k, inode)
         })
      })
   }"

definition get_file :: "vfs \<Rightarrow> kernel \<Rightarrow> addr \<Rightarrow> addr \<Rightarrow> (kernel \<times> addr) option" where
  "get_file v k parent' name = do {
     c \<leftarrow> strcmp (memory_k k) name (dotdot_str v);
     (if c = 0 then do {
        cur \<leftarrow> proc_at k (current_process k);
        dir \<leftarrow> deref (inodes k) (if parent' = NULL then p_pwd cur else parent');
        Some (k, i_parent dir)
      }
      else if parent' = NULL then Some (k, NULL)
      else do {
        n \<leftarrow> strlen (memory_k k) name;
        (if n = 0 then Some (k, parent')
         else do {
           (k, r) \<leftarrow> lookup_in v k parent' (named name);
           Some (k, case r of Some d \<Rightarrow> d_inode d | None \<Rightarrow> NULL)
         })
      })
   }"

definition create_file :: "vfs \<Rightarrow> kernel \<Rightarrow> addr \<Rightarrow> addr \<Rightarrow> u16 \<Rightarrow> (kernel \<times> addr) option" where
  "create_file v k parent' name mode = do {
     dir \<leftarrow> deref (inodes k) parent';
     sb \<leftarrow> deref (super_blocks k) (i_sb dir);
     sops \<leftarrow> deref (sop_tables k) (s_op sb);
     (k, inode) \<leftarrow> alloc_inode_op v (sop_alloc_inode sops) k (i_sb dir);
     (if inode = NULL then Some (k, NULL)
      else do {
        ops \<leftarrow> deref (iop_tables k) (i_op dir);
        (k, r) \<leftarrow> create_op v (iop_create ops) k parent' ((named name)\<lparr>d_inode := inode\<rparr>) mode;
        (if r \<noteq> 0 then do { k \<leftarrow> kfree_k k inode; Some (k, NULL) }
         else Some (k, inode))
      })
   }"

text \<open>The loop that copies the directory part of a name, up to the last slash.\<close>

function copy_path :: "mem \<Rightarrow> addr \<Rightarrow> addr \<Rightarrow> addr \<Rightarrow> u32 \<Rightarrow> mem \<times> u32" where
  "copy_path m path name last_file i =
     (if name + i \<noteq> last_file then copy_path (m(path + i := m (name + i))) path name last_file (i + 1) else (m, i))"
  by pat_completeness auto
termination
proof (relation "measure (\<lambda>(m, path, name, last_file, i). unat (last_file - (name + i)))")
  fix m :: mem and path name last_file :: addr and i :: u32
  assume "name + i \<noteq> last_file"
  then have "last_file - (name + i) \<noteq> 0" by simp
  then have "unat (last_file - (name + i) - 1) < unat (last_file - (name + i))" by (rule measure_unat)
  then show "((m(path + i := m (name + i)), path, name, last_file, i + 1), (m, path, name, last_file, i))
      \<in> measure (\<lambda>(m, path, name, last_file, i). unat (last_file - (name + i)))"
    by (simp add: algebra_simps)
qed simp

declare copy_path.simps [simp del]

definition get_file_path :: "kernel \<Rightarrow> addr \<Rightarrow> (kernel \<times> addr) option" where
  "get_file_path k name = do {
     last_file \<leftarrow> strrchr (memory_k k) name 47;
     (if last_file = NULL then Some (k, NULL)
      else do {
        n \<leftarrow> strlen (memory_k k) name;
        (k, path) \<leftarrow> kmalloc_k k (n + 1);
        require (path \<noteq> NULL);
        let (m, i) = copy_path (memory_k k) path name last_file 0;
        Some (set_memory k (if i = 0 then m(path := 47, path + 1 := 0) else m(path + i := 0)), path)
      })
   }"

section \<open>Descriptors\<close>

text \<open>The loop over the descriptors from 3 on: the first one that is open on the inode.\<close>

fun find_open :: "kernel \<Rightarrow> addr \<Rightarrow> nat \<Rightarrow> addr list \<Rightarrow> nat option option" where
  "find_open k inode i [] = Some None"
| "find_open k inode i (file # files) =
     (if file = NULL then find_open k inode (i + 1) files
      else do {
        f \<leftarrow> file_objects k file;
        (if f_inode f = inode then Some (Some i) else find_open k inode (i + 1) files)
      })"

definition get_file_descriptor :: "kernel \<Rightarrow> addr \<Rightarrow> u32 \<Rightarrow> (kernel \<times> int) option" where
  "get_file_descriptor k inode flags = do {
     cur \<leftarrow> proc_at k (current_process k);
     (if of_nat MAX_OPEN_FILE_DESCRIPTORS \<le> files_count cur then Some (k, - 1)
      else do {
        table \<leftarrow> table_prefix (fdtables k (fdtable cur)) MAX_OPEN_FILE_DESCRIPTORS;
        found \<leftarrow> find_open k inode 3 (drop 3 table);
        (case found of
           Some i \<Rightarrow> Some (k, int i)
         | None \<Rightarrow> do {
             (k, file) \<leftarrow> kmalloc_k k 24;
             require (file \<noteq> NULL);
             ino \<leftarrow> deref (inodes k) inode;
             let k = k\<lparr>file_objects := (file_objects k)(file \<mapsto>
               \<lparr>f_inode = inode, f_op = i_fop ino, f_flags = flags, f_pos = 0, f_owner = pid cur\<rparr>)\<rparr>;
             (case first_index (\<lambda>p. p = NULL) table of
                None \<Rightarrow> Some (k, - 1)
              | Some i \<Rightarrow> do {
                  full \<leftarrow> fdtables k (fdtable cur);
                  k \<leftarrow> upd_proc (k\<lparr>fdtables := (fdtables k)(fdtable cur \<mapsto> full[i := file])\<rparr>)
                         (current_process k) (\<lambda>x. x\<lparr>files_count := files_count x + 1\<rparr>);
                  Some (k, int i)
                })
           })
      })
   }"

text \<open>The test that the calls on a descriptor begin with; the result is null when the descriptor is refused.\<close>

definition file_of_fd :: "kernel \<Rightarrow> int \<Rightarrow> addr option" where
  "file_of_fd k fd = do {
     cur \<leftarrow> proc_at k (current_process k);
     (if files_count cur \<le> word_of_int fd \<or> fd < 0 then Some NULL
      else do {
        table \<leftarrow> deref (fdtables k) (fdtable cur);
        require (nat fd < length table);
        Some (table ! nat fd)
      })
   }"

text \<open>\<open>i_size\<close> of the inode of a file; a pipe has an inode of its own type.\<close>

definition inode_size :: "kernel \<Rightarrow> addr \<Rightarrow> int option" where
  "inode_size k p = (case deref (inodes k) p of
     Some ino \<Rightarrow> Some (sint (i_size ino))
   | None \<Rightarrow> map_option pipe_size (deref (pipe_inodes k) p))"

definition set_pos :: "kernel \<Rightarrow> addr \<Rightarrow> int \<Rightarrow> kernel option" where
  "set_pos k file pos = do {
     f \<leftarrow> deref (file_objects k) file;
     Some (k\<lparr>file_objects := (file_objects k)(file \<mapsto> f\<lparr>f_pos := pos\<rparr>)\<rparr>)
   }"

definition sys_lseek :: "kernel \<Rightarrow> int \<Rightarrow> int \<Rightarrow> int \<Rightarrow> (kernel \<times> int) option" where
  "sys_lseek k fd offset whence = do {
     file \<leftarrow> file_of_fd k fd;
     (if file = NULL then Some (k, - 1)
      else do {
        f \<leftarrow> deref (file_objects k) file;
        pos \<leftarrow> (if whence = SEEK_SET then Some offset
                else if whence = SEEK_CUR then signed32 (f_pos f + offset)
                else if whence = SEEK_END then do { n \<leftarrow> inode_size k (f_inode f); signed32 (n + offset) }
                else Some (f_pos f));
        k \<leftarrow> set_pos k file pos;
        Some (k, pos)
      })
   }"

definition sys_read :: "vfs \<Rightarrow> kernel \<Rightarrow> int \<Rightarrow> addr \<Rightarrow> int \<Rightarrow> (kernel \<times> int) option" where
  "sys_read v k fd buf len = do {
     file \<leftarrow> file_of_fd k fd;
     (if file = NULL then Some (k, - EBADF)
      else do {
        f \<leftarrow> deref (file_objects k) file;
        ops \<leftarrow> deref (fop_tables k) (f_op f);
        (if fop_read ops = NULL then Some (k, - 1)
         else do {
           (k, read_bytes) \<leftarrow> read_op v (fop_read ops) k f buf (word_of_int len) (word_of_int (f_pos f));
           (if read_bytes < 0 then Some (k, read_bytes)
            else do {
              f \<leftarrow> deref (file_objects k) file;
              next_pos \<leftarrow> signed32 (f_pos f + len);
              n \<leftarrow> inode_size k (f_inode f);
              k \<leftarrow> set_pos k file (if n < next_pos then n else next_pos);
              Some (k, read_bytes)
            })
         })
      })
   }"

definition sys_write :: "vfs \<Rightarrow> kernel \<Rightarrow> int \<Rightarrow> addr \<Rightarrow> int \<Rightarrow> (kernel \<times> int) option" where
  "sys_write v k fd buf len = do {
     file \<leftarrow> file_of_fd k fd;
     (if file = NULL then Some (k, - EBADF)
      else do {
        f \<leftarrow> deref (file_objects k) file;
        ops \<leftarrow> deref (fop_tables k) (f_op f);
        (if fop_write ops = NULL then Some (k, - 1)
         else do {
           (k, written_bytes) \<leftarrow> write_op v (fop_write ops) k f buf (word_of_int len) (word_of_int (f_pos f));
           (if written_bytes < 0 then Some (k, written_bytes)
            else do {
              f \<leftarrow> deref (file_objects k) file;
              pos \<leftarrow> signed32 (f_pos f + written_bytes);
              k \<leftarrow> set_pos k file pos;
              Some (k, written_bytes)
            })
         })
      })
   }"

definition sys_ioctl :: "vfs \<Rightarrow> kernel \<Rightarrow> int \<Rightarrow> u32 \<Rightarrow> addr \<Rightarrow> (kernel \<times> int) option" where
  "sys_ioctl v k fd request arg = do {
     file \<leftarrow> file_of_fd k fd;
     (if file = NULL then Some (k, - 1)
      else do {
        f \<leftarrow> deref (file_objects k) file;
        ops \<leftarrow> deref (fop_tables k) (f_op f);
        (if fop_ioctl ops = NULL then Some (k, - 1) else ioctl_op v (fop_ioctl ops) k f (ucast request) arg)
      })
   }"

definition sys_readdir :: "vfs \<Rightarrow> kernel \<Rightarrow> int \<Rightarrow> addr \<Rightarrow> int \<Rightarrow> (kernel \<times> int) option" where
  "sys_readdir v k dirfd buf len = do {
     file \<leftarrow> file_of_fd k dirfd;
     (if file = NULL then Some (k, - 1)
      else do {
        f \<leftarrow> deref (file_objects k) file;
        ops \<leftarrow> deref (fop_tables k) (f_op f);
        (if fop_readdir ops = NULL then Some (k, 0)
         else do {
           (k, bytes_read) \<leftarrow> readdir_op v (fop_readdir ops) k (f_inode f) f buf (word_of_int len);
           f \<leftarrow> deref (file_objects k) file;
           pos \<leftarrow> signed32 (f_pos f + bytes_read);
           k \<leftarrow> set_pos k file pos;
           Some (k, bytes_read)
         })
      })
   }"

text \<open>The fields of \<open>struct stat\<close> are at the offsets 0, 4, 8, 12 and 20.\<close>

definition sys_fstat :: "kernel \<Rightarrow> int \<Rightarrow> addr \<Rightarrow> (kernel \<times> int) option" where
  "sys_fstat k fd st = do {
     file \<leftarrow> file_of_fd k fd;
     (if file = NULL then Some (k, - 1)
      else do {
        f \<leftarrow> deref (file_objects k) file;
        ino \<leftarrow> deref (inodes k) (f_inode f);
        let m = store32 (memory_k k) st (ucast (i_mode ino));
        let m = store32 m (st + 4) (ucast (i_uid ino));
        let m = store32 m (st + 8) (ucast (i_gid ino));
        let m = store32 m (st + 12) (i_mtime ino);
        let m = store32 m (st + 20) (i_size ino);
        Some (set_memory k m, 0)
      })
   }"

definition sys_close :: "vfs \<Rightarrow> kernel \<Rightarrow> int \<Rightarrow> (kernel \<times> int) option" where
  "sys_close v k fd =
     (if 0 \<le> fd \<and> fd \<le> 2 then Some (k, - 1)
      else do {
        cur \<leftarrow> proc_at k (current_process k);
        table \<leftarrow> deref (fdtables k) (fdtable cur);
        require (0 \<le> fd \<and> nat fd < length table);
        f \<leftarrow> deref (file_objects k) (table ! nat fd);
        ops \<leftarrow> deref (fop_tables k) (f_op f);
        k \<leftarrow> (if fop_close ops \<noteq> NULL \<and> f_owner f = pid cur
             then do {
               k \<leftarrow> file_close_op v (fop_close ops) (table ! nat fd) k;
               kfree_k k (table ! nat fd)
             }
             else Some k);
        table \<leftarrow> deref (fdtables k) (fdtable cur);
        k \<leftarrow> upd_proc (k\<lparr>fdtables := (fdtables k)(fdtable cur \<mapsto> table[nat fd := NULL])\<rparr>)
               (current_process k) (\<lambda>x. x\<lparr>files_count := files_count x - 1\<rparr>);
        Some (k, 0)
      })"

section \<open>Calls on names\<close>

text \<open>The directory part and the file part of a name, and the directory, as two calls find them.\<close>

definition split_name :: "vfs \<Rightarrow> kernel \<Rightarrow> addr \<Rightarrow> (kernel \<times> addr \<times> addr) option" where
  "split_name v k name = do {
     (k, path) \<leftarrow> get_file_path k name;
     filename \<leftarrow> (if path \<noteq> NULL then map_option (\<lambda>p. p + 1) (strrchr (memory_k k) name 47) else Some name);
     (k, parent') \<leftarrow> get_parent_directory v k path;
     k \<leftarrow> kfree_k k path;
     Some (k, parent', filename)
   }"

definition sys_open :: "vfs \<Rightarrow> kernel \<Rightarrow> addr \<Rightarrow> u32 \<Rightarrow> int \<Rightarrow> (kernel \<times> int) option" where
  "sys_open v k name flags mode = do {
     (k, parent', filename) \<leftarrow> split_name v k name;
     (k, inode) \<leftarrow> get_file v k parent' filename;
     (k, inode) \<leftarrow>
       (if inode = NULL \<and> flags AND O_CREAT \<noteq> 0
        then create_file v k parent' filename
               (if flags AND O_DIRECTORY \<noteq> 0 then S_IFDIR OR 0x1B6 else S_IFREG OR 0x1FF)
        else Some (k, inode));
     (if inode = NULL then Some (k, - 1)
      else do {
        ino \<leftarrow> deref (inodes k) inode;
        (if flags AND O_DIRECTORY \<noteq> 0 \<and> i_mode ino AND S_IFDIR = 0 then Some (k, - 1)
         else if flags AND O_DIRECTORY = 0 \<and> i_mode ino AND S_IFDIR \<noteq> 0 then Some (k, - 1)
         else do {
           (k, fd) \<leftarrow> get_file_descriptor k inode flags;
           (if fd < 0 then Some (k, fd)
            else if flags AND O_APPEND \<noteq> 0 then do { (k, _) \<leftarrow> sys_lseek k fd 0 SEEK_END; Some (k, fd) }
            else if flags AND O_TRUNC \<noteq> 0
            then do {
              ino \<leftarrow> deref (inodes k) inode;
              Some (k\<lparr>inodes := (inodes k)(inode \<mapsto> ino\<lparr>i_size := 0\<rparr>)\<rparr>, fd)
            }
            else Some (k, fd))
         })
      })
   }"

definition sys_unlink :: "vfs \<Rightarrow> kernel \<Rightarrow> addr \<Rightarrow> (kernel \<times> int) option" where
  "sys_unlink v k name = do {
     (k, parent', filename) \<leftarrow> split_name v k name;
     (k, inode) \<leftarrow> get_file v k parent' filename;
     (if inode = NULL then Some (k, - ENOENT)
      else do {
        ino \<leftarrow> deref (inodes k) inode;
        ops \<leftarrow> deref (iop_tables k) (i_op ino);
        unlink_op v (iop_unlink ops) k parent' ((named filename)\<lparr>d_inode := inode\<rparr>)
      })
   }"

definition sys_chdir :: "vfs \<Rightarrow> kernel \<Rightarrow> addr \<Rightarrow> (kernel \<times> int) option" where
  "sys_chdir v k path = do {
     (k, parent') \<leftarrow> get_parent_directory v k path;
     (if parent' \<noteq> NULL
      then do { k \<leftarrow> upd_proc k (current_process k) (p_pwd_update (\<lambda>_. parent')); Some (k, 0) }
      else Some (k, - 1))
   }"

text \<open>The loop of \<open>sys_getcwd\<close> from a directory up to the root, writing names in front of each other.\<close>

partial_function (option) getcwd_loop ::
    "vfs \<Rightarrow> kernel \<Rightarrow> addr \<Rightarrow> addr \<Rightarrow> addr \<Rightarrow> addr \<Rightarrow> u32 \<Rightarrow> (kernel \<times> addr) option" where
  "getcwd_loop v k root buf inode parent' i =
     (if inode = root then Some (k, buf + i)
      else do {
        (k, r) \<leftarrow> lookup_in v k parent' ((named NULL)\<lparr>d_inode := inode\<rparr>);
        (case r of
           None \<Rightarrow> Some (k, NULL)
         | Some d \<Rightarrow> do {
             n \<leftarrow> strlen (memory_k k) (d_name d);
             (if i < n then Some (k, NULL)
              else do {
                let i = i - n;
                let m = fst (memcpy (memory_k k) (buf + i) (d_name d) n);
                let i = i - 1;
                let k = set_memory k (m(buf + i := of_char CHR ''/''));
                up \<leftarrow> deref (inodes k) parent';
                getcwd_loop v k root buf parent' (i_parent up) i
              })
           })
      })"

declare getcwd_loop.simps [simp del] getcwd_loop.simps [code]

definition sys_getcwd :: "vfs \<Rightarrow> kernel \<Rightarrow> addr \<Rightarrow> u32 \<Rightarrow> (kernel \<times> addr) option" where
  "sys_getcwd v k buf len = do {
     cur \<leftarrow> proc_at k (current_process k);
     ino \<leftarrow> deref (inodes k) (p_pwd cur);
     let m = (memory_k k)(buf + (len - 1) := 0, buf + (len - 2) := of_char CHR ''/'');
     getcwd_loop v (set_memory k m) (p_root cur) buf (p_pwd cur) (i_parent ino) (len - 2)
   }"

end
