(* ===== verification/Fat16.thy ===== *)
theory Fat16
  imports Vfs "HOL-Library.Signed_Division"
begin

text \<open>
  The FAT16 file system, \<open>src/fs/fat16.c\<close>, first part: the drive, the file allocation table with its cache of one
  sector, names of directory entries, and reading. The operations of the hard drive are the parameter
  \<open>hard_drive\<close>: what \<open>read_block\<close> leaves in the buffer and returns, and what \<open>write_block\<close> does to the drive. Buffers
  are chunks of the kernel's memory. The state is that of one mounted file system.
\<close>

section \<open>State\<close>

definition EEXIST :: int where "EEXIST = 17"
definition EDQUOT :: int where "EDQUOT = 131"

definition FAT_SECTOR_CACHE_SIZE :: nat where "FAT_SECTOR_CACHE_SIZE = 256"

record 'd hard_drive =
  read_block :: "'d \<Rightarrow> u32 \<Rightarrow> u32 \<Rightarrow> 'd \<times> byte list \<times> int"
  write_block :: "'d \<Rightarrow> u32 \<Rightarrow> u32 \<Rightarrow> byte list \<Rightarrow> 'd \<times> int"

text \<open>The members of the boot record that the code uses.\<close>

record boot_record =
  bytes_per_sector :: u16
  sectors_per_cluster :: byte
  reserved_sectors :: u16
  FAT_copies :: byte
  max_root_dentries :: u16
  small_part_sectors_count :: u16
  sectors_per_FAT :: u16

text \<open>What \<open>struct FAT16_Inode\<close> adds to an inode; the first member is a union.\<close>

record fat_inode =
  first_cluster :: u16
  parent_dentry_index :: u16

record 'd fat =
  drive :: 'd
  fk :: kernel
  boot :: boot_record
  fat_first_sector :: u16
  data_region_start :: u16
  FAT_cached_sector :: u16
  FAT_sector_cache :: "u16 list"
  fat_sb :: addr
  fat_root :: addr
  fat_i_op :: addr
  fat_i_fop :: addr
  fat_inodes :: "addr \<Rightarrow> fat_inode option"

definition fat_mem :: "'d fat \<Rightarrow> mem" where
  "fat_mem s = memory_k (fk s)"

definition set_fat_mem :: "'d fat \<Rightarrow> mem \<Rightarrow> 'd fat" where
  "set_fat_mem s m = s\<lparr>fk := set_memory (fk s) m\<rparr>"

definition fat_kmalloc :: "'d fat \<Rightarrow> u32 \<Rightarrow> ('d fat \<times> addr) option" where
  "fat_kmalloc s n = do { (k, p) \<leftarrow> kmalloc_k (fk s) n; Some (s\<lparr>fk := k\<rparr>, p) }"

definition fat_kfree :: "'d fat \<Rightarrow> addr \<Rightarrow> 'd fat option" where
  "fat_kfree s p = do { k \<leftarrow> kfree_k (fk s) p; Some (s\<lparr>fk := k\<rparr>) }"

definition drive_read :: "'d hard_drive \<Rightarrow> 'd fat \<Rightarrow> u32 \<Rightarrow> u32 \<Rightarrow> addr \<Rightarrow> 'd fat \<times> int" where
  "drive_read dev s block n p =
     (let (d, bs, r) = read_block dev (drive s) block n
      in (set_fat_mem (s\<lparr>drive := d\<rparr>) (stored (fat_mem s) p bs), r))"

definition drive_write :: "'d hard_drive \<Rightarrow> 'd fat \<Rightarrow> u32 \<Rightarrow> u32 \<Rightarrow> addr \<Rightarrow> 'd fat" where
  "drive_write dev s block n p =
     s\<lparr>drive := fst (write_block dev (drive s) block n (map (\<lambda>i. fat_mem s (p + of_nat i)) [0..<unat n]))\<rparr>"

section \<open>The file allocation table\<close>

fun words16 :: "byte list \<Rightarrow> u16 list" where
  "words16 (a # b # bs) = word16 a b # words16 bs"
| "words16 bs = []"

text \<open>The bounds of the cached range are 16-bit words: for the last sector the upper one is zero.\<close>

definition FAT_cached :: "'d fat \<Rightarrow> u16 \<Rightarrow> bool" where
  "FAT_cached s cluster \<longleftrightarrow> FAT_cached_sector s * 256 \<le> cluster \<and> cluster < (FAT_cached_sector s + 1) * 256"

definition FAT_load :: "'d hard_drive \<Rightarrow> 'd fat \<Rightarrow> u16 \<Rightarrow> 'd fat" where
  "FAT_load dev s sector =
     (let (d, bs, r) = read_block dev (drive s) (ucast (fat_first_sector s) + ucast sector) 512
      in s\<lparr>drive := d, FAT_sector_cache := words16 bs, FAT_cached_sector := sector\<rparr>)"

definition FAT16_find_next_cluster :: "'d hard_drive \<Rightarrow> 'd fat \<Rightarrow> u16 \<Rightarrow> 'd fat \<times> u16" where
  "FAT16_find_next_cluster dev s current_cluster =
     (let s = (if FAT_cached s current_cluster then s else FAT_load dev s (current_cluster div 256))
      in (s, FAT_sector_cache s ! unat (current_cluster mod 256)))"

text \<open>The outer loop of \<open>FAT16_find_next_free_cluster\<close> over the sectors of the table.\<close>

fun free_cluster_loop :: "'d hard_drive \<Rightarrow> 'd fat \<Rightarrow> nat list \<Rightarrow> 'd fat \<times> u16" where
  "free_cluster_loop dev s [] = (s, 0)"
| "free_cluster_loop dev s (i # is) =
     (let s = FAT_load dev s (of_nat i)
      in case find (\<lambda>j. FAT_sector_cache s ! j = 0) [(if i = 0 then 2 else 0)..<FAT_SECTOR_CACHE_SIZE] of
           Some j \<Rightarrow> (s, of_nat (i * FAT_SECTOR_CACHE_SIZE + j))
         | None \<Rightarrow> free_cluster_loop dev s is)"

definition FAT16_find_next_free_cluster :: "'d hard_drive \<Rightarrow> 'd fat \<Rightarrow> ('d fat \<times> u16) option" where
  "FAT16_find_next_free_cluster dev s = do {
     require (sectors_per_cluster (boot s) \<noteq> 0);
     let cluster_count = unat (small_part_sectors_count (boot s)) div unat (sectors_per_cluster (boot s));
     Some (free_cluster_loop dev s [0..<cluster_count div FAT_SECTOR_CACHE_SIZE])
   }"

fun bytes_of_words16 :: "u16 list \<Rightarrow> byte list" where
  "bytes_of_words16 [] = []"
| "bytes_of_words16 (w # ws) = ucast w # ucast (drop_bit 8 w) # bytes_of_words16 ws"

definition FAT16_mark_cluster :: "'d hard_drive \<Rightarrow> 'd fat \<Rightarrow> u16 \<Rightarrow> u16 \<Rightarrow> 'd fat" where
  "FAT16_mark_cluster dev s cluster value =
     (let sector = cluster div 256;
          s = (if FAT_cached s cluster then s else FAT_load dev s sector);
          s = s\<lparr>FAT_sector_cache := (FAT_sector_cache s)[unat (cluster mod 256) := value]\<rparr>
      in s\<lparr>drive := fst (write_block dev (drive s) (ucast (fat_first_sector s) + ucast sector) 512
                           (bytes_of_words16 (FAT_sector_cache s)))\<rparr>)"

section \<open>Names\<close>

text \<open>The part of an 8+3 name before the first space.\<close>

definition name_part :: "mem \<Rightarrow> addr \<Rightarrow> nat \<Rightarrow> byte list" where
  "name_part m p n = takeWhile (\<lambda>c. c \<noteq> 0x20) (map (\<lambda>i. m (p + of_nat i)) [0..<n])"

definition FAT16_decode_entry_name :: "mem \<Rightarrow> addr \<Rightarrow> addr \<Rightarrow> mem" where
  "FAT16_decode_entry_name m entry buf =
     (let name = name_part m entry 8;
          name = (if m (entry + 8) \<noteq> 0x20 then name @ 46 # name_part m (entry + 8) 3 else name)
      in stored m buf (name @ [0]))"

text \<open>The loop that copies the name in upper case, and its terminating NUL.\<close>

definition copy_upper :: "mem \<Rightarrow> addr \<Rightarrow> addr \<Rightarrow> u32 \<Rightarrow> mem" where
  "copy_upper m dst src n =
     (fold (\<lambda>i m. m(dst + of_nat i := toupper (m (src + of_nat i)))) [0..<unat n + 1] m)(dst + n := 0)"

definition FAT16_encode_entry_name :: "kernel \<Rightarrow> addr \<Rightarrow> addr \<Rightarrow> (kernel \<times> int) option" where
  "FAT16_encode_entry_name k name entry = do {
     n \<leftarrow> strlen (memory_k k) name;
     (k, tmp_str) \<leftarrow> kmalloc_k k (n + 1);
     (if tmp_str = NULL then Some (k, - ENOMEM)
      else do {
        let m = fst (memset (copy_upper (memory_k k) tmp_str name n) entry 0x20 11);
        dot \<leftarrow> strchr m tmp_str 46;
        let filename_len = (if dot \<noteq> NULL then dot - tmp_str else 0);
        let m = fst (memcpy m entry tmp_str (if 8 < filename_len then 8 else filename_len));
        extension_len \<leftarrow> (if dot \<noteq> NULL then strlen m (dot + 1) else Some 0);
        let m = fst (memcpy m (entry + 8) (dot + 1) extension_len);
        k \<leftarrow> kfree_k (set_memory k m) tmp_str;
        Some (k, 0)
      })
   }"

section \<open>Reading\<close>

definition bytes_per_cluster :: "'d fat \<Rightarrow> u32" where
  "bytes_per_cluster s = ucast (bytes_per_sector (boot s)) * ucast (sectors_per_cluster (boot s))"

record fat_dentries =
  de_ptr :: addr
  de_count :: u32

text \<open>The \<open>do\<close> loop of \<open>FAT16_get_existing_rootdir_dentries\<close>; the inner loop stops at an entry that was never used.\<close>

partial_function (option) existing_loop ::
    "'d hard_drive \<Rightarrow> 'd fat \<Rightarrow> addr \<Rightarrow> u32 \<Rightarrow> u32 \<Rightarrow> u32 \<Rightarrow> u32 \<Rightarrow> ('d fat \<times> fat_dentries) option" where
  "existing_loop dev s p count offset first_sector i_size' =
     (let bpc = bytes_per_cluster s;
          (s, r) = drive_read dev s (first_sector + offset div ucast (bytes_per_sector (boot s))) bpc (p + offset)
      in if r \<noteq> 0 then Some (s, \<lparr>de_ptr = p, de_count = count\<rparr>)
         else (case find (\<lambda>i. fat_mem s (p + of_nat i * 32) = 0) [unat count..<unat (offset + bpc) div 32] of
                 Some i \<Rightarrow> Some (s, \<lparr>de_ptr = p, de_count = of_nat i\<rparr>)
               | None \<Rightarrow> do {
                   let count = (if count < (offset + bpc) div 32 then (offset + bpc) div 32 else count);
                   (heap, q) \<leftarrow> krealloc (k_heap (fk s)) p (offset + bpc + bpc);
                   let s = s\<lparr>fk := (fk s)\<lparr>k_heap := heap\<rparr>\<rparr>;
                   (if q = NULL then Some (s, \<lparr>de_ptr = p, de_count = count\<rparr>)
                    else if sint (offset + bpc) < sint i_size'
                    then existing_loop dev s q count (offset + bpc) first_sector i_size'
                    else Some (s, \<lparr>de_ptr = q, de_count = count\<rparr>))
                 }))"

declare existing_loop.simps [simp del] existing_loop.simps [code]

definition FAT16_get_existing_rootdir_dentries ::
    "'d hard_drive \<Rightarrow> 'd fat \<Rightarrow> addr \<Rightarrow> ('d fat \<times> fat_dentries) option" where
  "FAT16_get_existing_rootdir_dentries dev s inode = do {
     ino \<leftarrow> deref (inodes (fk s)) inode;
     fi \<leftarrow> fat_inodes s inode;
     (s, p) \<leftarrow> fat_kmalloc s (bytes_per_cluster s);
     (if p = NULL then Some (s, \<lparr>de_ptr = NULL, de_count = 0\<rparr>)
      else do {
        require (bytes_per_sector (boot s) \<noteq> 0);
        existing_loop dev s p 0 0 (ucast (first_cluster fi)) (i_size ino)
      })
   }"

definition FAT16_get_all_rootdir_dentries ::
    "'d hard_drive \<Rightarrow> 'd fat \<Rightarrow> addr \<Rightarrow> ('d fat \<times> fat_dentries) option" where
  "FAT16_get_all_rootdir_dentries dev s inode = do {
     ino \<leftarrow> deref (inodes (fk s)) inode;
     fi \<leftarrow> fat_inodes s inode;
     (s, p) \<leftarrow> fat_kmalloc s (i_size ino);
     (if p = NULL then Some (s, \<lparr>de_ptr = NULL, de_count = 0\<rparr>)
      else (let (s, r) = drive_read dev s (ucast (first_cluster fi)) (i_size ino) p
            in Some (s, \<lparr>de_ptr = p, de_count = (if r \<noteq> 0 then 0 else i_size ino div 32)\<rparr>)))
   }"

text \<open>Following the chain of a file for a number of steps.\<close>

fun follow_chain :: "'d hard_drive \<Rightarrow> 'd fat \<Rightarrow> u16 \<Rightarrow> nat \<Rightarrow> 'd fat \<times> u16" where
  "follow_chain dev s cluster 0 = (s, cluster)"
| "follow_chain dev s cluster (Suc n) =
     (let (s, cluster) = FAT16_find_next_cluster dev s cluster in follow_chain dev s cluster n)"

definition cluster_sector :: "'d fat \<Rightarrow> u16 \<Rightarrow> int" where
  "cluster_sector s cluster =
     uint (data_region_start s) + (uint cluster - 2) * uint (sectors_per_cluster (boot s))"

text \<open>The \<open>do\<close> loop over the clusters; the sector is truncated to 16 bits. \<open>skip\<close> is zero after the first cluster.\<close>

partial_function (option) read_chain_loop ::
    "'d hard_drive \<Rightarrow> 'd fat \<Rightarrow> addr \<Rightarrow> u32 \<Rightarrow> addr \<Rightarrow> u16 \<Rightarrow> u16 \<Rightarrow> u32 \<Rightarrow> u32 \<Rightarrow> ('d fat \<times> u32 option) option" where
  "read_chain_loop dev s buf count temp_buf bpc cluster skip remaining =
     (let sector = (word_of_int (cluster_sector s cluster) :: u16);
          (s, r) = drive_read dev s (ucast sector) (ucast bpc) temp_buf
      in if r \<noteq> 0 then Some (s, None)
         else (let valid = ucast bpc - skip;
                   to_copy = (if valid < remaining then valid else remaining);
                   s = set_fat_mem s (fst (memcpy (fat_mem s) (buf + count - remaining) (temp_buf + skip) to_copy));
                   remaining = remaining - to_copy;
                   (s, cluster) = FAT16_find_next_cluster dev s cluster
               in if remaining \<noteq> 0 \<and> 3 \<le> cluster \<and> cluster < 0xfff0
                  then read_chain_loop dev s buf count temp_buf bpc cluster 0 remaining
                  else Some (s, Some remaining)))"

declare read_chain_loop.simps [simp del] read_chain_loop.simps [code]

definition FAT16_read_cluster_chain ::
    "'d hard_drive \<Rightarrow> 'd fat \<Rightarrow> addr \<Rightarrow> addr \<Rightarrow> u32 \<Rightarrow> u32 \<Rightarrow> ('d fat \<times> int) option" where
  "FAT16_read_cluster_chain dev s inode buf count file_offset = do {
     ino \<leftarrow> deref (inodes (fk s)) inode;
     fi \<leftarrow> fat_inodes s inode;
     (if sint (i_size ino) \<le> sint file_offset then Some (set_fat_mem s ((fat_mem s)(buf := 0)), 0)
      else do {
        let bpc = (ucast (sectors_per_cluster (boot s)) * bytes_per_sector (boot s) :: u16);
        require (bpc \<noteq> 0);
        let start = sint file_offset sdiv uint bpc;
        let offset_in_cluster = sint file_offset - start * uint bpc;
        let (s, cluster) = follow_chain dev s (first_cluster fi) (nat start);
        (s, temp_buf) \<leftarrow> fat_kmalloc s (ucast bpc);
        (if temp_buf = NULL then Some (s, - ENOMEM)
         else do {
           (s, r) \<leftarrow> read_chain_loop dev s buf count temp_buf bpc cluster
                      (if 0 < offset_in_cluster then word_of_int offset_in_cluster else 0) count;
           (case r of
              None \<Rightarrow> Some (s, - 1)
            | Some remaining \<Rightarrow> do { s \<leftarrow> fat_kfree s temp_buf; Some (s, sint (count - remaining)) })
         })
      })
   }"

definition FAT16_read ::
    "'d hard_drive \<Rightarrow> 'd fat \<Rightarrow> addr \<Rightarrow> addr \<Rightarrow> u32 \<Rightarrow> u32 \<Rightarrow> ('d fat \<times> int) option" where
  "FAT16_read dev s inode buf count file_offset = do {
     ino \<leftarrow> deref (inodes (fk s)) inode;
     fi \<leftarrow> fat_inodes s inode;
     root \<leftarrow> fat_inodes s (fat_root s);
     (if first_cluster fi = first_cluster root
      then do {
        (s, de) \<leftarrow> FAT16_get_existing_rootdir_dentries dev s inode;
        let to_copy = (if de_count de * 32 < file_offset + count then 0 else count);
        let s = set_fat_mem s (fst (memcpy (fat_mem s) buf (de_ptr de + file_offset) to_copy));
        s \<leftarrow> fat_kfree s (de_ptr de);
        Some (s, sint to_copy)
      }
      else FAT16_read_cluster_chain dev s inode buf
             (if i_size ino < file_offset + count then i_size ino - file_offset else count) file_offset)
   }"

definition FAT16_get_all_dentries ::
    "'d hard_drive \<Rightarrow> 'd fat \<Rightarrow> addr \<Rightarrow> ('d fat \<times> fat_dentries) option" where
  "FAT16_get_all_dentries dev s inode = do {
     ino \<leftarrow> deref (inodes (fk s)) inode;
     fi \<leftarrow> fat_inodes s inode;
     root \<leftarrow> fat_inodes s (fat_root s);
     (if first_cluster fi = first_cluster root then FAT16_get_all_rootdir_dentries dev s inode
      else do {
        (s, p) \<leftarrow> fat_kmalloc s (i_size ino);
        (if p = NULL then Some (s, \<lparr>de_ptr = NULL, de_count = 0\<rparr>)
         else do {
           (s, n) \<leftarrow> FAT16_read dev s inode p (i_size ino) 0;
           Some (s, if n \<noteq> sint (i_size ino) then \<lparr>de_ptr = NULL, de_count = 0\<rparr>
                    else \<lparr>de_ptr = p, de_count = i_size ino div 32\<rparr>)
         })
      })
   }"

end
