(* ===== verification/Fat16_Ops.thy ===== *)
theory Fat16_Ops
  imports Fat16
begin

text \<open>
  The FAT16 file system, \<open>src/fs/fat16.c\<close>, second part: writing, and the operations of inodes, files and the super
  block. \<open>frame\<close> is the address of a local array of 16 bytes that names are decoded into, \<open>lit\<close> gives the addresses
  of string literals.
\<close>

section \<open>Writing\<close>

definition mem_slice :: "'d fat \<Rightarrow> addr \<Rightarrow> u32 \<Rightarrow> byte list" where
  "mem_slice s p n = map (\<lambda>i. fat_mem s (p + of_nat i)) [0..<unat n]"

text \<open>The loop that finds the cluster of a position; a position at the end of a cluster stays in it.\<close>

partial_function (option) seek_chain ::
    "'d hard_drive \<Rightarrow> 'd fat \<Rightarrow> u16 \<Rightarrow> int \<Rightarrow> int \<Rightarrow> ('d fat \<times> u16 \<times> int) option" where
  "seek_chain dev s cluster offset bpc =
     (if bpc < offset
      then (let (s, cluster) = FAT16_find_next_cluster dev s cluster in seek_chain dev s cluster (offset - bpc) bpc)
      else Some (s, cluster, offset))"

declare seek_chain.simps [simp del] seek_chain.simps [code]

definition chain_sector :: "'d fat \<Rightarrow> u16 \<Rightarrow> u32" where
  "chain_sector s cluster = word_of_int (cluster_sector s cluster)"

text \<open>The loop over the clusters after the first one; \<open>written\<close> is the number of bytes so far.\<close>

partial_function (option) write_chain_loop ::
    "'d hard_drive \<Rightarrow> 'd fat \<Rightarrow> addr \<Rightarrow> u32 \<Rightarrow> addr \<Rightarrow> u32 \<Rightarrow> u16 \<Rightarrow> u32 \<Rightarrow> ('d fat \<times> u32) option" where
  "write_chain_loop dev s buf count cluster_buf bpc cluster written =
     (if written < count
      then (let (s, cluster) = FAT16_find_next_cluster dev s cluster;
                sector = chain_sector s cluster;
                to_write = (if count - written < bpc then count - written else bpc);
                s = (if to_write < bpc then fst (drive_read dev s sector bpc cluster_buf) else s);
                s = set_fat_mem s (fst (memcpy (fat_mem s) cluster_buf (buf + written) to_write));
                s = drive_write dev s sector bpc cluster_buf
            in write_chain_loop dev s buf count cluster_buf bpc cluster (written + to_write))
      else Some (s, written))"

declare write_chain_loop.simps [simp del] write_chain_loop.simps [code]

definition FAT16_write_cluster_chain ::
    "'d hard_drive \<Rightarrow> 'd fat \<Rightarrow> addr \<Rightarrow> addr \<Rightarrow> u32 \<Rightarrow> u32 \<Rightarrow> ('d fat \<times> int) option" where
  "FAT16_write_cluster_chain dev s inode buf count file_offset = do {
     fi \<leftarrow> fat_inodes s inode;
     let bpc = bytes_per_cluster s;
     (s, cluster, offset) \<leftarrow> seek_chain dev s (first_cluster fi) (sint file_offset) (sint bpc);
     (s, cluster_buf) \<leftarrow> fat_kmalloc s bpc;
     (if cluster_buf = NULL then Some (s, - ENOMEM)
      else do {
        let sector = chain_sector s cluster;
        let off = (word_of_int offset :: u32);
        let s = (if off \<noteq> 0 \<or> off + count < bpc then fst (drive_read dev s sector bpc cluster_buf) else s);
        let available = bpc - off;
        let to_write = (if available < count then available else count);
        let s = set_fat_mem s (fst (memcpy (fat_mem s) (cluster_buf + off) buf to_write));
        let s = drive_write dev s sector bpc cluster_buf;
        (s, written) \<leftarrow> write_chain_loop dev s buf count cluster_buf bpc cluster to_write;
        s \<leftarrow> fat_kfree s cluster_buf;
        Some (s, sint written)
      })
   }"

text \<open>
  Writing to consecutive sectors. The first sector is written from the caller's buffer, not from the copy that
  the function has just assembled in \<open>sector_buf\<close>.
\<close>

partial_function (option) write_sectors_loop ::
    "'d hard_drive \<Rightarrow> 'd fat \<Rightarrow> addr \<Rightarrow> u32 \<Rightarrow> addr \<Rightarrow> u32 \<Rightarrow> u32 \<Rightarrow> u32 \<Rightarrow> ('d fat \<times> u32) option" where
  "write_sectors_loop dev s buf count sector_buf bps sector written =
     (if written < count
      then (let sector = sector + 1;
                to_write = (if count - written < bps then count - written else bps);
                s = (if to_write < bps then fst (drive_read dev s sector bps sector_buf) else s);
                s = set_fat_mem s (fst (memcpy (fat_mem s) sector_buf (buf + written) to_write));
                s = drive_write dev s sector bps sector_buf
            in write_sectors_loop dev s buf count sector_buf bps sector (written + bps))
      else Some (s, written))"

declare write_sectors_loop.simps [simp del] write_sectors_loop.simps [code]

definition write_consecutive_sectors ::
    "'d hard_drive \<Rightarrow> 'd fat \<Rightarrow> u32 \<Rightarrow> addr \<Rightarrow> u32 \<Rightarrow> u32 \<Rightarrow> ('d fat \<times> int) option" where
  "write_consecutive_sectors dev s physical_sector buf count offset = do {
     let bps = (ucast (bytes_per_sector (boot s)) :: u32);
     require (bps \<noteq> 0);
     let skipped = (if 0 \<le> sint offset then offset div bps else 0);
     let sector = physical_sector + skipped;
     let off = offset - skipped * bps;
     (s, sector_buf) \<leftarrow> fat_kmalloc s bps;
     (if sector_buf = NULL then Some (s, - ENOMEM)
      else do {
        let s = (if off \<noteq> 0 \<or> off + count < bps then fst (drive_read dev s sector bps sector_buf) else s);
        let to_write = (if bps < off + count then bps - off else count);
        let s = set_fat_mem s (fst (memcpy (fat_mem s) (sector_buf + off) buf to_write));
        let s = drive_write dev s sector bps buf;
        (s, written) \<leftarrow> write_sectors_loop dev s buf count sector_buf bps sector to_write;
        s \<leftarrow> fat_kfree s sector_buf;
        Some (s, sint (if count < written then count else written))
      })
   }"

datatype cluster_result = CLUSTER_OK | INVALID_CLUSTER | NO_AVAILABLE_CLUSTERS

text \<open>The last cluster of a chain and the length of the chain.\<close>

partial_function (option) chain_end ::
    "'d hard_drive \<Rightarrow> 'd fat \<Rightarrow> u16 \<Rightarrow> u16 \<Rightarrow> u32 \<Rightarrow> ('d fat \<times> u16 \<times> u32) option" where
  "chain_end dev s cluster next_cluster depth =
     (if next_cluster < 0xfff0
      then (let (s, c) = FAT16_find_next_cluster dev s next_cluster in chain_end dev s next_cluster c (depth + 1))
      else Some (s, cluster, depth))"

partial_function (option) extend_chain ::
    "'d hard_drive \<Rightarrow> 'd fat \<Rightarrow> u16 \<Rightarrow> u32 \<Rightarrow> u32 \<Rightarrow> ('d fat \<times> cluster_result) option" where
  "extend_chain dev s cluster depth expected_size =
     (if depth * bytes_per_cluster s \<le> expected_size
      then do {
        (s, new_cluster) \<leftarrow> FAT16_find_next_free_cluster dev s;
        (if new_cluster = 0 then Some (s, NO_AVAILABLE_CLUSTERS)
         else extend_chain dev
           (FAT16_mark_cluster dev (FAT16_mark_cluster dev s cluster new_cluster) new_cluster 0xffff)
           new_cluster (depth + 1) expected_size)
      }
      else Some (s, CLUSTER_OK))"

declare chain_end.simps [simp del] chain_end.simps [code] extend_chain.simps [simp del] extend_chain.simps [code]

definition adjust_allocated_clusters ::
    "'d hard_drive \<Rightarrow> 'd fat \<Rightarrow> addr \<Rightarrow> u32 \<Rightarrow> ('d fat \<times> cluster_result) option" where
  "adjust_allocated_clusters dev s inode expected_size = do {
     fi \<leftarrow> fat_inodes s inode;
     (s, cluster) \<leftarrow>
       (if first_cluster fi = 0
        then do {
          (s, c) \<leftarrow> FAT16_find_next_free_cluster dev s;
          Some (if c = 0 then s
                else (FAT16_mark_cluster dev s c 0xffff)
                  \<lparr>fat_inodes := (fat_inodes s)(inode \<mapsto> fi\<lparr>first_cluster := c\<rparr>)\<rparr>, c)
        }
        else Some (s, first_cluster fi));
     (if first_cluster fi = 0 \<and> cluster = 0 then Some (s, NO_AVAILABLE_CLUSTERS)
      else if cluster < 3 \<or> 0xfff0 \<le> cluster then Some (s, INVALID_CLUSTER)
      else do {
        let (s, next_cluster) = FAT16_find_next_cluster dev s cluster;
        (s, cluster, depth) \<leftarrow> chain_end dev s cluster next_cluster 1;
        extend_chain dev s cluster depth expected_size
      })
   }"

text \<open>
  After the data the entry of the file and the whole directory are written back. Sizes are compared as unsigned
  words where one operand is unsigned and as signed ones where both are.
\<close>

definition write_back_entry ::
    "'d hard_drive \<Rightarrow> 'd fat \<Rightarrow> addr \<Rightarrow> fat_dentries \<Rightarrow> addr \<Rightarrow> u32 \<Rightarrow> int \<Rightarrow> ('d fat \<times> int) option" where
  "write_back_entry dev s inode de dentry end_offset rc = do {
     ino \<leftarrow> deref (inodes (fk s)) inode;
     root \<leftarrow> fat_inodes s (fat_root s);
     let n = (if sint (i_size ino) < sint end_offset then end_offset else i_size ino);
     let s = s\<lparr>fk := (fk s)\<lparr>inodes := (inodes (fk s))(inode \<mapsto> ino\<lparr>i_size := n\<rparr>)\<rparr>\<rparr>;
     let old = load32 (fat_mem s) (dentry + 28);
     let s = set_fat_mem s (store32 (fat_mem s) (dentry + 28) (if old < end_offset then end_offset else old));
     (s, _) \<leftarrow> write_consecutive_sectors dev s (ucast (first_cluster root)) (de_ptr de) (de_count de * 32) 0;
     s \<leftarrow> fat_kfree s (de_ptr de);
     Some (s, rc)
   }"

definition FAT16_write ::
    "'d hard_drive \<Rightarrow> 'd fat \<Rightarrow> addr \<Rightarrow> addr \<Rightarrow> u32 \<Rightarrow> u32 \<Rightarrow> ('d fat \<times> int) option" where
  "FAT16_write dev s inode buf count file_offset = do {
     ino \<leftarrow> deref (inodes (fk s)) inode;
     fi \<leftarrow> fat_inodes s inode;
     root \<leftarrow> fat_inodes s (fat_root s);
     (if first_cluster fi = first_cluster root
      then write_consecutive_sectors dev s (ucast (first_cluster fi)) buf count file_offset
      else if i_parent ino \<noteq> fat_root s then Some (s, - EINVAL)
      else do {
        (s, de) \<leftarrow> FAT16_get_all_dentries dev s (i_parent ino);
        (if de_count de \<le> ucast (parent_dentry_index fi)
         then do { s \<leftarrow> fat_kfree s (de_ptr de); Some (s, - ENOENT) }
         else do {
           let dentry = de_ptr de + ucast (parent_dentry_index fi) * 32;
           let s = s\<lparr>fat_inodes := (fat_inodes s)(inode \<mapsto> fi\<lparr>first_cluster := load16 (fat_mem s) (dentry + 26)\<rparr>)\<rparr>;
           (s, r) \<leftarrow> adjust_allocated_clusters dev s inode (file_offset + count);
           (case r of
              INVALID_CLUSTER \<Rightarrow> write_back_entry dev s inode de dentry file_offset (- ENOENT)
            | NO_AVAILABLE_CLUSTERS \<Rightarrow> write_back_entry dev s inode de dentry file_offset (- EDQUOT)
            | CLUSTER_OK \<Rightarrow> do {
                fi \<leftarrow> fat_inodes s inode;
                let s = set_fat_mem s (store16 (fat_mem s) (dentry + 26) (first_cluster fi));
                (s, written) \<leftarrow> FAT16_write_cluster_chain dev s inode buf count file_offset;
                (if written < 0 then Some (s, 1)
                 else write_back_entry dev s inode de dentry (file_offset + word_of_int written) written)
              })
         })
      })
   }"

section \<open>Inodes and directories\<close>

definition FAT16_alloc_inode :: "'d fat \<Rightarrow> addr \<Rightarrow> ('d fat \<times> addr) option" where
  "FAT16_alloc_inode s sb = do {
     (s, p) \<leftarrow> fat_kmalloc s 60;
     Some (if p = NULL then (s, NULL)
           else (s\<lparr>fk := (fk s)\<lparr>inodes := (inodes (fk s))(p \<mapsto>
                     inode_zero\<lparr>i_op := fat_i_op s, i_fop := fat_i_fop s, i_sb := sb\<rparr>)\<rparr>,
                   fat_inodes := (fat_inodes s)(p \<mapsto> \<lparr>first_cluster = 0, parent_dentry_index = 0\<rparr>)\<rparr>, p))
   }"

datatype lookup_result = Found dentry | Lookup_Error int | Not_Found

text \<open>The loop over the entries; entries of deleted files are not skipped.\<close>

partial_function (option) fat_lookup_loop ::
    "'d fat \<Rightarrow> addr \<Rightarrow> fat_dentries \<Rightarrow> addr \<Rightarrow> dentry \<Rightarrow> u32 \<Rightarrow> ('d fat \<times> lookup_result) option" where
  "fat_lookup_loop s frame de parent' file i =
     (let entry = de_ptr de + i * 32
      in if fat_mem s entry \<noteq> 0
         then do {
           let s = set_fat_mem s (FAT16_decode_entry_name (fat_mem s) entry frame);
           c \<leftarrow> strcasecmp (fat_mem s) frame (d_name file);
           (if c = 0
            then do {
              dir \<leftarrow> deref (inodes (fk s)) parent';
              (s, p) \<leftarrow> FAT16_alloc_inode s (i_sb dir);
              ino \<leftarrow> deref (inodes (fk s)) p;
              let m = fat_mem s;
              let s = s\<lparr>fk := (fk s)\<lparr>inodes := (inodes (fk s))(p \<mapsto>
                          ino\<lparr>i_size := load32 m (entry + 28), i_parent := parent'\<rparr>)\<rparr>,
                        fat_inodes := (fat_inodes s)(p \<mapsto>
                          \<lparr>first_cluster = load16 m (entry + 26), parent_dentry_index = ucast i\<rparr>)\<rparr>;
              s \<leftarrow> fat_kfree s (de_ptr de);
              Some (s, Found (file\<lparr>d_inode := p\<rparr>))
            }
            else fat_lookup_loop s frame de parent' file (i + 1))
         }
         else do { s \<leftarrow> fat_kfree s (de_ptr de); Some (s, Not_Found) })"

declare fat_lookup_loop.simps [simp del] fat_lookup_loop.simps [code]

definition FAT16_lookup ::
    "'d hard_drive \<Rightarrow> (string \<Rightarrow> addr) \<Rightarrow> addr \<Rightarrow> 'd fat \<Rightarrow> addr \<Rightarrow> dentry \<Rightarrow> ('d fat \<times> lookup_result) option" where
  "FAT16_lookup dev lit frame s parent' file = do {
     c \<leftarrow> strcmp (fat_mem s) (d_name file) (lit ''.'');
     (if c = 0 then Some (s, Found (file\<lparr>d_inode := parent'\<rparr>))
      else do {
        (s, de) \<leftarrow> FAT16_get_all_dentries dev s parent';
        (if de_count de = 0 then do { s \<leftarrow> fat_kfree s (de_ptr de); Some (s, Lookup_Error (- ENOMEM)) }
         else fat_lookup_loop s frame de parent' file 0)
      })
   }"

text \<open>\<open>FAT16_close\<close>; its result is never set.\<close>

definition FAT16_close :: "'d fat \<Rightarrow> addr \<Rightarrow> 'd fat option" where
  "FAT16_close s inode = (if inode \<noteq> fat_root s then fat_kfree s inode else Some s)"

definition hidden_entry :: "mem \<Rightarrow> addr \<Rightarrow> bool" where
  "hidden_entry m entry \<longleftrightarrow> m entry = 0xe5 \<or> m (entry + 11) AND 0x0f \<noteq> 0 \<or> m (entry + 11) AND 2 \<noteq> 0 \<or> m (entry + 11) AND 8 \<noteq> 0"

partial_function (option) skip_hidden :: "mem \<Rightarrow> addr \<Rightarrow> u32 \<Rightarrow> u32 option" where
  "skip_hidden m dentries' i =
     (if hidden_entry m (dentries' + i * 32) then skip_hidden m dentries' (i + 1) else Some i)"

declare skip_hidden.simps [simp del] skip_hidden.simps [code]

text \<open>The loop of \<open>FAT16_readdir\<close>; the result is the number of bytes of the entries that it filled.\<close>

fun fat_readdir_loop :: "mem \<Rightarrow> addr \<Rightarrow> u32 \<Rightarrow> addr \<Rightarrow> u32 \<Rightarrow> nat list \<Rightarrow> u32 \<Rightarrow> (mem \<times> u32) option" where
  "fat_readdir_loop m dentries' count buf index [] written = Some (m, written)"
| "fat_readdir_loop m dentries' count buf index (i # is) written =
     (if count \<le> of_nat i then Some (m, written)
      else do {
        let entry' = buf + of_nat i * dirent_bytes;
        let m = fst (memset m entry' 0 dirent_bytes);
        index \<leftarrow> skip_hidden m dentries' index;
        let entry = dentries' + index * 32;
        (if m entry = 0 then Some (m, written)
         else fat_readdir_loop (FAT16_decode_entry_name m entry (entry' + 8)) dentries' count buf (index + 1) is
                (written + dirent_bytes))
      })"

definition FAT16_readdir ::
    "'d hard_drive \<Rightarrow> 'd fat \<Rightarrow> addr \<Rightarrow> addr \<Rightarrow> u32 \<Rightarrow> ('d fat \<times> int) option" where
  "FAT16_readdir dev s inode buf count = do {
     (s, de) \<leftarrow> FAT16_get_all_dentries dev s inode;
     (m, written) \<leftarrow> fat_readdir_loop (fat_mem s) (de_ptr de) (de_count de) buf 0
                     [0..<unat (count div dirent_bytes)] 0;
     s \<leftarrow> fat_kfree (set_fat_mem s m) (de_ptr de);
     Some (s, sint written)
   }"

section \<open>Creating and deleting files\<close>

definition find_free_dentry :: "mem \<Rightarrow> fat_dentries \<Rightarrow> nat option" where
  "find_free_dentry m de =
     find (\<lambda>i. m (de_ptr de + of_nat i * 32) = 0 \<or> m (de_ptr de + of_nat i * 32) = 0xe5) [0..<unat (de_count de)]"

definition FAT16_create_file ::
    "'d hard_drive \<Rightarrow> (string \<Rightarrow> addr) \<Rightarrow> addr \<Rightarrow> 'd fat \<Rightarrow> addr \<Rightarrow> dentry \<Rightarrow> ('d fat \<times> int) option" where
  "FAT16_create_file dev lit frame s parent' new_file =
     (if d_inode new_file = NULL then Some (s, - EINVAL)
      else do {
        (s, r) \<leftarrow> FAT16_lookup dev lit frame s parent' (named (d_name new_file));
        (if r \<noteq> Not_Found then Some (s, - EEXIST)
         else do {
           (s, de) \<leftarrow> FAT16_get_all_dentries dev s parent';
           (case find_free_dentry (fat_mem s) de of
              None \<Rightarrow> do { s \<leftarrow> fat_kfree s (de_ptr de); Some (s, - EDQUOT) }
            | Some i \<Rightarrow> do {
                let dirent = de_ptr de + of_nat i * 32;
                let s = set_fat_mem s (fst (memset (fat_mem s) dirent 0 32));
                (k, _) \<leftarrow> FAT16_encode_entry_name (fk s) (d_name new_file) dirent;
                let s = s\<lparr>fk := k\<rparr>;
                (s, _) \<leftarrow> FAT16_write dev s parent' (de_ptr de) (de_count de * 32) 0;
                ino \<leftarrow> deref (inodes (fk s)) (d_inode new_file);
                fi \<leftarrow> fat_inodes s (d_inode new_file);
                let s = s\<lparr>fk := (fk s)\<lparr>inodes := (inodes (fk s))(d_inode new_file \<mapsto> ino\<lparr>i_parent := parent'\<rparr>)\<rparr>,
                          fat_inodes := (fat_inodes s)(d_inode new_file \<mapsto> fi\<lparr>parent_dentry_index := of_nat i\<rparr>)\<rparr>;
                s \<leftarrow> fat_kfree s (de_ptr de);
                Some (s, 0)
              })
         })
      })"

partial_function (option) invalidate_loop :: "'d hard_drive \<Rightarrow> 'd fat \<Rightarrow> u16 \<Rightarrow> 'd fat option" where
  "invalidate_loop dev s cluster =
     (let (s, next_cluster) = FAT16_find_next_cluster dev s cluster;
          s = FAT16_mark_cluster dev s cluster 0
      in if next_cluster < 0xfff0 then invalidate_loop dev s next_cluster else Some s)"

declare invalidate_loop.simps [simp del] invalidate_loop.simps [code]

definition invalidate_cluster_chain :: "'d hard_drive \<Rightarrow> 'd fat \<Rightarrow> u16 \<Rightarrow> 'd fat option" where
  "invalidate_cluster_chain dev s cluster = (if cluster = 0 then Some s else invalidate_loop dev s cluster)"

text \<open>The loop goes on behind the entry that it has deleted; deleted entries are compared as well.\<close>

definition delete_entry ::
    "'d hard_drive \<Rightarrow> addr \<Rightarrow> addr \<Rightarrow> fat_dentries \<Rightarrow> dentry \<Rightarrow> nat \<Rightarrow> 'd fat \<times> int \<Rightarrow> ('d fat \<times> int) option" where
  "delete_entry dev frame parent' de file i st = do {
     let (s, rc) = st;
     let dirent = de_ptr de + of_nat i * 32;
     let s = set_fat_mem s (FAT16_decode_entry_name (fat_mem s) dirent frame);
     c \<leftarrow> strcasecmp (fat_mem s) frame (d_name file);
     (if c = 0
      then do {
        s \<leftarrow> invalidate_cluster_chain dev s (load16 (fat_mem s) (dirent + 26));
        let s = set_fat_mem s ((fat_mem s)(dirent := 0xe5));
        (s, _) \<leftarrow> FAT16_write dev s parent' (de_ptr de) (de_count de * 32) 0;
        Some (s, 0)
      }
      else Some (s, rc))
   }"

definition FAT16_delete_file ::
    "'d hard_drive \<Rightarrow> addr \<Rightarrow> 'd fat \<Rightarrow> addr \<Rightarrow> dentry \<Rightarrow> ('d fat \<times> int) option" where
  "FAT16_delete_file dev frame s parent' file = do {
     fi \<leftarrow> fat_inodes s (d_inode file);
     root \<leftarrow> fat_inodes s (fat_root s);
     (if first_cluster fi = first_cluster root \<or> parent' \<noteq> fat_root s then Some (s, - EINVAL)
      else do {
        (s, de) \<leftarrow> FAT16_get_all_dentries dev s parent';
        (if de_ptr de = NULL then Some (s, - ENOENT)
         else do {
           (s, rc) \<leftarrow> for_each (delete_entry dev frame parent' de file) [0..<unat (de_count de)] (s, - ENOENT);
           s \<leftarrow> fat_kfree s (de_ptr de);
           s \<leftarrow> FAT16_close s (d_inode file);
           Some (s, rc)
         })
      })
   }"

section \<open>Mounting\<close>

definition read_boot_sector :: "byte list \<Rightarrow> boot_record" where
  "read_boot_sector b = \<lparr>bytes_per_sector = word16 (b ! 11) (b ! 12), sectors_per_cluster = b ! 13,
     reserved_sectors = word16 (b ! 14) (b ! 15), FAT_copies = b ! 16, max_root_dentries = word16 (b ! 17) (b ! 18),
     small_part_sectors_count = word16 (b ! 19) (b ! 20), sectors_per_FAT = word16 (b ! 22) (b ! 23)\<rparr>"

text \<open>
  The mount up to the entry in the parent directory, which \<open>create\<close> of the file system of that directory makes;
  a failed allocation is found when it is used. The number of the cached sector is not set: it is what the
  memory of the new super block holds at offset 528. \<open>lit\<close> gives the addresses of the names of the super block and the root.
\<close>

definition FAT16_mount ::
    "'d hard_drive \<Rightarrow> iop_table \<Rightarrow> fop_table \<Rightarrow> sop_table \<Rightarrow> (string \<Rightarrow> addr) \<Rightarrow> 'd \<Rightarrow> kernel \<Rightarrow> addr \<Rightarrow> u32 \<Rightarrow>
     ('d fat \<times> addr) option" where
  "FAT16_mount dev iops fops sops lit d k parent_inode block_number = do {
     (k, iop) \<leftarrow> kmalloc_k k 12;
     require (iop \<noteq> NULL);
     (k, fop) \<leftarrow> kmalloc_k k 36;
     require (fop \<noteq> NULL);
     (k, sb_op) \<leftarrow> kmalloc_k k 24;
     require (sb_op \<noteq> NULL);
     (k, sb) \<leftarrow> kmalloc_k k 1044;
     require (sb \<noteq> NULL);
     let k = k\<lparr>iop_tables := (iop_tables k)(iop \<mapsto> iops), fop_tables := (fop_tables k)(fop \<mapsto> fops),
               sop_tables := (sop_tables k)(sb_op \<mapsto> sops)\<rparr>;
     let (d, b, _) = read_block dev d block_number 512;
     let rec = read_boot_sector b;
     let fat_first = (ucast block_number + reserved_sectors rec :: u16);
     let (d, c, _) = read_block dev d (ucast fat_first) 512;
     let s = \<lparr>drive = d, fk = k, boot = rec, fat_first_sector = fat_first, data_region_start = 0,
              FAT_cached_sector = load16 (memory_k k) (sb + 528), FAT_sector_cache = words16 c, fat_sb = sb, fat_root = NULL,
              fat_i_op = iop, fat_i_fop = fop, fat_inodes = Map.empty\<rparr>;
     (s, root_inode) \<leftarrow> FAT16_alloc_inode s sb;
     ino \<leftarrow> deref (inodes (fk s)) root_inode;
     let abs_first = (ucast block_number + reserved_sectors rec + ucast (FAT_copies rec) * sectors_per_FAT rec :: u16);
     require (bytes_per_sector rec \<noteq> 0);
     let root_sectors = uint (max_root_dentries rec) * 32 div uint (bytes_per_sector rec);
     let s = s\<lparr>fat_root := root_inode, data_region_start := word_of_int (uint abs_first + root_sectors),
               fat_inodes := (fat_inodes s)(root_inode \<mapsto> \<lparr>first_cluster = abs_first, parent_dentry_index = 0\<rparr>),
               fk := (fk s)\<lparr>inodes := (inodes (fk s))(root_inode \<mapsto> ino\<lparr>i_mode := S_IFDIR, i_parent := parent_inode,
                 i_size := ucast (max_root_dentries rec) * 32\<rparr>)\<rparr>\<rparr>;
     (s, root) \<leftarrow> fat_kmalloc s 12;
     require (root \<noteq> NULL);
     Some (s\<lparr>fk := (fk s)\<lparr>dentries := (dentries (fk s))(root \<mapsto>
                 \<lparr>d_name = lit ''/'', d_inode = root_inode, d_sb = sb\<rparr>),
               super_blocks := (super_blocks (fk s))(sb \<mapsto>
                 \<lparr>s_name = lit ''fat16'', s_op = sb_op, s_root = root\<rparr>)\<rparr>\<rparr>, root)
   }"

text \<open>The partition table of the first sector, \<open>src/fs/mbr.c\<close>: four entries of 16 bytes.\<close>

definition get_mbr_partition_table :: "'d hard_drive \<Rightarrow> 'd \<Rightarrow> kernel \<Rightarrow> ('d \<times> kernel \<times> addr) option" where
  "get_mbr_partition_table dev d k =
     (let (d, b, _) = read_block dev d 0 512
      in if b ! 510 \<noteq> 0x55 \<or> b ! 511 \<noteq> 0xaa then Some (d, k, NULL)
         else do {
           (k, p) \<leftarrow> kmalloc_k k 64;
           require (p \<noteq> NULL);
           Some (d, set_memory k (stored (memory_k k) p (take 64 (drop 0x1be b))), p)
         })"

end
