(* ===== verification/Fat16_Table.thy ===== *)
theory Fat16_Table
  imports Fat16_Ops
begin

text \<open>
  The allocation table of the FAT16 file system: what \<open>src/fs/fat16.c\<close> relies on when it calls the hard drive,
  the invariant of the cache of one sector, and the interface \<open>cluster_table\<close> of a table whose entries are read and
  set, interpreted on \<open>FAT16_find_next_cluster\<close> and \<open>FAT16_mark_cluster\<close>. Chains of clusters are walked and released
  over the interface.
\<close>

section \<open>The drive\<close>

text \<open>
  What the file system relies on when it calls the hard drive: the drive consists of blocks of 512 bytes, reading
  consecutive blocks yields their bytes and changes none of them, and writing replaces them and no other one. The
  function \<open>blocks\<close> gives the blocks of a drive that is ready; a request is for at least one block.
\<close>

definition drive_ready :: "('d \<Rightarrow> u32 \<Rightarrow> byte list) \<Rightarrow> 'd \<Rightarrow> bool" where
  "drive_ready blocks d \<longleftrightarrow> (\<forall>b. length (blocks d b) = 512)"

definition block_device :: "'d hard_drive \<Rightarrow> ('d \<Rightarrow> u32 \<Rightarrow> byte list) \<Rightarrow> bool" where
  "block_device dev blocks \<longleftrightarrow>
     (\<forall>d b k. drive_ready blocks d \<and> 0 < k \<and> k < 2 ^ 23 \<longrightarrow> (\<exists>d'. read_block dev d b (of_nat (512 * k)) =
        (d', concat (map (\<lambda>i. blocks d (b + of_nat i)) [0..<k]), 0) \<and> blocks d' = blocks d)) \<and>
     (\<forall>d b k bs. drive_ready blocks d \<and> 0 < k \<and> k < 2 ^ 23 \<and> length bs = 512 * k \<longrightarrow>
        blocks (fst (write_block dev d b (of_nat (512 * k)) bs)) =
        (\<lambda>x. if unat (x - b) < k then take 512 (drop (512 * unat (x - b)) bs) else blocks d x))"

lemma block_device_read:
  assumes "block_device dev blocks" "drive_ready blocks d" "0 < k" "k < 2 ^ 23"
  shows "\<exists>d'. read_block dev d b (of_nat (512 * k)) = (d', concat (map (\<lambda>i. blocks d (b + of_nat i)) [0..<k]), 0) \<and>
    blocks d' = blocks d"
  using assms unfolding block_device_def by blast

lemma block_device_write:
  assumes "block_device dev blocks" "drive_ready blocks d" "0 < k" "k < 2 ^ 23" "length bs = 512 * k"
  shows "blocks (fst (write_block dev d b (of_nat (512 * k)) bs)) =
    (\<lambda>x. if unat (x - b) < k then take 512 (drop (512 * unat (x - b)) bs) else blocks d x)"
  using assms unfolding block_device_def by blast

lemma block_device_one:
  assumes "block_device dev blocks" "drive_ready blocks d"
  shows "\<exists>d'. read_block dev d b 512 = (d', blocks d b, 0) \<and> blocks d' = blocks d"
    and "length bs = 512 \<Longrightarrow> blocks (fst (write_block dev d b 512 bs)) = (blocks d)(b := bs)"
    and "length (blocks d b) = 512"
proof -
  show "\<exists>d'. read_block dev d b 512 = (d', blocks d b, 0) \<and> blocks d' = blocks d"
    using block_device_read [OF assms, of 1 b] by simp
  show "blocks (fst (write_block dev d b 512 bs)) = (blocks d)(b := bs)" if "length bs = 512"
    using block_device_write [OF assms, of 1 bs b] that by (auto simp: fun_eq_iff unat_eq_zero)
  show "length (blocks d b) = 512" using assms(2) by (simp add: drive_ready_def)
qed

section \<open>The table on the drive and its cached sector\<close>

lemma words16_nth: "2 * i + 1 < length bs \<Longrightarrow> words16 bs ! i = word16 (bs ! (2 * i)) (bs ! (2 * i + 1))"
proof (induction bs arbitrary: i rule: words16.induct)
  case (1 a b bs)
  then show ?case by (cases i) simp_all
qed simp_all

lemma length_words16 [simp]: "length (words16 bs) = length bs div 2"
  by (induction bs rule: words16.induct) simp_all

lemma words16_bytes: "words16 (bytes_of_words16 ws) = ws"
  by (induction ws) (simp_all add: word16_bytes16)

lemma length_bytes_of_words16 [simp]: "length (bytes_of_words16 ws) = 2 * length ws"
  by (induction ws) simp_all

lemma unat_ucast_u16: "unat (ucast (x :: u16) :: u32) = unat x"
  using unat_lt_exp [of x] by (simp add: unsigned_ucast_eq take_bit_eq_mod)

definition FAT_sector :: "'d fat \<Rightarrow> u16 \<Rightarrow> u32" where
  "FAT_sector s i = ucast (fat_first_sector s) + ucast i"

definition fat_entry :: "('d \<Rightarrow> u32 \<Rightarrow> byte list) \<Rightarrow> 'd fat \<Rightarrow> u16 \<Rightarrow> u16" where
  "fat_entry blocks s c = words16 (blocks (drive s) (FAT_sector s (c div 256))) ! unat (c mod 256)"

text \<open>The cached sector is one of the 256 sectors of the table and holds what the drive holds.\<close>

definition fat_coherent :: "'d hard_drive \<Rightarrow> ('d \<Rightarrow> u32 \<Rightarrow> byte list) \<Rightarrow> 'd fat \<Rightarrow> bool" where
  "fat_coherent dev blocks s \<longleftrightarrow>
     block_device dev blocks \<and> drive_ready blocks (drive s) \<and> FAT_cached_sector s < 256 \<and>
     FAT_sector_cache s = words16 (blocks (drive s) (FAT_sector s (FAT_cached_sector s)))"

text \<open>What no operation on the table changes: the state of the mount and the blocks outside of the table.\<close>

definition fat_kept :: "('d \<Rightarrow> u32 \<Rightarrow> byte list) \<Rightarrow> 'd fat \<Rightarrow> 'd fat \<Rightarrow> bool" where
  "fat_kept blocks s s' \<longleftrightarrow>
     s' = s\<lparr>drive := drive s', FAT_sector_cache := FAT_sector_cache s', FAT_cached_sector := FAT_cached_sector s'\<rparr> \<and>
     (\<forall>b. (\<forall>i<256. b \<noteq> FAT_sector s i) \<longrightarrow> blocks (drive s') b = blocks (drive s) b)"

lemma fat_kept_refl [simp]: "fat_kept blocks s s"
  by (simp add: fat_kept_def)

lemma fat_kept_sector: "fat_kept blocks s s' \<Longrightarrow> FAT_sector s' = FAT_sector s"
proof -
  assume "fat_kept blocks s s'"
  then have "s' = s\<lparr>drive := drive s', FAT_sector_cache := FAT_sector_cache s', FAT_cached_sector := FAT_cached_sector s'\<rparr>"
    by (simp add: fat_kept_def)
  then have "fat_first_sector s' = fat_first_sector s" by (metis fat.select_convs(4) fat.surjective fat.update_convs(1,6,7))
  then show ?thesis by (auto simp: FAT_sector_def)
qed

lemma fat_kept_trans: "fat_kept blocks s t \<Longrightarrow> fat_kept blocks t u \<Longrightarrow> fat_kept blocks s u"
proof -
  assume a: "fat_kept blocks s t" "fat_kept blocks t u"
  note k = fat_kept_sector [OF a(1)]
  obtain d c n where t: "t = s\<lparr>drive := d, FAT_sector_cache := c, FAT_cached_sector := n\<rparr>"
    using a(1) unfolding fat_kept_def by blast
  obtain d' c' n' where u: "u = t\<lparr>drive := d', FAT_sector_cache := c', FAT_cached_sector := n'\<rparr>"
    using a(2) unfolding fat_kept_def by blast
  have "u = s\<lparr>drive := drive u, FAT_sector_cache := FAT_sector_cache u, FAT_cached_sector := FAT_cached_sector u\<rparr>"
    unfolding u t by simp
  then show ?thesis using a k unfolding fat_kept_def by auto
qed

text \<open>The entry of a cluster is in the cached sector exactly when the test says so.\<close>

lemma cluster_sector_less: "(c :: u16) div 256 < 256"
proof -
  have "unat (c div 256) < 256" using unat_lt_exp [of c] by (simp add: unat_div_word)
  then show ?thesis by (simp add: word_less_nat_alt)
qed

lemma FAT_cached_hit: "FAT_cached s c \<Longrightarrow> FAT_cached_sector s < 256 \<Longrightarrow> FAT_cached_sector s = c div 256"
proof -
  assume a: "FAT_cached s c" "FAT_cached_sector s < 256"
  let ?k = "unat (FAT_cached_sector s)"
  from a(2) have k: "?k < 256" by (simp add: word_less_nat_alt)
  then have start: "unat (FAT_cached_sector s * 256) = ?k * 256" using unat_word_ariths(2) [of "FAT_cached_sector s" 256] by simp
  have suc: "unat (FAT_cached_sector s + 1) = ?k + 1" using unat_Suc_less [OF a(2)] by simp
  have "unat ((FAT_cached_sector s + 1) * 256) = unat (FAT_cached_sector s + 1) * 256 mod 65536"
    using unat_word_ariths(2) [of "FAT_cached_sector s + 1" 256] by simp
  then have "unat ((FAT_cached_sector s + 1) * 256) = (?k + 1) * 256 mod 65536" unfolding suc .
  moreover have "unat c < unat ((FAT_cached_sector s + 1) * 256)" "?k * 256 \<le> unat c"
    using a(1) start by (simp_all add: FAT_cached_def word_less_nat_alt word_le_nat_alt)
  ultimately have "unat c < (?k + 1) * 256" "?k * 256 \<le> unat c"
    using mod_less_eq_dividend [of "(?k + 1) * 256" 65536] by linarith+
  then have "unat c div 256 = ?k" by (intro div_nat_eqI) simp_all
  then show ?thesis unfolding unat_eq_iff [symmetric] by (simp add: unat_div_word)
qed

lemma FAT_load_coherent:
  assumes "fat_coherent dev blocks s" "i < 256"
  shows "fat_coherent dev blocks (FAT_load dev s i) \<and> FAT_cached_sector (FAT_load dev s i) = i \<and>
    fat_entry blocks (FAT_load dev s i) = fat_entry blocks s \<and> fat_kept blocks s (FAT_load dev s i)"
proof -
  from assms(1) have "block_device dev blocks" "drive_ready blocks (drive s)" by (simp_all add: fat_coherent_def)
  from block_device_one(1) [OF this, of "FAT_sector s i"] obtain d' where
    "read_block dev (drive s) (FAT_sector s i) 512 = (d', blocks (drive s) (FAT_sector s i), 0)" "blocks d' = blocks (drive s)"
    by auto
  then show ?thesis using assms
    by (simp add: FAT_load_def fat_coherent_def fat_entry_def [abs_def] fat_kept_def FAT_sector_def drive_ready_def)
qed

definition FAT_fetch :: "'d hard_drive \<Rightarrow> 'd fat \<Rightarrow> u16 \<Rightarrow> 'd fat" where
  "FAT_fetch dev s c = (if FAT_cached s c then s else FAT_load dev s (c div 256))"

lemma FAT_fetch_coherent:
  assumes "fat_coherent dev blocks s"
  shows "fat_coherent dev blocks (FAT_fetch dev s c) \<and> FAT_cached_sector (FAT_fetch dev s c) = c div 256 \<and>
    fat_entry blocks (FAT_fetch dev s c) = fat_entry blocks s \<and> fat_kept blocks s (FAT_fetch dev s c)"
  using FAT_load_coherent [OF assms cluster_sector_less [of c]] FAT_cached_hit [of s c] assms
  by (cases "FAT_cached s c") (auto simp: FAT_fetch_def fat_coherent_def)

section \<open>Reading and setting entries\<close>

definition fat_table_is :: "'d hard_drive \<Rightarrow> ('d \<Rightarrow> u32 \<Rightarrow> byte list) \<Rightarrow> 'd fat \<Rightarrow> 'd fat \<Rightarrow> (u16 \<Rightarrow> u16) \<Rightarrow> bool" where
  "fat_table_is dev blocks s0 s f \<longleftrightarrow> fat_coherent dev blocks s \<and> fat_kept blocks s0 s \<and> fat_entry blocks s = f"

lemma find_next_reads:
  assumes "fat_coherent dev blocks s"
  shows "FAT16_find_next_cluster dev s c = (FAT_fetch dev s c, fat_entry blocks s c)"
proof -
  note f = FAT_fetch_coherent [OF assms, of c]
  then have "FAT_sector_cache (FAT_fetch dev s c) ! unat (c mod 256) = fat_entry blocks (FAT_fetch dev s c) c"
    unfolding fat_coherent_def fat_entry_def by simp
  then show ?thesis using f by (simp add: FAT16_find_next_cluster_def FAT_fetch_def Let_def)
qed

lemma FAT_sector_inj: "FAT_sector s i = FAT_sector s j \<longleftrightarrow> i = j"
proof
  assume "FAT_sector s i = FAT_sector s j"
  then have "(ucast i :: u32) = ucast j" by (simp add: FAT_sector_def)
  then have "unat (ucast i :: u32) = unat (ucast j :: u32)" by simp
  then show "i = j" by (simp add: unat_ucast_u16)
qed simp

lemma mark_sets:
  assumes "fat_coherent dev blocks s"
  shows "fat_coherent dev blocks (FAT16_mark_cluster dev s c v) \<and> fat_kept blocks s (FAT16_mark_cluster dev s c v) \<and>
    fat_entry blocks (FAT16_mark_cluster dev s c v) = (fat_entry blocks s)(c := v)"
proof -
  define t u i where "t = FAT_fetch dev s c" and "u = FAT16_mark_cluster dev s c v" and "i = c div 256"
  define ws where "ws = (FAT_sector_cache t)[unat (c mod 256) := v]"
  have t: "block_device dev blocks" "drive_ready blocks (drive t)" "FAT_cached_sector t = i" "fat_entry blocks t = fat_entry blocks s" "fat_kept blocks s t"
    "FAT_sector_cache t = words16 (blocks (drive t) (FAT_sector t i))"
    using FAT_fetch_coherent [OF assms, of c] unfolding fat_coherent_def t_def i_def by auto
  have i: "i < 256" using cluster_sector_less by (simp add: i_def)
  have len: "length (blocks (drive t) b) = 512" for b using block_device_one(3) [OF t(1,2)] .
  have m: "u = t\<lparr>FAT_sector_cache := ws, drive := fst (write_block dev (drive t) (FAT_sector t i) 512 (bytes_of_words16 ws))\<rparr>"
    by (simp add: FAT16_mark_cluster_def FAT_fetch_def FAT_sector_def Let_def u_def t_def i_def ws_def)
  have sector: "FAT_sector u = FAT_sector t" by (simp add: m FAT_sector_def fun_eq_iff)
  have ws: "length ws = 256" using len by (simp add: t(6) ws_def)
  then have w: "blocks (drive u) = (blocks (drive t))(FAT_sector t i := bytes_of_words16 ws)"
    using block_device_one(2) [OF t(1,2), of "bytes_of_words16 ws" "FAT_sector t i"] by (simp add: m)
  have entry: "fat_entry blocks u x = ((fat_entry blocks t)(c := v)) x" for x
  proof (cases "x div 256 = i")
    case True
    have eq: "unat (x mod 256) = unat (c mod 256) \<longleftrightarrow> x = c"
      using True word_mod_div_equality [of x 256] word_mod_div_equality [of c 256] unfolding i_def by (metis unat_eq_iff)
    have "unat (x mod 256) < 256" "unat (c mod 256) < 256" by (simp_all add: unat_mod_word)
    then show ?thesis using True eq len
      by (auto simp: fat_entry_def sector w words16_bytes ws_def t(6) nth_list_update i_def)
  next
    case False
    then show ?thesis by (auto simp: fat_entry_def sector w i_def FAT_sector_inj)
  qed
  have "fat_coherent dev blocks u"
    using t(1,3) i len ws by (simp add: fat_coherent_def sector w words16_bytes drive_ready_def) (simp add: m)
  moreover have "fat_kept blocks t u"
    unfolding fat_kept_def w using i by (auto simp: m)
  ultimately show ?thesis unfolding u_def [symmetric] using entry t(4) fat_kept_trans [OF t(5)] by (auto simp: fun_eq_iff)
qed

section \<open>Chains of clusters\<close>

text \<open>Walking along a chain, and releasing the clusters of a list, with any operations on a table.\<close>

primrec walk :: "('s \<Rightarrow> 'c \<Rightarrow> 's \<times> 'c) \<Rightarrow> nat \<Rightarrow> 's \<times> 'c \<Rightarrow> 's \<times> 'c" where
  "walk nxt 0 sc = sc"
| "walk nxt (Suc n) sc = walk nxt n (nxt (fst sc) (snd sc))"

primrec release :: "('s \<Rightarrow> 'c \<Rightarrow> 's \<times> 'c) \<Rightarrow> ('s \<Rightarrow> 'c \<Rightarrow> 'v \<Rightarrow> 's) \<Rightarrow> 'v \<Rightarrow> 'c list \<Rightarrow> 's \<Rightarrow> 's" where
  "release nxt mark v [] s = s"
| "release nxt mark v (c # xs) s = release nxt mark v xs (mark (fst (nxt s c)) c v)"

locale cluster_table =
  fixes table :: "'s \<Rightarrow> ('c \<Rightarrow> 'c) \<Rightarrow> bool"
    and nxt :: "'s \<Rightarrow> 'c \<Rightarrow> 's \<times> 'c"
    and mark :: "'s \<Rightarrow> 'c \<Rightarrow> 'c \<Rightarrow> 's"
  assumes nxt_reads: "table s f \<Longrightarrow> snd (nxt s c) = f c \<and> table (fst (nxt s c)) f"
    and mark_updates: "table s f \<Longrightarrow> table (mark s c v) (f(c := v))"
begin

lemma walk_steps: "table s f \<Longrightarrow> snd (walk nxt n (s, c)) = (f ^^ n) c \<and> table (fst (walk nxt n (s, c))) f"
proof (induction n arbitrary: s c)
  case (Suc n)
  from nxt_reads [OF Suc.prems, of c] Suc.IH [of "fst (nxt s c)" "snd (nxt s c)"] show ?case
    by (cases "nxt s c") (simp add: funpow_swap1)
qed simp

lemma release_marks: "table s f \<Longrightarrow> table (release nxt mark v xs s) (\<lambda>c. if c \<in> set xs then v else f c)"
proof (induction xs arbitrary: s f)
  case (Cons x xs)
  have "table (mark (fst (nxt s x)) x v) (f(x := v))" using nxt_reads [OF Cons.prems] mark_updates by blast
  from Cons.IH [OF this] have "table (release nxt mark v (x # xs) s) (\<lambda>c. if c \<in> set xs then v else (f(x := v)) c)" by simp
  moreover have "(\<lambda>c. if c \<in> set xs then v else (f(x := v)) c) = (\<lambda>c. if c \<in> set (x # xs) then v else f c)" by auto
  ultimately show ?case by metis
qed simp

end

interpretation fat_table: cluster_table "fat_table_is dev blocks s0" "FAT16_find_next_cluster dev" "FAT16_mark_cluster dev"
  for dev blocks s0
proof
  fix s f c v
  assume "fat_table_is dev blocks s0 s f"
  then have t: "fat_coherent dev blocks s" "fat_kept blocks s0 s" "fat_entry blocks s = f" by (simp_all add: fat_table_is_def)
  show "snd (FAT16_find_next_cluster dev s c) = f c \<and> fat_table_is dev blocks s0 (fst (FAT16_find_next_cluster dev s c)) f"
    using find_next_reads [OF t(1), of c] FAT_fetch_coherent [OF t(1), of c] fat_kept_trans [OF t(2)] t(3)
    by (simp add: fat_table_is_def)
  show "fat_table_is dev blocks s0 (FAT16_mark_cluster dev s c v) (f(c := v))"
    using mark_sets [OF t(1), of c v] fat_kept_trans [OF t(2)] t(3) by (simp add: fat_table_is_def)
qed

lemma follow_chain_walk: "follow_chain dev s c n = walk (FAT16_find_next_cluster dev) n (s, c)"
  by (induction n arbitrary: s c) (simp_all add: case_prod_unfold Let_def)

text \<open>The chain of a file: each entry names the next cluster, the last one is an end mark.\<close>

fun fat_chain :: "(u16 \<Rightarrow> u16) \<Rightarrow> u16 list \<Rightarrow> bool" where
  "fat_chain f [] = False"
| "fat_chain f [c] = (0xfff0 \<le> f c)"
| "fat_chain f (c # d # xs) = (f c = d \<and> d < 0xfff0 \<and> fat_chain f (d # xs))"

lemma fat_chain_unique: "fat_chain f (c # xs) \<Longrightarrow> fat_chain f (c # ys) \<Longrightarrow> xs = ys"
proof (induction xs arbitrary: c ys)
  case Nil
  then show ?case by (cases ys) (auto simp: not_le [symmetric])
next
  case (Cons x xs)
  then obtain y zs where "ys = y # zs" by (cases ys) (auto simp: not_le [symmetric])
  then show ?case using Cons.prems Cons.IH [of x zs] by auto
qed

lemma fat_chain_suffix: "fat_chain f (xs @ y # ys) \<Longrightarrow> fat_chain f (y # ys)"
proof (induction xs)
  case (Cons x xs)
  then show ?case by (cases xs) auto
qed simp

lemma fat_chain_distinct: "fat_chain f xs \<Longrightarrow> distinct xs"
proof (induction xs)
  case (Cons c xs)
  have "c \<notin> set xs"
  proof
    assume "c \<in> set xs"
    then obtain as bs where xs: "xs = as @ c # bs" by (meson split_list)
    then have "fat_chain f (c # bs)" using fat_chain_suffix [of f "c # as" c bs] Cons.prems by simp
    then have "bs = xs" using fat_chain_unique Cons.prems by blast
    then show False using xs by (auto dest: arg_cong [where f = length])
  qed
  moreover have "xs \<noteq> [] \<Longrightarrow> fat_chain f xs" using Cons.prems by (cases xs) auto
  ultimately show ?case using Cons.IH by (cases xs) auto
qed simp

lemma fat_chain_cong: "(\<And>c. c \<in> set xs \<Longrightarrow> f c = g c) \<Longrightarrow> fat_chain f xs = fat_chain g xs"
  by (induction f xs rule: fat_chain.induct) auto

text \<open>Releasing a chain walks to its end although every entry is cleared on the way.\<close>

lemma invalidate_loop_releases:
  assumes "fat_table_is dev blocks s0 s f" "fat_chain f (c # xs)"
  shows "invalidate_loop dev s c = Some (release (FAT16_find_next_cluster dev) (FAT16_mark_cluster dev) 0 (c # xs) s)"
  using assms
proof (induction xs arbitrary: s f c)
  case Nil
  then show ?case using fat_table.nxt_reads [OF Nil.prems(1), of c]
    by (subst invalidate_loop.simps) (auto simp: case_prod_unfold Let_def not_le [symmetric])
next
  case (Cons d xs)
  let ?s = "FAT16_mark_cluster dev (fst (FAT16_find_next_cluster dev s c)) c 0"
  note r = fat_table.nxt_reads [OF Cons.prems(1), of c]
  have "c \<notin> set (d # xs)" using fat_chain_distinct [OF Cons.prems(2)] by simp
  then have "fat_chain f (d # xs) = fat_chain (f(c := 0)) (d # xs)" by (intro fat_chain_cong) auto
  then have "fat_chain (f(c := 0)) (d # xs)" using Cons.prems(2) by simp
  moreover have "fat_table_is dev blocks s0 ?s (f(c := 0))" using r fat_table.mark_updates by blast
  ultimately have "invalidate_loop dev ?s d = Some (release (FAT16_find_next_cluster dev) (FAT16_mark_cluster dev) 0 (d # xs) ?s)"
    using Cons.IH by blast
  then show ?case using r Cons.prems(2)
    by (subst invalidate_loop.simps) (simp add: case_prod_unfold Let_def)
qed

section \<open>The first free cluster\<close>

lemma find_least: "find P [lo..<n] = Some j \<Longrightarrow> P j \<and> lo \<le> j \<and> j < n \<and> (\<forall>i. lo \<le> i \<and> i < j \<longrightarrow> \<not> P i)"
proof -
  assume "find P [lo..<n] = Some j"
  then obtain k where k: "k < length [lo..<n]" "P ([lo..<n] ! k)" "j = [lo..<n] ! k" "\<forall>i<k. \<not> P ([lo..<n] ! i)"
    unfolding find_Some_iff by blast
  have "\<not> P i" if "lo \<le> i" "i < j" for i
  proof -
    have "i - lo < k" using k(1,3) that by simp
    then show ?thesis using k(1,4) that by force
  qed
  then show ?thesis using k by auto
qed

lemma find_least_none: "find P [lo..<n] = None \<longleftrightarrow> (\<forall>i. lo \<le> i \<and> i < n \<longrightarrow> \<not> P i)"
  by (auto simp: find_None_iff)

lemma entry_in_sector:
  assumes "fat_table_is dev blocks s0 s f" "i < 256" "j < 256"
  shows "fat_table_is dev blocks s0 (FAT_load dev s (of_nat i)) f \<and>
    FAT_sector_cache (FAT_load dev s (of_nat i)) ! j = f (of_nat (256 * i + j))"
proof -
  have less: "(of_nat i :: u16) < 256" using assms(2) by (simp add: word_less_nat_alt unat_of_nat)
  have s: "fat_coherent dev blocks s" "fat_kept blocks s0 s" "fat_entry blocks s = f" using assms(1) by (simp_all add: fat_table_is_def)
  note l = FAT_load_coherent [OF s(1) less]
  have n: "unat (of_nat (256 * i + j) :: u16) = 256 * i + j" using assms(2,3) by (intro unat_of_nat_less) simp
  have d: "(of_nat (256 * i + j) :: u16) div 256 = of_nat i"
    using n assms(2,3) by (simp only: unat_eq_iff [symmetric] unat_div_word) (simp add: unat_of_nat)
  have "unat ((of_nat (256 * i + j) :: u16) mod 256) = (256 * i + j) mod 256" using n by (simp add: unat_mod_word)
  then have m: "unat ((of_nat (256 * i + j) :: u16) mod 256) = j" using assms(3) by simp
  have "FAT_sector_cache (FAT_load dev s (of_nat i)) ! j = fat_entry blocks (FAT_load dev s (of_nat i)) (of_nat (256 * i + j))"
    using l unfolding fat_coherent_def fat_entry_def m d by simp
  then show ?thesis using l s fat_kept_trans [OF s(2)] by (simp add: fat_table_is_def)
qed

lemma free_cluster_loop_first:
  assumes "fat_table_is dev blocks s0 s f" "a \<le> n" "n \<le> 256" and "\<And>x. 2 \<le> x \<Longrightarrow> x < 256 * a \<Longrightarrow> f (of_nat x) \<noteq> 0"
  shows "\<exists>s' c. free_cluster_loop dev s [a..<n] = (s', c) \<and> fat_table_is dev blocks s0 s' f \<and>
    (c = 0 \<and> (\<forall>x. 2 \<le> x \<and> x < 256 * n \<longrightarrow> f (of_nat x) \<noteq> 0) \<or>
     f c = 0 \<and> 2 \<le> unat c \<and> unat c < 256 * n \<and> (\<forall>x. 2 \<le> x \<and> x < unat c \<longrightarrow> f (of_nat x) \<noteq> 0))"
  using assms
proof (induction "n - a" arbitrary: a s)
  case 0
  then show ?case by auto
next
  case (Suc d)
  then have a: "a < n" "a < 256" by simp_all
  let ?s = "FAT_load dev s (of_nat a)" and ?lo = "if a = 0 then 2 else 0"
  have t: "fat_table_is dev blocks s0 ?s f" and e: "\<And>j. j < 256 \<Longrightarrow> FAT_sector_cache ?s ! j = f (of_nat (256 * a + j))"
    using entry_in_sector [OF Suc.prems(1) a(2), of 0] entry_in_sector [OF Suc.prems(1) a(2)] by auto
  have before: "f (of_nat x) \<noteq> 0" if "2 \<le> x" "x < 256 * a + j" "\<And>i. ?lo \<le> i \<Longrightarrow> i < j \<Longrightarrow> f (of_nat (256 * a + i)) \<noteq> 0" for x j
  proof (cases "x < 256 * a")
    case False
    then have "f (of_nat (256 * a + (x - 256 * a))) \<noteq> 0" using that by (intro that(3)) auto
    then show ?thesis using False by simp
  qed (use Suc.prems(4) that in simp)
  show ?case
  proof (cases "find (\<lambda>j. FAT_sector_cache ?s ! j = 0) [?lo..<256]")
    case None
    have none: "f (of_nat (256 * a + i)) \<noteq> 0" if "?lo \<le> i" "i < 256" for i
    proof -
      have "FAT_sector_cache ?s ! i \<noteq> 0" using None [unfolded find_least_none] that by blast
      then show ?thesis unfolding e [OF that(2)] .
    qed
    have "\<And>x. 2 \<le> x \<Longrightarrow> x < 256 * Suc a \<Longrightarrow> f (of_nat x) \<noteq> 0" using before [of _ 256] none by simp
    moreover have "free_cluster_loop dev s [a..<n] = free_cluster_loop dev ?s [Suc a..<n]"
      using None unfolding upt_conv_Cons [OF a(1)] free_cluster_loop.simps Let_def FAT_SECTOR_CACHE_SIZE_def by (simp only: option.simps)
    ultimately show ?thesis using Suc.hyps(1) [of "Suc a" ?s] Suc.hyps(2) Suc.prems(3) a t by simp
  next
    case (Some j)
    note j = find_least [OF Some]
    have r: "free_cluster_loop dev s [a..<n] = (?s, of_nat (256 * a + j))"
      using Some unfolding upt_conv_Cons [OF a(1)] free_cluster_loop.simps Let_def FAT_SECTOR_CACHE_SIZE_def
      by (simp only: option.simps mult.commute)
    have n: "unat (of_nat (256 * a + j) :: u16) = 256 * a + j" using a(2) j by (intro unat_of_nat_less) simp
    have first: "f (of_nat (256 * a + i)) \<noteq> 0" if "?lo \<le> i" "i < j" for i
      using j that e [of i] by auto
    have "f (of_nat (256 * a + j)) = 0" using j e [of j] by simp
    moreover have "2 \<le> 256 * a + j" using j by (simp split: if_splits)
    moreover have "256 * a + j < 256 * n" using j a by simp
    moreover have "\<forall>x. 2 \<le> x \<and> x < 256 * a + j \<longrightarrow> f (of_nat x) \<noteq> 0" using before [of _ j] first by blast
    ultimately show ?thesis using r t n by metis
  qed
qed

section \<open>A drive in memory\<close>

definition ram_block :: "(u32 \<Rightarrow> byte list) \<Rightarrow> u32 \<Rightarrow> byte list" where
  "ram_block d b = take 512 (d b @ replicate 512 0)"

definition ram_disk :: "(u32 \<Rightarrow> byte list) hard_drive" where
  "ram_disk = \<lparr>read_block = (\<lambda>d b n. (d, concat (map (\<lambda>i. ram_block d (b + of_nat i)) [0..<unat n div 512]), 0)),
     write_block = (\<lambda>d b n bs. (\<lambda>x. if unat (x - b) < unat n div 512 then take 512 (drop (512 * unat (x - b)) bs) else d x, 0))\<rparr>"

lemma ram_disk_blocks: "block_device ram_disk ram_block"
proof -
  have n: "unat (of_nat (512 * k) :: u32) div 512 = k" if "k < 2 ^ 23" for k
  proof -
    have "unat (of_nat (512 * k) :: u32) = 512 * k" using that by (intro unat_of_nat_less) simp
    then show ?thesis by simp
  qed
  have "ram_block (\<lambda>x. if unat (x - b) < k then take 512 (drop (512 * unat (x - b)) bs) else d x) x =
      (if unat (x - b) < k then take 512 (drop (512 * unat (x - b)) bs) else ram_block d x)"
    if "length bs = 512 * k" for d b k and bs :: "byte list" and x
  proof -
    have "512 \<le> length (drop (512 * unat (x - b)) bs)" if "unat (x - b) < k"
    proof -
      have "512 * (unat (x - b) + 1) \<le> 512 * k" using that by (intro mult_le_mono2) simp
      then show ?thesis using \<open>length bs = 512 * k\<close> by simp
    qed
    then show ?thesis by (simp add: ram_block_def)
  qed
  note kept = this
  have "ram_block (fst (write_block ram_disk d b (of_nat (512 * k)) bs)) =
      (\<lambda>x. if unat (x - b) < k then take 512 (drop (512 * unat (x - b)) bs) else ram_block d x)"
    if "k < 2 ^ 23 \<and> length bs = 512 * k" for d b k and bs :: "byte list"
    by (rule ext) (simp only: ram_disk_def hard_drive.select_convs fst_conv n [OF conjunct1 [OF that]] kept [OF conjunct2 [OF that]])
  moreover have "\<exists>d'. read_block ram_disk d b (of_nat (512 * k)) = (d', concat (map (\<lambda>i. ram_block d (b + of_nat i)) [0..<k]), 0) \<and>
      ram_block d' = ram_block d" if "k < 2 ^ 23" for d b k
    by (simp only: ram_disk_def hard_drive.select_convs n [OF that]) blast
  ultimately show ?thesis unfolding block_device_def by blast
qed

lemma ram_disk_ready [simp]: "drive_ready ram_block d"
  by (auto simp: drive_ready_def ram_block_def)

text \<open>A drive with a table in block 1 that holds the chain of one file, the clusters 3 and 4.\<close>

definition fat_example :: "(u32 \<Rightarrow> byte list) fat" where
  "fat_example = \<lparr>drive = (\<lambda>b. if b = 1 then [0xf8, 0xff, 0xff, 0xff, 0xff, 0xff, 4, 0, 0xff, 0xff] else []),
     fk = kernel_example, boot = \<lparr>bytes_per_sector = 512, sectors_per_cluster = 1, reserved_sectors = 1, FAT_copies = 1,
       max_root_dentries = 16, small_part_sectors_count = 512, sectors_per_FAT = 2\<rparr>,
     fat_first_sector = 1, data_region_start = 4, FAT_cached_sector = 0,
     FAT_sector_cache = words16 (ram_block (\<lambda>b. if b = 1 then [0xf8, 0xff, 0xff, 0xff, 0xff, 0xff, 4, 0, 0xff, 0xff] else []) 1),
     fat_sb = 0, fat_root = 0, fat_i_op = 0, fat_i_fop = 0, fat_inodes = Map.empty\<rparr>"

lemma fat_example_coherent: "fat_coherent ram_disk ram_block fat_example"
  by (simp add: fat_coherent_def ram_disk_blocks FAT_sector_def fat_example_def)

lemma fat_example_entries:
  "fat_entry ram_block fat_example 3 = 4" "fat_entry ram_block fat_example 4 = 0xffff"
  "fat_entry ram_block fat_example 2 = 0xffff" "fat_entry ram_block fat_example 5 = 0"
  by (simp_all add: fat_entry_def FAT_sector_def fat_example_def ram_block_def words16_nth nth_append word16_def)

section \<open>Properties\<close>

text \<open>C8: The cache of one sector of the allocation table is transparent: whatever sector it holds, reading an entry gives
  the one on the drive, setting an entry changes this entry on the drive and nothing else, and both keep the cache
  equal to the sector it stands for.\<close>

theorem fat_cache_coherent:
  assumes "fat_coherent dev blocks s"
  shows "snd (FAT16_find_next_cluster dev s c) = fat_entry blocks s c \<and>
    fat_entry blocks (fst (FAT16_find_next_cluster dev s c)) = fat_entry blocks s \<and>
    fat_entry blocks (FAT16_mark_cluster dev s c v) = (fat_entry blocks s)(c := v) \<and>
    fat_coherent dev blocks (fst (FAT16_find_next_cluster dev s c)) \<and> fat_coherent dev blocks (FAT16_mark_cluster dev s c v) \<and>
    fat_kept blocks s (fst (FAT16_find_next_cluster dev s c)) \<and> fat_kept blocks s (FAT16_mark_cluster dev s c v)"
proof -
  have "fat_table_is dev blocks s s (fat_entry blocks s)" using assms by (simp add: fat_table_is_def)
  from fat_table.nxt_reads [OF this, of c] fat_table.mark_updates [OF this, of c v] show ?thesis by (simp add: fat_table_is_def)
qed

theorem fat_cache_coherent_witness:
  "snd (FAT16_find_next_cluster ram_disk fat_example 3) = 4 \<and>
   fat_entry ram_block (FAT16_mark_cluster ram_disk fat_example 4 300) 4 = 300 \<and>
   fat_entry ram_block (FAT16_mark_cluster ram_disk fat_example 4 300) 3 = 4"
  using fat_cache_coherent [OF fat_example_coherent, of 3 0] fat_cache_coherent [OF fat_example_coherent, of 4 300]
  by (simp add: fat_example_entries)



text \<open>The search for a free cluster gives the lowest free one among those in the sectors it looks at, and zero exactly
  when none of them is free. It looks at as many whole sectors of the table as there are 256 clusters on the drive.\<close>

theorem fat_first_free_cluster:
  assumes "fat_coherent dev blocks s" "sectors_per_cluster (boot s) \<noteq> 0"
    and n: "n = 256 * (unat (small_part_sectors_count (boot s)) div unat (sectors_per_cluster (boot s)) div 256)"
  shows "\<exists>s' c. FAT16_find_next_free_cluster dev s = Some (s', c) \<and> fat_coherent dev blocks s' \<and> fat_kept blocks s s' \<and>
    fat_entry blocks s' = fat_entry blocks s \<and>
    (if c = 0 then (\<forall>x. 2 \<le> x \<and> x < n \<longrightarrow> fat_entry blocks s (of_nat x) \<noteq> 0)
     else fat_entry blocks s c = 0 \<and> 2 \<le> unat c \<and> unat c < n \<and> (\<forall>x. 2 \<le> x \<and> x < unat c \<longrightarrow> fat_entry blocks s (of_nat x) \<noteq> 0))"
proof -
  let ?k = "unat (small_part_sectors_count (boot s)) div unat (sectors_per_cluster (boot s)) div 256"
  have "?k \<le> unat (small_part_sectors_count (boot s)) div 256" by (intro div_le_mono) simp
  also have "\<dots> \<le> 256" using unat_lt_exp [of "small_part_sectors_count (boot s)"] by simp
  finally have k: "?k \<le> 256" .
  have t: "fat_table_is dev blocks s s (fat_entry blocks s)" using assms(1) by (simp add: fat_table_is_def)
  from free_cluster_loop_first [OF t _ k, of 0] obtain s' c where
    r: "free_cluster_loop dev s [0..<?k] = (s', c)" "fat_table_is dev blocks s s' (fat_entry blocks s)" and
    c: "c = 0 \<and> (\<forall>x. 2 \<le> x \<and> x < 256 * ?k \<longrightarrow> fat_entry blocks s (of_nat x) \<noteq> 0) \<or>
      fat_entry blocks s c = 0 \<and> 2 \<le> unat c \<and> unat c < 256 * ?k \<and> (\<forall>x. 2 \<le> x \<and> x < unat c \<longrightarrow> fat_entry blocks s (of_nat x) \<noteq> 0)"
    by auto
  have "FAT16_find_next_free_cluster dev s = Some (s', c)"
    using r(1) assms(2) by (simp add: FAT16_find_next_free_cluster_def FAT_SECTOR_CACHE_SIZE_def)
  then show ?thesis using r(2) c n unfolding fat_table_is_def by auto
qed

theorem fat_first_free_cluster_witness:
  "\<exists>s'. FAT16_find_next_free_cluster ram_disk fat_example = Some (s', 5)"
proof -
  have "sectors_per_cluster (boot fat_example) \<noteq> 0" by (simp add: fat_example_def)
  moreover have "512 = 256 * (unat (small_part_sectors_count (boot fat_example)) div
      unat (sectors_per_cluster (boot fat_example)) div 256)"
    by (simp add: fat_example_def)
  ultimately obtain s' c where
    r: "FAT16_find_next_free_cluster ram_disk fat_example = Some (s', c)" and
    c: "if c = 0 then (\<forall>x. 2 \<le> x \<and> x < 512 \<longrightarrow> fat_entry ram_block fat_example (of_nat x) \<noteq> 0)
      else fat_entry ram_block fat_example c = 0 \<and> 2 \<le> unat c \<and> unat c < 512 \<and>
        (\<forall>x. 2 \<le> x \<and> x < unat c \<longrightarrow> fat_entry ram_block fat_example (of_nat x) \<noteq> 0)"
    using fat_first_free_cluster [OF fat_example_coherent] by blast
  have five: "fat_entry ram_block fat_example (of_nat 5) = 0" by (simp add: fat_example_entries)
  have "c \<noteq> 0"
  proof
    assume "c = 0"
    then have "\<forall>x. 2 \<le> x \<and> x < 512 \<longrightarrow> fat_entry ram_block fat_example (of_nat x) \<noteq> 0" using c by simp
    from this [rule_format, of 5] five show False by simp
  qed
  then have *: "2 \<le> unat c" "fat_entry ram_block fat_example c = 0"
    "\<And>x. 2 \<le> x \<Longrightarrow> x < unat c \<Longrightarrow> fat_entry ram_block fat_example (of_nat x) \<noteq> 0" using c by simp_all
  have "\<not> 5 < unat c" using *(3) [of 5] five by auto
  then have "unat c = 2 \<or> unat c = 3 \<or> unat c = 4 \<or> unat c = 5" using *(1) by linarith
  then have "c = 2 \<or> c = 3 \<or> c = 4 \<or> c = 5"
    by (elim disjE) (simp_all add: unat_eq_iff [symmetric])
  then have "c = 5" using *(2) by (auto simp: fat_example_entries)
  then show ?thesis using r by simp
qed

end
