(* ===== verification/Sd_Card.thy ===== *)
theory Sd_Card
  imports Board Fat16_Table
begin

text \<open>
  The SD card driver, \<open>src/drivers/sd_card.c\<close>: commands and responses, reading and writing one block or several, and the
  start-up sequence. A read operation returns what it leaves in the buffer of the caller; None is a loop that waits for the card
  for ever. The calls that report progress on the console are recorded, their text is that of theory \<open>Tty\<close>.
\<close>

section \<open>State\<close>


abbreviation (input) SD_CS :: nat where "SD_CS \<equiv> 13"
abbreviation (input) SD_SPI_BLOCK :: nat where "SD_SPI_BLOCK \<equiv> 1"
abbreviation (input) CMD0 :: byte where "CMD0 \<equiv> 0"
abbreviation (input) CMD8 :: byte where "CMD8 \<equiv> 8"
abbreviation (input) CMD17 :: byte where "CMD17 \<equiv> 17"
abbreviation (input) CMD24 :: byte where "CMD24 \<equiv> 24"
abbreviation (input) CMD55 :: byte where "CMD55 \<equiv> 55"
abbreviation (input) CMD58 :: byte where "CMD58 \<equiv> 58"
abbreviation (input) ACMD41 :: byte where "ACMD41 \<equiv> 41"

text \<open>The calls that report the progress of the start-up on the console.\<close>

datatype status_call = Status_Init string | Status_Step | Status_Finish int

record 'd sd =
  bus :: 'd
  sd_active :: bool
  status_calls :: "status_call list"

definition sd_report :: "status_call \<Rightarrow> 'd sd \<Rightarrow> 'd sd" where
  "sd_report c s = s\<lparr>status_calls := status_calls s @ [c]\<rparr>"

section \<open>Commands and blocks\<close>

definition sd_write_cmd :: "'d hardware \<Rightarrow> byte \<Rightarrow> u32 \<Rightarrow> byte \<Rightarrow> 'd \<Rightarrow> 'd" where
  "sd_write_cmd hw cmd argument crc d =
     (let d = spi_tx hw SD_SPI_BLOCK (cmd OR 0x40) d;
          d = spi_tx hw SD_SPI_BLOCK (ucast (drop_bit 24 argument)) d;
          d = spi_tx hw SD_SPI_BLOCK (ucast (drop_bit 16 argument)) d;
          d = spi_tx hw SD_SPI_BLOCK (ucast (drop_bit 8 argument)) d;
          d = spi_tx hw SD_SPI_BLOCK (ucast argument) d
      in spi_tx hw SD_SPI_BLOCK (crc OR 1) d)"

text \<open>At most nine bytes are read; 0xff means that there was no response.\<close>

definition sd_read_res1 :: "'d hardware \<Rightarrow> 'd \<Rightarrow> 'd \<times> byte" where
  "sd_read_res1 hw d =
     (let (d, r) = spi_poll_limit hw SD_SPI_BLOCK (\<lambda>r. r \<noteq> 0xff) 8 d
      in (d, case r of Some r \<Rightarrow> r | None \<Rightarrow> 0xff))"

definition sd_card_read512_block :: "'d hardware \<Rightarrow> 'd sd \<Rightarrow> u32 \<Rightarrow> ('d sd \<times> byte list \<times> int) option" where
  "sd_card_read512_block hw s block_number =
     (if \<not> sd_active s then Some (s, [], - ENODEV)
      else
        let d = clr_pin hw SD_CS (spi_tx hw SD_SPI_BLOCK 0xff (bus s));
            d = sd_write_cmd hw CMD17 block_number 0 d;
            (d, res) = sd_read_res1 hw d
        in if res = 0xff then Some (s\<lparr>bus := d\<rparr>, [], - 1)
           else do {
             (d, _) \<leftarrow> spi_poll hw SD_SPI_BLOCK (\<lambda>r. r = 0xfe) d;
             let (d, buffer) = spi_receive hw SD_SPI_BLOCK 512 d;
             let (d, crc) = spi_receive hw SD_SPI_BLOCK 2 d;
             Some (s\<lparr>bus := set_pin hw SD_CS d\<rparr>, buffer, 0)
           })"

definition sd_card_write512_block :: "'d hardware \<Rightarrow> 'd sd \<Rightarrow> u32 \<Rightarrow> byte list \<Rightarrow> ('d sd \<times> int) option" where
  "sd_card_write512_block hw s block_number buffer =
     (if \<not> sd_active s then Some (s, - ENODEV)
      else
        let d = clr_pin hw SD_CS (spi_tx hw SD_SPI_BLOCK 0xff (bus s));
            d = sd_write_cmd hw CMD24 block_number 0 d;
            (d, res) = sd_read_res1 hw d
        in if res = 0xff then Some (s\<lparr>bus := d\<rparr>, - 1)
           else do {
             let d = spi_tx hw SD_SPI_BLOCK 0xfe d;
             let d = spi_send hw SD_SPI_BLOCK (take 512 buffer) d;
             (d, res) \<leftarrow> spi_poll hw SD_SPI_BLOCK (\<lambda>r. r \<noteq> 0xff) d;
             (d, _) \<leftarrow> (if res AND 0x1f = 0x05 then spi_poll hw SD_SPI_BLOCK (\<lambda>r. r \<noteq> 0) d else Some (d, res));
             let d = set_pin hw SD_CS (spi_tx hw SD_SPI_BLOCK 0xff d);
             Some (s\<lparr>bus := spi_tx hw SD_SPI_BLOCK 0xff d\<rparr>, 0)
           })"

text \<open>The loops over the blocks of a request; \<open>got\<close> is what earlier rounds left in the buffer.\<close>

fun sd_read_blocks :: "'d hardware \<Rightarrow> 'd sd \<Rightarrow> u32 \<Rightarrow> nat \<Rightarrow> byte list \<Rightarrow> ('d sd \<times> byte list \<times> int) option" where
  "sd_read_blocks hw s block_number 0 got = Some (s, got, 0)"
| "sd_read_blocks hw s block_number (Suc n) got = do {
     (s, bytes, r) \<leftarrow> sd_card_read512_block hw s block_number;
     (if r \<noteq> 0 then Some (s, got @ bytes, - 1) else sd_read_blocks hw s (block_number + 1) n (got @ bytes))
   }"

definition sd_card_read :: "'d hardware \<Rightarrow> 'd sd \<Rightarrow> u32 \<Rightarrow> u32 \<Rightarrow> ('d sd \<times> byte list \<times> int) option" where
  "sd_card_read hw s block_number block_size =
     (if block_size < 512 \<or> block_size mod 512 \<noteq> 0 then Some (s, [], - 1)
      else if block_size = 512 then sd_card_read512_block hw s block_number
      else sd_read_blocks hw s block_number (unat (block_size div 512)) [])"

fun sd_write_blocks :: "'d hardware \<Rightarrow> 'd sd \<Rightarrow> u32 \<Rightarrow> nat \<Rightarrow> byte list \<Rightarrow> ('d sd \<times> int) option" where
  "sd_write_blocks hw s block_number 0 buffer = Some (s, 0)"
| "sd_write_blocks hw s block_number (Suc n) buffer = do {
     (s, r) \<leftarrow> sd_card_write512_block hw s block_number buffer;
     (if r \<noteq> 0 then Some (s, - 1) else sd_write_blocks hw s (block_number + 1) n (drop 512 buffer))
   }"

definition sd_card_write :: "'d hardware \<Rightarrow> 'd sd \<Rightarrow> u32 \<Rightarrow> u32 \<Rightarrow> byte list \<Rightarrow> ('d sd \<times> int) option" where
  "sd_card_write hw s block_number block_size buffer =
     (if block_size < 512 \<or> block_size mod 512 \<noteq> 0 then Some (s, - 1)
      else if block_size = 512 then sd_card_write512_block hw s block_number buffer
      else sd_write_blocks hw s block_number (unat (block_size div 512)) buffer)"

text \<open>The operations that \<open>init_sd_card\<close> hands out. A card that never answers leaves its caller waiting for ever.\<close>

definition sd_drive :: "'d hardware \<Rightarrow> 'd sd hard_drive" where
  "sd_drive hw = \<lparr>read_block = (\<lambda>s b n. case sd_card_read hw s b n of Some r \<Rightarrow> r | None \<Rightarrow> (s, [], - 1)),
     write_block = (\<lambda>s b n bs. case sd_card_write hw s b n bs of Some r \<Rightarrow> r | None \<Rightarrow> (s, - 1))\<rparr>"

section \<open>Starting the card\<close>

text \<open>
  The steps of \<open>init_sd_card\<close> up to the first jump to \<open>error_ret\<close>: the state, and whether the step
  succeeded. Every loop ends after a bounded number of bytes.
\<close>

definition sd_expect :: "'d hardware \<Rightarrow> (byte \<Rightarrow> bool) \<Rightarrow> 'd sd \<Rightarrow> 'd sd \<times> byte option" where
  "sd_expect hw stop s = (let (d, r) = spi_poll_limit hw SD_SPI_BLOCK stop 30 (bus s) in (s\<lparr>bus := d\<rparr>, r))"

definition sd_power_up :: "'d hardware \<Rightarrow> 'd sd \<Rightarrow> 'd sd" where
  "sd_power_up hw s =
     (let s = sd_report (Status_Init ''Initializing SD card'') s;
          s = sd_report Status_Step (s\<lparr>bus := spi_set_baudrate hw SD_SPI_BLOCK 2 191 (bus s)\<rparr>);
          s = s\<lparr>bus := spi_send hw 1 (replicate 10 0xff) (set_pin hw SD_CS (bus s))\<rparr>
      in sd_report Status_Step s)"

definition sd_reset :: "'d hardware \<Rightarrow> 'd sd \<Rightarrow> 'd sd \<times> bool" where
  "sd_reset hw s =
     (let d = spi_tx hw SD_SPI_BLOCK 0xff (clr_pin hw SD_CS (bus s));
          (s, r) = sd_expect hw (\<lambda>r. r = 0x01) (s\<lparr>bus := sd_write_cmd hw CMD0 0 0x95 d\<rparr>)
      in if r = None then (s, False) else (sd_report Status_Step s, True))"

definition sd_check_version :: "'d hardware \<Rightarrow> 'd sd \<Rightarrow> 'd sd \<times> bool" where
  "sd_check_version hw s =
     (let (s, r) = sd_expect hw (\<lambda>r. r \<noteq> 0xff) (s\<lparr>bus := sd_write_cmd hw CMD8 0x000001AA 0x86 (bus s)\<rparr>)
      in case r of
           None \<Rightarrow> (s, False)
         | Some r1 \<Rightarrow>
             if r1 \<noteq> 0x01 then (sd_report (Status_Finish (- 1)) s, False)
             else let (d, r7) = spi_receive hw SD_SPI_BLOCK 4 (bus s); s = s\<lparr>bus := d\<rparr>
                  in if r7 ! 2 \<noteq> 0x01 \<or> r7 ! 3 \<noteq> 0xAA then (sd_report (Status_Finish (- 1)) s, False)
                     else (sd_report Status_Step s, True))"

text \<open>One round of the loop that waits for the card to leave the idle state, and the loop with its bound.\<close>

definition sd_send_op_cond :: "'d hardware \<Rightarrow> 'd sd \<Rightarrow> 'd sd \<times> byte option" where
  "sd_send_op_cond hw s =
     (let d = sd_write_cmd hw CMD55 0 0x65 (spi_tx hw SD_SPI_BLOCK 0xff (bus s));
          (s, r) = sd_expect hw (\<lambda>r. r \<noteq> 0xff) (s\<lparr>bus := d\<rparr>)
      in if r = None then (sd_report (Status_Finish (- 1)) s, None)
         else let d = sd_write_cmd hw ACMD41 0x40000000 0x77 (spi_tx hw SD_SPI_BLOCK 0xff (bus s));
                  (s, r) = sd_expect hw (\<lambda>r. r \<noteq> 0xff) (s\<lparr>bus := d\<rparr>)
              in if r = None then (sd_report (Status_Finish (- 1)) s, None) else (s, r))"

fun sd_wait_ready :: "'d hardware \<Rightarrow> nat \<Rightarrow> 'd sd \<Rightarrow> 'd sd \<times> bool" where
  "sd_wait_ready hw n s =
     (let (s, acmd_r1) = sd_send_op_cond hw s
      in case acmd_r1 of
           None \<Rightarrow> (s, False)
         | Some r \<Rightarrow>
             if r = 0x00 then (sd_report Status_Step s, True)
             else if r \<noteq> 0x01 then (s, False)
             else (case n of
                     0 \<Rightarrow> (sd_report (Status_Finish (- 1)) s, False)
                   | Suc m \<Rightarrow> sd_wait_ready hw m (s\<lparr>bus := delay_ms hw 10 (bus s)\<rparr>)))"

definition sd_read_ocr :: "'d hardware \<Rightarrow> 'd sd \<Rightarrow> 'd sd \<times> bool" where
  "sd_read_ocr hw s =
     (let d = sd_write_cmd hw CMD58 0 0xFD (spi_tx hw SD_SPI_BLOCK 0xff (bus s));
          (s, r) = sd_expect hw (\<lambda>r. r = 0x00) (s\<lparr>bus := d\<rparr>)
      in if r = None then (sd_report (Status_Finish (- 1)) s, False)
         else let (d, ocr) = spi_receive hw SD_SPI_BLOCK 4 (bus s); s = s\<lparr>bus := d\<rparr>
              in if ocr ! 0 AND 0x80 = 0 then (sd_report (Status_Finish (- 1)) s, False) else (s, True))"

definition sd_steps :: "'d hardware \<Rightarrow> 'd sd \<Rightarrow> 'd sd \<times> bool" where
  "sd_steps hw s =
     (let (s, ok) = sd_reset hw (sd_power_up hw s)
      in if \<not> ok then (s, False)
         else let (s, ok) = sd_check_version hw s
              in if \<not> ok then (s, False)
                 else let (s, ok) = sd_wait_ready hw 100 s
                      in if \<not> ok then (s, False) else sd_read_ocr hw s)"

text \<open>\<open>sizeof(struct HardDriveOperations)\<close> is 12 on the target.\<close>

definition init_sd_card :: "'d hardware \<Rightarrow> 'd sd \<Rightarrow> kernel \<Rightarrow> ('d sd \<times> kernel \<times> addr) option" where
  "init_sd_card hw s k =
     (let (s, ok) = sd_steps hw s; s = s\<lparr>bus := set_pin hw SD_CS (bus s)\<rparr>
      in if \<not> ok then Some (sd_report (Status_Finish (- 1)) s, k, NULL)
         else do {
           (k, hd_op) \<leftarrow> kmalloc_k k 12;
           require (hd_op \<noteq> NULL);
           let s = s\<lparr>sd_active := True, bus := spi_set_baudrate hw SD_SPI_BLOCK 2 3 (bus s)\<rparr>;
           Some (sd_report (Status_Finish 0) s, k, hd_op)
         })"

end
