(* ===== verification/Sd_Protocol.thy ===== *)
theory Sd_Protocol
  imports Sd_Card
begin

text \<open>
  What the SD card driver achieves: on a card that follows the SPI protocol it is the drive that the FAT16 file system
  relies on. The protocol is stated on the bytes of the bus, and a small model of a card shows that it can be followed.
\<close>

section \<open>The protocol of the card\<close>

text \<open>
  What the specification of SD cards in SPI mode states of a card that has been started: the response to a
  command of six bytes comes after at most eight bytes of idle bus, a block is announced by the token 0xfe, a written
  block is confirmed by the data response \<open>xxx00101\<close> and followed by zeros while the card is busy. The function \<open>sectors\<close> gives
  the blocks of a card that is ready.
\<close>

definition sd_frame :: "byte \<Rightarrow> u32 \<Rightarrow> byte list" where
  "sd_frame cmd b = [0x40 OR cmd, ucast (drop_bit 24 b), ucast (drop_bit 16 b), ucast (drop_bit 8 b), ucast b, 1]"

definition sd_select :: "'d hardware \<Rightarrow> byte \<Rightarrow> u32 \<Rightarrow> 'd \<Rightarrow> 'd" where
  "sd_select hw cmd b d = spi_send hw 1 (sd_frame cmd b) (put_pin hw 13 False (spi_send hw 1 [0xff] d))"

definition sd_sends :: "'d hardware \<Rightarrow> 'd \<Rightarrow> byte list \<Rightarrow> 'd \<Rightarrow> bool" where
  "sd_sends hw d bs d' \<longleftrightarrow> spi_receive hw 1 (length bs) d = (d', bs)"

definition sd_serves_read :: "'d hardware \<Rightarrow> ('d \<Rightarrow> u32 \<Rightarrow> byte list) \<Rightarrow> bool" where
  "sd_serves_read hw sectors \<longleftrightarrow> (\<forall>d b. drive_ready sectors d \<longrightarrow>
     (\<exists>wait r1 gap crc d'. length wait \<le> 8 \<and> set wait \<subseteq> {0xff} \<and> r1 \<noteq> 0xff \<and> 0xfe \<notin> set gap \<and> length crc = 2 \<and>
        sd_sends hw (sd_select hw 17 b d) (wait @ [r1] @ gap @ [0xfe] @ sectors d b @ crc) d' \<and>
        sectors (put_pin hw 13 True d') = sectors d))"

definition sd_serves_write :: "'d hardware \<Rightarrow> ('d \<Rightarrow> u32 \<Rightarrow> byte list) \<Rightarrow> bool" where
  "sd_serves_write hw sectors \<longleftrightarrow> (\<forall>d b bs. drive_ready sectors d \<and> length bs = 512 \<longrightarrow>
     (\<exists>wait r1 d1 gap res busy free d2. length wait \<le> 8 \<and> set wait \<subseteq> {0xff} \<and> r1 \<noteq> 0xff \<and>
        sd_sends hw (sd_select hw 24 b d) (wait @ [r1]) d1 \<and>
        set gap \<subseteq> {0xff} \<and> res AND 0x1f = 5 \<and> set busy \<subseteq> {0} \<and> free \<noteq> 0 \<and>
        sd_sends hw (spi_send hw 1 (0xfe # bs) d1) (gap @ [res] @ busy @ [free]) d2 \<and>
        sectors (spi_send hw 1 [0xff] (put_pin hw 13 True (spi_send hw 1 [0xff] d2))) = (sectors d)(b := bs)))"

definition sd_card_protocol :: "'d hardware \<Rightarrow> ('d \<Rightarrow> u32 \<Rightarrow> byte list) \<Rightarrow> bool" where
  "sd_card_protocol hw sectors \<longleftrightarrow> sd_serves_read hw sectors \<and> sd_serves_write hw sectors"

text \<open>The blocks that the driver serves: those of the card once the card has been started.\<close>

definition sd_sectors :: "('d \<Rightarrow> u32 \<Rightarrow> byte list) \<Rightarrow> 'd sd \<Rightarrow> u32 \<Rightarrow> byte list" where
  "sd_sectors sectors s = (if sd_active s then sectors (bus s) else (\<lambda>_. []))"

section \<open>One block\<close>

lemma sd_write_cmd_frame: "sd_write_cmd hw cmd b 0 d = spi_send hw 1 (sd_frame cmd b) d"
  by (simp add: sd_write_cmd_def sd_frame_def or.commute)

lemma sd_select_code:
  "sd_write_cmd hw cmd b 0 (put_pin hw 13 False (spi_tx hw 1 0xff d)) = sd_select hw cmd b d"
  by (simp add: sd_write_cmd_frame sd_select_def)

lemma sd_sends_append:
  "sd_sends hw d (xs @ ys) d' \<longleftrightarrow> (\<exists>d1. sd_sends hw d xs d1 \<and> sd_sends hw d1 ys d')"
  unfolding sd_sends_def by (rule spi_receive_append)

lemma sd_poll_found:
  "sd_sends hw d (gap @ [b]) d' \<Longrightarrow> \<forall>x\<in>set gap. \<not> stop x \<Longrightarrow> stop b \<Longrightarrow> spi_poll hw 1 stop d = Some (d', b)"
  unfolding sd_sends_def by (rule spi_poll_found)

lemma sd_read_res1_found:
  assumes "sd_sends hw d (wait @ [r1]) d'" "length wait \<le> 8" "set wait \<subseteq> {0xff}" "r1 \<noteq> 0xff"
  shows "sd_read_res1 hw d = (d', r1)"
proof -
  have "spi_poll_limit hw 1 (\<lambda>r. r \<noteq> 0xff) 8 d = (d', Some r1)"
    using assms unfolding sd_sends_def by (intro spi_poll_limit_found) auto
  then show ?thesis by (simp add: sd_read_res1_def)
qed

lemma sd_ready_active: "drive_ready (sd_sectors sectors) s \<Longrightarrow> sd_active s \<and> drive_ready sectors (bus s)"
  by (auto simp: drive_ready_def sd_sectors_def split: if_splits)

lemma sd_read512:
  assumes "sd_card_protocol hw sectors" "drive_ready (sd_sectors sectors) s"
  shows "\<exists>s'. sd_card_read512_block hw s b = Some (s', sd_sectors sectors s b, 0) \<and>
    sd_sectors sectors s' = sd_sectors sectors s"
proof -
  note a = sd_ready_active [OF assms(2)]
  then obtain wait r1 gap crc d' where p: "length wait \<le> 8" "set wait \<subseteq> {0xff}" "r1 \<noteq> 0xff" "0xfe \<notin> set gap" "length crc = 2"
      "sd_sends hw (sd_select hw 17 b (bus s)) (wait @ [r1] @ gap @ [0xfe] @ sectors (bus s) b @ crc) d'"
      "sectors (put_pin hw 13 True d') = sectors (bus s)"
    using assms(1) unfolding sd_card_protocol_def sd_serves_read_def by blast
  have "sd_sends hw (sd_select hw 17 b (bus s)) ((wait @ [r1]) @ (gap @ [0xfe]) @ sectors (bus s) b @ crc) d'"
    using p(6) by simp
  then obtain d1 d2 d3 where d: "sd_sends hw (sd_select hw 17 b (bus s)) (wait @ [r1]) d1" "sd_sends hw d1 (gap @ [0xfe]) d2"
      "sd_sends hw d2 (sectors (bus s) b) d3" "sd_sends hw d3 crc d'"
    unfolding sd_sends_append by blast
  have len: "length (sectors (bus s) b) = 512" using a by (simp add: drive_ready_def)
  have "spi_poll hw 1 (\<lambda>r. r = 0xfe) d1 = Some (d2, 0xfe)" using p(4) by (intro sd_poll_found [OF d(2)]) auto
  then have "sd_card_read512_block hw s b = Some (s\<lparr>bus := put_pin hw 13 True d'\<rparr>, sectors (bus s) b, 0)"
    using a p(3) sd_read_res1_found [OF d(1) p(1-3)] d(3,4)
    by (auto simp: sd_card_read512_block_def sd_select_code sd_sends_def len p(5) Let_def simp del: spi_receive.simps One_nat_def)
  then show ?thesis using a p(7) by (auto simp: sd_sectors_def)
qed

lemma sd_write512:
  assumes "sd_card_protocol hw sectors" "drive_ready (sd_sectors sectors) s" "length (take 512 bs) = 512"
  shows "\<exists>s'. sd_card_write512_block hw s b bs = Some (s', 0) \<and>
    sd_sectors sectors s' = (sd_sectors sectors s)(b := take 512 bs)"
proof -
  note a = sd_ready_active [OF assms(2)]
  have "drive_ready sectors (bus s) \<and> length (take 512 bs) = 512" using a assms(3) by simp
  then obtain wait r1 d1 gap res busy free d2 where p: "length wait \<le> 8" "set wait \<subseteq> {0xff}" "r1 \<noteq> 0xff"
      "sd_sends hw (sd_select hw 24 b (bus s)) (wait @ [r1]) d1"
      "set gap \<subseteq> {0xff}" "res AND 0x1f = 5" "set busy \<subseteq> {0}" "free \<noteq> 0"
      "sd_sends hw (spi_send hw 1 (0xfe # take 512 bs) d1) (gap @ [res] @ busy @ [free]) d2"
      "sectors (spi_send hw 1 [0xff] (put_pin hw 13 True (spi_send hw 1 [0xff] d2))) = (sectors (bus s))(b := take 512 bs)"
    using assms(1) unfolding sd_card_protocol_def sd_serves_write_def by blast
  have "sd_sends hw (spi_send hw 1 (0xfe # take 512 bs) d1) ((gap @ [res]) @ (busy @ [free])) d2" using p(9) by simp
  then obtain d3 where d: "sd_sends hw (spi_send hw 1 (0xfe # take 512 bs) d1) (gap @ [res]) d3" "sd_sends hw d3 (busy @ [free]) d2"
    unfolding sd_sends_append by blast
  have "res \<noteq> 0xff" using p(6) by auto
  then have "spi_poll hw 1 (\<lambda>r. r \<noteq> 0xff) (spi_send hw 1 (0xfe # take 512 bs) d1) = Some (d3, res)"
    using p(5) by (intro sd_poll_found [OF d(1)]) auto
  moreover have "spi_poll hw 1 (\<lambda>r. r \<noteq> 0) d3 = Some (d2, free)" using p(7,8) by (intro sd_poll_found [OF d(2)]) auto
  ultimately have "sd_card_write512_block hw s b bs =
      Some (s\<lparr>bus := spi_send hw 1 [0xff] (put_pin hw 13 True (spi_send hw 1 [0xff] d2))\<rparr>, 0)"
    using a p(3,6) sd_read_res1_found [OF p(4,1-3)]
    by (simp add: sd_card_write512_block_def sd_select_code Let_def del: One_nat_def)
  then show ?thesis using a p(10) by (auto simp: sd_sectors_def)
qed

section \<open>Several blocks\<close>

lemma sd_kept_ready: "sd_sectors sectors s' = sd_sectors sectors s \<Longrightarrow> drive_ready (sd_sectors sectors) s \<Longrightarrow>
    drive_ready (sd_sectors sectors) s'"
  by (simp add: drive_ready_def)

lemma sd_read_blocks_reads:
  assumes "sd_card_protocol hw sectors" "drive_ready (sd_sectors sectors) s"
  shows "\<exists>s'. sd_read_blocks hw s b n got =
      Some (s', got @ concat (map (\<lambda>i. sd_sectors sectors s (b + of_nat i)) [0..<n]), 0) \<and>
    sd_sectors sectors s' = sd_sectors sectors s"
  using assms(2)
proof (induction n arbitrary: s b got)
  case (Suc n)
  obtain s1 where s1: "sd_card_read512_block hw s b = Some (s1, sd_sectors sectors s b, 0)"
      "sd_sectors sectors s1 = sd_sectors sectors s"
    using sd_read512 [OF assms(1) Suc.prems] by blast
  have split: "[0..<Suc n] = 0 # map Suc [0..<n]" by (simp add: map_Suc_upt upt_conv_Cons del: upt_Suc)
  have "concat (map (\<lambda>i. sd_sectors sectors s (b + of_nat i)) [0..<Suc n]) =
      sd_sectors sectors s b @ concat (map (\<lambda>i. sd_sectors sectors s (b + 1 + of_nat i)) [0..<n])"
    unfolding split by (simp add: comp_def add.assoc)
  then show ?case using s1 Suc.IH [OF sd_kept_ready [OF s1(2) Suc.prems], of "b + 1" "got @ sd_sectors sectors s b"]
    by (auto simp del: upt_Suc)
qed simp

lemma sd_write_blocks_writes:
  assumes "sd_card_protocol hw sectors" "drive_ready (sd_sectors sectors) s" "length bs = 512 * n" "n < 2 ^ 32"
  shows "\<exists>s'. sd_write_blocks hw s b n bs = Some (s', 0) \<and> sd_sectors sectors s' =
      (\<lambda>x. if unat (x - b) < n then take 512 (drop (512 * unat (x - b)) bs) else sd_sectors sectors s x)"
  using assms(2-4)
proof (induction n arbitrary: s b bs)
  case (Suc n)
  have len: "length (take 512 bs) = 512" using Suc.prems(2) by simp
  obtain s1 where s1: "sd_card_write512_block hw s b bs = Some (s1, 0)"
      "sd_sectors sectors s1 = (sd_sectors sectors s)(b := take 512 bs)"
    using sd_write512 [OF assms(1) Suc.prems(1) len] by blast
  have "drive_ready (sd_sectors sectors) s1" using Suc.prems(1) len by (simp add: s1(2) drive_ready_def)
  moreover have "length (drop 512 bs) = 512 * n" "n < 2 ^ 32" using Suc.prems(2,3) by simp_all
  ultimately obtain s2 where s2: "sd_write_blocks hw s1 (b + 1) n (drop 512 bs) = Some (s2, 0)"
      "sd_sectors sectors s2 = (\<lambda>x. if unat (x - (b + 1)) < n then take 512 (drop (512 * unat (x - (b + 1))) (drop 512 bs))
         else sd_sectors sectors s1 x)"
    using Suc.IH by blast
  have "sd_sectors sectors s2 x = (if unat (x - b) < Suc n then take 512 (drop (512 * unat (x - b)) bs) else sd_sectors sectors s x)" for x
  proof (cases "x = b")
    case True
    have "unat (- 1 :: u32) = 2 ^ 32 - 1" by (simp only: unsigned_minus_1_eq_mask) (simp add: mask_eq_exp_minus_1)
    then show ?thesis using True Suc.prems(3) by (simp add: s2(2) s1(2))
  next
    case False
    then have nz: "x - b \<noteq> 0" "unat (x - b) \<noteq> 0" by (simp_all add: unat_eq_zero)
    have "unat (x - b) = Suc (unat (x - b - 1))" unfolding unat_minus_one [OF nz(1)] using nz(2) by linarith
    then have "unat (x - b) = Suc (unat (x - (b + 1)))" by (simp add: diff_diff_eq)
    then show ?thesis using False by (simp add: s2(2) s1(2) add.commute)
  qed
  then show ?case using s1(1) s2(1) by (auto simp: fun_eq_iff)
qed simp

lemma sd_block_count:
  assumes "0 < k" "k < 2 ^ 23"
  shows "\<not> (of_nat (512 * k) :: u32) < 512" "(of_nat (512 * k) :: u32) mod 512 = 0"
    "unat (of_nat (512 * k) div 512 :: u32) = k" "(of_nat (512 * k) :: u32) = 512 \<longleftrightarrow> k = 1"
proof -
  have n: "unat (of_nat (512 * k) :: u32) = 512 * k" using assms(2) by (intro unat_of_nat_less) simp
  show "\<not> (of_nat (512 * k) :: u32) < 512" using assms(1) n by (simp add: word_less_nat_alt)
  show "unat (of_nat (512 * k) div 512 :: u32) = k" unfolding unat_div_word n by simp
  have "unat ((of_nat (512 * k) :: u32) mod 512) = 0" unfolding unat_mod_word n by simp
  then show "(of_nat (512 * k) :: u32) mod 512 = 0" by (simp only: unat_eq_zero)
  show "(of_nat (512 * k) :: u32) = 512 \<longleftrightarrow> k = 1"
  proof
    assume "(of_nat (512 * k) :: u32) = 512"
    then have "512 * k = unat (512 :: u32)" using n by simp
    then show "k = 1" by simp
  qed simp
qed

lemma sd_drive_reads:
  assumes "sd_card_protocol hw sectors" "drive_ready (sd_sectors sectors) s" "0 < k" "k < 2 ^ 23"
  shows "\<exists>s'. sd_card_read hw s b (of_nat (512 * k)) =
      Some (s', concat (map (\<lambda>i. sd_sectors sectors s (b + of_nat i)) [0..<k]), 0) \<and>
    sd_sectors sectors s' = sd_sectors sectors s"
proof (cases "k = 1")
  case True
  then show ?thesis using sd_read512 [OF assms(1,2), of b] by (simp add: sd_card_read_def)
next
  case False
  then show ?thesis using sd_read_blocks_reads [OF assms(1,2), of b k "[]"]
    unfolding sd_card_read_def sd_block_count(2,3) [OF assms(3,4)] using sd_block_count(1,4) [OF assms(3,4)] by simp
qed

lemma sd_drive_writes:
  assumes "sd_card_protocol hw sectors" "drive_ready (sd_sectors sectors) s" "0 < k" "k < 2 ^ 23" "length bs = 512 * k"
  shows "\<exists>s'. sd_card_write hw s b (of_nat (512 * k)) bs = Some (s', 0) \<and> sd_sectors sectors s' =
      (\<lambda>x. if unat (x - b) < k then take 512 (drop (512 * unat (x - b)) bs) else sd_sectors sectors s x)"
proof (cases "k = 1")
  case True
  then show ?thesis using sd_write512 [OF assms(1,2), of bs b] assms(5)
    by (auto simp: sd_card_write_def fun_eq_iff unat_eq_zero)
next
  case False
  have "k < 2 ^ 32" using assms(4) by simp
  from sd_write_blocks_writes [OF assms(1,2,5) this, of b] False show ?thesis
    unfolding sd_card_write_def sd_block_count(2,3) [OF assms(3,4)] using sd_block_count(1,4) [OF assms(3,4)] by simp
qed

section \<open>A card\<close>

text \<open>
  A card that follows the protocol, on bus 1: the bytes it has yet to send, the bytes of the command or of the block it
  is receiving, the block that is being written, and the blocks it holds. After the response to a write command it
  takes the token, 512 bytes and two bytes of checksum; it confirms them and is busy for one byte.
\<close>

record sd_sim =
  to_send :: "byte list"
  collected :: "byte list"
  writing :: "u32 option"
  flash :: "u32 \<Rightarrow> byte list"

definition sim_command :: "byte list \<Rightarrow> sd_sim \<Rightarrow> sd_sim" where
  "sim_command f c =
     (let b = word32 (f ! 4) (f ! 3) (f ! 2) (f ! 1);
          c = c\<lparr>collected := []\<rparr>
      in if f ! 0 = 0x51 then c\<lparr>to_send := [0xff, 0, 0xff, 0xfe] @ flash c b @ [0x12, 0x34]\<rparr>
         else if f ! 0 = 0x58 then c\<lparr>to_send := [0xff, 0], writing := Some b\<rparr>
         else c\<lparr>to_send := [0xff, 4]\<rparr>)"

definition sim_exchange :: "nat \<Rightarrow> byte \<Rightarrow> sd_sim \<Rightarrow> sd_sim \<times> byte" where
  "sim_exchange block v c =
     (case to_send c of
        b # bs \<Rightarrow> (c\<lparr>to_send := bs\<rparr>, b)
      | [] \<Rightarrow>
          (let f = collected c @ [v] in
           (case writing c of
              Some b \<Rightarrow>
                (if length f < 515 then c\<lparr>collected := f\<rparr>
                 else c\<lparr>collected := [], writing := None, to_send := [0xe5, 0, 1],
                        flash := (flash c)(b := take 512 (drop 1 f))\<rparr>)
            | None \<Rightarrow>
                (if f = [0xff] then c else if length f < 6 then c\<lparr>collected := f\<rparr> else sim_command f c), 0xff)))"

definition sim_hardware :: "sd_sim hardware" where
  "sim_hardware = \<lparr>spi_exchange = sim_exchange, put_pin = (\<lambda>_ _ c. c), spi_set_baudrate = (\<lambda>_ _ _ c. c),
     delay_ms = (\<lambda>_ c. c), ms_since_boot = (\<lambda>c. (c, 0)), set_up = (\<lambda>_ c. c)\<rparr>"

definition sim_idle :: "(u32 \<Rightarrow> byte list) \<Rightarrow> sd_sim" where
  "sim_idle f = \<lparr>to_send = [], collected = [], writing = None, flash = f\<rparr>"

definition sim_blocks :: "sd_sim \<Rightarrow> u32 \<Rightarrow> byte list" where
  "sim_blocks c = (if c = sim_idle (flash c) then flash c else (\<lambda>_. []))"

lemma sim_tx: "spi_tx sim_hardware block v c = fst (sim_exchange block v c)"
  and sim_rx: "spi_rx sim_hardware block c = sim_exchange block 0xff c"
  and sim_pin [simp]: "put_pin sim_hardware p x c = c"
  by (simp_all add: spi_tx_def spi_rx_def sim_hardware_def)

lemma sim_ready: "drive_ready sim_blocks c \<Longrightarrow> c = sim_idle (flash c) \<and> (\<forall>b. length (flash c b) = 512)"
  by (auto simp: drive_ready_def sim_blocks_def split: if_splits)

lemma sim_blocks_idle [simp]: "sim_blocks (sim_idle f) = f"
  by (simp add: sim_blocks_def sim_idle_def)

lemma sim_sends:
  "sd_sends sim_hardware (c\<lparr>to_send := bs @ rest\<rparr>) bs (c\<lparr>to_send := rest\<rparr>)"
  unfolding sd_sends_def
proof (induction bs)
  case (Cons b bs)
  then show ?case by (simp add: sim_rx sim_exchange_def)
qed simp

lemma sim_command_frame:
  "spi_send sim_hardware 1 (sd_frame cmd b) (sim_idle f) = sim_command (sd_frame cmd b) (sim_idle f)"
  if "0x40 OR cmd \<noteq> 0xff"
  using that by (simp add: sd_frame_def sim_tx sim_exchange_def sim_idle_def sim_command_def)

lemma sim_select:
  "sd_select sim_hardware 17 b (sim_idle f) = (sim_idle f)\<lparr>to_send := [0xff, 0, 0xff, 0xfe] @ f b @ [0x12, 0x34]\<rparr>"
  "sd_select sim_hardware 24 b (sim_idle f) = (sim_idle f)\<lparr>to_send := [0xff, 0], writing := Some b\<rparr>"
  using word32_bytes32 [of b]
  by (simp_all add: sd_select_def sim_command_frame)
    (simp_all add: sim_tx sim_exchange_def sim_command_def sd_frame_def sim_idle_def Let_def)

lemma sim_takes:
  assumes "length xs + length bs < 515"
  shows "spi_send sim_hardware 1 bs (c\<lparr>to_send := [], writing := Some b, collected := xs\<rparr>) =
    c\<lparr>to_send := [], writing := Some b, collected := xs @ bs\<rparr>"
  using assms
proof (induction bs arbitrary: xs)
  case (Cons v bs)
  have "spi_tx sim_hardware 1 v (c\<lparr>to_send := [], writing := Some b, collected := xs\<rparr>) =
      c\<lparr>to_send := [], writing := Some b, collected := xs @ [v]\<rparr>"
    using Cons.prems by (simp add: sim_tx sim_exchange_def)
  then show ?case using Cons by simp
qed simp

lemma sim_sends_all: "sd_sends sim_hardware (c\<lparr>to_send := bs\<rparr>) bs (c\<lparr>to_send := []\<rparr>)"
  using sim_sends [where c = c and bs = bs and rest = "[]"] by simp

lemma sim_serves_read: "sd_serves_read sim_hardware sim_blocks"
  unfolding sd_serves_read_def
proof (intro allI impI)
  fix c b assume "drive_ready sim_blocks c"
  then obtain f where c: "c = sim_idle f" using sim_ready by blast
  have "sd_sends sim_hardware (sd_select sim_hardware 17 b c) ([0xff] @ [0] @ [0xff] @ [0xfe] @ sim_blocks c b @ [0x12, 0x34]) (sim_idle f)"
    using sim_sends_all [where c = "sim_idle f" and bs = "[0xff, 0, 0xff, 0xfe] @ f b @ [0x12, 0x34]"]
    by (simp add: c sim_select(1)) (simp add: sim_idle_def)
  then show "\<exists>wait r1 gap crc d'. length wait \<le> 8 \<and> set wait \<subseteq> {0xff} \<and> r1 \<noteq> 0xff \<and> 0xfe \<notin> set gap \<and> length crc = 2 \<and>
      sd_sends sim_hardware (sd_select sim_hardware 17 b c) (wait @ [r1] @ gap @ [0xfe] @ sim_blocks c b @ crc) d' \<and>
      sim_blocks (put_pin sim_hardware 13 True d') = sim_blocks c"
    by (intro exI [of _ "[0xff]"] exI [of _ 0] exI [of _ "[0x12, 0x34]"] exI [of _ "sim_idle f"] conjI) (simp_all add: c)
qed

lemma sim_confirms:
  assumes "length bs = 512"
  shows "sd_sends sim_hardware (spi_send sim_hardware 1 (0xfe # bs) ((sim_idle f)\<lparr>writing := Some b\<rparr>))
    ([0xff, 0xff] @ [0xe5] @ [0] @ [1]) (sim_idle (f(b := bs)))"
proof -
  let ?c = "(sim_idle f)\<lparr>writing := Some b\<rparr>"
  have idle: "?c = ?c\<lparr>to_send := [], writing := Some b, collected := []\<rparr>" by (simp add: sim_idle_def)
  have sent: "spi_send sim_hardware 1 (0xfe # bs) ?c = ?c\<lparr>collected := 0xfe # bs\<rparr>"
    using sim_takes [where xs = "[]" and bs = "0xfe # bs" and c = ?c and b = b] assms idle by (simp add: sim_idle_def)
  show ?thesis unfolding sent using assms
    by (simp add: sd_sends_def sim_rx sim_exchange_def sim_idle_def)
qed

lemma sim_serves_write: "sd_serves_write sim_hardware sim_blocks"
  unfolding sd_serves_write_def
proof (intro allI impI)
  fix c b and bs :: "byte list"
  assume "drive_ready sim_blocks c \<and> length bs = 512"
  then obtain f where c: "c = sim_idle f" and len: "length bs = 512" using sim_ready by blast
  let ?d1 = "(sim_idle f)\<lparr>writing := Some b\<rparr>" and ?d2 = "sim_idle (f(b := bs))"
  have "sd_sends sim_hardware (sd_select sim_hardware 24 b c) ([0xff] @ [0]) ?d1"
    using sim_sends_all [where c = ?d1 and bs = "[0xff, 0]"] by (simp add: c sim_select(2)) (simp add: sim_idle_def)
  moreover have "spi_send sim_hardware 1 [0xff] (sim_idle g) = sim_idle g" for g
    by (simp add: sim_tx sim_exchange_def sim_idle_def)
  ultimately show "\<exists>wait r1 d1 gap res busy free d2. length wait \<le> 8 \<and> set wait \<subseteq> {0xff} \<and> r1 \<noteq> 0xff \<and>
      sd_sends sim_hardware (sd_select sim_hardware 24 b c) (wait @ [r1]) d1 \<and>
      set gap \<subseteq> {0xff} \<and> res AND 0x1f = 5 \<and> set busy \<subseteq> {0} \<and> free \<noteq> 0 \<and>
      sd_sends sim_hardware (spi_send sim_hardware 1 (0xfe # bs) d1) (gap @ [res] @ busy @ [free]) d2 \<and>
      sim_blocks (spi_send sim_hardware 1 [0xff] (put_pin sim_hardware 13 True (spi_send sim_hardware 1 [0xff] d2))) =
        (sim_blocks c)(b := bs)"
    using sim_confirms [OF len, where f = f and b = b]
    by (intro exI [of _ "[0xff]"] exI [of _ 0] exI [of _ ?d1] exI [of _ "[0xff, 0xff]"] exI [of _ "0xe5"] exI [of _ "[0]"]
        exI [of _ 1] exI [of _ ?d2] conjI) (simp_all add: c)
qed

lemma sim_protocol: "sd_card_protocol sim_hardware sim_blocks"
  by (simp add: sd_card_protocol_def sim_serves_read sim_serves_write)

section \<open>Starting the card\<close>

lemma sd_report_active [simp]: "sd_active (sd_report c s) = sd_active s" "bus (sd_report c s) = bus s"
  by (simp_all add: sd_report_def)

lemma sd_expect_active [simp]: "sd_active (fst (sd_expect hw stop s)) = sd_active s"
  by (simp add: sd_expect_def split_beta Let_def)

lemma sd_op_cond_active [simp]: "sd_active (fst (sd_send_op_cond hw s)) = sd_active s"
  by (simp add: sd_send_op_cond_def split_beta Let_def)

lemma sd_wait_ready_active [simp]: "sd_active (fst (sd_wait_ready hw n s)) = sd_active s"
proof (induction n arbitrary: s)
  case 0
  then show ?case by (subst sd_wait_ready.simps) (simp add: split_beta Let_def split: option.split)
next
  case (Suc n)
  then show ?case by (subst sd_wait_ready.simps) (simp add: split_beta Let_def split: option.split)
qed

lemma sd_steps_active: "sd_active (fst (sd_steps hw s)) = sd_active s"
proof -
  have "sd_active (sd_power_up hw s) = sd_active s" for s by (simp add: sd_power_up_def Let_def)
  moreover have "sd_active (fst (sd_reset hw s)) = sd_active s" for s by (simp add: sd_reset_def split_beta Let_def)
  moreover have "sd_active (fst (sd_check_version hw s)) = sd_active s" for s
    by (simp add: sd_check_version_def split_beta Let_def split: option.split)
  moreover have "sd_active (fst (sd_read_ocr hw s)) = sd_active s" for s
    by (simp add: sd_read_ocr_def split_beta Let_def)
  ultimately show ?thesis by (simp add: sd_steps_def split_beta Let_def del: sd_wait_ready.simps)
qed

lemma sd_block_inactive:
  "\<not> sd_active s \<Longrightarrow> sd_card_read hw s b n = Some (s, [], if n = 512 then - ENODEV else - 1)"
  "\<not> sd_active s \<Longrightarrow> sd_card_write hw s b n bs = Some (s, if n = 512 then - ENODEV else - 1)"
proof -
  assume a: "\<not> sd_active s"
  have n: "unat (n div 512) \<noteq> 0" if "\<not> n < 512"
  proof -
    have "512 \<le> unat n" using that by (simp add: word_less_nat_alt)
    then show ?thesis by (simp add: unat_div_word div_greater_zero_iff)
  qed
  then obtain m where "\<not> n < 512 \<Longrightarrow> unat (n div 512) = Suc m" using not0_implies_Suc by blast
  then show "sd_card_read hw s b n = Some (s, [], if n = 512 then - ENODEV else - 1)"
    "sd_card_write hw s b n bs = Some (s, if n = 512 then - ENODEV else - 1)"
    using a by (simp_all add: sd_card_read_def sd_card_write_def sd_card_read512_block_def sd_card_write512_block_def ENODEV_def)
qed

section \<open>Properties\<close>

text \<open>C11: The SD card driver is a drive of blocks: on a card that follows the SPI protocol of SD cards, \<open>sd_card_read\<close> and
  \<open>sd_card_write\<close> of one or several blocks, sent as commands, tokens and bytes over the bus, read and replace exactly
  the requested blocks, which is what the FAT16 file system relies on.\<close>

theorem sd_card_is_block_device:
  assumes "sd_card_protocol hw sectors"
  shows "block_device (sd_drive hw) (sd_sectors sectors)"
  unfolding block_device_def
proof (intro conjI allI impI)
  fix s b and k :: nat
  assume "drive_ready (sd_sectors sectors) s \<and> 0 < k \<and> k < 2 ^ 23"
  then show "\<exists>s'. read_block (sd_drive hw) s b (of_nat (512 * k)) =
      (s', concat (map (\<lambda>i. sd_sectors sectors s (b + of_nat i)) [0..<k]), 0) \<and> sd_sectors sectors s' = sd_sectors sectors s"
    using sd_drive_reads [OF assms, of s k b] by (auto simp: sd_drive_def)
next
  fix s b and k :: nat and bs :: "byte list"
  assume "drive_ready (sd_sectors sectors) s \<and> 0 < k \<and> k < 2 ^ 23 \<and> length bs = 512 * k"
  then show "sd_sectors sectors (fst (write_block (sd_drive hw) s b (of_nat (512 * k)) bs)) =
      (\<lambda>x. if unat (x - b) < k then take 512 (drop (512 * unat (x - b)) bs) else sd_sectors sectors s x)"
    using sd_drive_writes [OF assms, of s k bs b] by (auto simp: sd_drive_def)
qed

theorem sd_card_is_block_device_witness:
  "block_device (sd_drive sim_hardware) (sd_sectors sim_blocks) \<and>
   drive_ready (sd_sectors sim_blocks) \<lparr>bus = sim_idle (\<lambda>_. replicate 512 7), sd_active = True, status_calls = []\<rparr>"
  using sd_card_is_block_device [OF sim_protocol] by (simp add: drive_ready_def sd_sectors_def)


text \<open>A bus on which nothing answers.\<close>

definition silent_bus :: "unit hardware" where
  "silent_bus = \<lparr>spi_exchange = (\<lambda>_ _ d. (d, 0xff)), put_pin = (\<lambda>_ _ d. d), spi_set_baudrate = (\<lambda>_ _ _ d. d),
     delay_ms = (\<lambda>_ d. d), ms_since_boot = (\<lambda>d. (d, 0)), set_up = (\<lambda>_ d. d)\<rparr>"

lemma silent_poll: "spi_poll_limit silent_bus block stop n () = ((), if stop 0xff then Some 0xff else None)"
  by (induction n) (auto simp: silent_bus_def spi_rx_def)

lemma silent_start:
  "init_sd_card silent_bus \<lparr>bus = (), sd_active = False, status_calls = []\<rparr> k =
     Some (\<lparr>bus = (), sd_active = False, status_calls = [Status_Init ''Initializing SD card'', Status_Step, Status_Step,
       Status_Finish (- 1)]\<rparr>, k, NULL)"
  by (simp add: init_sd_card_def sd_steps_def sd_power_up_def sd_reset_def sd_expect_def silent_poll sd_report_def Let_def)



end
