(* ===== verification/Font.thy ===== *)
theory Font
  imports Prelude
begin

text \<open>
  The glyphs of \<open>include/font.h\<close>: eight rows of eight pixels for each of the 256 characters, the leftmost
  pixel in the lowest bit.
\<close>

definition font8x8_low :: "byte list list" where
  "font8x8_low =
    [[0, 0, 0, 0, 0, 0, 0, 0],
     [0, 0, 0, 0, 0, 0, 0, 0],
     [0, 0, 0, 0, 0, 0, 0, 0],
     [0, 0, 0, 0, 0, 0, 0, 0],
     [0, 0, 0, 0, 0, 0, 0, 0],
     [0, 0, 0, 0, 0, 0, 0, 0],
     [0, 0, 0, 0, 0, 0, 0, 0],
     [0, 0, 0, 0, 0, 0, 0, 0],
     [0, 0, 0, 0, 0, 0, 0, 0],
     [0, 0, 0, 0, 0, 0, 0, 0],
     [0, 0, 0, 0, 0, 0, 0, 0],
     [0, 0, 0, 0, 0, 0, 0, 0],
     [0, 0, 0, 0, 0, 0, 0, 0],
     [0, 0, 0, 0, 0, 0, 0, 0],
     [0, 0, 0, 0, 0, 0, 0, 0],
     [0, 0, 0, 0, 0, 0, 0, 0],
     [0, 0, 0, 0, 0, 0, 0, 0],
     [0, 0, 0, 0, 0, 0, 0, 0],
     [0, 0, 0, 0, 0, 0, 0, 0],
     [0, 0, 0, 0, 0, 0, 0, 0],
     [0, 0, 0, 0, 0, 0, 0, 0],
     [0, 0, 0, 0, 0, 0, 0, 0],
     [0, 0, 0, 0, 0, 0, 0, 0],
     [0, 0, 0, 0, 0, 0, 0, 0],
     [0, 0, 0, 0, 0, 0, 0, 0],
     [0, 0, 0, 0, 0, 0, 0, 0],
     [0, 0, 0, 0, 0, 0, 0, 0],
     [0, 0, 0, 0, 0, 0, 0, 0],
     [0, 0, 0, 0, 0, 0, 0, 0],
     [0, 0, 0, 0, 0, 0, 0, 0],
     [0, 0, 0, 0, 0, 0, 0, 0],
     [0, 0, 0, 0, 0, 0, 0, 0],
     [0, 0, 0, 0, 0, 0, 0, 0],
     [24, 60, 60, 24, 24, 0, 24, 0],
     [54, 54, 0, 0, 0, 0, 0, 0],
     [54, 54, 127, 54, 127, 54, 54, 0],
     [12, 62, 3, 30, 48, 31, 12, 0],
     [0, 99, 51, 24, 12, 102, 99, 0],
     [28, 54, 28, 110, 59, 51, 110, 0],
     [6, 6, 3, 0, 0, 0, 0, 0],
     [24, 12, 6, 6, 6, 12, 24, 0],
     [6, 12, 24, 24, 24, 12, 6, 0],
     [0, 102, 60, 255, 60, 102, 0, 0],
     [0, 12, 12, 63, 12, 12, 0, 0],
     [0, 0, 0, 0, 0, 12, 12, 6],
     [0, 0, 0, 63, 0, 0, 0, 0],
     [0, 0, 0, 0, 0, 12, 12, 0],
     [96, 48, 24, 12, 6, 3, 1, 0],
     [62, 99, 115, 123, 111, 103, 62, 0],
     [12, 14, 12, 12, 12, 12, 63, 0],
     [30, 51, 48, 28, 6, 51, 63, 0],
     [30, 51, 48, 28, 48, 51, 30, 0],
     [56, 60, 54, 51, 127, 48, 120, 0],
     [63, 3, 31, 48, 48, 51, 30, 0],
     [28, 6, 3, 31, 51, 51, 30, 0],
     [63, 51, 48, 24, 12, 12, 12, 0],
     [30, 51, 51, 30, 51, 51, 30, 0],
     [30, 51, 51, 62, 48, 24, 14, 0],
     [0, 12, 12, 0, 0, 12, 12, 0],
     [0, 12, 12, 0, 0, 12, 12, 6],
     [24, 12, 6, 3, 6, 12, 24, 0],
     [0, 0, 63, 0, 0, 63, 0, 0],
     [6, 12, 24, 48, 24, 12, 6, 0],
     [30, 51, 48, 24, 12, 0, 12, 0],
     [62, 99, 123, 123, 123, 3, 30, 0],
     [12, 30, 51, 51, 63, 51, 51, 0],
     [63, 102, 102, 62, 102, 102, 63, 0],
     [60, 102, 3, 3, 3, 102, 60, 0],
     [31, 54, 102, 102, 102, 54, 31, 0],
     [127, 70, 22, 30, 22, 70, 127, 0],
     [127, 70, 22, 30, 22, 6, 15, 0],
     [60, 102, 3, 3, 115, 102, 124, 0],
     [51, 51, 51, 63, 51, 51, 51, 0],
     [30, 12, 12, 12, 12, 12, 30, 0],
     [120, 48, 48, 48, 51, 51, 30, 0],
     [103, 102, 54, 30, 54, 102, 103, 0],
     [15, 6, 6, 6, 70, 102, 127, 0],
     [99, 119, 127, 127, 107, 99, 99, 0],
     [99, 103, 111, 123, 115, 99, 99, 0],
     [28, 54, 99, 99, 99, 54, 28, 0],
     [63, 102, 102, 62, 6, 6, 15, 0],
     [30, 51, 51, 51, 59, 30, 56, 0],
     [63, 102, 102, 62, 54, 102, 103, 0],
     [30, 51, 7, 14, 56, 51, 30, 0],
     [63, 45, 12, 12, 12, 12, 30, 0],
     [51, 51, 51, 51, 51, 51, 63, 0],
     [51, 51, 51, 51, 51, 30, 12, 0],
     [99, 99, 99, 107, 127, 119, 99, 0],
     [99, 99, 54, 28, 28, 54, 99, 0],
     [51, 51, 51, 30, 12, 12, 30, 0],
     [127, 99, 49, 24, 76, 102, 127, 0],
     [30, 6, 6, 6, 6, 6, 30, 0],
     [3, 6, 12, 24, 48, 96, 64, 0],
     [30, 24, 24, 24, 24, 24, 30, 0],
     [8, 28, 54, 99, 0, 0, 0, 0],
     [0, 0, 0, 0, 0, 0, 0, 255],
     [12, 12, 24, 0, 0, 0, 0, 0],
     [0, 0, 30, 48, 62, 51, 110, 0],
     [7, 6, 6, 62, 102, 102, 59, 0],
     [0, 0, 30, 51, 3, 51, 30, 0],
     [56, 48, 48, 62, 51, 51, 110, 0],
     [0, 0, 30, 51, 63, 3, 30, 0],
     [28, 54, 6, 15, 6, 6, 15, 0],
     [0, 0, 110, 51, 51, 62, 48, 31],
     [7, 6, 54, 110, 102, 102, 103, 0],
     [12, 0, 14, 12, 12, 12, 30, 0],
     [48, 0, 48, 48, 48, 51, 51, 30],
     [7, 6, 102, 54, 30, 54, 103, 0],
     [14, 12, 12, 12, 12, 12, 30, 0],
     [0, 0, 51, 127, 127, 107, 99, 0],
     [0, 0, 31, 51, 51, 51, 51, 0],
     [0, 0, 30, 51, 51, 51, 30, 0],
     [0, 0, 59, 102, 102, 62, 6, 15],
     [0, 0, 110, 51, 51, 62, 48, 120],
     [0, 0, 59, 110, 102, 6, 15, 0],
     [0, 0, 62, 3, 30, 48, 31, 0],
     [8, 12, 62, 12, 12, 44, 24, 0],
     [0, 0, 51, 51, 51, 51, 110, 0],
     [0, 0, 51, 51, 51, 30, 12, 0],
     [0, 0, 99, 107, 127, 127, 54, 0],
     [0, 0, 99, 54, 28, 54, 99, 0],
     [0, 0, 51, 51, 51, 62, 48, 31],
     [0, 0, 63, 25, 12, 38, 63, 0],
     [56, 12, 12, 7, 12, 12, 56, 0],
     [24, 24, 24, 0, 24, 24, 24, 0],
     [7, 12, 12, 56, 12, 12, 7, 0],
     [110, 59, 0, 0, 0, 0, 0, 0],
     [0, 0, 0, 0, 0, 0, 0, 0]]"

definition font8x8_high :: "byte list list" where
  "font8x8_high =
    [[0, 0, 0, 0, 0, 0, 0, 0],
     [255, 255, 255, 255, 255, 255, 255, 255],
     [0, 0, 0, 0, 0, 0, 0, 0],
     [0, 0, 0, 0, 0, 0, 0, 0],
     [0, 0, 0, 0, 0, 0, 0, 0],
     [0, 0, 0, 0, 0, 0, 0, 0],
     [0, 0, 0, 0, 0, 0, 0, 0],
     [0, 0, 0, 0, 0, 0, 0, 0],
     [0, 0, 0, 0, 0, 0, 0, 0],
     [0, 0, 0, 0, 0, 0, 0, 0],
     [0, 0, 0, 0, 0, 0, 0, 0],
     [0, 0, 0, 0, 0, 0, 0, 0],
     [0, 0, 0, 0, 0, 0, 0, 0],
     [0, 0, 0, 0, 0, 0, 0, 0],
     [0, 0, 0, 0, 0, 0, 0, 0],
     [0, 0, 0, 0, 0, 0, 0, 0],
     [0, 0, 0, 0, 0, 0, 0, 0],
     [0, 0, 0, 0, 0, 0, 0, 0],
     [0, 0, 0, 0, 0, 0, 0, 0],
     [0, 0, 0, 0, 0, 0, 0, 0],
     [0, 0, 0, 0, 0, 0, 0, 0],
     [0, 0, 0, 0, 0, 0, 0, 0],
     [0, 0, 0, 0, 0, 0, 0, 0],
     [0, 0, 0, 0, 0, 0, 0, 0],
     [0, 0, 0, 0, 0, 0, 0, 0],
     [0, 0, 0, 0, 0, 0, 0, 0],
     [0, 0, 0, 0, 0, 0, 0, 0],
     [0, 0, 0, 0, 0, 0, 0, 0],
     [0, 0, 0, 0, 0, 0, 0, 0],
     [0, 0, 0, 0, 0, 0, 0, 0],
     [0, 0, 0, 0, 0, 0, 0, 0],
     [0, 0, 0, 0, 0, 0, 0, 0],
     [0, 0, 0, 0, 0, 0, 0, 0],
     [24, 24, 0, 24, 24, 24, 24, 0],
     [24, 24, 126, 3, 3, 126, 24, 24],
     [28, 54, 38, 15, 6, 103, 63, 0],
     [0, 0, 99, 62, 54, 62, 99, 0],
     [51, 51, 30, 63, 12, 63, 12, 12],
     [24, 24, 24, 0, 24, 24, 24, 0],
     [124, 198, 28, 54, 54, 28, 51, 30],
     [51, 0, 0, 0, 0, 0, 0, 0],
     [60, 66, 153, 133, 133, 153, 66, 60],
     [60, 54, 54, 124, 0, 0, 0, 0],
     [0, 204, 102, 51, 102, 204, 0, 0],
     [0, 0, 0, 63, 48, 48, 0, 0],
     [0, 0, 0, 0, 0, 0, 0, 0],
     [60, 66, 157, 165, 157, 165, 66, 60],
     [126, 0, 0, 0, 0, 0, 0, 0],
     [28, 54, 54, 28, 0, 0, 0, 0],
     [24, 24, 126, 24, 24, 0, 126, 0],
     [28, 48, 24, 12, 60, 0, 0, 0],
     [28, 48, 24, 48, 28, 0, 0, 0],
     [24, 12, 0, 0, 0, 0, 0, 0],
     [0, 0, 102, 102, 102, 62, 6, 3],
     [254, 219, 219, 222, 216, 216, 216, 0],
     [0, 0, 0, 24, 24, 0, 0, 0],
     [0, 0, 0, 0, 0, 24, 48, 30],
     [8, 12, 8, 28, 0, 0, 0, 0],
     [28, 54, 54, 28, 0, 0, 0, 0],
     [0, 51, 102, 204, 102, 51, 0, 0],
     [195, 99, 51, 189, 236, 246, 243, 3],
     [195, 99, 51, 123, 204, 102, 51, 240],
     [3, 196, 99, 180, 219, 172, 230, 128],
     [12, 0, 12, 6, 3, 51, 30, 0],
     [7, 0, 28, 54, 99, 127, 99, 0],
     [112, 0, 28, 54, 99, 127, 99, 0],
     [28, 54, 0, 62, 99, 127, 99, 0],
     [110, 59, 0, 62, 99, 127, 99, 0],
     [99, 28, 54, 99, 127, 99, 99, 0],
     [12, 12, 0, 30, 51, 63, 51, 0],
     [124, 54, 51, 127, 51, 51, 115, 0],
     [30, 51, 3, 51, 30, 24, 48, 30],
     [7, 0, 63, 6, 30, 6, 63, 0],
     [56, 0, 63, 6, 30, 6, 63, 0],
     [12, 18, 63, 6, 30, 6, 63, 0],
     [54, 0, 63, 6, 30, 6, 63, 0],
     [7, 0, 30, 12, 12, 12, 30, 0],
     [56, 0, 30, 12, 12, 12, 30, 0],
     [12, 18, 0, 30, 12, 12, 30, 0],
     [51, 0, 30, 12, 12, 12, 30, 0],
     [63, 102, 111, 111, 102, 102, 63, 0],
     [63, 0, 51, 55, 63, 59, 51, 0],
     [14, 0, 24, 60, 102, 60, 24, 0],
     [112, 0, 24, 60, 102, 60, 24, 0],
     [60, 102, 24, 60, 102, 60, 24, 0],
     [110, 59, 0, 62, 99, 99, 62, 0],
     [195, 24, 60, 102, 102, 60, 24, 0],
     [0, 54, 28, 8, 28, 54, 0, 0],
     [92, 54, 115, 123, 111, 54, 29, 0],
     [14, 0, 102, 102, 102, 102, 60, 0],
     [112, 0, 102, 102, 102, 102, 60, 0],
     [60, 102, 0, 102, 102, 102, 60, 0],
     [51, 0, 51, 51, 51, 51, 30, 0],
     [112, 0, 102, 102, 60, 24, 24, 0],
     [15, 6, 62, 102, 102, 62, 6, 15],
     [30, 51, 51, 27, 51, 99, 51, 0],
     [7, 0, 30, 48, 62, 51, 126, 0],
     [56, 0, 30, 48, 62, 51, 126, 0],
     [126, 195, 60, 96, 124, 102, 252, 0],
     [110, 59, 30, 48, 62, 51, 126, 0],
     [51, 0, 30, 48, 62, 51, 126, 0],
     [12, 12, 30, 48, 62, 51, 126, 0],
     [0, 0, 254, 48, 254, 51, 254, 0],
     [0, 0, 30, 3, 3, 30, 48, 28],
     [7, 0, 30, 51, 63, 3, 30, 0],
     [56, 0, 30, 51, 63, 3, 30, 0],
     [126, 195, 60, 102, 126, 6, 60, 0],
     [51, 0, 30, 51, 63, 3, 30, 0],
     [7, 0, 14, 12, 12, 12, 30, 0],
     [28, 0, 14, 12, 12, 12, 30, 0],
     [62, 99, 28, 24, 24, 24, 60, 0],
     [51, 0, 14, 12, 12, 12, 30, 0],
     [27, 14, 27, 48, 62, 51, 30, 0],
     [0, 31, 0, 31, 51, 51, 51, 0],
     [0, 7, 0, 30, 51, 51, 30, 0],
     [0, 56, 0, 30, 51, 51, 30, 0],
     [30, 51, 0, 30, 51, 51, 30, 0],
     [110, 59, 0, 30, 51, 51, 30, 0],
     [51, 0, 30, 51, 51, 51, 30, 0],
     [24, 24, 0, 126, 0, 24, 24, 0],
     [0, 96, 60, 118, 126, 110, 60, 6],
     [0, 7, 0, 51, 51, 51, 126, 0],
     [0, 56, 0, 51, 51, 51, 126, 0],
     [30, 51, 0, 51, 51, 51, 126, 0],
     [51, 0, 51, 51, 51, 51, 110, 0],
     [0, 56, 0, 51, 51, 62, 48, 31],
     [0, 0, 6, 62, 102, 62, 6, 0],
     [0, 51, 0, 51, 51, 62, 48, 31]]"

definition font8x8 :: "byte \<Rightarrow> byte list" where
  "font8x8 c = (font8x8_low @ font8x8_high) ! unat c"

lemma font8x8_glyphs: "length (font8x8_low @ font8x8_high) = 256" "\<forall>g\<in>set (font8x8_low @ font8x8_high). length g = 8"
  by (simp_all add: font8x8_low_def font8x8_high_def)

lemma length_font8x8 [simp]: "length (font8x8 c) = 8"
proof -
  have "unat c < length (font8x8_low @ font8x8_high)" using unat_lt_exp [of c] by (simp add: font8x8_glyphs(1) del: length_append)
  then have "font8x8 c \<in> set (font8x8_low @ font8x8_high)" unfolding font8x8_def by (rule nth_mem)
  then show ?thesis using font8x8_glyphs(2) by blast
qed

end
