(* ===== verification/Vga.thy ===== *)
theory Vga
  imports Font
begin

text \<open>
  The display of \<open>src/drivers/vga.c\<close>: glyphs are drawn as 8 by 8 pixels into the video memory, and a cursor is
  shown over a cell by drawing a picture that is computed from the pixels below it. Addresses are offsets from
  the start of the video memory, 32-bit words as the code computes them; a colour is one byte of it. The timer
  that makes the cursor blink calls \<open>vga_xor_cursor\<close>; starting and resetting it does not change this state.
\<close>

definition SCREEN_WIDTH :: u32 where "SCREEN_WIDTH = 640"
definition BUFFER_WIDTH :: nat where "BUFFER_WIDTH = 80"
definition BUFFER_HEIGHT :: nat where "BUFFER_HEIGHT = 40"
definition TOP_IMAGE_PADDING :: u32 where "TOP_IMAGE_PADDING = 100 * SCREEN_WIDTH"
definition FONT_WIDTH :: u32 where "FONT_WIDTH = 8"
definition FONT_HEIGHT :: u32 where "FONT_HEIGHT = 8"

section \<open>Colours\<close>

definition PHYSICAL_BLACK :: byte where "PHYSICAL_BLACK = 0"
definition PHYSICAL_WHITE :: byte where "PHYSICAL_WHITE = 63"

text \<open>\<open>PhysicalColorCode\<close> by the code of a colour, dark and light.\<close>

definition physical_colors :: "byte list" where
  "physical_colors = [0, 2, 9, 10, 32, 34, 41, 63]"

definition physical_light_colors :: "byte list" where
  "physical_light_colors = [21, 3, 12, 15, 48, 51, 61, 42]"

definition set_colors_from_escape :: "byte \<Rightarrow> byte \<times> byte" where
  "set_colors_from_escape code =
     (let fg = code AND 0x07; fg_light = (code AND 0x08 \<noteq> 0);
          bg = drop_bit 4 (code AND 0x70); bg_light = (code AND 0x80 \<noteq> 0)
      in ((if fg_light then physical_light_colors else physical_colors) ! unat fg,
          (if bg_light then physical_light_colors else physical_colors) ! unat bg))"

text \<open>The operations of \<open>escape_codes.h\<close> on the byte that encodes both colours of a cell.\<close>

definition set_foreground_color :: "byte \<Rightarrow> byte \<Rightarrow> bool \<Rightarrow> byte" where
  "set_foreground_color code color light =
     (code AND NOT 0x0f) OR (color AND 0x0f) OR (if light then 0x08 else 0)"

definition set_background_color :: "byte \<Rightarrow> byte \<Rightarrow> bool \<Rightarrow> byte" where
  "set_background_color code color light =
     (code AND NOT 0xf0) OR (push_bit 4 color AND 0xf0) OR (if light then 0x80 else 0)"

section \<open>Drawing\<close>

type_synonym pixel_map = "byte list list"

datatype cursor_shape = BLOCK | UNDERLINE | BAR

record vga =
  vidram :: mem
  cursor_on :: bool
  cursor_row_position :: u32
  cursor_column_position :: u32
  current_cursor_foreground_color :: byte
  current_cursor_background_color :: byte
  current_letter_under_cursor :: pixel_map
  current_cursor_shape :: cursor_shape
  current_cursor :: pixel_map

definition cell_position :: "u32 \<Rightarrow> u32 \<Rightarrow> u32" where
  "cell_position row column =
     row * SCREEN_WIDTH * FONT_HEIGHT + row * SCREEN_WIDTH + column * FONT_WIDTH + TOP_IMAGE_PADDING"

text \<open>Two nested loops over the pixels of a picture.\<close>

definition for_pixels :: "nat \<Rightarrow> nat \<Rightarrow> (nat \<Rightarrow> nat \<Rightarrow> 's \<Rightarrow> 's) \<Rightarrow> 's \<Rightarrow> 's" where
  "for_pixels h w f s = fold (\<lambda>i. fold (f i) [0..<w]) [0..<h] s"

definition pixel_address :: "u32 \<Rightarrow> nat \<Rightarrow> nat \<Rightarrow> u32" where
  "pixel_address position i j = of_nat i * SCREEN_WIDTH + of_nat j + position"

definition vga_put_physical_color_letter :: "mem \<Rightarrow> byte \<Rightarrow> u32 \<Rightarrow> u32 \<Rightarrow> byte \<Rightarrow> byte \<Rightarrow> mem" where
  "vga_put_physical_color_letter m letter row column fg bg =
     for_pixels 8 8 (\<lambda>i j m. m(pixel_address (cell_position row column) i j :=
       if bit (font8x8 letter ! i) j then fg else bg)) m"

definition vga_put_byte_encoded_color_letter :: "vga \<Rightarrow> byte \<Rightarrow> u32 \<Rightarrow> u32 \<Rightarrow> byte \<Rightarrow> vga" where
  "vga_put_byte_encoded_color_letter s letter row column code =
     (let (fg, bg) = set_colors_from_escape code
      in s\<lparr>vidram := vga_put_physical_color_letter (vidram s) letter row column fg bg\<rparr>)"

definition vga_put_pixel_map :: "mem \<Rightarrow> pixel_map \<Rightarrow> u32 \<Rightarrow> u32 \<Rightarrow> mem" where
  "vga_put_pixel_map m pic row column =
     for_pixels 8 8 (\<lambda>i j m. m(pixel_address (row * SCREEN_WIDTH + column + TOP_IMAGE_PADDING) i j := pic ! i ! j)) m"

section \<open>The cursor\<close>

definition cursor_pixel :: "cursor_shape \<Rightarrow> byte \<Rightarrow> nat \<Rightarrow> nat \<Rightarrow> byte" where
  "cursor_pixel shape pixel i j =
     (if shape = BAR \<and> 0 < j then pixel
      else if shape = UNDERLINE \<and> i < 7 then pixel
      else if pixel \<noteq> 0 then PHYSICAL_BLACK
      else PHYSICAL_WHITE)"

definition vga_update_cursor_pixel :: "vga \<Rightarrow> byte \<Rightarrow> nat \<Rightarrow> nat \<Rightarrow> vga" where
  "vga_update_cursor_pixel s pixel i j = s\<lparr>current_cursor := (current_cursor s)
     [i := (current_cursor s ! i)[j := cursor_pixel (current_cursor_shape s) pixel i j]]\<rparr>"

definition vga_determine_letter_under_cursor :: "vga \<Rightarrow> vga" where
  "vga_determine_letter_under_cursor s =
     (let position = cell_position (cursor_row_position s) (cursor_column_position s)
      in for_pixels 8 8 (\<lambda>i j s.
           let pixel = vidram s (pixel_address position i j)
           in vga_update_cursor_pixel
                (s\<lparr>current_letter_under_cursor := (current_letter_under_cursor s)
                  [i := (current_letter_under_cursor s ! i)[j := pixel]]\<rparr>) pixel i j) s)"

definition cursor_pixel_row :: "vga \<Rightarrow> u32" where
  "cursor_pixel_row s = cursor_row_position s * FONT_HEIGHT + cursor_row_position s"

definition vga_clr_cursor :: "vga \<Rightarrow> vga" where
  "vga_clr_cursor s = s\<lparr>vidram := vga_put_pixel_map (vidram s) (current_letter_under_cursor s)
     (cursor_pixel_row s) (cursor_column_position s * FONT_WIDTH), cursor_on := False\<rparr>"

definition vga_xor_cursor :: "vga \<Rightarrow> vga" where
  "vga_xor_cursor s =
     (if cursor_on s
      then s\<lparr>vidram := vga_put_pixel_map (vidram s) (current_letter_under_cursor s)
        (cursor_pixel_row s) (cursor_column_position s * FONT_WIDTH), cursor_on := False\<rparr>
      else s\<lparr>vidram := vga_put_pixel_map (vidram s) (current_cursor s)
        (cursor_pixel_row s) (cursor_column_position s * FONT_WIDTH), cursor_on := True\<rparr>)"

definition vga_update_cursor_position :: "vga \<Rightarrow> u32 \<Rightarrow> u32 \<Rightarrow> vga" where
  "vga_update_cursor_position s row column =
     (let s = (if cursor_on s then vga_clr_cursor (vga_determine_letter_under_cursor s) else s);
          s = s\<lparr>cursor_row_position := row, cursor_column_position := column\<rparr>;
          s = vga_determine_letter_under_cursor s
      in if \<not> cursor_on s then vga_xor_cursor s else s)"

definition vga_setup_cursor :: "vga \<Rightarrow> u32 \<Rightarrow> u32 \<Rightarrow> byte \<Rightarrow> vga" where
  "vga_setup_cursor s row column code =
     (let (fg, bg) = set_colors_from_escape code
      in vga_xor_cursor (vga_determine_letter_under_cursor (s\<lparr>current_cursor_foreground_color := fg,
           current_cursor_background_color := bg, cursor_row_position := row, cursor_column_position := column\<rparr>)))"

definition vga_update_cursor_color :: "vga \<Rightarrow> byte \<Rightarrow> vga" where
  "vga_update_cursor_color s code =
     (let (fg, bg) = set_colors_from_escape code
      in s\<lparr>current_cursor_foreground_color := fg, current_cursor_background_color := bg\<rparr>)"

text \<open>The shape is a number of \<open>VGACursorShape\<close>: 1 is the block, 4 the underline; all others become a block.\<close>

definition vga_change_cursor_shape :: "vga \<Rightarrow> int \<Rightarrow> vga" where
  "vga_change_cursor_shape s shape =
     (let s = vga_clr_cursor s
      in vga_determine_letter_under_cursor
           (s\<lparr>current_cursor_shape := (if shape = 4 then UNDERLINE else BLOCK)\<rparr>))"

text \<open>\<open>vga_clr_screen\<close> of \<open>vga.S\<close> clears the words of the video memory below the padding.\<close>

definition vga_clr_screen :: "vga \<Rightarrow> vga" where
  "vga_clr_screen s = s\<lparr>vidram := (\<lambda>x. if 64000 \<le> x \<and> x < 307200 then 0 else vidram s x)\<rparr>"

definition vga_clr_all :: "vga \<Rightarrow> vga" where
  "vga_clr_all s = vga_clr_screen (vga_clr_cursor s)"

section \<open>Pixels\<close>

lemma for_pixels_product: "for_pixels h w f s = fold (\<lambda>p. f (fst p) (snd p)) (List.product [0..<h] [0..<w]) s"
proof -
  have "fold (\<lambda>p. f (fst p) (snd p)) (List.product xs ys) s = fold (\<lambda>i. fold (f i) ys) xs s" for xs ys
    by (induction xs arbitrary: s) (simp_all add: fold_map comp_def)
  then show ?thesis by (simp add: for_pixels_def)
qed

lemma fold_upd_in:
  "inj_on a (set ps) \<Longrightarrow> p \<in> set ps \<Longrightarrow> fold (\<lambda>p m. m(a p := v p)) ps m (a p) = v p"
proof (induction ps rule: rev_induct)
  case (snoc q ps)
  show ?case
  proof (cases "p = q")
    case False
    then have p: "p \<in> set ps" "a p \<noteq> a q" using snoc.prems inj_onD [OF snoc.prems(1), of p q] by auto
    have "inj_on a (set ps)" using snoc.prems(1) by (rule inj_on_subset) auto
    then show ?thesis using snoc.IH p by simp
  qed simp
qed simp

lemma fold_upd_out: "x \<notin> a ` set ps \<Longrightarrow> fold (\<lambda>p m. m(a p := v p)) ps m x = m x"
  by (induction ps arbitrary: m) auto

lemma unat_pixel: "i < 8 \<Longrightarrow> j < 8 \<Longrightarrow> unat (pixel_address 0 i j) = i * 640 + j"
proof -
  assume "i < 8" "j < 8"
  then have "pixel_address 0 i j = of_nat (i * 640 + j)" "i * 640 + j < 2 ^ 32"
    by (simp_all add: pixel_address_def SCREEN_WIDTH_def)
  then show ?thesis using unat_of_nat_less [where 'a = 32, of "i * 640 + j"] by (simp only:) simp
qed

lemma pixel_split:
  assumes "i * n + j = i' * n + (j' :: nat)" "j < n" "j' < n"
  shows "i = i' \<and> j = j'"
proof -
  have "(i * n + j) div n = i" "(i * n + j) mod n = j" "(i' * n + j') div n = i'" "(i' * n + j') mod n = j'"
    using assms(2,3) by simp_all
  then show ?thesis using assms(1) by simp
qed

lemma pixel_address_inj:
  assumes "pixel_address p i j = pixel_address p i' j'" and "i < 8" "j < 8" "i' < 8" "j' < 8"
  shows "i = i' \<and> j = j'"
proof -
  have "pixel_address 0 i j = pixel_address 0 i' j'" using assms(1) by (simp add: pixel_address_def)
  then have "i * 640 + j = i' * 640 + j'" using unat_pixel [OF assms(2,3)] unat_pixel [OF assms(4,5)] by simp
  then show ?thesis using pixel_split [of i 640 j i' j'] assms(2-) by simp
qed

text \<open>Drawing 64 pixels sets these and no other byte of the video memory.\<close>

lemma draw_pixels:
  "i < 8 \<Longrightarrow> j < 8 \<Longrightarrow> for_pixels 8 8 (\<lambda>i j m. m(pixel_address p i j := v i j)) m (pixel_address p i j) = v i j"
  "(\<And>i j. i < 8 \<Longrightarrow> j < 8 \<Longrightarrow> x \<noteq> pixel_address p i j) \<Longrightarrow>
     for_pixels 8 8 (\<lambda>i j m. m(pixel_address p i j := v i j)) m x = m x"
proof -
  define ps :: "(nat \<times> nat) list" where "ps = List.product [0..<8] [0..<8]"
  let ?a = "\<lambda>q. pixel_address p (fst q) (snd q)"
  have mem: "q \<in> set ps \<longleftrightarrow> fst q < 8 \<and> snd q < 8" for q
    unfolding ps_def set_product set_upt by (cases q) (simp only: mem_Sigma_iff atLeastLessThan_iff fst_conv snd_conv le0 simp_thms)
  have f: "for_pixels 8 8 (\<lambda>i j m. m(pixel_address p i j := v i j)) m = fold (\<lambda>q m. m(?a q := v (fst q) (snd q))) ps m"
    by (simp only: for_pixels_product ps_def)
  have "inj_on ?a (set ps)"
  proof (rule inj_onI)
    fix q q' assume "q \<in> set ps" "q' \<in> set ps" "?a q = ?a q'"
    then show "q = q'" using pixel_address_inj [of p "fst q" "snd q" "fst q'" "snd q'"] unfolding mem by (simp add: prod_eq_iff)
  qed
  then show "for_pixels 8 8 (\<lambda>i j m. m(pixel_address p i j := v i j)) m (pixel_address p i j) = v i j" if "i < 8" "j < 8"
    unfolding f using fold_upd_in [of ?a ps "(i, j)" "\<lambda>q. v (fst q) (snd q)" m] that mem by simp
  show "for_pixels 8 8 (\<lambda>i j m. m(pixel_address p i j := v i j)) m x = m x"
    if out: "\<And>i j. i < 8 \<Longrightarrow> j < 8 \<Longrightarrow> x \<noteq> pixel_address p i j"
  proof -
    have "x \<notin> ?a ` set ps" using out mem by blast
    then show ?thesis unfolding f by (rule fold_upd_out)
  qed
qed

text \<open>The cells of the 40 rows and 80 columns do not overlap.\<close>

lemma unat_cell_pixel:
  assumes "unat r < 40" "unat c < 80" "i < 8" "j < 8"
  shows "unat (pixel_address (cell_position r c) i j) = 64000 + (unat r * 9 + i) * 640 + (unat c * 8 + j)"
proof -
  have "r * (640 * 8 + 640) = r * (9 * 640)" by simp
  then have "r * 640 * 8 + r * 640 = r * 9 * 640" by (simp only: distrib_left mult.assoc)
  then have "pixel_address (cell_position r c) i j = of_nat (64000 + (unat r * 9 + i) * 640 + (unat c * 8 + j))"
    by (simp add: pixel_address_def cell_position_def SCREEN_WIDTH_def FONT_WIDTH_def FONT_HEIGHT_def
        TOP_IMAGE_PADDING_def distrib_right add_ac)
  moreover have "64000 + (unat r * 9 + i) * 640 + (unat c * 8 + j) < 2 ^ 32" using assms by simp
  ultimately show ?thesis
    using unat_of_nat_less [where 'a = 32, of "64000 + (unat r * 9 + i) * 640 + (unat c * 8 + j)"] by (simp only:) simp
qed

lemma cell_pixels_apart:
  assumes "pixel_address (cell_position r c) i j = pixel_address (cell_position r' c') i' j'"
    and "unat r < 40" "unat c < 80" "i < 8" "j < 8" "unat r' < 40" "unat c' < 80" "i' < 8" "j' < 8"
  shows "r = r' \<and> c = c'"
proof -
  have "(unat r * 9 + i) * 640 + (unat c * 8 + j) = (unat r' * 9 + i') * 640 + (unat c' * 8 + j')"
    using unat_cell_pixel [OF assms(2-5)] unat_cell_pixel [OF assms(6-9)] unfolding assms(1) by linarith
  moreover have "unat c * 8 + j < 640" "unat c' * 8 + j' < 640" using assms(3,5,7,9) by simp_all
  ultimately have e: "unat r * 9 + i = unat r' * 9 + i' \<and> unat c * 8 + j = unat c' * 8 + j'" by (rule pixel_split)
  have "unat r = unat r'" using pixel_split [of "unat r" 9 i "unat r'" i'] e assms(4,8) by simp
  moreover have "unat c = unat c'" using pixel_split [of "unat c" 8 j "unat c'" j'] e assms(5,9) by simp
  ultimately have "unat r = unat r' \<and> unat c = unat c'" by simp
  then show ?thesis by simp
qed

text \<open>C27: Writing a character draws its glyph: every pixel of the cell has the foreground colour where the font has a
  bit and the background colour elsewhere, both decoded from the colour code, and no pixel of any of the other
  3199 cells of the screen changes.\<close>

theorem vga_letter_drawn:
  assumes "unat r < BUFFER_HEIGHT" "unat c < BUFFER_WIDTH"
  shows "(\<forall>i<8. \<forall>j<8. vidram (vga_put_byte_encoded_color_letter s letter r c code) (pixel_address (cell_position r c) i j) =
      (if bit (font8x8 letter ! i) j then fst (set_colors_from_escape code) else snd (set_colors_from_escape code))) \<and>
    (\<forall>r' c' i j. unat r' < BUFFER_HEIGHT \<and> unat c' < BUFFER_WIDTH \<and> (r', c') \<noteq> (r, c) \<and> i < 8 \<and> j < 8 \<longrightarrow>
      vidram (vga_put_byte_encoded_color_letter s letter r c code) (pixel_address (cell_position r' c') i j) =
      vidram s (pixel_address (cell_position r' c') i j))"
proof (intro conjI allI impI)
  let ?f = "\<lambda>i j. if bit (font8x8 letter ! i) j then fst (set_colors_from_escape code) else snd (set_colors_from_escape code)"
  have s': "vidram (vga_put_byte_encoded_color_letter s letter r c code) =
      for_pixels 8 8 (\<lambda>i j m. m(pixel_address (cell_position r c) i j := ?f i j)) (vidram s)"
    by (simp add: vga_put_byte_encoded_color_letter_def vga_put_physical_color_letter_def split_beta)
  show "vidram (vga_put_byte_encoded_color_letter s letter r c code) (pixel_address (cell_position r c) i j) = ?f i j"
    if "i < 8" "j < 8" for i j
    unfolding s' by (rule draw_pixels(1) [OF that])
  fix r' c' and i j :: nat
  assume a: "unat r' < BUFFER_HEIGHT \<and> unat c' < BUFFER_WIDTH \<and> (r', c') \<noteq> (r, c) \<and> i < 8 \<and> j < (8 :: nat)"
  have "pixel_address (cell_position r' c') i j \<noteq> pixel_address (cell_position r c) i' j'" if "i' < 8" "j' < 8" for i' j'
    using cell_pixels_apart [of r' c' i j r c i' j'] a assms that by (auto simp: BUFFER_HEIGHT_def BUFFER_WIDTH_def)
  then show "vidram (vga_put_byte_encoded_color_letter s letter r c code) (pixel_address (cell_position r' c') i j) =
      vidram s (pixel_address (cell_position r' c') i j)"
    unfolding s' by (rule draw_pixels(2))
qed

text \<open>A display that shows nothing yet, with the cursor as a bar.\<close>

definition vga_example :: vga where
  "vga_example = \<lparr>vidram = (\<lambda>_. 0), cursor_on = False, cursor_row_position = 0, cursor_column_position = 0,
     current_cursor_foreground_color = PHYSICAL_WHITE, current_cursor_background_color = PHYSICAL_BLACK,
     current_letter_under_cursor = replicate 8 (replicate 8 0), current_cursor_shape = BLOCK,
     current_cursor = replicate 8 (replicate 8 0)\<rparr>"

theorem vga_letter_drawn_witness:
  "vidram (vga_put_byte_encoded_color_letter vga_example 65 2 3 7) (pixel_address (cell_position 2 3) 0 2) = PHYSICAL_WHITE \<and>
   vidram (vga_put_byte_encoded_color_letter vga_example 65 2 3 7) (pixel_address (cell_position 2 3) 0 4) = PHYSICAL_BLACK \<and>
   vidram (vga_put_byte_encoded_color_letter vga_example 65 2 3 7) (pixel_address (cell_position 2 4) 0 0) = 0"
proof -
  have c: "set_colors_from_escape 7 = (PHYSICAL_WHITE, PHYSICAL_BLACK)" by code_simp
  have "unat (2 :: u32) < BUFFER_HEIGHT" "unat (3 :: u32) < BUFFER_WIDTH" by (simp_all add: BUFFER_HEIGHT_def BUFFER_WIDTH_def)
  note l = vga_letter_drawn [OF this, of vga_example 65 7]
  have "vidram (vga_put_byte_encoded_color_letter vga_example 65 2 3 7) (pixel_address (cell_position 2 4) 0 0) =
      vidram vga_example (pixel_address (cell_position 2 4) 0 0)"
    using l [THEN conjunct2, rule_format, of 2 4 0 0] by (simp add: BUFFER_HEIGHT_def BUFFER_WIDTH_def)
  moreover have "font8x8 65 ! 0 = 12" by code_simp
  ultimately show ?thesis
    using l [THEN conjunct1, rule_format, of 0 2] l [THEN conjunct1, rule_format, of 0 4] by (simp add: c vga_example_def)
qed

section \<open>Showing and hiding the cursor\<close>

definition pic_ok :: "pixel_map \<Rightarrow> bool" where
  "pic_ok p \<longleftrightarrow> length p = 8 \<and> (\<forall>r\<in>set p. length r = 8)"

definition pictures_ok :: "vga \<Rightarrow> bool" where
  "pictures_ok s \<longleftrightarrow> pic_ok (current_letter_under_cursor s) \<and> pic_ok (current_cursor s)"

text \<open>Storing 64 pixels in a picture.\<close>

definition pic_set :: "nat \<Rightarrow> nat \<Rightarrow> byte \<Rightarrow> pixel_map \<Rightarrow> pixel_map" where
  "pic_set i j v p = p[i := (p ! i)[j := v]]"

lemma pic_set_ok [simp]: "pic_ok p \<Longrightarrow> pic_ok (pic_set i j v p)"
proof (cases "i < length p")
  case True
  then show "pic_ok p \<Longrightarrow> ?thesis" by (auto simp: pic_ok_def pic_set_def dest!: set_update_subset_insert [THEN subsetD])
next
  case False
  then show "pic_ok p \<Longrightarrow> ?thesis" by (simp add: pic_set_def list_update_beyond)
qed

lemma pic_set_at: "pic_ok p \<Longrightarrow> i < 8 \<Longrightarrow> j < 8 \<Longrightarrow> pic_set i j v p ! i' ! j' = (if (i', j') = (i, j) then v else p ! i' ! j')"
  by (auto simp: pic_set_def pic_ok_def nth_list_update)

lemma fold_pic_set:
  "pic_ok p \<Longrightarrow> \<forall>q\<in>set ps. fst q < 8 \<and> snd q < 8 \<Longrightarrow>
    pic_ok (fold (\<lambda>q. pic_set (fst q) (snd q) (v q)) ps p) \<and>
    (\<forall>i j. fold (\<lambda>q. pic_set (fst q) (snd q) (v q)) ps p ! i ! j = (if (i, j) \<in> set ps then v (i, j) else p ! i ! j))"
proof (induction ps rule: rev_induct)
  case (snoc q ps)
  then show ?case using pic_set_at [of "fold (\<lambda>q. pic_set (fst q) (snd q) (v q)) ps p" "fst q" "snd q"] by auto
qed simp

text \<open>What the driver remembers of the cell below the cursor.\<close>

lemma determine_fold:
  "fold (\<lambda>q s. let pixel = vidram s (a q) in vga_update_cursor_pixel (s\<lparr>current_letter_under_cursor :=
      (current_letter_under_cursor s)[fst q := (current_letter_under_cursor s ! fst q)[snd q := pixel]]\<rparr>) pixel (fst q) (snd q)) ps s =
   s\<lparr>current_letter_under_cursor := fold (\<lambda>q. pic_set (fst q) (snd q) (vidram s (a q))) ps (current_letter_under_cursor s),
     current_cursor := fold (\<lambda>q. pic_set (fst q) (snd q) (cursor_pixel (current_cursor_shape s) (vidram s (a q)) (fst q) (snd q)))
       ps (current_cursor s)\<rparr>"
proof (induction ps rule: rev_induct)
  case (snoc q ps)
  then show ?case by (simp add: Let_def vga_update_cursor_pixel_def pic_set_def)
qed simp

lemma vga_determine:
  assumes "pictures_ok s"
  shows "\<exists>under cur. vga_determine_letter_under_cursor s = s\<lparr>current_letter_under_cursor := under, current_cursor := cur\<rparr> \<and>
    pic_ok under \<and> pic_ok cur \<and> (\<forall>i<8. \<forall>j<8.
      under ! i ! j = vidram s (pixel_address (cell_position (cursor_row_position s) (cursor_column_position s)) i j) \<and>
      cur ! i ! j = cursor_pixel (current_cursor_shape s) (under ! i ! j) i j)"
proof -
  let ?a = "\<lambda>q. pixel_address (cell_position (cursor_row_position s) (cursor_column_position s)) (fst q) (snd q)"
  define ps :: "(nat \<times> nat) list" where "ps = List.product [0..<8] [0..<8]"
  have mem: "q \<in> set ps \<longleftrightarrow> fst q < 8 \<and> snd q < 8" for q
    unfolding ps_def set_product set_upt by (cases q) (simp only: mem_Sigma_iff atLeastLessThan_iff fst_conv snd_conv le0 simp_thms)
  have ok: "pic_ok (current_letter_under_cursor s)" "pic_ok (current_cursor s)" using assms by (auto simp: pictures_ok_def)
  let ?u = "fold (\<lambda>q. pic_set (fst q) (snd q) (vidram s (?a q))) ps (current_letter_under_cursor s)"
  let ?c = "fold (\<lambda>q. pic_set (fst q) (snd q) (cursor_pixel (current_cursor_shape s) (vidram s (?a q)) (fst q) (snd q)))
       ps (current_cursor s)"
  have "vga_determine_letter_under_cursor s = s\<lparr>current_letter_under_cursor := ?u, current_cursor := ?c\<rparr>"
    unfolding vga_determine_letter_under_cursor_def for_pixels_product ps_def [symmetric] Let_def
    by (rule determine_fold [where a = ?a, unfolded Let_def])
  moreover have "\<forall>q\<in>set ps. fst q < 8 \<and> snd q < 8" using mem by blast
  note fold_pic_set [OF ok(1) this, of "\<lambda>q. vidram s (?a q)"]
    fold_pic_set [OF ok(2) this, of "\<lambda>q. cursor_pixel (current_cursor_shape s) (vidram s (?a q)) (fst q) (snd q)"]
  ultimately show ?thesis using mem by (intro exI [of _ ?u] exI [of _ ?c]) simp
qed

lemma cursor_cell: "cursor_pixel_row s * SCREEN_WIDTH + cursor_column_position s * FONT_WIDTH + TOP_IMAGE_PADDING =
    cell_position (cursor_row_position s) (cursor_column_position s)"
  by (simp add: cell_position_def cursor_pixel_row_def distrib_right distrib_left mult_ac)

lemma put_picture:
  "vga_put_pixel_map m pic (cursor_pixel_row s) (cursor_column_position s * FONT_WIDTH) = for_pixels 8 8 (\<lambda>i j m.
     m(pixel_address (cell_position (cursor_row_position s) (cursor_column_position s)) i j := pic ! i ! j)) m"
  by (simp add: vga_put_pixel_map_def cursor_cell)

text \<open>Drawing the pixels that are already there changes nothing.\<close>

lemma draw_restores:
  assumes "\<forall>i<8. \<forall>j<8. m0 (pixel_address p i j) = v i j"
    and "\<And>x. (\<And>i j. i < 8 \<Longrightarrow> j < 8 \<Longrightarrow> x \<noteq> pixel_address p i j) \<Longrightarrow> m x = m0 x"
  shows "for_pixels 8 8 (\<lambda>i j m. m(pixel_address p i j := v i j)) m = m0"
proof
  fix x
  show "for_pixels 8 8 (\<lambda>i j m. m(pixel_address p i j := v i j)) m x = m0 x"
  proof (cases "\<exists>i<8. \<exists>j<8. x = pixel_address p i j")
    case True
    then obtain i j where "i < 8" "j < 8" "x = pixel_address p i j" by blast
    then show ?thesis using assms(1) draw_pixels(1) [of i j p v m] by simp
  next
    case False
    then have out: "x \<noteq> pixel_address p i j" if "i < 8" "j < 8" for i j using that by blast
    then show ?thesis using assms(2) [OF out] draw_pixels(2) [OF out, where v = v and m = m] by simp
  qed
qed

lemma vga_cursor_moves:
  assumes "\<not> cursor_on s" "pictures_ok s"
  shows "cursor_on (vga_update_cursor_position s r c) \<and>
    (\<forall>i<8. \<forall>j<8. vidram (vga_update_cursor_position s r c) (pixel_address (cell_position r c) i j) =
      cursor_pixel (current_cursor_shape s) (vidram s (pixel_address (cell_position r c) i j)) i j) \<and>
    (\<forall>x. (\<forall>i<8. \<forall>j<8. x \<noteq> pixel_address (cell_position r c) i j) \<longrightarrow>
      vidram (vga_update_cursor_position s r c) x = vidram s x) \<and>
    vidram (vga_clr_cursor (vga_update_cursor_position s r c)) = vidram s \<and>
    \<not> cursor_on (vga_clr_cursor (vga_update_cursor_position s r c)) \<and>
    pictures_ok (vga_update_cursor_position s r c)"
proof -
  let ?s = "s\<lparr>cursor_row_position := r, cursor_column_position := c\<rparr>" and ?p = "cell_position r c"
  have "pictures_ok ?s" using assms(2) by (simp add: pictures_ok_def)
  from vga_determine [OF this] obtain under cur where
    d: "vga_determine_letter_under_cursor ?s = ?s\<lparr>current_letter_under_cursor := under, current_cursor := cur\<rparr>"
    "pic_ok under" "pic_ok cur" and u: "\<forall>i<8. \<forall>j<8. vidram s (pixel_address ?p i j) = under ! i ! j"
    and v: "\<forall>i<8. \<forall>j<8. cur ! i ! j = cursor_pixel (current_cursor_shape s) (under ! i ! j) i j"
    by auto
  let ?m = "for_pixels 8 8 (\<lambda>i j m. m(pixel_address ?p i j := cur ! i ! j)) (vidram s)"
  have s': "vga_update_cursor_position s r c = ?s\<lparr>current_letter_under_cursor := under, current_cursor := cur, vidram := ?m, cursor_on := True\<rparr>"
    using assms(1) d(1) put_picture [of "vidram s" cur ?s]
    by (simp add: vga_update_cursor_position_def vga_xor_cursor_def cursor_pixel_row_def)
  have in_m: "\<forall>i<8. \<forall>j<8. ?m (pixel_address ?p i j) = cur ! i ! j" using draw_pixels(1) [of _ _ ?p "\<lambda>i j. cur ! i ! j"] by simp
  have out_m: "?m x = vidram s x" if "\<And>i j. i < 8 \<Longrightarrow> j < 8 \<Longrightarrow> x \<noteq> pixel_address ?p i j" for x
    using that by (rule draw_pixels(2))
  have "vidram (vga_clr_cursor (vga_update_cursor_position s r c)) =
      for_pixels 8 8 (\<lambda>i j m. m(pixel_address ?p i j := under ! i ! j)) ?m"
    using put_picture [of ?m under ?s] unfolding s' by (simp add: vga_clr_cursor_def cursor_pixel_row_def)
  also have "\<dots> = vidram s" by (rule draw_restores [OF u out_m])
  finally have "vidram (vga_clr_cursor (vga_update_cursor_position s r c)) = vidram s" .
  moreover have "\<not> cursor_on (vga_clr_cursor (vga_update_cursor_position s r c))" by (simp add: vga_clr_cursor_def)
  moreover have "pictures_ok (vga_update_cursor_position s r c)" using d(2,3) unfolding s' by (simp add: pictures_ok_def)
  ultimately show ?thesis using in_m out_m u v unfolding s' by simp
qed

text \<open>The cursor is drawn over a cell and taken away again without a trace: when it is hidden, moving it shows, in
  its cell only, the picture of the cursor computed from the pixels below, and hiding it afterwards restores the
  whole video memory.\<close>

theorem vga_cursor_restores:
  assumes "\<not> cursor_on s" "pictures_ok s"
  shows "cursor_on (vga_update_cursor_position s r c) \<and>
    (\<forall>i<8. \<forall>j<8. vidram (vga_update_cursor_position s r c) (pixel_address (cell_position r c) i j) =
      cursor_pixel (current_cursor_shape s) (vidram s (pixel_address (cell_position r c) i j)) i j) \<and>
    (\<forall>x. (\<forall>i<8. \<forall>j<8. x \<noteq> pixel_address (cell_position r c) i j) \<longrightarrow>
      vidram (vga_update_cursor_position s r c) x = vidram s x) \<and>
    vidram (vga_clr_cursor (vga_update_cursor_position s r c)) = vidram s \<and>
    \<not> cursor_on (vga_clr_cursor (vga_update_cursor_position s r c)) \<and>
    pictures_ok (vga_update_cursor_position s r c)"
  using vga_cursor_moves [OF assms] .

theorem vga_cursor_restores_witness:
  "vidram (vga_clr_cursor (vga_update_cursor_position vga_example 2 3)) = vidram vga_example \<and>
   vidram (vga_update_cursor_position vga_example 2 3) (pixel_address (cell_position 2 3) 0 0) = PHYSICAL_WHITE"
proof -
  have "\<not> cursor_on vga_example" "pictures_ok vga_example" by (simp_all add: vga_example_def pictures_ok_def pic_ok_def)
  from vga_cursor_restores [OF this, of 2 3] show ?thesis by (simp add: vga_example_def cursor_pixel_def)
qed

text \<open>Moving a cursor that is shown leaves its picture behind. The function reads the cell below the cursor while
  the cursor covers it, so that what it then restores is the cursor itself: outside of the new cell the video
  memory does not change at all, and the old cell keeps the picture of the cursor.\<close>

theorem vga_cursor_left_behind:
  assumes "cursor_on s" "pictures_ok s" and "\<forall>i<8. \<forall>j<8. x \<noteq> pixel_address (cell_position r c) i j"
  shows "vidram (vga_update_cursor_position s r c) x = vidram s x"
proof -
  let ?p = "cell_position (cursor_row_position s) (cursor_column_position s)"
  from vga_determine [OF assms(2)] obtain under cur where
    d: "vga_determine_letter_under_cursor s = s\<lparr>current_letter_under_cursor := under, current_cursor := cur\<rparr>"
    "pic_ok under" "pic_ok cur" and u: "\<forall>i<8. \<forall>j<8. vidram s (pixel_address ?p i j) = under ! i ! j"
    by auto
  let ?s = "s\<lparr>current_letter_under_cursor := under, current_cursor := cur\<rparr>"
  have "vidram (vga_clr_cursor ?s) = for_pixels 8 8 (\<lambda>i j m. m(pixel_address ?p i j := under ! i ! j)) (vidram s)"
    using put_picture [of "vidram s" under ?s] by (simp add: vga_clr_cursor_def cursor_pixel_row_def)
  also have "\<dots> = vidram s" by (rule draw_restores [OF u refl])
  finally have v: "vidram (vga_clr_cursor ?s) = vidram s" .
  have off: "\<not> cursor_on (vga_clr_cursor ?s)" "pictures_ok (vga_clr_cursor ?s)"
    using d(2,3) by (simp_all add: vga_clr_cursor_def pictures_ok_def)
  have "vga_update_cursor_position s r c = vga_update_cursor_position (vga_clr_cursor ?s) r c"
    using assms(1) d(1) off(1) by (simp add: vga_update_cursor_position_def)
  then show ?thesis using vga_cursor_moves [OF off] v assms(3) by simp
qed

theorem vga_cursor_left_behind_witness:
  "vidram (vga_update_cursor_position (vga_example\<lparr>cursor_on := True\<rparr>) 2 4) (pixel_address (cell_position 0 0) 0 0) = 0"
proof -
  have s: "cursor_on (vga_example\<lparr>cursor_on := True\<rparr>)" "pictures_ok (vga_example\<lparr>cursor_on := True\<rparr>)"
    by (simp_all add: vga_example_def pictures_ok_def pic_ok_def)
  have "pixel_address (cell_position 0 0) 0 0 \<noteq> pixel_address (cell_position 2 4) i j" if "i < 8" "j < 8" for i j
    using cell_pixels_apart [of 0 0 0 0 2 4 i j] that by auto
  then show ?thesis using vga_cursor_left_behind [OF s] by (simp add: vga_example_def)
qed

end
