(* ===== verification/Libc_Token.thy ===== *)
theory Libc_Token
  imports Libc_String
begin

text \<open>
  What \<open>strtok\<close>, \<open>strcpy\<close> and \<open>strcat\<close> leave in memory. A token is the longest prefix
  without a delimiter; unlike the C standard's \<open>strtok\<close>, this one does not skip delimiters before a
  token, so a string that starts with a delimiter yields an empty token first.
\<close>

definition token_of :: "byte list \<Rightarrow> byte list \<Rightarrow> byte list" where
  "token_of ds s = takeWhile (\<lambda>c. c \<notin> set ds) s"

definition token_rest :: "byte list \<Rightarrow> byte list \<Rightarrow> byte list" where
  "token_rest ds s = dropWhile (\<lambda>c. c \<in> set ds) (dropWhile (\<lambda>c. c \<notin> set ds) s)"

lemma filled_front:
  assumes "n \<noteq> 0"
  shows "filled (m(p := c)) (p + 1) c (n - 1) = filled m p c n"
proof
  fix a
  have n: "unat (n - 1) = unat n - 1" "0 < unat n" using assms by (simp_all add: unat_minus_one unat_gt_0)
  show "filled (m(p := c)) (p + 1) c (n - 1) a = filled m p c n a"
  proof (cases "a = p")
    case True
    with assms show ?thesis by (simp add: filled_def word_neq_0_conv)
  next
    case False
    then have "a - p \<noteq> 0" by simp
    then have "unat (a - (p + 1)) = unat (a - p) - 1" "0 < unat (a - p)"
      by (simp_all add: diff_diff_eq [symmetric] unat_minus_one unat_gt_0)
    with n have "(a - (p + 1) < n - 1) = (a - p < n)" by (auto simp: word_less_nat_alt)
    with False show ?thesis by (simp add: filled_def)
  qed
qed

lemma strtok_clear_filled: "strtok_clear m p n = (filled m p 0 n, p + n)"
proof (induction m p n rule: strtok_clear.induct)
  case (1 m p n)
  show ?case
  proof (cases "n = 0")
    case True
    then show ?thesis by (subst strtok_clear.simps) simp
  next
    case False
    with "1.IH" filled_front [OF False, of m p 0] show ?thesis
      by (subst strtok_clear.simps) (simp add: fun_upd_def)
  qed
qed

lemma unat_of_nat_u32: "k < 2 ^ 32 \<Longrightarrow> unat (of_nat k :: u32) = k"
  by (simp add: unat_of_nat)

lemma filled_before:
  assumes "i < n" and "n + k < 2 ^ 32"
  shows "filled m (p + of_nat n) c (of_nat k) (p + of_nat i) = m (p + of_nat i)"
proof (rule filled_out)
  have "unat (of_nat i - of_nat n :: u32) = i + 2 ^ 32 - n"
    using assms by (simp add: unat_sub_if_size word_size unat_of_nat)
  with assms show "\<not> p + of_nat i - (p + of_nat n) < of_nat k"
    by (simp add: word_less_nat_alt unat_of_nat)
qed

lemma filled_after:
  assumes "n + k \<le> i" and "i < 2 ^ 32"
  shows "filled m (p + of_nat n) c (of_nat k) (p + of_nat i) = m (p + of_nat i)"
proof (rule filled_out)
  have "unat (of_nat i - of_nat n :: u32) = i - n"
    using assms by (simp add: unat_sub_if_size word_size unat_of_nat)
  with assms show "\<not> p + of_nat i - (p + of_nat n) < of_nat k"
    by (simp add: word_less_nat_alt unat_of_nat)
qed

definition token_gap :: "byte list \<Rightarrow> byte list \<Rightarrow> nat" where
  "token_gap ds s = length (takeWhile (\<lambda>c. c \<in> set ds) (drop (length (token_of ds s)) s))"

lemma token_of_take: "token_of ds s = take (length (token_of ds s)) s"
  unfolding token_of_def by (rule takeWhile_eq_take)

lemma drop_token: "dropWhile (\<lambda>c. c \<notin> set ds) s = drop (length (token_of ds s)) s"
  unfolding token_of_def by (rule dropWhile_eq_drop)

lemma token_rest_drop: "token_rest ds s = drop (length (token_of ds s) + token_gap ds s) s"
  unfolding token_rest_def token_gap_def drop_token
  by (subst dropWhile_eq_drop) (simp add: add.commute)

lemma token_len_le: "length (token_of ds s) + token_gap ds s \<le> length s"
proof -
  have "length (token_of ds s) \<le> length s" unfolding token_of_def by (rule length_takeWhile_le)
  moreover have "token_gap ds s \<le> length (drop (length (token_of ds s)) s)"
    unfolding token_gap_def by (rule length_takeWhile_le)
  ultimately show ?thesis by simp
qed

lemma token_gap_0:
  assumes "token_gap ds s = 0"
  shows "length (token_of ds s) = length s"
proof (rule ccontr)
  assume "length (token_of ds s) \<noteq> length s"
  with token_len_le [of ds s] have lt: "length (token_of ds s) < length s" by simp
  then have "s ! length (token_of ds s) \<in> set ds"
    unfolding token_of_def using nth_length_takeWhile [of "\<lambda>c. c \<notin> set ds" s] by simp
  with assms Cons_nth_drop_Suc [OF lt, symmetric] show False
    unfolding token_gap_def by simp
qed

text \<open>
  One call of \<open>strtok\<close>, on a new string or continuing at the static pointer: the token is
  terminated in place, and the static pointer moves to the rest of the string.
\<close>

lemma strtok_cstr:
  assumes s: "cstr m p s" "s \<noteq> []" "p \<noteq> NULL" and ds: "cstr m d ds"
    and len: "length s + 1 < 2 ^ 32" "length ds < 2 ^ 32"
    and start: "str = p \<or> (str = NULL \<and> static_ptr = p)"
  obtains m' ptr' where "strtok m static_ptr str d = Some (m', ptr', p)"
    and "cstr m' p (token_of ds s)" and "cstr m' ptr' (token_rest ds s)"
    and "\<And>i. length s \<le> i \<Longrightarrow> i < 2 ^ 32 \<Longrightarrow> m' (p + of_nat i) = m (p + of_nat i)"
    and "ptr' = p + of_nat (length s - length (token_rest ds s))"
proof -
  define n where "n = length (token_of ds s)"
  define k where "k = token_gap ds s"
  have tok: "token_of ds s = take n s" unfolding n_def by (rule token_of_take)
  have rest: "token_rest ds s = drop (n + k) s" unfolding n_def k_def by (rule token_rest_drop)
  have le: "n + k \<le> length s" unfolding n_def k_def by (rule token_len_le)
  have gap: "k = 0 \<Longrightarrow> n = length s" unfolding n_def k_def by (rule token_gap_0)
  note split = tok rest le gap
  define m' where "m' = filled m (p + of_nat n) 0 (of_nat k)"
  have "strcspn m p d = Some (of_nat n)"
    using strcspn_cstr [OF s(1) ds len(2)] by (simp add: n_def token_of_def)
  moreover have "strspn m (p + of_nat n) d = Some (of_nat k)"
    using strspn_cstr [OF cstr_drop [OF s(1)] ds len(2), of n] split(3) by (simp add: k_def token_gap_def n_def)
  moreover have "m p \<noteq> 0" using s by (cases s) auto
  ultimately have call: "strtok m static_ptr str d = Some (m', p + of_nat (n + k), p)"
    using start s(3) by (auto simp: strtok_def strtok_clear_filled m'_def Let_def add.assoc)
  have tok': "cstr m' p (token_of ds s)"
    unfolding cstr_iff
  proof (intro conjI allI impI)
    fix i assume "i < length (token_of ds s)"
    then have i: "i < n" by (simp add: n_def)
    then have "m' (p + of_nat i) = m (p + of_nat i)"
      using split(3) len(1) by (auto simp: m'_def intro!: filled_before)
    with i split(3) show "m' (p + of_nat i) = token_of ds s ! i"
      by (simp add: cstr_nth [OF s(1)] tok)
  next
    show "0 \<notin> set (token_of ds s)"
      using cstr_nonzero [OF s(1)] split(1) by (metis in_set_takeD)
  next
    show "m' (p + of_nat (length (token_of ds s))) = 0"
    proof (cases "k = 0")
      case True
      with split(4) cstr_end [OF s(1)] show ?thesis by (simp add: m'_def n_def)
    next
      case False
      then have "(0 :: u32) < of_nat k"
        using split(3) len(1) by (simp add: word_less_nat_alt unat_of_nat)
      then show ?thesis by (simp add: m'_def filled_def n_def)
    qed
  qed
  have after: "m' (p + of_nat i) = m (p + of_nat i)" if "n + k \<le> i" "i < 2 ^ 32" for i
    using that unfolding m'_def by (rule filled_after)
  have rest': "cstr m' (p + of_nat (n + k)) (token_rest ds s)"
  proof -
    have "cstr m (p + of_nat (n + k)) (token_rest ds s)"
      unfolding split(2) by (rule cstr_drop [OF s(1) split(3)])
    moreover have "m' (p + of_nat (n + k) + of_nat i) = m (p + of_nat (n + k) + of_nat i)"
      if "i \<le> length (token_rest ds s)" for i
      using that after [of "n + k + i"] split(2,3) len(1) by (simp add: add.assoc)
    ultimately show ?thesis by (subst cstr_cong) auto
  qed
  have pos: "n + k = length s - length (token_rest ds s)" using split(2,3) by simp
  have far: "m' (p + of_nat i) = m (p + of_nat i)" if "length s \<le> i" "i < 2 ^ 32" for i
    using after [of i] that le by simp
  show thesis
    by (rule that [OF call tok' rest' far]) (simp_all only: pos)
qed

section \<open>strcpy and strcat\<close>

lemma strcpy_cstr:
  assumes "cstr m p s" and "length s + 1 < 2 ^ 32" and "fwd_safe d p (of_nat (length s + 1))"
  obtains m' where "strcpy m d p = Some (m', d)" and "cstr m' d s"
    and "m' = copied m d p (of_nat (length s + 1))"
proof -
  have e: "(1 :: u32) + of_nat (length s) = of_nat (length s) + 1" by simp
  have "strcpy m d p = Some (copied m d p (of_nat (length s + 1)), d)"
    using memcpy_copied [OF assms(3)] by (simp add: strcpy_def strlen_cstr [OF assms(1)] e)
  moreover have "cstr (copied m d p (of_nat (length s + 1))) d s"
    unfolding cstr_iff
  proof (intro conjI allI impI)
    have in_range: "(of_nat i :: u32) < of_nat (length s + 1)" if "i \<le> length s" for i
      using that assms(2) by (simp only: word_less_nat_alt unat_of_nat) simp
    fix i assume "i < length s"
    then show "copied m d p (of_nat (length s + 1)) (d + of_nat i) = s ! i"
      using in_range [of i] by (simp only: copied_in) (simp add: cstr_nth [OF assms(1)])
  next
    show "0 \<notin> set s" by (rule cstr_nonzero [OF assms(1)])
  next
    have "(of_nat (length s) :: u32) < of_nat (length s + 1)"
      using assms(2) by (simp only: word_less_nat_alt unat_of_nat) simp
    then show "copied m d p (of_nat (length s + 1)) (d + of_nat (length s)) = 0"
      by (simp only: copied_in) (rule cstr_end [OF assms(1)])
  qed
  ultimately show thesis by (rule that) simp
qed

text \<open>\<open>strcat\<close> computes the length of the source again before every byte it copies.\<close>

lemma strcat_loop_copied:
  assumes b: "cstr m p b" and N: "N = of_nat (length b) + 1" "length b + 1 < 2 ^ 32"
    and apart: "\<And>k. k \<le> length b \<Longrightarrow> \<not> p + of_nat k - q < N" and "i \<le> N"
  shows "strcat_loop (copied m q p i) q p i = Some (copied m q p N)"
  using assms(5)
proof (induction "unat (N - i)" arbitrary: i rule: less_induct)
  case less
  have "copied m q p i (p + of_nat k) = m (p + of_nat k)" if "k \<le> length b" for k
    using apart [OF that] less.prems by (intro copied_out) (auto dest: order_less_le_trans)
  then have "cstr (copied m q p i) p b" using b by (subst cstr_cong) auto
  then have len: "strlen (copied m q p i) p = Some (N - 1)" by (simp add: strlen_cstr N(1))
  show ?case
  proof (cases "i < N")
    case True
    have uN: "unat N = length b + 1"
      unfolding N(1) using N(2) by (simp add: unat_word_ariths unat_of_nat)
    have "i = of_nat (unat i)" by simp
    with True uN have "\<not> p + i - q < i"
      using apart [of "unat i"] by (auto simp: word_less_nat_alt dest: order_less_trans)
    moreover have "strcat_loop (copied m q p (i + 1)) q p (i + 1) = Some (copied m q p N)"
      by (rule less) (use True in \<open>auto intro: unat_diff_step inc_le\<close>)
    ultimately show ?thesis
      using True len by (subst strcat_loop.simps) (simp add: copied_step)
  next
    case False
    with less.prems len show ?thesis by (subst strcat_loop.simps) auto
  qed
qed

lemma strcat_cstr:
  assumes a: "cstr m d a" and b: "cstr m p b" and len: "length a + length b + 1 < 2 ^ 32"
    and q: "q = d + of_nat (length a)"
    and apart: "\<And>k. k \<le> length b \<Longrightarrow> \<not> p + of_nat k - q < of_nat (length b) + 1"
  obtains m' where "strcat m d p = Some (m', d)" and "cstr m' d (a @ b)"
proof -
  define N :: u32 where "N = of_nat (length b) + 1"
  have N: "N = of_nat (length b + 1)" by (simp add: N_def add.commute)
  have "strcat_loop m q p 0 = Some (copied m q p N)"
    using strcat_loop_copied [OF b N_def _ apart [folded N_def], of 0] len by simp
  then have "strcat m d p = Some (copied m q p N, d)"
    using a q by (simp add: strcat_def strlen_cstr)
  moreover have "cstr (copied m q p N) d (a @ b)"
    unfolding cstr_append
  proof (intro conjI allI impI)
    fix i assume i: "i < length a"
    have "unat (of_nat i - of_nat (length a) :: u32) = i + 2 ^ 32 - length a"
      using i len by (simp add: unat_sub_if_size word_size unat_of_nat)
    then have "\<not> d + of_nat i - q < N"
      using len i unfolding N by (simp add: q word_less_nat_alt unat_of_nat del: of_nat_add of_nat_Suc)
    then show "copied m q p N (d + of_nat i) = a ! i"
      by (simp add: copied_out cstr_nth [OF a i])
    show "a ! i \<noteq> 0" using cstr_nonzero [OF a] i by (metis nth_mem)
  next
    have "(of_nat i :: u32) < N" if "i \<le> length b" for i
      using that len unfolding N by (simp add: word_less_nat_alt unat_of_nat del: of_nat_add of_nat_Suc)
    then show "cstr (copied m q p N) (d + of_nat (length a)) b"
      using b unfolding cstr_iff by (simp add: q [symmetric] copied_in)
  qed
  ultimately show thesis by (rule that)
qed

end
