(* ===== verification/Libc_Num.thy ===== *)
theory Libc_Num
  imports Libc_Token
begin

text \<open>
  Numbers and their text in \<open>src/kstdlib/libc.c\<close>: \<open>itoa\<close>, \<open>pow\<close>, \<open>strtoul\<close>, the IPv4 parser
  \<open>inet_aton\<close>, \<open>htons\<close>, and the option scanner \<open>getopt\<close>. The specification of a printed
  number is the list of its digits, most significant first.
\<close>

section \<open>itoa\<close>

partial_function (option) itoa_count :: "u32 \<Rightarrow> u32 \<Rightarrow> u32 \<Rightarrow> u32 option" where
  "itoa_count base temp_value i =
     (if temp_value \<noteq> 0 then itoa_count base (temp_value div base) (i + 1) else Some i)"

definition itoa_digit :: "byte \<Rightarrow> byte" where
  "itoa_digit digit = (if 9 < digit then 65 + (digit - 10) else digit + 0x30)"

partial_function (option) itoa_write :: "mem \<Rightarrow> addr \<Rightarrow> u32 \<Rightarrow> u32 \<Rightarrow> u32 \<Rightarrow> mem option" where
  "itoa_write m str base value i =
     (if value \<noteq> 0
      then itoa_write (m(str + i - 1 := itoa_digit (ucast (value mod base)))) str base
             (value div base) (i - 1)
      else Some m)"

definition itoa :: "mem \<Rightarrow> u32 \<Rightarrow> addr \<Rightarrow> u32 \<Rightarrow> (mem \<times> addr) option" where
  "itoa m value str base =
     (if value = 0 then Some (m(str := 48), str)
      else do {
        require (base \<noteq> 0);
        i \<leftarrow> itoa_count base value 0;
        let m = m(str + i := 0);
        m \<leftarrow> itoa_write m str base value i;
        Some (m, str)
      })"

section \<open>strtoul\<close>

fun pow :: "u32 \<Rightarrow> nat \<Rightarrow> u32" where
  "pow base 0 = 1"
| "pow base (Suc exp) = base * pow base exp"

definition strtoul_digit :: "byte \<Rightarrow> byte option" where
  "strtoul_digit digit =
     (if 48 \<le> digit \<and> digit \<le> 57 then Some (digit - 0x30)
      else if 97 \<le> digit \<and> digit \<le> 102 then Some (digit - 97 + 10)
      else if 65 \<le> digit \<and> digit \<le> 70 then Some (digit - 65 + 10)
      else None)"

text \<open>
  The counter \<open>i\<close> of the C loop is the last argument minus one; it stops when \<open>i\<close> is negative
  (and does not start when \<open>len\<close> is negative as an \<open>int\<close>).
  The second component of the result is the pointer that is stored in \<open>*str_end\<close>.
\<close>

fun strtoul_loop :: "mem \<Rightarrow> int \<Rightarrow> addr \<Rightarrow> u32 \<Rightarrow> nat \<Rightarrow> u32 \<times> addr" where
  "strtoul_loop m base ptr value 0 = (value, ptr)"
| "strtoul_loop m base ptr value (Suc i) =
     (case strtoul_digit (m ptr) of
        None \<Rightarrow> (0, ptr + 1)
      | Some digit \<Rightarrow>
          (if uint digit < base
           then strtoul_loop m base (ptr + 1) (value + pow (word_of_int base) i * ucast digit) i
           else (0, ptr + 1)))"

definition strtoul :: "mem \<Rightarrow> addr \<Rightarrow> int \<Rightarrow> (u32 \<times> addr) option" where
  "strtoul m str base = do {
     len \<leftarrow> strlen m str;
     Some (strtoul_loop m base str 0 (nat (sint len)))
   }"

section \<open>htons and inet_aton\<close>

definition htons :: "u16 \<Rightarrow> u16" where
  "htons hostshort = drop_bit 8 hostshort OR push_bit 8 (hostshort AND 0xff)"

text \<open>A local array, read as memory at address 0.\<close>

definition local_mem :: "byte list \<Rightarrow> mem" where
  "local_mem buf = (\<lambda>a. if unat a < length buf then buf ! unat a else 0)"

text \<open>
  The inner \<open>while\<close> of \<open>inet_aton\<close> copies the characters up to a dot or the end into the array
  \<open>octet[4]\<close>; an octet of more than four characters overflows the array.
\<close>

partial_function (option) inet_aton_octet ::
    "mem \<Rightarrow> addr \<Rightarrow> u32 \<Rightarrow> byte list \<Rightarrow> nat \<Rightarrow> (u32 \<times> byte list \<times> nat) option" where
  "inet_aton_octet m host j octet octet_index =
     (if m (host + j) \<noteq> 0 \<and> m (host + j) \<noteq> 46
      then (if octet_index < 4
            then inet_aton_octet m host (j + 1) (octet[octet_index := m (host + j)])
                   (octet_index + 1)
            else None)
      else Some (j, octet, octet_index))"

fun inet_aton_loop ::
    "mem \<Rightarrow> addr \<Rightarrow> u32 \<Rightarrow> byte list \<Rightarrow> nat \<Rightarrow> byte list \<Rightarrow> nat \<Rightarrow> (int \<times> byte list) option" where
  "inet_aton_loop m host j octet octet_index s_addr 0 = Some (1, s_addr)"
| "inet_aton_loop m host j octet octet_index s_addr (Suc k) = do {
     let i = 3 - k;
     (j, octet, octet_index) \<leftarrow> inet_aton_octet m host j octet octet_index;
     (j, octet, octet_index, s_addr) \<leftarrow>
       (if m (host + j) = 46 \<or> (m (host + j) = 0 \<and> i = 3)
        then (if octet_index < 4
              then do {
                let octet = octet[octet_index := 0];
                (v, _) \<leftarrow> strtoul (local_mem octet) 0 10;
                Some (j + 1, octet, 0, s_addr[i := ucast v])
              }
              else None)
        else Some (j, octet, octet_index, s_addr));
     (if m (host + j) = 0 \<and> i < 3 then Some (0, s_addr)
      else inet_aton_loop m host j octet octet_index s_addr k)
   }"

definition inet_aton :: "mem \<Rightarrow> addr \<Rightarrow> byte list \<Rightarrow> (int \<times> byte list) option" where
  "inet_aton m host s_addr = inet_aton_loop m host 0 [0, 0, 0, 0] 0 s_addr 4"

section \<open>getopt\<close>

datatype getopt_option = OPT_SINGLE | OPT_PARAM | OPT_NONE

text \<open>
  \<open>argv\<close> is the array of argument pointers with its terminating null pointer. The static \<open>index\<close>
  and the global \<open>optargs\<close> are taken and returned.
\<close>

fun getopt_find :: "mem \<Rightarrow> addr \<Rightarrow> byte \<Rightarrow> nat list \<Rightarrow> getopt_option" where
  "getopt_find m optstring c [] = OPT_NONE"
| "getopt_find m optstring c (i # is) =
     (if c = m (optstring + of_nat i) \<and> m (optstring + of_nat i + 1) = 58 then OPT_PARAM
      else if c = m (optstring + of_nat i) then OPT_SINGLE
      else getopt_find m optstring c is)"

definition getopt ::
    "mem \<Rightarrow> nat \<Rightarrow> addr \<Rightarrow> nat \<Rightarrow> addr list \<Rightarrow> addr \<Rightarrow> (int \<times> nat \<times> addr) option" where
  "getopt m index optargs argc argv optstring =
     (if index = argc then Some (- 1, 1, optargs)
      else do {
        require (index < length argv \<and> argv ! index \<noteq> NULL);
        (if m (argv ! index) \<noteq> 45 then Some (- 1, 1, optargs)
         else do {
           let c = m (argv ! index + 1);
           n \<leftarrow> strlen m optstring;
           let opt = getopt_find m optstring c [0..<unat n];
           (case opt of
              OPT_SINGLE \<Rightarrow> Some (uint c, index + 1, optargs)
            | OPT_PARAM \<Rightarrow> do {
                require (index + 1 < length argv);
                (if argv ! (index + 1) \<noteq> NULL
                 then Some (uint c, index + 2, argv ! (index + 1))
                 else Some (uint c, index + 1, optargs))
              }
            | OPT_NONE \<Rightarrow> Some (63, index, optargs))
         })
      })"

section \<open>Digits\<close>

function digits :: "nat \<Rightarrow> nat \<Rightarrow> nat list" where
  "digits b v = (if v = 0 \<or> b < 2 then [] else digits b (v div b) @ [v mod b])"
  by pat_completeness auto
termination
  by (relation "measure (\<lambda>(b, v). v)") auto

declare digits.simps [simp del]

definition numeral_bytes :: "nat \<Rightarrow> nat \<Rightarrow> byte list" where
  "numeral_bytes b v = (if v = 0 then [48] else map (\<lambda>d. itoa_digit (of_nat d)) (digits b v))"

definition digits_value :: "nat \<Rightarrow> nat list \<Rightarrow> nat" where
  "digits_value b ds = foldl (\<lambda>v d. v * b + d) 0 ds"

lemma digits_0 [simp]: "digits b 0 = []"
  by (simp add: digits.simps)

lemma digits_step: "0 < v \<Longrightarrow> 2 \<le> b \<Longrightarrow> digits b v = digits b (v div b) @ [v mod b]"
  by (subst digits.simps) simp

lemma digits_nonempty: "0 < v \<Longrightarrow> 2 \<le> b \<Longrightarrow> digits b v \<noteq> []"
  by (simp add: digits_step)

lemma digits_less: "d \<in> set (digits b v) \<Longrightarrow> d < b"
proof (induction b v rule: digits.induct)
  case (1 b v)
  then show ?case by (auto simp: digits.simps [of b v] split: if_splits)
qed

lemma digits_value_digits: "2 \<le> b \<Longrightarrow> digits_value b (digits b v) = v"
proof (induction b v rule: digits.induct)
  case (1 b v)
  then show ?case
    by (cases "v = 0") (auto simp: digits_step [of v b] digits_value_def)
qed

lemma digits_length: "2 \<le> b \<Longrightarrow> v < 2 ^ k \<Longrightarrow> length (digits b v) \<le> k"
proof (induction k arbitrary: v)
  case 0
  then show ?case by simp
next
  case (Suc k)
  show ?case
  proof (cases "v = 0")
    case False
    have "v div b \<le> v div 2" using Suc.prems(1) by (rule div_le_mono2 [rotated]) simp
    also have "v div 2 < 2 ^ k" using Suc.prems(2) by auto
    finally have "length (digits b (v div b)) \<le> k" using Suc by blast
    with False Suc.prems(1) show ?thesis by (simp add: digits_step)
  qed simp
qed

section \<open>What itoa writes\<close>

declare itoa_count.simps [simp del] itoa_write.simps [simp del]

lemma itoa_count_digits:
  "2 \<le> unat base \<Longrightarrow> itoa_count base v i = Some (i + of_nat (length (digits (unat base) (unat v))))"
proof (induction "unat v" arbitrary: v i rule: less_induct)
  case less
  show ?case
  proof (cases "v = 0")
    case False
    then have v: "0 < unat v" by (simp add: unat_gt_0)
    with less.prems have "unat (v div base) < unat v" by (simp add: unat_div_word)
    from less.hyps [OF this less.prems] v less.prems False show ?thesis
      by (subst itoa_count.simps) (simp add: digits_step unat_div_word add.assoc)
  qed (simp add: itoa_count.simps)
qed

lemma itoa_write_stored:
  assumes "2 \<le> unat base"
  shows "itoa_write m str base v (of_nat (length (digits (unat base) (unat v)))) =
    Some (stored m str (map (\<lambda>d. itoa_digit (of_nat d)) (digits (unat base) (unat v))))"
proof (induction "unat v" arbitrary: v m rule: less_induct)
  case less
  show ?case
  proof (cases "v = 0")
    case False
    then have v: "0 < unat v" by (simp add: unat_gt_0)
    have ds: "digits (unat base) (unat v) = digits (unat base) (unat (v div base)) @ [unat (v mod base)]"
      using v assms by (simp add: digits_step unat_div_word unat_mod_word)
    have len: "length (digits (unat base) (unat (v div base))) < 2 ^ 32"
      using digits_length [OF assms, of "unat (v div base)" 32] unat_lt_exp [of "v div base"] by simp
    have "unat (v div base) < unat v" using v assms by (simp add: unat_div_word)
    moreover have "of_nat (unat v mod unat base) = (ucast (v mod base) :: byte)"
      by (simp flip: unat_mod_word)
    ultimately show ?thesis
      using less.hyps [of "v div base"] False len
      by (subst itoa_write.simps) (simp add: ds stored_snoc unat_div_word unat_mod_word)
  qed (simp add: itoa_write.simps)
qed

lemma itoa_digit_nonzero: "d < 36 \<Longrightarrow> itoa_digit (of_nat d) \<noteq> 0"
proof -
  have "\<forall>d\<in>set [0..<36]. itoa_digit (of_nat d) \<noteq> 0" by code_simp
  then show "d < 36 \<Longrightarrow> itoa_digit (of_nat d) \<noteq> 0" by simp
qed

lemma itoa_nonzero:
  assumes "2 \<le> unat base" and "v \<noteq> 0"
  shows "itoa m v str base = Some (stored m str (numeral_bytes (unat base) (unat v) @ [0]), str)"
proof -
  have v: "0 < unat v" using assms by (simp add: unat_gt_0)
  have len: "length (digits (unat base) (unat v)) < 2 ^ 32"
    using digits_length [OF assms(1), of "unat v" 32] unat_lt_exp [of v] by simp
  with assms v show ?thesis
    by (auto simp add: itoa_def itoa_count_digits itoa_write_stored stored_snoc numeral_bytes_def Let_def)
qed

lemma numeral_bytes_nonzero: "b \<le> 36 \<Longrightarrow> 0 \<notin> set (numeral_bytes b v)"
  by (auto simp: numeral_bytes_def dest!: digits_less) (metis itoa_digit_nonzero less_le_trans)

lemma numeral_bytes_length: "2 \<le> b \<Longrightarrow> v < 2 ^ k \<Longrightarrow> 0 < k \<Longrightarrow> length (numeral_bytes b v) \<le> k"
  using digits_length [of b v k] by (auto simp: numeral_bytes_def)

lemma stored_cstr:
  "0 \<notin> set s \<Longrightarrow> length s < 2 ^ 32 \<Longrightarrow> cstr (stored m p (s @ [0])) p s"
  unfolding cstr_iff
  by (auto simp: stored_in nth_append simp del: of_nat_Suc)

text \<open>\<open>itoa\<close> writes the numeral and its NUL, and nothing else, for a value that is not zero.\<close>

lemma itoa_cstr:
  assumes "2 \<le> base" and "base \<le> 36" and "v \<noteq> 0"
  obtains m' where "itoa m v str base = Some (m', str)"
    and "cstr m' str (numeral_bytes (unat base) (unat v))"
    and "\<And>a. 32 < unat (a - str) \<Longrightarrow> m' a = m a"
proof -
  have b: "2 \<le> unat base" "unat base \<le> 36"
    using assms(1,2) by (simp_all add: word_le_nat_alt)
  have len: "length (numeral_bytes (unat base) (unat v)) \<le> 32"
    using numeral_bytes_length [OF b(1), of "unat v" 32] unat_lt_exp [of v] by simp
  show thesis
    by (rule that [OF itoa_nonzero [OF b(1) assms(3)] stored_cstr [OF numeral_bytes_nonzero [OF b(2)]]])
      (use len in \<open>auto simp: stored_def\<close>)
qed

text \<open>For zero \<open>itoa\<close> stores the digit alone: the text ends where the buffer already held a NUL.\<close>

lemma itoa_zero: "itoa m 0 str base = Some (m(str := 48), str)"
  by (simp add: itoa_def)

lemma itoa_zero_cstr: "m (str + 1) = 0 \<Longrightarrow> cstr (m(str := 48)) str (numeral_bytes b 0)"
  by (simp add: numeral_bytes_def)

section \<open>What strtoul reads\<close>

lemma digits_value_Cons: "digits_value b (d # ds) = d * b ^ length ds + digits_value b ds"
proof -
  have "foldl (\<lambda>v d. v * b + d) a ds = a * b ^ length ds + foldl (\<lambda>v d. v * b + d) 0 ds" for a
  proof (induction ds arbitrary: a)
    case (Cons e es)
    show ?case using Cons [of "a * b + e"] Cons [of e] by (simp add: algebra_simps)
  qed simp
  from this [of d] show ?thesis by (simp add: digits_value_def)
qed

lemma pow_of_nat: "pow (of_nat b) i = of_nat (b ^ i)"
  by (induction i) simp_all

text \<open>A string of digits of a base, and the values of its characters.\<close>

definition digit_string :: "nat \<Rightarrow> byte list \<Rightarrow> nat list \<Rightarrow> bool" where
  "digit_string b s ds \<longleftrightarrow>
     list_all2 (\<lambda>c d. d < b \<and> strtoul_digit c = Some (of_nat d)) s ds"

lemma strtoul_loop_step:
  assumes "strtoul_digit (m p) = Some (of_nat d)" and "d < b" and "b \<le> 16"
  shows "strtoul_loop m (int b) p v (Suc i) =
    strtoul_loop m (int b) (p + 1) (v + of_nat (b ^ i * d)) i"
proof -
  have d: "unat (of_nat d :: byte) = d" using assms by (simp add: unat_of_nat_less)
  then have "uint (of_nat d :: byte) = int d" by (metis uint_nat)
  moreover have "(ucast (of_nat d :: byte) :: u32) = of_nat d"
    using d by (metis of_nat_unat)
  ultimately show ?thesis using assms by (simp add: pow_of_nat)
qed

lemma strtoul_loop_digits:
  assumes "b \<le> 16"
  shows "digit_string b s ds \<Longrightarrow> (\<forall>i<length s. m (p + of_nat i) = s ! i) \<Longrightarrow>
    strtoul_loop m (int b) p v (length s + k) =
    strtoul_loop m (int b) (p + of_nat (length s)) (v + of_nat (digits_value b ds * b ^ k)) k"
proof (induction s arbitrary: ds p v)
  case Nil
  then show ?case by (simp add: digit_string_def digits_value_def)
next
  case (Cons c s)
  from Cons.prems obtain d ds' where ds: "ds = d # ds'" and d: "d < b"
    and c: "strtoul_digit c = Some (of_nat d)" and s: "digit_string b s ds'"
    by (auto simp: digit_string_def list_all2_Cons1)
  have "m p = c" using Cons.prems(2) by force
  moreover have "\<forall>i<length s. m (p + 1 + of_nat i) = s ! i"
    using Cons.prems(2) by (auto simp: add.assoc dest: spec [of _ "Suc _"])
  moreover have "length s = length ds'" using s by (simp add: digit_string_def list_all2_lengthD)
  ultimately show ?case
    using strtoul_loop_step [of m p d b v "length s + k"] c d assms Cons.IH [OF s]
    by (simp add: ds digits_value_Cons algebra_simps power_add)
qed

lemma nat_sint_of_nat: "n < 2 ^ 31 \<Longrightarrow> nat (sint (of_nat n :: u32)) = n"
  by (simp add: signed_of_nat signed_take_bit_int_eq_self)

lemma strtoul_digits:
  assumes "cstr m p s" and "digit_string b s ds" and "b \<le> 16" and "length s < 2 ^ 31"
  shows "strtoul m p (int b) = Some (of_nat (digits_value b ds), p + of_nat (length s))"
  using strtoul_loop_digits [OF assms(3,2), of m p 0 0] cstr_nth [OF assms(1)]
  by (simp add: strtoul_def strlen_cstr [OF assms(1)] nat_sint_of_nat [OF assms(4)])

text \<open>The first character that is not a digit of the base ends the scan with value 0.\<close>

lemma strtoul_bad_digit:
  assumes "cstr m p (s @ c # t)" and "digit_string b s ds" and "b \<le> 16"
    and "\<And>d. strtoul_digit c = Some d \<Longrightarrow> int b \<le> uint d" and "length (s @ c # t) < 2 ^ 31"
  shows "strtoul m p (int b) = Some (0, p + of_nat (length s) + 1)"
proof -
  have nth: "\<forall>i<length s. m (p + of_nat i) = s ! i" and c: "m (p + of_nat (length s)) = c"
    using assms(1) by (simp_all add: cstr_append)
  have "strtoul_loop m (int b) p 0 (length s + Suc (length t)) = (0, p + of_nat (length s) + 1)"
    using strtoul_loop_digits [OF assms(3,2) nth, of 0 "Suc (length t)"] c assms(4)
    by (fastforce split: option.splits)
  then show ?thesis
    using nat_sint_of_nat [OF assms(5)] by (simp add: strtoul_def strlen_cstr [OF assms(1)])
qed

lemma strtoul_itoa_digit: "d < 16 \<Longrightarrow> strtoul_digit (itoa_digit (of_nat d)) = Some (of_nat d)"
proof -
  have "\<forall>d\<in>set [0..<16]. strtoul_digit (itoa_digit (of_nat d)) = Some (of_nat d)" by code_simp
  then show "d < 16 \<Longrightarrow> strtoul_digit (itoa_digit (of_nat d)) = Some (of_nat d)" by simp
qed

lemma numeral_digit_string:
  assumes "b \<le> 16" and "0 < v"
  shows "digit_string b (numeral_bytes b v) (digits b v)"
proof -
  have "d < 16" if "d \<in> set (digits b v)" for d
    using digits_less [OF that] assms(1) by linarith
  then show ?thesis
    using assms digits_less [of _ b v]
    by (auto simp: digit_string_def numeral_bytes_def list_all2_map1 list_all2_same
        intro!: strtoul_itoa_digit)
qed

text \<open>Reading back what \<open>itoa\<close> printed, in every base that \<open>strtoul\<close> knows.\<close>

lemma strtoul_itoa:
  assumes "2 \<le> base" and "base \<le> 16" and "v \<noteq> 0"
  obtains m' where "itoa m v str base = Some (m', str)"
    and "strtoul m' str (uint base) =
      Some (v, str + of_nat (length (numeral_bytes (unat base) (unat v))))"
proof -
  have b: "2 \<le> unat base" "unat base \<le> 16"
    using assms(1,2) by (simp_all add: word_le_nat_alt)
  have v: "0 < unat v" using assms(3) by (simp add: unat_gt_0)
  have le: "base \<le> 36" using assms(2) by (rule order_trans) simp
  have len: "length (numeral_bytes (unat base) (unat v)) < 2 ^ 31"
    using numeral_bytes_length [OF b(1), of "unat v" 32] unat_lt_exp [of v] by simp
  from itoa_cstr [OF assms(1) le assms(3), of m str] obtain m' where
    m': "itoa m v str base = Some (m', str)" "cstr m' str (numeral_bytes (unat base) (unat v))" .
  show thesis
    using that m'(1) strtoul_digits [OF m'(2) numeral_digit_string [OF b(2) v] b(2) len]
    by (simp add: digits_value_digits [OF b(1)])
qed

section \<open>Network byte order\<close>

lemma low_byte_mask: "(0xff :: u16) = mask 8"
  by (simp add: mask_eq_exp_minus_1)

lemma htons_htons [simp]: "htons (htons x) = x"
proof (rule bit_eqI)
  show "bit (htons (htons x)) n = bit x n" if "possible_bit TYPE(u16) n" for n
    using that unfolding htons_def low_byte_mask by (cases "n < 8") (auto simp: bit_simps)
qed

text \<open>The two bytes change places, so the low address holds the high byte of the host value.\<close>

lemma htons_bytes:
  "(ucast (htons x) :: byte) = ucast (drop_bit 8 x)"
  "(ucast (drop_bit 8 (htons x)) :: byte) = ucast x"
  unfolding htons_def low_byte_mask by (rule bit_eqI; auto simp: bit_simps)+

section \<open>Dotted decimal addresses\<close>

declare inet_aton_octet.simps [simp del]

lemma inet_aton_octet_scan:
  assumes "m (host + j + of_nat (length g)) \<in> {0, 46}"
  shows "\<forall>i<length g. m (host + j + of_nat i) = g ! i \<Longrightarrow> set g \<inter> {0, 46} = {} \<Longrightarrow>
    length pre + length g \<le> 4 \<Longrightarrow> length (pre @ post) = 4 \<Longrightarrow>
    inet_aton_octet m host j (pre @ post) (length pre) =
    Some (j + of_nat (length g), pre @ g @ drop (length g) post, length pre + length g)"
  using assms
proof (induction g arbitrary: j pre post)
  case Nil
  then show ?case by (subst inet_aton_octet.simps) auto
next
  case (Cons c g)
  from Cons.prems(3,4) obtain x post' where post: "post = x # post'" by (cases post) auto
  have c: "m (host + j) = c" using Cons.prems(1) by force
  have "\<forall>i<length g. m (host + (j + 1) + of_nat i) = g ! i"
    using Cons.prems(1) by (auto simp: add.assoc dest: spec [of _ "Suc _"])
  moreover have "m (host + (j + 1) + of_nat (length g)) \<in> {0, 46}"
    using Cons.prems(5) by (simp add: add.assoc)
  ultimately have "inet_aton_octet m host (j + 1) ((pre @ [c]) @ post') (length (pre @ [c])) =
    Some (j + 1 + of_nat (length g), (pre @ [c]) @ g @ drop (length g) post',
      length (pre @ [c]) + length g)"
    using Cons.prems post by (intro Cons.IH) auto
  then show ?case
    using c Cons.prems(2,3) by (subst inet_aton_octet.simps) (auto simp: post add.assoc)
qed

lemma local_mem_cstr: "length (g @ 0 # r) < 2 ^ 32 \<Longrightarrow> 0 \<notin> set g \<Longrightarrow> cstr (local_mem (g @ 0 # r)) 0 g"
  by (auto simp: cstr_iff local_mem_def unat_of_nat_less nth_append)

lemma ucast_of_nat_byte [simp]: "(ucast (of_nat n :: u32) :: byte) = of_nat n"
  by (simp add: unsigned_of_nat word_of_nat_eq_iff)

lemma strtoul_digit_chars [simp]: "strtoul_digit 0 = None" "strtoul_digit 46 = None"
  by (simp_all add: strtoul_digit_def)

lemma digit_string_chars: "digit_string b s ds \<Longrightarrow> set s \<inter> {0, 46} = {}"
  unfolding digit_string_def by (induction rule: list_all2_induct) auto

text \<open>One group of at most three digits, with what follows it.\<close>

lemma inet_aton_group:
  assumes g: "digit_string 10 g ds" and "length g \<le> 3" and "length oct = 4"
    and at: "\<forall>i<length g. m (host + j + of_nat i) = g ! i"
    and e: "m (host + j + of_nat (length g)) = e" "e = 46 \<or> e = 0 \<and> k = 0"
    and go: "m (host + (j + of_nat (length g) + 1)) \<noteq> 0 \<or> k = 0"
  obtains oct' where "length oct' = 4"
    and "inet_aton_loop m host j oct 0 s_addr (Suc k) =
      inet_aton_loop m host (j + of_nat (length g) + 1) oct' 0
        (s_addr[3 - k := of_nat (digits_value 10 ds)]) k"
proof -
  let ?oct = "g @ 0 # drop (Suc (length g)) oct"
  have chars: "set g \<inter> {0, 46} = {}" using digit_string_chars [OF g] .
  have "inet_aton_octet m host j ([] @ oct) (length ([] :: byte list)) =
    Some (j + of_nat (length g), [] @ g @ drop (length g) oct, length ([] :: byte list) + length g)"
    using e assms(2,3) at chars by (intro inet_aton_octet_scan) auto
  then have scan: "inet_aton_octet m host j oct 0 =
    Some (j + of_nat (length g), g @ drop (length g) oct, length g)" by simp
  have upd: "(g @ drop (length g) oct)[length g := 0] = ?oct"
    using assms(2,3) by (cases "drop (length g) oct")
      (auto simp: list_update_append drop_Suc simp flip: tl_drop drop_drop)
  have len: "length ?oct = 4" using assms(2,3) by simp
  have "strtoul (local_mem ?oct) 0 (int 10) = Some (of_nat (digits_value 10 ds), 0 + of_nat (length g))"
    using len chars assms(2) by (intro strtoul_digits [OF local_mem_cstr g]) auto
  then have val: "strtoul (local_mem ?oct) 0 10 = Some (of_nat (digits_value 10 ds), of_nat (length g))"
    by simp
  show thesis
    by (rule that [OF len]) (use e go assms(2) scan upd val in \<open>auto simp: add.assoc Let_def\<close>)
qed

declare inet_aton_loop.simps(2) [simp del]

text \<open>The text of an address: its groups, separated by dots.\<close>

fun dotted :: "byte list list \<Rightarrow> byte list" where
  "dotted [] = []"
| "dotted [g] = g"
| "dotted (g # gs) = g @ 46 # dotted gs"

lemma dotted_Cons: "gs \<noteq> [] \<Longrightarrow> dotted (g # gs) = g @ 46 # dotted gs"
  by (cases gs) auto

lemma inet_aton_loop_dotted:
  "cstr m (p + j) (dotted gs) \<Longrightarrow> list_all2 (digit_string 10) gs dss \<Longrightarrow>
    \<forall>g\<in>set gs. g \<noteq> [] \<and> length g \<le> 3 \<Longrightarrow> length oct = 4 \<Longrightarrow> length gs \<le> 4 \<Longrightarrow> length s_addr = 4 \<Longrightarrow>
    inet_aton_loop m p j oct 0 s_addr (length gs) =
    Some (1, take (4 - length gs) s_addr @ map (\<lambda>ds. of_nat (digits_value 10 ds)) dss)"
proof (induction gs arbitrary: j dss oct s_addr)
  case (Cons g gs)
  from Cons.prems(2) obtain ds dss' where dss: "dss = ds # dss'" and g: "digit_string 10 g ds"
    and gs: "list_all2 (digit_string 10) gs dss'" by (auto simp: list_all2_Cons1)
  have l: "length g \<le> 3" using Cons.prems(3) by simp
  let ?e = "if gs = [] then 0 else 46 :: byte" and ?j = "j + of_nat (length g) + 1"
  have at: "\<forall>i<length g. m (p + j + of_nat i) = g ! i" and e: "m (p + j + of_nat (length g)) = ?e"
    using Cons.prems(1) cstr_nth [OF Cons.prems(1)] cstr_end [OF Cons.prems(1)]
    by (cases "gs = []"; simp add: dotted_Cons cstr_append)+
  have next_group: "cstr m (p + ?j) (dotted gs)" if "gs \<noteq> []"
    using Cons.prems(1) that by (simp add: dotted_Cons cstr_append add.assoc)
  have "dotted gs \<noteq> []" if "gs \<noteq> []"
    using that Cons.prems(3) by (cases gs; cases "tl gs") auto
  then have go: "m (p + ?j) \<noteq> 0 \<or> length gs = 0"
    using next_group by (cases "dotted gs") auto
  have ek: "?e = 46 \<or> ?e = 0 \<and> length gs = 0" by simp
  obtain oct' where "length oct' = 4" and step: "inet_aton_loop m p j oct 0 s_addr (Suc (length gs)) =
      inet_aton_loop m p ?j oct' 0 (s_addr[3 - length gs := of_nat (digits_value 10 ds)]) (length gs)"
    using inet_aton_group [OF g l Cons.prems(4) at e ek go] by blast
  show ?case
  proof (cases "gs = []")
    case True
    then have "dss' = []" using gs by simp
    moreover have "s_addr[3 := x] = take 3 s_addr @ [x]" for x
      using Cons.prems(6) by (simp add: list_eq_iff_nth_eq nth_append nth_list_update)
    ultimately show ?thesis using True step by (simp add: dss)
  next
    case False
    have "take (4 - length gs) (s_addr[3 - length gs := of_nat (digits_value 10 ds)]) =
      take (3 - length gs) s_addr @ [of_nat (digits_value 10 ds)]"
      using Cons.prems(5,6) take_Suc_conv_app_nth [of "3 - length gs" "s_addr[3 - length gs := of_nat (digits_value 10 ds)]"]
        Suc_diff_le [of "length gs" 3] by simp
    with Cons.IH [OF next_group [OF False] gs] Cons.prems(3,5,6) \<open>length oct' = 4\<close> step
    show ?thesis by (simp add: dss)
  qed
qed simp

lemma inet_aton_dotted:
  assumes "cstr m p (dotted gs)" and "length gs = 4" and "list_all2 (digit_string 10) gs dss"
    and "\<And>g. g \<in> set gs \<Longrightarrow> g \<noteq> [] \<and> length g \<le> 3" and "length s_addr = 4"
  shows "inet_aton m p s_addr = Some (1, map (\<lambda>ds. of_nat (digits_value 10 ds)) dss)"
  using inet_aton_loop_dotted [of m p 0 gs dss "[0, 0, 0, 0]" s_addr] assms
  by (simp add: inet_aton_def)

text \<open>Printing the four bytes of an address in decimal and parsing the text gives them back.\<close>

lemma digits_length_base: "2 \<le> b \<Longrightarrow> v < b ^ k \<Longrightarrow> length (digits b v) \<le> k"
proof (induction k arbitrary: v)
  case (Suc k)
  show ?case
  proof (cases "v = 0")
    case False
    have "v div b < b ^ k" using Suc.prems by (simp add: less_mult_imp_div_less mult.commute)
    with Suc False show ?thesis by (simp add: digits_step)
  qed simp
qed simp

lemma numeral_bytes_octet:
  "digit_string 10 (numeral_bytes 10 (unat (b :: byte))) (if b = 0 then [0] else digits 10 (unat b))"
  "numeral_bytes 10 (unat b) \<noteq> []" "length (numeral_bytes 10 (unat b)) \<le> 3"
  "digits_value 10 (if b = 0 then [0] else digits 10 (unat b)) = unat b"
proof -
  have "strtoul_digit 48 = Some 0" by code_simp
  then show "digit_string 10 (numeral_bytes 10 (unat b)) (if b = 0 then [0] else digits 10 (unat b))"
    using numeral_digit_string [of 10 "unat b"]
    by (auto simp: unat_gt_0 numeral_bytes_def digit_string_def)
  show "digits_value 10 (if b = 0 then [0] else digits 10 (unat b)) = unat b"
    using digits_value_digits [of 10 "unat b"] by (auto simp: digits_value_def)
  show "numeral_bytes 10 (unat b) \<noteq> []"
    using digits_nonempty [of "unat b" 10] by (auto simp: numeral_bytes_def unat_gt_0)
  show "length (numeral_bytes 10 (unat b)) \<le> 3"
    using digits_length_base [of 10 "unat b" 3] unat_lt_exp [of b]
    by (simp add: numeral_bytes_def)
qed

lemma inet_aton_print:
  assumes "cstr m p (dotted (map (\<lambda>b. numeral_bytes 10 (unat b)) bs))"
    and "length bs = 4" and "length s_addr = 4"
  shows "inet_aton m p s_addr = Some (1, bs)"
proof -
  let ?ds = "\<lambda>b :: byte. if b = 0 then [0] else digits 10 (unat b)"
  have v: "(of_nat (digits_value 10 (?ds b)) :: byte) = b" for b
    using numeral_bytes_octet(4) [of b] by simp
  have d: "list_all2 (digit_string 10) (map (\<lambda>b. numeral_bytes 10 (unat b)) bs) (map ?ds bs)"
    unfolding list_all2_map1 list_all2_map2 list_all2_same using numeral_bytes_octet(1) by blast
  have l: "g \<noteq> [] \<and> length g \<le> 3" if "g \<in> set (map (\<lambda>b. numeral_bytes 10 (unat b)) bs)" for g
    using that numeral_bytes_octet(2,3) by auto
  from assms(2) have "length (map (\<lambda>b. numeral_bytes 10 (unat b)) bs) = 4" by simp
  from inet_aton_dotted [OF assms(1) this d l assms(3)] show ?thesis by (simp add: v comp_def)
qed
end
