(* ===== verification/Monitor.thy ===== *)
theory Monitor
  imports Vga Libc_Num "HOL-Library.Signed_Division"
begin

text \<open>
  The text screen, \<open>src/drivers/monitor_text_mode.c\<close>: a buffer of 40 rows of 80 characters with their colours, a
  position in it, scrolling, and the escape sequences that move the position and change the colours. The
  position is a pair of 32-bit words that wrap around, so that an access may fall outside of the buffer; such
  an access has no defined result.
\<close>

definition ENDL :: byte where "ENDL = 0x0a"
definition BACKSPACE :: int where "BACKSPACE = 0x08"
definition CARRIAGE_RETURN :: int where "CARRIAGE_RETURN = 0x0d"
definition ESC :: int where "ESC = 0x1b"
definition EMPTY_SPACE :: byte where "EMPTY_SPACE = 0x20"
definition BLACK :: byte where "BLACK = 0"
definition WHITE :: byte where "WHITE = 7"
definition default_color :: byte where "default_color = 7"

section \<open>The buffer\<close>

text \<open>A character and the code of its colours.\<close>

type_synonym single_char = "byte \<times> byte"

record screen =
  current_row_position :: u32
  current_column_position :: u32
  scrollable_area_top :: int
  scrollable_area_bottom :: int
  current_color_code :: byte
  chars :: "single_char list list"
  display :: vga
  escape_sequence :: "byte list"
  escape_sequence_position :: nat

definition W :: u32 where "W = of_nat BUFFER_WIDTH"
definition H :: u32 where "H = of_nat BUFFER_HEIGHT"

definition get_char :: "screen \<Rightarrow> u32 \<Rightarrow> u32 \<Rightarrow> single_char option" where
  "get_char s i j = (if i < H \<and> j < W then Some (chars s ! unat i ! unat j) else None)"

definition put_char :: "screen \<Rightarrow> u32 \<Rightarrow> u32 \<Rightarrow> single_char \<Rightarrow> screen option" where
  "put_char s i j c =
     (if i < H \<and> j < W
      then Some (s\<lparr>chars := (chars s)[unat i := (chars s ! unat i)[unat j := c]]\<rparr>)
      else None)"

definition draw :: "screen \<Rightarrow> single_char \<Rightarrow> u32 \<Rightarrow> u32 \<Rightarrow> screen" where
  "draw s c i j = s\<lparr>display := vga_put_byte_encoded_color_letter (display s) (fst c) i j (snd c)\<rparr>"

text \<open>A character of the buffer is replaced and drawn.\<close>

definition set_char :: "screen \<Rightarrow> u32 \<Rightarrow> u32 \<Rightarrow> single_char \<Rightarrow> screen option" where
  "set_char s i j c = do { s \<leftarrow> put_char s i j c; Some (draw s c i j) }"

section \<open>Moving the position\<close>

definition move_buffer_position_up :: "screen \<Rightarrow> screen" where
  "move_buffer_position_up s =
     (if current_row_position s \<noteq> 0 then s\<lparr>current_row_position := current_row_position s - 1\<rparr> else s)"

definition move_buffer_position_dn :: "screen \<Rightarrow> screen" where
  "move_buffer_position_dn s =
     (if current_row_position s < H - 1 then s\<lparr>current_row_position := current_row_position s + 1\<rparr> else s)"

definition move_buffer_position_left :: "screen \<Rightarrow> screen" where
  "move_buffer_position_left s =
     (if current_column_position s = 0
      then s\<lparr>current_row_position := current_row_position s - 1, current_column_position := W - 1\<rparr>
      else s\<lparr>current_column_position := current_column_position s - 1\<rparr>)"

definition move_buffer_position_right :: "screen \<Rightarrow> screen" where
  "move_buffer_position_right s =
     (if current_column_position s = W - 1
      then s\<lparr>current_row_position := current_row_position s + 1, current_column_position := 0\<rparr>
      else s\<lparr>current_column_position := current_column_position s + 1\<rparr>)"

definition save_char_to_buffer :: "screen \<Rightarrow> byte \<Rightarrow> screen option" where
  "save_char_to_buffer s c =
     put_char s (current_row_position s) (current_column_position s) (c, current_color_code s)"

section \<open>Scrolling\<close>

text \<open>A loop whose body may access the buffer outside of its bounds.\<close>

fun for_all_cells :: "(u32 \<Rightarrow> 's \<Rightarrow> 's option) \<Rightarrow> nat list \<Rightarrow> 's \<Rightarrow> 's option" where
  "for_all_cells f [] s = Some s"
| "for_all_cells f (i # is) s = do { s \<leftarrow> f (of_nat i) s; for_all_cells f is s }"

text \<open>
  Rows \<open>top\<close> to \<open>bottom - 1\<close> get the character \<open>count\<close> rows below. The comparisons of the loop are between
  unsigned and signed operands, which are unsigned; \<open>count\<close> rows are added with wrap-around.
\<close>

definition scroll_up_cell :: "u32 \<Rightarrow> u32 \<Rightarrow> u32 \<Rightarrow> u32 \<Rightarrow> screen \<Rightarrow> screen option" where
  "scroll_up_cell bottom count i j s = do {
     c \<leftarrow> (if bottom < i + count then Some (0, current_color_code s) else get_char s (i + count) j);
     set_char s i j c
   }"

definition scroll_vertical_dir_up :: "screen \<Rightarrow> u32 \<Rightarrow> screen option" where
  "scroll_vertical_dir_up s count = do {
     let first = (word_of_int (scrollable_area_top s) :: u32);
     let bottom = (word_of_int (scrollable_area_bottom s) :: u32);
     s \<leftarrow> for_all_cells (\<lambda>i. for_all_cells (\<lambda>j. scroll_up_cell bottom count i j) [0..<BUFFER_WIDTH])
            [unat first..<unat bottom] s;
     prev \<leftarrow> get_char s (bottom - 1) (W - 1);
     for_all_cells (\<lambda>j s. do {
       s \<leftarrow> put_char s bottom j (0, current_color_code s);
       Some (draw s (0, snd prev) bottom j)
     }) [0..<BUFFER_WIDTH] s
   }"

definition scroll_dn_cell :: "int \<Rightarrow> u32 \<Rightarrow> u32 \<Rightarrow> u32 \<Rightarrow> screen \<Rightarrow> screen option" where
  "scroll_dn_cell first count i j s = do {
     c \<leftarrow> (if sint i - sint count < first then Some (0, current_color_code s) else get_char s (i - count) j);
     set_char s i j c
   }"

definition scroll_vertical_dir_dn :: "screen \<Rightarrow> u32 \<Rightarrow> screen option" where
  "scroll_vertical_dir_dn s count = do {
     let first = (word_of_int (scrollable_area_top s) :: u32);
     let bottom = (word_of_int (scrollable_area_bottom s) :: u32);
     s \<leftarrow> for_all_cells (\<lambda>i. for_all_cells (\<lambda>j. scroll_dn_cell (scrollable_area_top s) count i j) [0..<BUFFER_WIDTH])
            (rev [unat first + 1..<unat bottom + 1]) s;
     prev \<leftarrow> get_char s first (W - 1);
     for_all_cells (\<lambda>j s. do {
       s \<leftarrow> put_char s first j (0, current_color_code s);
       Some (draw s (0, snd prev) first j)
     }) [0..<BUFFER_WIDTH] s
   }"

definition move_start_next_line :: "screen \<Rightarrow> screen option" where
  "move_start_next_line s =
     (if current_row_position s = word_of_int (scrollable_area_bottom s) then scroll_vertical_dir_up s 1
      else Some (s\<lparr>current_row_position := current_row_position s + 1\<rparr>))"

definition next_cell :: "u32 \<Rightarrow> u32 \<Rightarrow> u32 \<times> u32" where
  "next_cell row column = (if column = W - 1 then (row + 1, 0) else (row, column + 1))"

text \<open>The loop of \<open>scroll_horizontal_right\<close>; the first argument counts the cells that are left.\<close>

fun shift_right_loop :: "nat \<Rightarrow> screen \<Rightarrow> u32 \<Rightarrow> u32 \<Rightarrow> single_char \<Rightarrow> screen option" where
  "shift_right_loop 0 s row column next_char = Some s"
| "shift_right_loop (Suc left) s row column next_char =
     (if row \<le> H - 1 \<and> column \<le> W - 1
      then do {
        c \<leftarrow> get_char s row column;
        s \<leftarrow> set_char s row column next_char;
        (if fst c = 0 then Some s
         else (let (row, column) = next_cell row column in shift_right_loop left s row column c))
      }
      else Some s)"

definition scroll_horizontal_right :: "screen \<Rightarrow> u32 \<Rightarrow> u32 \<Rightarrow> screen option" where
  "scroll_horizontal_right s row column = do {
     c \<leftarrow> get_char s row column;
     s \<leftarrow> put_char s row column (EMPTY_SPACE, current_color_code s);
     let (row, column) = next_cell row column;
     shift_right_loop (BUFFER_HEIGHT * BUFFER_WIDTH) s row column c
   }"

text \<open>The loop of \<open>scroll_horizontal_right_no_wrap\<close>, from the last column down; \<open>got_endl\<close> is part of the state.\<close>

definition shift_right_no_wrap_cell :: "u32 \<Rightarrow> u32 \<Rightarrow> screen \<times> bool \<Rightarrow> (screen \<times> bool) option" where
  "shift_right_no_wrap_cell row i st = do {
     let (s, got_endl) = st;
     c \<leftarrow> get_char s row (i - 1);
     let got_endl = (got_endl \<or> fst c = ENDL);
     s \<leftarrow> set_char s row i (if got_endl then c else (EMPTY_SPACE, default_color));
     Some (s, got_endl)
   }"

definition scroll_horizontal_right_no_wrap :: "screen \<Rightarrow> screen option" where
  "scroll_horizontal_right_no_wrap s = do {
     let row = current_row_position s;
     let col = current_column_position s;
     (s, _) \<leftarrow> for_all_cells (shift_right_no_wrap_cell row) (rev [unat col + 1..<BUFFER_WIDTH]) (s, False);
     set_char s row col (EMPTY_SPACE, default_color)
   }"

definition shift_left_cell :: "u32 \<Rightarrow> u32 \<Rightarrow> screen \<Rightarrow> screen option" where
  "shift_left_cell i j s = do {
     c \<leftarrow> (if i = H - 1 \<and> j = W then Some (0, default_color)
          else if j = W then do {
            c \<leftarrow> get_char s (i + 1) 0;
            Some (if fst c = ENDL then (0, snd c) else c)
          }
          else get_char s i j);
     set_char s i (j - 1) c
   }"

definition scroll_horizontal_left :: "screen \<Rightarrow> u32 \<Rightarrow> u32 \<Rightarrow> screen option" where
  "scroll_horizontal_left s row column =
     for_all_cells (\<lambda>i. for_all_cells (shift_left_cell i)
       [unat ((if i = row then column else 0) + 1)..<BUFFER_WIDTH + 1]) [unat row..<BUFFER_HEIGHT] s"

definition scroll_horizontal_left_no_wrap :: "screen \<Rightarrow> screen option" where
  "scroll_horizontal_left_no_wrap s = do {
     let row = current_row_position s;
     require (0 \<le> sint (current_column_position s));
     s \<leftarrow> for_all_cells (\<lambda>i s. do { c \<leftarrow> get_char s row (i + 1); set_char s row i c })
            [unat (current_column_position s)..<BUFFER_WIDTH - 1] s;
     s \<leftarrow> put_char s row (W - 1) (0, default_color);
     Some (draw s (EMPTY_SPACE, default_color) row (W - 1))
   }"

section \<open>Writing characters\<close>

definition write_new_line :: "screen \<Rightarrow> screen option" where
  "write_new_line s = do {
     s \<leftarrow> save_char_to_buffer s ENDL;
     s \<leftarrow> (if current_row_position s = word_of_int (scrollable_area_bottom s) then scroll_vertical_dir_up s 1
          else Some (s\<lparr>current_row_position := current_row_position s + 1\<rparr>));
     Some (s\<lparr>current_column_position := 0\<rparr>)
   }"

definition write_with_line_overflow_if_needed :: "screen \<Rightarrow> byte \<Rightarrow> screen option" where
  "write_with_line_overflow_if_needed s c = do {
     s \<leftarrow> save_char_to_buffer s c;
     let s = draw s (c, current_color_code s) (current_row_position s) (current_column_position s);
     (if current_column_position s + 1 = W then write_new_line s
      else Some (s\<lparr>current_column_position := current_column_position s + 1\<rparr>))
   }"

section \<open>Escape sequences\<close>

definition set_color :: "screen \<Rightarrow> int option \<Rightarrow> int option \<Rightarrow> screen" where
  "set_color s fg bg = (case fg of
     None \<Rightarrow> s
   | Some f \<Rightarrow>
       if f = 0
       then s\<lparr>current_color_code := set_foreground_color
         (set_background_color (current_color_code s) BLACK False) WHITE False\<rparr>
       else
         (let code = set_foreground_color (current_color_code s) (word_of_int (f smod 10)) (90 \<le> f);
              code = (case bg of Some b \<Rightarrow> set_background_color code (word_of_int (b smod 10)) (100 \<le> b) | None \<Rightarrow> code);
              code = (if f = 39 then set_foreground_color code WHITE False else code);
              code = (if bg = Some 49 then set_background_color code BLACK False else code)
          in s\<lparr>current_color_code := code\<rparr>))"

definition or_one :: "int option \<Rightarrow> int" where
  "or_one p = (case p of Some v \<Rightarrow> v | None \<Rightarrow> 1)"

definition move_cursor_absolute :: "screen \<Rightarrow> int option \<Rightarrow> int option \<Rightarrow> screen" where
  "move_cursor_absolute s left right =
     s\<lparr>current_row_position := word_of_int (or_one left - 1), current_column_position := word_of_int (or_one right - 1)\<rparr>"

definition define_scrolling_area :: "screen \<Rightarrow> int option \<Rightarrow> int option \<Rightarrow> screen" where
  "define_scrolling_area s left right = (case (left, right) of
     (Some l, Some r) \<Rightarrow> s\<lparr>scrollable_area_top := l - 1, scrollable_area_bottom := r - 1\<rparr>
   | _ \<Rightarrow> s)"

definition clear_screen :: "screen \<Rightarrow> screen" where
  "clear_screen s = s\<lparr>chars := replicate BUFFER_HEIGHT (replicate BUFFER_WIDTH (0, 0)),
     display := vga_clr_all (display s)\<rparr>"

text \<open>
  The sequence is read as a C string from the array of ten bytes; without a final NUL it is read beyond the
  array. A parameter is copied to an array of four bytes: a longer one, or a negative length, overruns it.
\<close>

definition span_until :: "byte list \<Rightarrow> byte list \<Rightarrow> nat option" where
  "span_until stop seq =
     (if 0 \<in> set seq \<or> (\<exists>c\<in>set seq. c \<in> set stop) then Some (length (takeWhile (\<lambda>c. c \<noteq> 0 \<and> c \<notin> set stop) seq)) else None)"

definition param_value :: "byte list \<Rightarrow> nat \<Rightarrow> nat \<Rightarrow> int option" where
  "param_value seq start stop =
     (if start \<le> stop \<and> stop - start \<le> 3
      then map_option (\<lambda>r. sint (fst r)) (strtoul (local_mem (take (stop - start) (drop start seq))) 0 10)
      else None)"

definition parse_arguments :: "byte \<Rightarrow> byte list \<Rightarrow> (int option \<times> int option) option" where
  "parse_arguments c seq = do {
     param_splitter \<leftarrow> span_until (cs ''; '') seq;
     action_code \<leftarrow> span_until [c] seq;
     require (param_splitter + 1 < length seq);
     (if seq ! (param_splitter + 1) \<noteq> 0
      then do {
        l \<leftarrow> param_value seq 2 param_splitter;
        r \<leftarrow> param_value seq (param_splitter + 1) action_code;
        Some (Some l, Some r)
      }
      else if 2 < action_code
      then do { l \<leftarrow> param_value seq 2 action_code; Some (Some l, None) }
      else Some (None, None))
   }"

definition run_escape :: "screen \<Rightarrow> char \<Rightarrow> int option \<Rightarrow> int option \<Rightarrow> screen option" where
  "run_escape s c left right =
     (if c = CHR ''m'' then Some (set_color s left right)
      else if c = CHR ''A'' then Some (move_buffer_position_up s)
      else if c = CHR ''B'' then Some (move_buffer_position_dn s)
      else if c = CHR ''C'' then Some (move_buffer_position_right s)
      else if c = CHR ''D'' then Some (move_buffer_position_left s)
      else if c = CHR ''E'' then move_start_next_line s
      else if c = CHR ''H'' then Some (move_cursor_absolute s left right)
      else if c = CHR ''S'' then scroll_vertical_dir_up s (word_of_int (or_one left))
      else if c = CHR ''T'' then scroll_vertical_dir_dn s (word_of_int (or_one left))
      else if c = CHR ''J'' \<and> left = Some 2 then Some (clear_screen s)
      else if c = CHR ''G'' \<and> left \<noteq> None
      then Some (s\<lparr>current_column_position := word_of_int (or_one left - 1)\<rparr>)
      else if c = CHR ''r'' then Some (define_scrolling_area s left right)
      else if c = CHR ''q'' \<and> left \<noteq> None
      then Some (s\<lparr>display := vga_change_cursor_shape (display s) (or_one left)\<rparr>)
      else if c = CHR ''@'' then scroll_horizontal_right_no_wrap s
      else if c = CHR ''P'' then scroll_horizontal_left_no_wrap s
      else Some s)"

definition update_cursor :: "screen \<Rightarrow> screen" where
  "update_cursor s = s\<lparr>display :=
     vga_update_cursor_position (display s) (current_row_position s) (current_column_position s)\<rparr>"

definition clr_cursor :: "screen \<Rightarrow> screen" where
  "clr_cursor s = s\<lparr>display := vga_clr_cursor (display s)\<rparr>"

definition handle_escape_sequence :: "screen \<Rightarrow> int \<Rightarrow> (screen \<times> int) option" where
  "handle_escape_sequence s c =
     (if escape_sequence_position s = 10 then Some (s\<lparr>escape_sequence_position := 0\<rparr>, 1)
      else (let s = s\<lparr>escape_sequence := (escape_sequence s)[escape_sequence_position s := word_of_int c]\<rparr>
            in if \<not> isalpha c \<and> c \<noteq> 64
               then Some (s\<lparr>escape_sequence_position := escape_sequence_position s + 1\<rparr>, 0)
               else do {
                 (left, right) \<leftarrow> parse_arguments (word_of_int c) (escape_sequence s);
                 s \<leftarrow> run_escape (clr_cursor s) (char_of c) left right;
                 Some (update_cursor (s\<lparr>escape_sequence_position := 0, escape_sequence := replicate 10 0\<rparr>), 0)
               }))"

section \<open>The entry points\<close>

definition monitor_tm_write_byte :: "screen \<Rightarrow> int \<Rightarrow> screen option" where
  "monitor_tm_write_byte s c =
     (if escape_sequence_position s \<noteq> 0 \<or> c = ESC then map_option fst (handle_escape_sequence s c)
      else do {
        let s = clr_cursor s;
        s \<leftarrow> (if c = uint ENDL then write_new_line s
             else if c = BACKSPACE
             then (let s = move_buffer_position_left s
                   in scroll_horizontal_left s (current_row_position s) (current_column_position s))
             else if c = CARRIAGE_RETURN then Some (s\<lparr>current_column_position := 0\<rparr>)
             else write_with_line_overflow_if_needed s (word_of_int c));
        Some (update_cursor s)
      })"

definition monitor_tm_insert_byte :: "screen \<Rightarrow> int \<Rightarrow> screen option" where
  "monitor_tm_insert_byte s c = do {
     s \<leftarrow> scroll_horizontal_right s (current_row_position s) (current_column_position s);
     monitor_tm_write_byte s c
   }"

end
