(* ===== verification/Tty.thy ===== *)
theory Tty
  imports Monitor Vfs
begin

text \<open>
  The terminal, \<open>src/kernel/tty.c\<close>: bytes that a process writes go to the screen and to the serial line; the
  keyboard interrupt edits a line buffer, echoes, sends signals and wakes up the reader. The serial line is the
  list of what was given to \<open>uart_putc\<close>. The static variables of the file are members of \<open>tty\<close>. \<open>tty_read\<close> is its two
  halves, before and after the wait for a line; each test of \<open>tty_is_ready\<close> that fails is one context switch.
\<close>

definition ETX :: int where "ETX = 0x03"
definition ICH :: int where "ICH = 0x1b5b40"
definition DCH :: int where "DCH = 0x1b5b50"
definition ARROW_UP :: int where "ARROW_UP = 0x1b5b41"
definition ARROW_DOWN :: int where "ARROW_DOWN = 0x1b5b42"
definition ARROW_RIGHT :: int where "ARROW_RIGHT = 0x1b5b43"
definition ARROW_LEFT :: int where "ARROW_LEFT = 0x1b5b44"

record tty =
  vga_enabled :: bool
  uart_enabled :: bool
  monitor :: screen
  uart_out :: "int list"
  tty_kernel :: kernel
  read_wait :: addr
  fg_pgid :: int
  line_buffer :: "byte list"
  buffer_final_length :: int
  buffer_current_position :: int
  tty_echo_on :: bool
  tty_canonical_mode :: bool
  character_present :: bool
  newline_present :: bool
  key_sequence :: "byte list"
  key_sequence_position :: nat

section \<open>Output\<close>

definition uart_putc :: "tty \<Rightarrow> int \<Rightarrow> tty" where
  "uart_putc t c = t\<lparr>uart_out := uart_out t @ [c]\<rparr>"

definition write_byte :: "tty \<Rightarrow> int \<Rightarrow> tty option" where
  "write_byte t c = do {
     t \<leftarrow> (if vga_enabled t
          then do { s \<leftarrow> monitor_tm_write_byte (monitor t) c; Some (t\<lparr>monitor := s\<rparr>) }
          else Some t);
     Some (if uart_enabled t
           then (if c = BACKSPACE then uart_putc (uart_putc t ARROW_LEFT) DCH else uart_putc t c)
           else t)
   }"

definition insert_byte :: "tty \<Rightarrow> int \<Rightarrow> tty option" where
  "insert_byte t c = do {
     t \<leftarrow> (if vga_enabled t
          then do { s \<leftarrow> monitor_tm_insert_byte (monitor t) c; Some (t\<lparr>monitor := s\<rparr>) }
          else Some t);
     Some (if uart_enabled t then uart_putc (uart_putc t ICH) c else t)
   }"

definition tty_echo :: "tty \<Rightarrow> int \<Rightarrow> tty option" where
  "tty_echo t c = (if \<not> tty_echo_on t then Some t else write_byte t c)"

fun tty_echo_all :: "tty \<Rightarrow> int list \<Rightarrow> tty option" where
  "tty_echo_all t [] = Some t"
| "tty_echo_all t (c # cs') = do { t \<leftarrow> tty_echo t c; tty_echo_all t cs' }"

text \<open>The loop of \<open>printk\<close> and \<open>tty_write\<close>.\<close>

definition write_bytes :: "tty \<Rightarrow> byte list \<Rightarrow> tty option" where
  "write_bytes t bs = for_each (\<lambda>b t. write_byte t (uint b)) bs t"

definition printk :: "tty \<Rightarrow> addr \<Rightarrow> (tty \<times> int) option" where
  "printk t buf = do {
     let m = memory_k (tty_kernel t);
     count \<leftarrow> strlen m buf;
     t \<leftarrow> write_bytes t (map (\<lambda>i. m (buf + of_nat i)) [0..<unat count]);
     Some (t, sint count)
   }"

definition tty_write :: "tty \<Rightarrow> addr \<Rightarrow> u32 \<Rightarrow> (tty \<times> int) option" where
  "tty_write t buf count = do {
     t \<leftarrow> write_bytes t (map (\<lambda>i. memory_k (tty_kernel t) (buf + of_nat i)) [0..<unat count]);
     Some (t, sint count)
   }"

section \<open>The line buffer\<close>

definition insert_and_shift :: "byte list \<Rightarrow> byte \<Rightarrow> int \<Rightarrow> int \<Rightarrow> byte list option" where
  "insert_and_shift buf c pos_insert len = do {
     require (0 \<le> pos_insert \<and> nat pos_insert < length buf);
     r \<leftarrow> for_each (\<lambda>temp st. do {
            let (buf, current_char) = st;
            require (temp < length buf);
            Some (buf[temp := current_char], buf ! temp)
          }) [nat pos_insert + 1..<nat len] (buf[nat pos_insert := c], buf ! nat pos_insert);
     Some (fst r)
   }"

definition delete_and_shift :: "byte list \<Rightarrow> int \<Rightarrow> int \<Rightarrow> byte list option" where
  "delete_and_shift buf pos_delete len =
     (if len \<le> pos_delete then Some buf
      else do {
        require (0 \<le> pos_delete);
        for_each (\<lambda>temp buf. do {
            require (temp + 1 < length buf);
            Some (buf[temp := buf ! (temp + 1)])
          }) [nat pos_delete..<nat len] buf
      })"

text \<open>A key goes into the line buffer at the position, which moves behind it.\<close>

definition insert_key :: "tty \<Rightarrow> int \<Rightarrow> tty option" where
  "insert_key t c = do {
     buf \<leftarrow> insert_and_shift (line_buffer t) (word_of_int c) (buffer_current_position t) (buffer_final_length t + 1);
     Some (t\<lparr>line_buffer := buf\<rparr>)
   }"

definition advance_key :: "tty \<Rightarrow> tty" where
  "advance_key t = t\<lparr>buffer_final_length := buffer_final_length t + 1,
     buffer_current_position := buffer_current_position t + 1\<rparr>"

definition handle_etx_character :: "tty \<Rightarrow> tty option" where
  "handle_etx_character t = do {
     t \<leftarrow> tty_echo_all t [94, 67];
     let k = tty_kernel t;
     wq_top \<leftarrow> top_from_wait_queue k (read_wait t);
     waits \<leftarrow> (if wq_top = PNull then Some False else do { x \<leftarrow> proc_at k wq_top; Some (pgid x = fg_pgid t) });
     (k, wq, process) \<leftarrow> (if waits then pop_from_wait_queue k (read_wait t)
                         else Some (k, read_wait t, scheduler_get_current_process k));
     let t = t\<lparr>tty_kernel := k, read_wait := wq\<rparr>;
     (if process = PNull then Some t
      else do {
        x \<leftarrow> proc_at k process;
        (if pgid x = fg_pgid t
         then do { k \<leftarrow> signal_notify k process SIGINT; Some (t\<lparr>tty_kernel := k\<rparr>) }
         else Some t)
      })
   }"

definition handle_backspace_character :: "tty \<Rightarrow> tty option" where
  "handle_backspace_character t =
     (if buffer_current_position t \<noteq> 0
      then do {
        let t = t\<lparr>buffer_final_length := buffer_final_length t - 1,
                  buffer_current_position := buffer_current_position t - 1\<rparr>;
        buf \<leftarrow> delete_and_shift (line_buffer t) (buffer_current_position t) (buffer_final_length t);
        tty_echo (t\<lparr>line_buffer := buf\<rparr>) BACKSPACE
      }
      else Some t)"

text \<open>The loop moves the position behind the end of the line and the cursor with it.\<close>

definition handle_newline_character :: "tty \<Rightarrow> tty option" where
  "handle_newline_character t = do {
     require (0 \<le> buffer_final_length t \<and> nat (buffer_final_length t) < length (line_buffer t));
     let t = t\<lparr>line_buffer := (line_buffer t)[nat (buffer_final_length t) := ENDL]\<rparr>;
     let steps = nat (buffer_final_length t + 1 - buffer_current_position t);
     t \<leftarrow> for_each (\<lambda>_ t. tty_echo_all
            (t\<lparr>buffer_current_position := buffer_current_position t + 1\<rparr>) [0x1b, 91, 67]) [0..<steps] t;
     t \<leftarrow> tty_echo t (uint ENDL);
     Some (advance_key (t\<lparr>newline_present := True\<rparr>))
   }"

definition handle_ascii_control_character :: "tty \<Rightarrow> int \<Rightarrow> tty option" where
  "handle_ascii_control_character t c = do {
     t \<leftarrow> (if c = ETX then handle_etx_character t
          else if c = BACKSPACE then handle_backspace_character t
          else if c = uint ENDL then handle_newline_character t
          else Some t);
     (if \<not> tty_canonical_mode t then map_option advance_key (insert_key t c) else Some t)
   }"

definition handle_ansi_escape_sequence :: "tty \<Rightarrow> int \<Rightarrow> tty option" where
  "handle_ansi_escape_sequence t c = do {
     t \<leftarrow> (if c = ARROW_LEFT
          then (if buffer_current_position t \<noteq> 0
                then tty_echo_all (t\<lparr>buffer_current_position := buffer_current_position t - 1\<rparr>) [0x1b, 91, 68]
                else Some t)
          else if c = ARROW_RIGHT
          then (if buffer_current_position t < buffer_final_length t
                then tty_echo_all (t\<lparr>buffer_current_position := buffer_current_position t + 1\<rparr>) [0x1b, 91, 67]
                else Some t)
          else Some t);
     (if \<not> tty_canonical_mode t then map_option advance_key (insert_key t c) else Some t)
   }"

definition handle_ascii_printable_character :: "tty \<Rightarrow> int \<Rightarrow> tty option" where
  "handle_ascii_printable_character t c = do {
     t \<leftarrow> insert_key t c;
     t \<leftarrow> (if tty_echo_on t then insert_byte t c else Some t);
     Some (advance_key t)
   }"

definition wake_up_if_applicable :: "tty \<Rightarrow> tty option" where
  "wake_up_if_applicable t = do {
     let t = t\<lparr>character_present := True\<rparr>;
     (if \<not> tty_canonical_mode t \<or> newline_present t
      then do { k \<leftarrow> wake_up_interruptible (tty_kernel t) (read_wait t); Some (t\<lparr>tty_kernel := k\<rparr>) }
      else Some t)
   }"

text \<open>The bytes of an escape sequence, as the number that names a key.\<close>

definition key_code :: "byte list \<Rightarrow> int" where
  "key_code s = uint (s ! 0) * 2 ^ 16 + uint (s ! 1) * 2 ^ 8 + uint (s ! 2)"

definition write_to_keyboard_buffer :: "tty \<Rightarrow> int \<Rightarrow> tty option" where
  "write_to_keyboard_buffer t c =
     (if tty_canonical_mode t \<and> (key_sequence_position t \<noteq> 0 \<or> c = ESC)
      then (let pos = key_sequence_position t;
                t = t\<lparr>key_sequence := (key_sequence t)[pos := word_of_int c],
                      key_sequence_position := (if pos = 2 then 0 else pos + 1)\<rparr>;
                c = (if pos = 2 then key_code (key_sequence t) else c)
            in if c = ARROW_LEFT \<or> c = ARROW_RIGHT \<or> c = ARROW_UP \<or> c = ARROW_DOWN
               then do { t \<leftarrow> handle_ansi_escape_sequence t c; wake_up_if_applicable t }
               else Some t)
      else if 0 \<le> c \<and> c < 32
      then do { t \<leftarrow> handle_ascii_control_character t c; wake_up_if_applicable t }
      else do { t \<leftarrow> handle_ascii_printable_character t c; wake_up_if_applicable t })"

section \<open>Reading a line\<close>

definition get_written_characters_count :: "tty \<Rightarrow> int" where
  "get_written_characters_count t =
     (if newline_present t then buffer_final_length t else if character_present t then 1 else 0)"

definition reset_keyboard_buffer :: "tty \<Rightarrow> tty" where
  "reset_keyboard_buffer t = t\<lparr>newline_present := False, character_present := False,
     buffer_final_length := 0, buffer_current_position := 0\<rparr>"

definition tty_is_ready :: "tty \<Rightarrow> bool" where
  "tty_is_ready t = (if tty_canonical_mode t then newline_present t else character_present t)"

definition tty_read_begin :: "tty \<Rightarrow> tty option" where
  "tty_read_begin t = do {
     (k, wq) \<leftarrow> wait_event_begin (tty_kernel t) (read_wait t);
     Some (t\<lparr>tty_kernel := k, read_wait := wq\<rparr>)
   }"

text \<open>The second half, once \<^const>\<open>tty_is_ready\<close> holds; \<open>offset\<close> is compared with \<open>count\<close> as an unsigned word.\<close>

definition tty_read_end :: "tty \<Rightarrow> addr \<Rightarrow> u32 \<Rightarrow> (tty \<times> int) option" where
  "tty_read_end t buf count = do {
     (k, wq) \<leftarrow> wait_event_end (tty_kernel t) (read_wait t);
     let t = t\<lparr>tty_kernel := k, read_wait := wq\<rparr>;
     let stream_size = get_written_characters_count t;
     (if stream_size = 0 then Some (t, - 1)
      else do {
        let n = min (unat count) (nat stream_size);
        require (n \<le> length (line_buffer t));
        let m = fold (\<lambda>i m. m(buf + of_nat i := line_buffer t ! i)) [0..<n] (memory_k k);
        let t = reset_keyboard_buffer t;
        Some (t\<lparr>tty_kernel := set_memory k (m(buf + of_nat n := 0))\<rparr>, int n)
      })
   }"

section \<open>Control\<close>

definition tty_ioctl :: "tty \<Rightarrow> u64 \<Rightarrow> addr \<Rightarrow> tty \<times> int" where
  "tty_ioctl t request arg =
     (let k = tty_kernel t; m = memory_k k
      in if request = 0 then (t\<lparr>tty_echo_on := (m arg \<noteq> 0)\<rparr>, 0)
         else if request = 1 then (t\<lparr>tty_canonical_mode := (m arg \<noteq> 0)\<rparr>, 0)
         else if request = 2 then (t, 0)
         else if request = 3 then (t\<lparr>tty_kernel := set_memory k (store32 m arg (word_of_int (fg_pgid t)))\<rparr>, 0)
         else if request = 4 then (t\<lparr>fg_pgid := sint (load32 m arg)\<rparr>, 0)
         else (t, - 1))"

text \<open>
  The structure of the stream has three words and the bytes of the buffer, of which the code allocates one
  less than the length that it records. \<open>ops\<close> is the table of the three functions of the terminal.
\<close>

definition setup_tty_chrfile :: "fop_table \<Rightarrow> tty \<Rightarrow> addr \<Rightarrow> (tty \<times> int) option" where
  "setup_tty_chrfile ops t mount_point =
     (if mount_point = NULL then Some (t, - ENOENT)
      else do {
        (k, stdio_op) \<leftarrow> kmalloc_k (tty_kernel t) 36;
        (if stdio_op = NULL then Some (t\<lparr>tty_kernel := k\<rparr>, - ENOMEM)
         else do {
           let k = k\<lparr>fop_tables := (fop_tables k)(stdio_op \<mapsto> ops)\<rparr>;
           ino \<leftarrow> deref (inodes k) mount_point;
           k \<leftarrow> kfree_k k (i_fop ino);
           let k = k\<lparr>inodes := (inodes k)(mount_point \<mapsto> ino\<lparr>i_fop := stdio_op\<rparr>)\<rparr>;
           (k, stream) \<leftarrow> kmalloc_k k (12 + 511);
           require (stream \<noteq> NULL);
           Some (t\<lparr>tty_kernel := k, fg_pgid := 0, read_wait := NULL,
                   line_buffer := map (\<lambda>i. memory_k k (stream + 12 + of_nat i)) [0..<511]\<rparr>, 0)
         })
      })"

text \<open>\<open>name\<close> is the address of the file name of the screenshot; the picture is read from the video memory.\<close>

definition print_screen :: "vfs \<Rightarrow> addr \<Rightarrow> kernel \<Rightarrow> kernel option" where
  "print_screen v name k = do {
     (k, fd) \<leftarrow> sys_open v k name (O_CREAT OR 1) 0;
     (if fd < 0 then Some k
      else do { (k, _) \<leftarrow> sys_write v k fd 0x20035000 307200; Some k })
   }"

section \<open>Messages of the start\<close>

definition STATUS_BAR_SIZE :: nat where "STATUS_BAR_SIZE = 11"
definition MAX_STATUS_STEP :: nat where "MAX_STATUS_STEP = 8"

datatype startup_status = STATUS_NONE | STATUS_OK | STATUS_FAILED

definition status_text :: "startup_status \<Rightarrow> byte list" where
  "status_text status = (case status of
     STATUS_NONE \<Rightarrow> 13 # cs ''[        ] ''
   | STATUS_OK \<Rightarrow> 13 # cs ''[   '' @ 27 # cs ''[92;49mOK'' @ 27 # cs ''[0m   ] ''
   | STATUS_FAILED \<Rightarrow> 13 # cs ''[ '' @ 27 # cs ''[91;49mFAILED'' @ 27 # cs ''[0m ] '')"

definition printk_status :: "tty \<Rightarrow> startup_status \<Rightarrow> tty option" where
  "printk_status t status = write_bytes t (status_text status)"

text \<open>\<open>current_status_step\<close> is returned next to the terminal.\<close>

definition printk_status_init :: "tty \<Rightarrow> addr \<Rightarrow> (tty \<times> nat) option" where
  "printk_status_init t msg = do {
     _ \<leftarrow> strlen (memory_k (tty_kernel t)) msg;
     t \<leftarrow> printk_status t STATUS_NONE;
     (t, _) \<leftarrow> printk t msg;
     Some (t, 0)
   }"

definition printk_status_step :: "tty \<Rightarrow> nat \<Rightarrow> (tty \<times> nat) option" where
  "printk_status_step t current_status_step = do {
     t \<leftarrow> write_bytes t (13 # cs ''['');
     t \<leftarrow> write_bytes t (replicate current_status_step 35);
     let next_step = (if current_status_step < MAX_STATUS_STEP then current_status_step + 1 else current_status_step);
     t \<leftarrow> (if current_status_step < MAX_STATUS_STEP then write_bytes t [35] else Some t);
     t \<leftarrow> write_bytes t (replicate (MAX_STATUS_STEP - next_step) 32);
     t \<leftarrow> write_bytes t (cs ''] '');
     Some (t, next_step)
   }"

definition printk_status_finish :: "tty \<Rightarrow> int \<Rightarrow> tty option" where
  "printk_status_finish t return_code = do {
     t \<leftarrow> printk_status t (if return_code = 0 then STATUS_OK else STATUS_FAILED);
     write_bytes t (27 # cs ''[E'')
   }"

definition printk_status_info :: "tty \<Rightarrow> addr \<Rightarrow> tty option" where
  "printk_status_info t msg = do {
     t \<leftarrow> write_bytes t (replicate STATUS_BAR_SIZE 32);
     (t, _) \<leftarrow> printk t msg;
     write_bytes t [10]
   }"

end
