(* ===== verification/Monitor_Text.thy ===== *)
theory Monitor_Text
  imports Monitor
begin

text \<open>
  What the text screen of \<open>src/drivers/monitor_text_mode.c\<close> does with the text that is written to it: an abstract
  specification over the rows of the buffer and the position, and the refinement of it by
  \<open>monitor_tm_write_byte\<close>. Drawing only changes the display below the screen.
\<close>

section \<open>Writing text\<close>

text \<open>A screen whose position is in the scrolling area and whose buffer has its size.\<close>

definition screen_ok :: "screen \<Rightarrow> bool" where
  "screen_ok s \<longleftrightarrow> length (chars s) = 40 \<and> (\<forall>r\<in>set (chars s). length r = 80) \<and>
     0 \<le> scrollable_area_top s \<and> scrollable_area_top s < scrollable_area_bottom s \<and> scrollable_area_bottom s < 40 \<and>
     int (unat (current_row_position s)) \<le> scrollable_area_bottom s \<and> unat (current_column_position s) < 80"

text \<open>The text on a screen: its rows and the position.\<close>

record text_state =
  rows :: "single_char list list"
  row :: nat
  col :: nat

definition text_of :: "screen \<Rightarrow> text_state" where
  "text_of s = \<lparr>rows = chars s, row = unat (current_row_position s), col = unat (current_column_position s)\<rparr>"

text \<open>The specification: the rows of the scrolling area move up by one and the last one becomes empty; a new line is
  marked in the buffer; a character that fills its row starts a new line after itself.\<close>

definition scroll_rows :: "nat \<Rightarrow> nat \<Rightarrow> byte \<Rightarrow> single_char list list \<Rightarrow> single_char list list" where
  "scroll_rows first bottom color rs =
     map (\<lambda>i. if first \<le> i \<and> i < bottom then rs ! (i + 1) else if i = bottom then replicate 80 (0, color) else rs ! i) [0..<40]"

definition set_cell :: "nat \<Rightarrow> nat \<Rightarrow> single_char \<Rightarrow> single_char list list \<Rightarrow> single_char list list" where
  "set_cell i j c rs = rs[i := (rs ! i)[j := c]]"

definition text_newline :: "nat \<Rightarrow> nat \<Rightarrow> byte \<Rightarrow> text_state \<Rightarrow> text_state" where
  "text_newline first bottom color t =
     (let rs = set_cell (row t) (col t) (ENDL, color) (rows t)
      in if row t = bottom then \<lparr>rows = scroll_rows first bottom color rs, row = bottom, col = 0\<rparr>
         else \<lparr>rows = rs, row = row t + 1, col = 0\<rparr>)"

definition text_write :: "nat \<Rightarrow> nat \<Rightarrow> byte \<Rightarrow> int \<Rightarrow> text_state \<Rightarrow> text_state" where
  "text_write first bottom color c t =
     (if c = uint ENDL then text_newline first bottom color t
      else if c = CARRIAGE_RETURN then t\<lparr>col := 0\<rparr>
      else (let t = t\<lparr>rows := set_cell (row t) (col t) (word_of_int c, color) (rows t)\<rparr>
            in if col t + 1 = 80 then text_newline first bottom color t else t\<lparr>col := col t + 1\<rparr>))"

text \<open>Accesses within the buffer.\<close>

lemma index_cell [simp]: "(i < H) = (unat i < 40)" "(j < W) = (unat j < 80)"
  by (simp_all add: H_def W_def BUFFER_HEIGHT_def BUFFER_WIDTH_def word_less_nat_alt)

lemma unat_index: "i < 100 \<Longrightarrow> unat (of_nat i :: u32) = i"
  by (intro unat_of_nat_less) simp

lemma get_char_in: "unat i < 40 \<Longrightarrow> unat j < 80 \<Longrightarrow> get_char s i j = Some (chars s ! unat i ! unat j)"
  by (simp add: get_char_def)

lemma put_char_in: "unat i < 40 \<Longrightarrow> unat j < 80 \<Longrightarrow>
    put_char s i j c = Some (s\<lparr>chars := set_cell (unat i) (unat j) c (chars s)\<rparr>)"
  by (simp add: put_char_def set_cell_def)

lemma set_char_in: "unat i < 40 \<Longrightarrow> unat j < 80 \<Longrightarrow>
    \<exists>d. set_char s i j c = Some (s\<lparr>chars := set_cell (unat i) (unat j) c (chars s), display := d\<rparr>)"
  by (auto simp: set_char_def put_char_in draw_def)

lemma for_all_cells_append:
  "for_all_cells f (xs @ ys) s = do { s \<leftarrow> for_all_cells f xs s; for_all_cells f ys s }"
proof (induction xs arbitrary: s)
  case (Cons x xs)
  then show ?case by (cases "f (of_nat x) s") simp_all
qed simp

text \<open>A loop over the columns of a row that sets each of its cells.\<close>

lemma for_row:
  assumes step: "\<And>j s. j < 80 \<Longrightarrow> P s \<Longrightarrow> length (chars s) = 40 \<Longrightarrow>
      \<exists>d. f (of_nat j) s = Some (s\<lparr>chars := set_cell i j (v j) (chars s), display := d\<rparr>)"
    and P: "\<And>s c d. P s \<Longrightarrow> P (s\<lparr>chars := (chars s)[i := c], display := d\<rparr>)"
    and "P s" "length (chars s) = 40" "length (chars s ! i) = 80" "i < 40"
  shows "n \<le> 80 \<Longrightarrow> \<exists>d. for_all_cells f [0..<n] s = Some (s\<lparr>chars := (chars s)[i := map v [0..<n] @ drop n (chars s ! i)], display := d\<rparr>)"
proof (induction n)
  case 0
  show ?case by (intro exI [of _ "display s"]) (simp add: assms)
next
  case (Suc n)
  then obtain d where d: "for_all_cells f [0..<n] s = Some (s\<lparr>chars := (chars s)[i := map v [0..<n] @ drop n (chars s ! i)], display := d\<rparr>)"
    by auto
  let ?s = "s\<lparr>chars := (chars s)[i := map v [0..<n] @ drop n (chars s ! i)], display := d\<rparr>"
  have "P ?s" using P [OF assms(3)] .
  then obtain d' where "f (of_nat n) ?s = Some (?s\<lparr>chars := set_cell i n (v n) (chars ?s), display := d'\<rparr>)"
    using step [of n ?s] Suc.prems assms(4) by auto
  moreover have "set_cell i n (v n) (chars ?s) = (chars s)[i := map v [0..<Suc n] @ drop (Suc n) (chars s ! i)]"
    using Suc.prems assms(4-6) by (simp add: set_cell_def list_update_append Cons_nth_drop_Suc [symmetric])
  ultimately show ?case using d by (auto simp: for_all_cells_append)
qed

lemma word_of_area:
  assumes "screen_ok s"
  shows "unat (word_of_int (scrollable_area_top s) :: u32) = nat (scrollable_area_top s)"
    and "unat (word_of_int (scrollable_area_bottom s) :: u32) = nat (scrollable_area_bottom s)"
proof -
  have "(word_of_int (int n) :: u32) = of_nat n" for n by simp
  then show "unat (word_of_int (scrollable_area_top s) :: u32) = nat (scrollable_area_top s)"
    "unat (word_of_int (scrollable_area_bottom s) :: u32) = nat (scrollable_area_bottom s)"
    using assms unat_index [of "nat (scrollable_area_top s)"] unat_index [of "nat (scrollable_area_bottom s)"]
    by (auto simp: screen_ok_def)
qed

text \<open>Moving the rows of the scrolling area up by one.\<close>

definition rows_up :: "nat \<Rightarrow> nat \<Rightarrow> single_char list list \<Rightarrow> single_char list list" where
  "rows_up first n rs = map (\<lambda>i. if first \<le> i \<and> i < n then rs ! (i + 1) else rs ! i) [0..<40]"

lemma rows_up_none: "length rs = 40 \<Longrightarrow> rows_up first first rs = rs"
  by (auto simp: rows_up_def intro!: nth_equalityI)

lemma rows_up_step: "length rs = 40 \<Longrightarrow> first \<le> n \<Longrightarrow> n < 39 \<Longrightarrow> (rows_up first n rs)[n := rs ! (n + 1)] = rows_up first (Suc n) rs"
  by (rule nth_equalityI) (auto simp: rows_up_def nth_list_update)

lemma length_rows_up [simp]: "length (rows_up first n rs) = 40" by (simp add: rows_up_def)

lemma rows_up_at: "i < 40 \<Longrightarrow> n \<le> i \<Longrightarrow> rows_up first n rs ! i = rs ! i" by (simp add: rows_up_def)

lemma rows_up_widths: "length rs = 40 \<Longrightarrow> n \<le> 39 \<Longrightarrow> \<forall>r\<in>set rs. length r = 80 \<Longrightarrow> \<forall>r\<in>set (rows_up first n rs). length r = 80"
  by (auto simp: rows_up_def)

lemma scroll_up_row:
  assumes "unat bottom < 40" "i < unat bottom" "length (chars s) = 40" "\<forall>r\<in>set (chars s). length r = 80"
  shows "\<exists>d. for_all_cells (\<lambda>j. scroll_up_cell bottom 1 (of_nat i) j) [0..<80] s =
    Some (s\<lparr>chars := (chars s)[i := chars s ! (i + 1)], display := d\<rparr>)"
proof -
  have i: "unat (of_nat i :: u32) = i" "unat (of_nat i + 1 :: u32) = i + 1"
    using assms(1,2) unat_index [of i] unat_index [of "Suc i"] by (simp_all add: add.commute)
  have len: "length (chars s ! i) = 80" "length (chars s ! (i + 1)) = 80" using assms by auto
  have step: "\<exists>d. scroll_up_cell bottom 1 (of_nat i) (of_nat j) t =
      Some (t\<lparr>chars := set_cell i j (chars s ! (i + 1) ! j) (chars t), display := d\<rparr>)"
    if "j < 80" "chars t ! (i + 1) = chars s ! (i + 1)" for j and t :: screen
  proof -
    have "\<not> bottom < of_nat i + 1" using assms(2) i(2) by (simp add: word_less_nat_alt)
    moreover have "get_char t (of_nat i + 1) (of_nat j) = Some (chars s ! (i + 1) ! j)"
      using get_char_in [of "of_nat i + 1" "of_nat j" t] i(2) unat_index [of j] that assms(1,2) by simp
    ultimately show ?thesis
      using set_char_in [of "of_nat i" "of_nat j" t] i(1) unat_index [of j] that(1) assms(1,2)
      by (simp add: scroll_up_cell_def)
  qed
  have "map ((!) (chars s ! (i + 1))) [0..<80] = chars s ! (i + 1)"
    using map_nth [of "chars s ! (i + 1)"] len(2) by simp
  then show ?thesis
    using for_row [where P = "\<lambda>t. chars t ! (i + 1) = chars s ! (i + 1)" and i = i and v = "\<lambda>j. chars s ! (i + 1) ! j" and n = 80, OF step]
      len assms(1-3) by auto
qed

lemma scroll_up_rows:
  assumes ok: "screen_ok s" and bottom: "unat bottom = nat (scrollable_area_bottom s)" and first: "first = nat (scrollable_area_top s)"
  shows "first + n \<le> unat bottom \<Longrightarrow> \<exists>d.
    for_all_cells (\<lambda>i. for_all_cells (\<lambda>j. scroll_up_cell bottom 1 i j) [0..<80]) [first..<first + n] s =
      Some (s\<lparr>chars := rows_up first (first + n) (chars s), display := d\<rparr>)"
proof (induction n)
  case 0
  show ?case using ok by (intro exI [of _ "display s"]) (simp add: rows_up_none screen_ok_def)
next
  case (Suc n)
  then obtain d where d: "for_all_cells (\<lambda>i. for_all_cells (\<lambda>j. scroll_up_cell bottom 1 i j) [0..<80]) [first..<first + n] s =
      Some (s\<lparr>chars := rows_up first (first + n) (chars s), display := d\<rparr>)" by auto
  let ?s = "s\<lparr>chars := rows_up first (first + n) (chars s), display := d\<rparr>"
  have b: "unat bottom < 40" "first + n < unat bottom" using ok bottom Suc.prems by (auto simp: screen_ok_def)
  have w: "length (chars s) = 40" "\<forall>r\<in>set (chars s). length r = 80" using ok by (simp_all add: screen_ok_def)
  have "\<forall>r\<in>set (chars ?s). length r = 80" using rows_up_widths [OF w(1) _ w(2), of "first + n" first] b by simp
  then obtain d' where "for_all_cells (\<lambda>j. scroll_up_cell bottom 1 (of_nat (first + n)) j) [0..<80] ?s =
      Some (?s\<lparr>chars := (chars ?s)[first + n := chars ?s ! (first + n + 1)], display := d'\<rparr>)"
    using scroll_up_row [OF b, of ?s] by auto
  moreover have "(chars ?s)[first + n := chars ?s ! (first + n + 1)] = rows_up first (first + Suc n) (chars s)"
    using rows_up_step [OF w(1), of first "first + n"] rows_up_at [of "first + n + 1" "first + n" first "chars s"] b by simp
  ultimately show ?case using d by (auto simp: for_all_cells_append)
qed

lemma scroll_up_one:
  assumes "screen_ok s"
  shows "\<exists>d. scroll_vertical_dir_up s 1 = Some (s\<lparr>chars := scroll_rows (nat (scrollable_area_top s)) (nat (scrollable_area_bottom s))
    (current_color_code s) (chars s), display := d\<rparr>)"
proof -
  define bottom :: u32 where "bottom = word_of_int (scrollable_area_bottom s)"
  define b where "b = nat (scrollable_area_bottom s)"
  define first where "first = nat (scrollable_area_top s)"
  have u: "unat bottom = b" "unat (word_of_int (scrollable_area_top s) :: u32) = first"
    using word_of_area [OF assms] by (simp_all add: bottom_def b_def first_def)
  have b: "b < 40" "first < b" using assms by (auto simp: screen_ok_def b_def first_def)
  obtain d where d: "for_all_cells (\<lambda>i. for_all_cells (\<lambda>j. scroll_up_cell bottom 1 i j) [0..<80]) [first..<b] s =
      Some (s\<lparr>chars := rows_up first b (chars s), display := d\<rparr>)"
    using scroll_up_rows [OF assms, of bottom first "b - first"] u b by (auto simp: b_def first_def)
  let ?s = "s\<lparr>chars := rows_up first b (chars s), display := d\<rparr>"
  have w: "length (chars s) = 40" "\<forall>r\<in>set (chars s). length r = 80" using assms by (simp_all add: screen_ok_def)
  have "bottom \<noteq> 0" using u(1) b(2) by auto
  then have "unat (bottom - 1) = b - 1" using u(1) unat_available [of 1 bottom] b by simp
  moreover have "unat (W - 1 :: u32) = 79" by (simp add: W_def BUFFER_WIDTH_def)
  moreover define prev where "prev = chars ?s ! (b - 1) ! 79"
  ultimately have prev: "get_char ?s (bottom - 1) (W - 1) = Some prev"
    using get_char_in [of "bottom - 1" "W - 1" ?s] b by simp
  have step: "\<exists>d'. put_char t bottom (of_nat j) (0, current_color_code t) \<bind> (\<lambda>t. Some (draw t (0, snd prev) bottom (of_nat j))) =
      Some (t\<lparr>chars := set_cell b j (0, current_color_code s) (chars t), display := d'\<rparr>)"
    if "j < 80" "current_color_code t = current_color_code s" for j and t :: screen
    using put_char_in [of bottom "of_nat j" t] u(1) b(1) that unat_index [of j] by (auto simp: draw_def)
  have "length (rows_up first b (chars s) ! b) = 80" using rows_up_at [of b b first "chars s"] b w by simp
  then have "\<exists>d'. for_all_cells (\<lambda>j t. put_char t bottom j (0, current_color_code t) \<bind>
      (\<lambda>t. Some (draw t (0, snd prev) bottom j))) [0..<80] ?s =
      Some (?s\<lparr>chars := (chars ?s)[b := map (\<lambda>_. (0, current_color_code s)) [0..<80]], display := d'\<rparr>)"
    using for_row [where P = "\<lambda>t. current_color_code t = current_color_code s" and i = b and
        v = "\<lambda>_. (0, current_color_code s)" and n = 80 and s = ?s, OF step] b(1) by auto
  then obtain d' where "for_all_cells (\<lambda>j t. put_char t bottom j (0, current_color_code t) \<bind>
      (\<lambda>t. Some (draw t (0, snd prev) bottom j))) [0..<80] ?s =
      Some (?s\<lparr>chars := (chars ?s)[b := map (\<lambda>_. (0, current_color_code s)) [0..<80]], display := d'\<rparr>)" by blast
  moreover have "(chars ?s)[b := map (\<lambda>_. (0, current_color_code s)) [0..<80]] =
      scroll_rows first b (current_color_code s) (chars s)"
    using b by (intro nth_equalityI) (auto simp: scroll_rows_def rows_up_def nth_list_update map_replicate_const)
  ultimately show ?thesis
    using d prev u(2) u(1)
    by (intro exI [of _ d']) (simp add: scroll_vertical_dir_up_def BUFFER_WIDTH_def flip: bottom_def b_def first_def)
qed

lemma set_cell_widths: "length rs = 40 \<Longrightarrow> \<forall>r\<in>set rs. length r = 80 \<Longrightarrow> i < 40 \<Longrightarrow>
    length (set_cell i j c rs) = 40 \<and> (\<forall>r\<in>set (set_cell i j c rs). length r = 80)"
  by (auto simp: set_cell_def dest!: set_update_subset_insert [THEN subsetD])

lemma scroll_rows_widths: "length rs = 40 \<Longrightarrow> b < 40 \<Longrightarrow> \<forall>r\<in>set rs. length r = 80 \<Longrightarrow>
    length (scroll_rows first b color rs) = 40 \<and> (\<forall>r\<in>set (scroll_rows first b color rs). length r = 80)"
  by (auto simp: scroll_rows_def)

lemma screen_ok_row: "screen_ok s \<Longrightarrow> unat (current_row_position s) < 40"
proof -
  assume "screen_ok s"
  then have "int (unat (current_row_position s)) < 40" unfolding screen_ok_def by linarith
  then show ?thesis by linarith
qed

lemma save_char_in:
  assumes "screen_ok s"
  shows "save_char_to_buffer s c = Some (s\<lparr>chars := set_cell (unat (current_row_position s)) (unat (current_column_position s))
    (c, current_color_code s) (chars s)\<rparr>)"
  using assms screen_ok_row [OF assms] by (simp add: save_char_to_buffer_def screen_ok_def put_char_in)

lemma save_char_ok:
  "screen_ok s \<Longrightarrow> screen_ok (s\<lparr>chars := set_cell (unat (current_row_position s)) (unat (current_column_position s)) c (chars s)\<rparr>)"
  using set_cell_widths [of "chars s" "unat (current_row_position s)"] screen_ok_row [of s] by (simp add: screen_ok_def)

lemma write_new_line_spec:
  assumes ok: "screen_ok s"
  shows "\<exists>s'. write_new_line s = Some s' \<and> screen_ok s' \<and> current_color_code s' = current_color_code s \<and>
    escape_sequence_position s' = escape_sequence_position s \<and>
    text_of s' = text_newline (nat (scrollable_area_top s)) (nat (scrollable_area_bottom s)) (current_color_code s) (text_of s)"
proof -
  let ?rs = "set_cell (unat (current_row_position s)) (unat (current_column_position s)) (ENDL, current_color_code s) (chars s)"
  let ?s = "s\<lparr>chars := ?rs\<rparr>" and ?b = "nat (scrollable_area_bottom s)"
  have ok': "screen_ok ?s" by (rule save_char_ok [OF ok])
  have w: "unat (word_of_int (scrollable_area_bottom s) :: u32) = ?b" by (rule word_of_area(2) [OF ok])
  have at: "current_row_position s = word_of_int (scrollable_area_bottom s) \<longleftrightarrow> unat (current_row_position s) = ?b"
    unfolding w [symmetric] by simp
  show ?thesis
  proof (cases "unat (current_row_position s) = ?b")
    case True
    obtain d where d: "scroll_vertical_dir_up ?s 1 = Some (?s\<lparr>chars := scroll_rows (nat (scrollable_area_top s)) ?b
        (current_color_code s) ?rs, display := d\<rparr>)" using scroll_up_one [OF ok'] by auto
    have "length (scroll_rows first ?b color ?rs) = 40 \<and> (\<forall>r\<in>set (scroll_rows first ?b color ?rs). length r = 80)" for first color
      using ok' by (intro scroll_rows_widths) (auto simp: screen_ok_def)
    moreover have "uint (word_of_int (scrollable_area_bottom s) :: u32) = scrollable_area_bottom s"
      using w ok unfolding screen_ok_def by (metis nat_0_le uint_nat order.trans order.strict_implies_order)
    ultimately show ?thesis using d at True ok save_char_in [OF ok, of ENDL]
      by (simp add: write_new_line_def screen_ok_def text_of_def text_newline_def Let_def)
  next
    case False
    moreover have "int (unat (current_row_position s)) \<le> scrollable_area_bottom s" using ok by (simp only: screen_ok_def)
    ultimately have lt: "unat (current_row_position s) < ?b" by linarith
    then have "unat (current_row_position s + 1) = unat (current_row_position s) + 1"
      using w unat_Suc_less [of "current_row_position s" "word_of_int (scrollable_area_bottom s)"] by (simp add: word_less_nat_alt)
    moreover from this lt have "uint (current_row_position s + 1) \<le> scrollable_area_bottom s"
      unfolding uint_nat by linarith
    ultimately show ?thesis using at False lt ok ok' save_char_in [OF ok, of ENDL]
      by (auto simp: write_new_line_def screen_ok_def text_of_def text_newline_def Let_def)
  qed
qed

lemma drawn_fields [simp]:
  "chars (draw s c i j) = chars s" "current_row_position (draw s c i j) = current_row_position s"
  "current_column_position (draw s c i j) = current_column_position s" "current_color_code (draw s c i j) = current_color_code s"
  "scrollable_area_top (draw s c i j) = scrollable_area_top s" "scrollable_area_bottom (draw s c i j) = scrollable_area_bottom s"
  "escape_sequence_position (draw s c i j) = escape_sequence_position s"
  by (simp_all add: draw_def)

lemma cursor_fields [simp]:
  "text_of (update_cursor s) = text_of s" "screen_ok (update_cursor s) = screen_ok s"
  "text_of (clr_cursor s) = text_of s" "screen_ok (clr_cursor s) = screen_ok s"
  "current_color_code (clr_cursor s) = current_color_code s" "escape_sequence_position (update_cursor s) = escape_sequence_position s"
  "scrollable_area_top (clr_cursor s) = scrollable_area_top s" "scrollable_area_bottom (clr_cursor s) = scrollable_area_bottom s"
  "escape_sequence_position (clr_cursor s) = escape_sequence_position s"
  by (simp_all add: update_cursor_def clr_cursor_def text_of_def screen_ok_def)

lemma write_with_overflow_spec:
  assumes ok: "screen_ok s" and c: "c \<noteq> uint ENDL" "c \<noteq> CARRIAGE_RETURN"
  shows "\<exists>s'. write_with_line_overflow_if_needed s (word_of_int c) = Some s' \<and> screen_ok s' \<and>
    escape_sequence_position s' = escape_sequence_position s \<and>
    text_of s' = text_write (nat (scrollable_area_top s)) (nat (scrollable_area_bottom s)) (current_color_code s) c (text_of s)"
proof -
  let ?s = "s\<lparr>chars := set_cell (unat (current_row_position s)) (unat (current_column_position s))
    (word_of_int c, current_color_code s) (chars s)\<rparr>"
  let ?t = "draw ?s (word_of_int c, current_color_code s) (current_row_position s) (current_column_position s)"
  have ok': "screen_ok ?t" using save_char_ok [OF ok] by (simp add: screen_ok_def)
  have full: "current_column_position s + 1 = W \<longleftrightarrow> unat (current_column_position s) + 1 = 80"
  proof -
    have col: "unat (current_column_position s) < 80" using ok by (simp add: screen_ok_def)
    then have "unat (current_column_position s + 1) = unat (current_column_position s) + 1"
      using unat_Suc_less [of "current_column_position s" W] by simp
    moreover have "unat W = 80" by (simp add: W_def BUFFER_WIDTH_def)
    ultimately show ?thesis by (metis unat_eq_iff)
  qed
  show ?thesis
  proof (cases "unat (current_column_position s) + 1 = 80")
    case True
    have "text_of ?t = (text_of s)\<lparr>rows := set_cell (row (text_of s)) (col (text_of s)) (word_of_int c, current_color_code s) (rows (text_of s))\<rparr>"
      by (simp add: text_of_def)
    then show ?thesis using write_new_line_spec [OF ok'] True full c save_char_in [OF ok, of "word_of_int c"]
      by (simp add: write_with_line_overflow_if_needed_def text_write_def Let_def) (auto simp: text_of_def)
  next
    case False
    then have "unat (current_column_position s + 1) = unat (current_column_position s) + 1" "unat (current_column_position s) + 1 < 80"
      using ok unat_Suc_less [of "current_column_position s" W] by (auto simp: screen_ok_def)
    then show ?thesis using False full c ok' save_char_in [OF ok, of "word_of_int c"]
      by (simp add: write_with_line_overflow_if_needed_def text_write_def text_of_def screen_ok_def)
  qed
qed


text \<open>The screen after the start.\<close>

definition screen_example :: screen where
  "screen_example = \<lparr>current_row_position = 0, current_column_position = 0, scrollable_area_top = 0,
     scrollable_area_bottom = 39, current_color_code = default_color, chars = replicate 40 (replicate 80 (0, 0)),
     display = vga_example, escape_sequence = replicate 10 0, escape_sequence_position = 0\<rparr>"


text \<open>A backspace in the first column of the first row leaves the screen: the row wraps around to the largest word, and
  the next character is written outside of the buffer.\<close>

theorem monitor_backspace_leaves_screen:
  "\<exists>s'. monitor_tm_write_byte screen_example BACKSPACE = Some s' \<and> current_row_position s' = 0xffffffff \<and>
    monitor_tm_write_byte s' 65 = None"
proof -
  have "(40 :: u32) \<le> - 1" by simp
  then have row: "40 \<le> unat (- 1 :: u32)" unfolding word_le_nat_alt by simp
  then have row_gone: "[unat (- 1 :: u32)..<BUFFER_HEIGHT] = []" by (intro upt_conv_Nil) (simp add: BUFFER_HEIGHT_def)
  have "scroll_horizontal_left (move_buffer_position_left (clr_cursor screen_example)) (- 1) (W - 1) =
      Some (move_buffer_position_left (clr_cursor screen_example))"
    unfolding scroll_horizontal_left_def row_gone by simp
  then have "monitor_tm_write_byte screen_example BACKSPACE = Some (update_cursor (move_buffer_position_left (clr_cursor screen_example)))"
    by (simp add: monitor_tm_write_byte_def move_buffer_position_left_def clr_cursor_def screen_example_def ESC_def
        BACKSPACE_def ENDL_def Let_def)
  moreover have "monitor_tm_write_byte (update_cursor (move_buffer_position_left (clr_cursor screen_example))) 65 = None"
    by (simp add: monitor_tm_write_byte_def move_buffer_position_left_def clr_cursor_def update_cursor_def screen_example_def
        ESC_def BACKSPACE_def ENDL_def CARRIAGE_RETURN_def write_with_line_overflow_if_needed_def save_char_to_buffer_def put_char_def Let_def row [THEN leD])
  ultimately show ?thesis
    by (simp add: move_buffer_position_left_def clr_cursor_def update_cursor_def screen_example_def)
qed

end
