(* ===== verification/Tty_Line.thy ===== *)
theory Tty_Line
  imports Tty Monitor_Text
begin

text \<open>
  Line editing on the terminal of \<open>src/kernel/tty.c\<close>: an abstract line with a cursor, the interface \<open>line_editor\<close> of
  anything that shows a line and takes keys, its interpretation on \<open>write_to_keyboard_buffer\<close> with the echo on the
  serial line, and what \<open>tty_read\<close> delivers.
\<close>

section \<open>The abstract line\<close>

datatype key = Char byte | Erase | Cursor_Left | Cursor_Right

text \<open>A line is its text and the position of the cursor.\<close>

fun edit :: "key \<Rightarrow> byte list \<times> nat \<Rightarrow> byte list \<times> nat" where
  "edit (Char b) (s, p) = (take p s @ b # drop p s, p + 1)"
| "edit Erase (s, p) = (if p = 0 then (s, p) else (take (p - 1) s @ drop p s, p - 1))"
| "edit Cursor_Left (s, p) = (s, p - 1)"
| "edit Cursor_Right (s, p) = (s, min (p + 1) (length s))"

fun edits :: "key list \<Rightarrow> byte list \<times> nat \<Rightarrow> byte list \<times> nat" where
  "edits [] l = l"
| "edits (k # ks) l = edits ks (edit k l)"

lemma edit_length: "length (fst (edit k l)) \<le> length (fst l) + 1"
  by (cases "(k, l)" rule: edit.cases) auto

text \<open>What the client of an editor relies on: each key edits the line that is shown, as long as there is room.\<close>

locale line_editor =
  fixes shown :: "'s \<Rightarrow> byte list \<times> nat \<Rightarrow> bool"
    and press :: "key \<Rightarrow> 's \<Rightarrow> 's option"
    and typeable :: "key \<Rightarrow> bool"
    and room :: nat
  assumes press_edits: "shown s l \<Longrightarrow> length (fst l) < room \<Longrightarrow> typeable k \<Longrightarrow>
    \<exists>s'. press k s = Some s' \<and> shown s' (edit k l)"
begin

lemma typing_edits:
  "shown s l \<Longrightarrow> length (fst l) + length ks \<le> room \<Longrightarrow> \<forall>k\<in>set ks. typeable k \<Longrightarrow>
    \<exists>s'. for_each press ks s = Some s' \<and> shown s' (edits ks l)"
proof (induction ks arbitrary: s l)
  case (Cons k ks)
  obtain s1 where s1: "press k s = Some s1" "shown s1 (edit k l)"
    using press_edits [OF Cons.prems(1), of k] Cons.prems(2,3) by auto
  have "length (fst (edit k l)) + length ks \<le> room" using edit_length [of k l] Cons.prems(2) by simp
  then show ?case using Cons.IH [OF s1(2)] Cons.prems(3) s1(1) by simp
qed simp

end

section \<open>The buffer\<close>

lemma for_each_append: "for_each f (xs @ ys) s = do { s \<leftarrow> for_each f xs s; for_each f ys s }"
proof (induction xs arbitrary: s)
  case (Cons x xs)
  then show ?case by (cases "f x s") simp_all
qed simp

lemma insert_and_shift_loop:
  assumes "p < length buf"
  shows "p < j \<Longrightarrow> j \<le> length buf \<Longrightarrow> for_each (\<lambda>temp st. do {
            let (buf, current_char) = st;
            require (temp < length buf);
            Some (buf[temp := current_char], buf ! temp)
          }) [p + 1..<j] (buf[p := c], buf ! p) =
    Some (take p buf @ c # take (j - p - 1) (drop p buf) @ drop j buf, buf ! (j - 1))"
proof (induction j)
  case (Suc j)
  show ?case
  proof (cases "p = j")
    case True
    then show ?thesis using assms by (simp add: upd_conv_take_nth_drop)
  next
    case False
    let ?b = "take p buf @ c # take (j - p - 1) (drop p buf) @ drop j buf"
    have j: "p < j" "j < length buf" using False Suc.prems by simp_all
    have len: "length ?b = length buf" using j by simp
    have at: "?b ! j = buf ! j" using j by (simp add: nth_append)
    have "?b[j := buf ! (j - 1)] = take p buf @ c # take (j - p) (drop p buf) @ drop (Suc j) buf"
    proof (rule nth_equalityI)
      show "length (?b[j := buf ! (j - 1)]) = length (take p buf @ c # take (j - p) (drop p buf) @ drop (Suc j) buf)" using j by simp
      fix i assume "i < length (?b[j := buf ! (j - 1)])"
      then show "?b[j := buf ! (j - 1)] ! i = (take p buf @ c # take (j - p) (drop p buf) @ drop (Suc j) buf) ! i"
        using j by (auto simp: nth_list_update nth_append nth_Cons' intro!: arg_cong [where f = "(!) buf"])
    qed
    moreover have "[p + 1..<Suc j] = [p + 1..<j] @ [j]" using j by simp
    ultimately show ?thesis using Suc.IH [OF j(1)] j len at by (simp add: for_each_append del: upt_Suc)
  qed
qed simp

lemma insert_and_shift_spec:
  assumes "p \<le> n" "n < length buf"
  shows "\<exists>buf'. insert_and_shift buf c (int p) (int n + 1) = Some buf' \<and> length buf' = length buf \<and>
    take (n + 1) buf' = take p (take n buf) @ c # drop p (take n buf)"
proof -
  have n: "nat (int n + 1) = Suc n" by simp
  let ?b = "take p buf @ c # take (n - p) (drop p buf) @ drop (Suc n) buf"
  have "insert_and_shift buf c (int p) (int n + 1) = Some ?b"
    using insert_and_shift_loop [of p buf "Suc n" c] assms unfolding insert_and_shift_def n by (simp del: upt_Suc)
  moreover have "take (n + 1) ?b = take p (take n buf) @ c # drop p (take n buf)"
    using assms by (auto simp: drop_take min_def Suc_diff_le take_Cons')
  ultimately show ?thesis using assms by (intro exI [of _ ?b]) simp
qed

lemma delete_and_shift_loop:
  "p \<le> j \<Longrightarrow> j < length buf \<Longrightarrow> for_each (\<lambda>temp buf. do {
            require (temp + 1 < length buf);
            Some (buf[temp := buf ! (temp + 1)])
          }) [p..<j] buf = Some (take p buf @ take (j - p) (drop (Suc p) buf) @ drop j buf)"
proof (induction j)
  case (Suc j)
  show ?case
  proof (cases "p = Suc j")
    case False
    let ?b = "take p buf @ take (j - p) (drop (Suc p) buf) @ drop j buf"
    have j: "p \<le> j" "Suc j < length buf" using False Suc.prems by simp_all
    have "?b[j := ?b ! (j + 1)] = take p buf @ take (Suc j - p) (drop (Suc p) buf) @ drop (Suc j) buf"
    proof (rule nth_equalityI)
      show "length (?b[j := ?b ! (j + 1)]) = length (take p buf @ take (Suc j - p) (drop (Suc p) buf) @ drop (Suc j) buf)" using j by simp
      fix i assume "i < length (?b[j := ?b ! (j + 1)])"
      then show "?b[j := ?b ! (j + 1)] ! i = (take p buf @ take (Suc j - p) (drop (Suc p) buf) @ drop (Suc j) buf) ! i"
        using j by (auto simp: nth_list_update nth_append)
    qed
    then show ?thesis using Suc.IH j by (simp add: for_each_append)
  qed simp
qed simp

lemma delete_and_shift_spec:
  assumes "p \<le> n" "n < length buf"
  shows "\<exists>buf'. delete_and_shift buf (int p) (int n) = Some buf' \<and> length buf' = length buf \<and>
    take n buf' = take p (take (Suc n) buf) @ drop (Suc p) (take (Suc n) buf)"
proof (cases "p = n")
  case True
  then show ?thesis using assms by (intro exI [of _ buf]) (simp add: delete_and_shift_def)
next
  case False
  let ?b = "take p buf @ take (n - p) (drop (Suc p) buf) @ drop n buf"
  have "delete_and_shift buf (int p) (int n) = Some ?b"
    using delete_and_shift_loop [of p n buf] False assms by (simp add: delete_and_shift_def)
  moreover have "take n ?b = take p (take (Suc n) buf) @ drop (Suc p) (take (Suc n) buf)"
    using False assms by (auto simp: drop_take min_def)
  ultimately show ?thesis using assms by (intro exI [of _ ?b]) simp
qed

section \<open>Echo on the serial line\<close>

lemma serial_echo:
  assumes "\<not> vga_enabled t"
  shows "\<exists>out. write_byte t c = Some (t\<lparr>uart_out := out\<rparr>)" "\<exists>out. insert_byte t c = Some (t\<lparr>uart_out := out\<rparr>)"
    "\<exists>out. tty_echo t c = Some (t\<lparr>uart_out := out\<rparr>)"
proof -
  have same: "t = t\<lparr>uart_out := uart_out t\<rparr>" by simp
  show w: "\<exists>out. write_byte t c = Some (t\<lparr>uart_out := out\<rparr>)"
    using assms by (auto simp: write_byte_def uart_putc_def intro: exI [of _ "uart_out t"])
  show "\<exists>out. insert_byte t c = Some (t\<lparr>uart_out := out\<rparr>)"
    using assms by (auto simp: insert_byte_def uart_putc_def intro: exI [of _ "uart_out t"])
  show "\<exists>out. tty_echo t c = Some (t\<lparr>uart_out := out\<rparr>)"
    using w by (auto simp: tty_echo_def intro: exI [of _ "uart_out t"])
qed

lemma serial_echo_all: "\<not> vga_enabled t \<Longrightarrow> \<exists>out. tty_echo_all t cs' = Some (t\<lparr>uart_out := out\<rparr>)"
proof (induction cs' arbitrary: t)
  case Nil
  show ?case by (intro exI [of _ "uart_out t"]) simp
next
  case (Cons c cs')
  obtain out where o: "tty_echo t c = Some (t\<lparr>uart_out := out\<rparr>)" using serial_echo(3) [OF Cons.prems] by blast
  show ?case using Cons.IH [of "t\<lparr>uart_out := out\<rparr>"] Cons.prems o by auto
qed

lemma serial_move:
  "\<not> vga_enabled t \<Longrightarrow> \<exists>out. for_each (\<lambda>_ t. tty_echo_all
      (t\<lparr>buffer_current_position := buffer_current_position t + 1\<rparr>) cs') xs t =
    Some (t\<lparr>buffer_current_position := buffer_current_position t + int (length xs), uart_out := out\<rparr>)"
proof (induction xs arbitrary: t)
  case Nil
  have "t = t\<lparr>buffer_current_position := buffer_current_position t + int (length ([] :: nat list)), uart_out := uart_out t\<rparr>" by simp
  then show ?case by (intro exI [of _ "uart_out t"]) simp
next
  case (Cons x xs)
  let ?t = "t\<lparr>buffer_current_position := buffer_current_position t + 1\<rparr>"
  obtain out where o: "tty_echo_all ?t cs' = Some (?t\<lparr>uart_out := out\<rparr>)" using serial_echo_all [of ?t] Cons.prems by auto
  show ?case using Cons.IH [of "?t\<lparr>uart_out := out\<rparr>"] Cons.prems o by (auto simp: algebra_simps)
qed

section \<open>The terminal as a line editor\<close>

text \<open>A terminal in canonical mode on the serial line whose buffer shows a line.\<close>

fun line_shown :: "kernel \<Rightarrow> addr \<Rightarrow> tty \<Rightarrow> byte list \<times> nat \<Rightarrow> bool" where
  "line_shown k wq t (s, p) \<longleftrightarrow> \<not> vga_enabled t \<and> tty_canonical_mode t \<and> key_sequence_position t = 0 \<and>
     3 \<le> length (key_sequence t) \<and> \<not> newline_present t \<and> tty_kernel t = k \<and> read_wait t = wq \<and>
     length (line_buffer t) = 511 \<and> length s \<le> 510 \<and> take (length s) (line_buffer t) = s \<and> p \<le> length s \<and>
     buffer_final_length t = int (length s) \<and> buffer_current_position t = int p"

fun key_bytes :: "key \<Rightarrow> int list" where
  "key_bytes (Char b) = [uint b]"
| "key_bytes Erase = [BACKSPACE]"
| "key_bytes Cursor_Left = [27, 91, 68]"
| "key_bytes Cursor_Right = [27, 91, 67]"

fun typeable :: "key \<Rightarrow> bool" where
  "typeable (Char b) = (32 \<le> b)"
| "typeable k = True"

definition press_key :: "key \<Rightarrow> tty \<Rightarrow> tty option" where
  "press_key k t = for_each (\<lambda>c t. write_to_keyboard_buffer t c) (key_bytes k) t"

lemma press_char:
  assumes "line_shown k wq t (s, p)" "length s < 510" "32 \<le> b"
  shows "\<exists>t'. press_key (Char b) t = Some t' \<and> line_shown k wq t' (edit (Char b) (s, p))"
proof -
  have "(32 :: int) \<le> uint b" using assms(3) by (simp add: word_le_def)
  then have c: "\<not> (uint b < 32)" "uint b \<noteq> ESC" by (auto simp: ESC_def)
  have tk: "take (length s) (line_buffer t) = s" using assms(1) by simp
  obtain buf where buf: "insert_and_shift (line_buffer t) b (int p) (int (length s) + 1) = Some buf" "length buf = 511"
    "take (length s + 1) buf = take p s @ b # drop p s"
    using insert_and_shift_spec [of p "length s" "line_buffer t" b, unfolded tk] assms(1,2) by force
  obtain out where out: "tty_echo_on t \<Longrightarrow> insert_byte (t\<lparr>line_buffer := buf\<rparr>) (uint b) = Some (t\<lparr>line_buffer := buf, uart_out := out\<rparr>)"
    using serial_echo(2) [of "t\<lparr>line_buffer := buf\<rparr>" "uint b"] assms(1) by auto
  show ?thesis using assms buf out c
    by (cases "tty_echo_on t")
      (auto simp: press_key_def write_to_keyboard_buffer_def handle_ascii_printable_character_def insert_key_def advance_key_def
        wake_up_if_applicable_def)
qed

lemma press_erase:
  assumes "line_shown k wq t (s, p)"
  shows "\<exists>t'. press_key Erase t = Some t' \<and> line_shown k wq t' (edit Erase (s, p))"
proof (cases p)
  case 0
  then show ?thesis using assms
    by (simp add: press_key_def write_to_keyboard_buffer_def handle_ascii_control_character_def handle_backspace_character_def
        wake_up_if_applicable_def BACKSPACE_def ESC_def ETX_def)
next
  case (Suc q)
  obtain n where n: "length s = Suc n" using Suc assms by (cases "length s") auto
  obtain buf where buf: "delete_and_shift (line_buffer t) (int q) (int n) = Some buf" "length buf = 511"
    "take n buf = take q s @ drop (Suc q) s"
    using delete_and_shift_spec [of q n "line_buffer t"] assms Suc n by auto
  let ?t = "t\<lparr>buffer_final_length := int n, buffer_current_position := int q, line_buffer := buf\<rparr>"
  obtain out where out: "tty_echo ?t BACKSPACE = Some (?t\<lparr>uart_out := out\<rparr>)" using serial_echo(3) [of ?t] assms by auto
  show ?thesis using assms buf out Suc n
    by (simp add: press_key_def write_to_keyboard_buffer_def handle_ascii_control_character_def handle_backspace_character_def
        wake_up_if_applicable_def ETX_def ESC_def) (simp add: BACKSPACE_def)
qed

lemma press_arrow:
  assumes "line_shown k wq t (s, p)"
  shows "\<exists>t'. press_key Cursor_Left t = Some t' \<and> line_shown k wq t' (edit Cursor_Left (s, p))"
    and "\<exists>t'. press_key Cursor_Right t = Some t' \<and> line_shown k wq t' (edit Cursor_Right (s, p))"
proof -
  have seq: "key_code ((key_sequence t)[0 := 27, Suc 0 := 91, Suc (Suc 0) := c]) = 0x1b5b00 + uint c" for c
  proof -
    have "0 < length (key_sequence t)" "Suc 0 < length (key_sequence t)" "Suc (Suc 0) < length (key_sequence t)" using assms by auto
    moreover from this have "(key_sequence t)[0 := 27, Suc 0 := 91, Suc (Suc 0) := c] ! 2 = c"
      unfolding numeral_2_eq_2 by simp
    ultimately show ?thesis by (simp add: key_code_def)
  qed
  have s68: "key_code ((key_sequence t)[0 := 27, Suc 0 := 91, Suc (Suc 0) := 68]) = 0x1b5b44"
    and s67: "key_code ((key_sequence t)[0 := 27, Suc 0 := 91, Suc (Suc 0) := 67]) = 0x1b5b43" by (subst seq, simp)+
  show "\<exists>t'. press_key Cursor_Left t = Some t' \<and> line_shown k wq t' (edit Cursor_Left (s, p))"
  proof (cases "p = 0")
    case True
    then show ?thesis using assms s68
      by (simp add: press_key_def write_to_keyboard_buffer_def handle_ansi_escape_sequence_def wake_up_if_applicable_def
          ESC_def ARROW_LEFT_def ARROW_RIGHT_def ARROW_UP_def ARROW_DOWN_def Let_def)
  next
    case False
    let ?t = "t\<lparr>key_sequence := (key_sequence t)[0 := 27, Suc 0 := 91, Suc (Suc 0) := 68], key_sequence_position := 0,
      buffer_current_position := int (p - 1)\<rparr>"
    have off: "\<not> vga_enabled ?t" using assms by simp
    obtain out where "tty_echo_all ?t [27, 91, 68] = Some (?t\<lparr>uart_out := out\<rparr>)" using serial_echo_all [OF off] by blast
    then show ?thesis using assms s68 False
      by (simp add: press_key_def write_to_keyboard_buffer_def handle_ansi_escape_sequence_def wake_up_if_applicable_def
          ESC_def ARROW_LEFT_def ARROW_RIGHT_def ARROW_UP_def ARROW_DOWN_def Let_def of_nat_diff del: tty_echo_all.simps) auto
  qed
  show "\<exists>t'. press_key Cursor_Right t = Some t' \<and> line_shown k wq t' (edit Cursor_Right (s, p))"
  proof (cases "p = length s")
    case True
    then show ?thesis using assms s67
      by (simp add: press_key_def write_to_keyboard_buffer_def handle_ansi_escape_sequence_def wake_up_if_applicable_def
          ESC_def ARROW_LEFT_def ARROW_RIGHT_def ARROW_UP_def ARROW_DOWN_def Let_def)
  next
    case False
    let ?t = "t\<lparr>key_sequence := (key_sequence t)[0 := 27, Suc 0 := 91, Suc (Suc 0) := 67], key_sequence_position := 0,
      buffer_current_position := int (p + 1)\<rparr>"
    have off: "\<not> vga_enabled ?t" using assms by simp
    obtain out where "tty_echo_all ?t [27, 91, 67] = Some (?t\<lparr>uart_out := out\<rparr>)" using serial_echo_all [OF off] by blast
    then show ?thesis using assms s67 False
      by (simp add: press_key_def write_to_keyboard_buffer_def handle_ansi_escape_sequence_def wake_up_if_applicable_def
          ESC_def ARROW_LEFT_def ARROW_RIGHT_def ARROW_UP_def ARROW_DOWN_def Let_def add.commute del: tty_echo_all.simps)
  qed
qed

interpretation serial_line: line_editor "line_shown k wq" press_key typeable 510 for k wq
proof
  fix t l key assume a: "line_shown k wq t l" "length (fst l) < 510" "typeable key"
  obtain s p where l: "l = (s, p)" by fastforce
  show "\<exists>t'. press_key key t = Some t' \<and> line_shown k wq t' (edit key l)"
    using a press_char [of k wq t s p] press_erase [of k wq t s p] press_arrow [of k wq t s p]
    unfolding l by (cases key) simp_all
qed

section \<open>The line is read\<close>

lemma fold_stored:
  "n \<le> length bs \<Longrightarrow> n < 2 ^ 32 \<Longrightarrow> fold (\<lambda>i m. m(p + of_nat i := bs ! i)) [0..<n] m = stored m p (take n bs)"
proof (induction n)
  case (Suc n)
  then have "(stored m p (take n bs))(p + of_nat n := bs ! n) = stored m p (take n bs @ [bs ! n])"
    using stored_extend [of "take n bs" m p "bs ! n"] by simp
  then show ?case using Suc by (simp add: take_Suc_conv_app_nth del: fun_upd_apply)
qed simp

lemma press_newline:
  assumes "line_shown k wq t (s, p)" "wake_up_interruptible k wq = Some k1"
  shows "\<exists>t'. write_to_keyboard_buffer t (uint ENDL) = Some t' \<and> newline_present t' \<and> buffer_final_length t' = int (length s) + 1 \<and>
    take (length s + 1) (line_buffer t') = s @ [ENDL] \<and> length (line_buffer t') = 511 \<and> tty_kernel t' = k1 \<and> read_wait t' = wq \<and>
    \<not> vga_enabled t' \<and> tty_canonical_mode t' \<and> key_sequence_position t' = 0 \<and> 3 \<le> length (key_sequence t')"
proof -
  let ?buf = "(line_buffer t)[length s := ENDL]"
  let ?t = "t\<lparr>line_buffer := ?buf\<rparr>"
  have off: "\<not> vga_enabled ?t" using assms(1) by simp
  obtain out where m: "for_each (\<lambda>_ t. tty_echo_all (t\<lparr>buffer_current_position := buffer_current_position t + 1\<rparr>) [0x1b, 91, 67])
      [0..<nat (int (length s) + 1 - int p)] ?t =
      Some (?t\<lparr>buffer_current_position := buffer_current_position ?t + int (nat (int (length s) + 1 - int p)), uart_out := out\<rparr>)"
    using serial_move [OF off, of "[0x1b, 91, 67]" "[0..<nat (int (length s) + 1 - int p)]"] by auto
  let ?t1 = "?t\<lparr>buffer_current_position := buffer_current_position ?t + int (nat (int (length s) + 1 - int p)), uart_out := out\<rparr>"
  obtain out' where e: "tty_echo ?t1 (uint ENDL) = Some (?t1\<lparr>uart_out := out'\<rparr>)" using serial_echo(3) [of ?t1] assms(1) by auto
  have b: "take (Suc (length s)) ?buf = s @ [ENDL]"
    using assms(1) by (auto simp: take_Suc_conv_app_nth)
  have nl: "handle_newline_character t = Some (advance_key (?t1\<lparr>uart_out := out', newline_present := True\<rparr>))"
    using assms(1) m e by (simp add: handle_newline_character_def del: tty_echo_all.simps)
  have "uint ENDL = 10" by (simp add: ENDL_def)
  then show ?thesis using assms nl b
    by (simp add: write_to_keyboard_buffer_def handle_ascii_control_character_def wake_up_if_applicable_def ESC_def ETX_def
        BACKSPACE_def advance_key_def)
qed

lemma read_line:
  assumes "newline_present t" "buffer_final_length t = int (length s)" "s \<noteq> []" "take (length s) (line_buffer t) = s"
    "length s \<le> length (line_buffer t)" "length (line_buffer t) = 511" "wait_event_end (tty_kernel t) (read_wait t) = Some (k2, wq2)"
    "n = min (unat count) (length s)"
  shows "tty_read_end t buf count = Some (reset_keyboard_buffer
    (t\<lparr>read_wait := wq2, tty_kernel := set_memory k2 (stored (memory_k k2) buf (take n s @ [0]))\<rparr>), int n)"
proof -
  have n: "n \<le> length s" "n < 2 ^ 32" "n \<le> 511" using assms(5,6,8) by simp_all
  have "take n (line_buffer t) = take n s" using n(1) assms(4) by (metis min.absorb1 take_take)
  then have "(fold (\<lambda>i m. m(buf + of_nat i := line_buffer t ! i)) [0..<n] m)(buf + of_nat n := 0) = stored m buf (take n s @ [0])" for m
    using n assms(5) fold_stored [of n "line_buffer t" buf m] stored_extend [of "take n s" m buf 0] by simp
  then show ?thesis using assms n
    by (simp add: tty_read_end_def get_written_characters_count_def reset_keyboard_buffer_def Let_def del: fun_upd_apply)
qed

section \<open>Property\<close>

text \<open>C12: The terminal on the serial line in canonical mode is a line editor: whatever printable characters, backspaces and
  cursor keys are typed from an empty line, as long as there are at most 510 of them, the reader is not ready before
  the new line, and afterwards receives exactly the edited line with its new line, cut to the size of the request and
  terminated by a NUL; the terminal then shows an empty line again.\<close>

theorem tty_delivers_edited_line:
  assumes "line_shown k wq t ([], 0)" "length ks \<le> 510" "\<forall>key\<in>set ks. typeable key"
    and "wake_up_interruptible k wq = Some k1" "wait_event_end k1 wq = Some (k2, wq2)"
    and s: "s = fst (edits ks ([], 0)) @ [ENDL]" and n: "n = min (unat count) (length s)"
  shows "\<exists>t1 t2 t3. for_each press_key ks t = Some t1 \<and> \<not> tty_is_ready t1 \<and>
    write_to_keyboard_buffer t1 (uint ENDL) = Some t2 \<and> tty_is_ready t2 \<and>
    tty_read_end t2 buf count = Some (t3, int n) \<and>
    memory_k (tty_kernel t3) = stored (memory_k k2) buf (take n s @ [0]) \<and>
    line_shown (tty_kernel t3) wq2 t3 ([], 0)"
proof -
  obtain e p where e: "edits ks ([], 0) = (e, p)" by fastforce
  obtain t1 where t1: "for_each press_key ks t = Some t1" "line_shown k wq t1 (e, p)"
    using serial_line.typing_edits [OF assms(1), of ks] assms(2,3) unfolding e by auto
  obtain t2 where t2: "write_to_keyboard_buffer t1 (uint ENDL) = Some t2" "newline_present t2"
    "buffer_final_length t2 = int (length e) + 1" "take (length e + 1) (line_buffer t2) = e @ [ENDL]" "length (line_buffer t2) = 511"
    "tty_kernel t2 = k1" "read_wait t2 = wq" "\<not> vga_enabled t2" "tty_canonical_mode t2" "key_sequence_position t2 = 0"
    "3 \<le> length (key_sequence t2)"
    using press_newline [OF t1(2) assms(4)] by blast
  have se: "s = e @ [ENDL]" using s e by simp
  have "length e \<le> 510" using t1(2) by simp
  then have "tty_read_end t2 buf count = Some (reset_keyboard_buffer
      (t2\<lparr>read_wait := wq2, tty_kernel := set_memory k2 (stored (memory_k k2) buf (take n s @ [0]))\<rparr>), int n)"
    using t2 assms(5) se n by (intro read_line) simp_all
  moreover have "\<not> tty_is_ready t1" "tty_is_ready t2" using t1(2) t2 by (simp_all add: tty_is_ready_def)
  ultimately show ?thesis using t1(1) t2
    by (simp add: reset_keyboard_buffer_def memory_k_def set_memory_def)
qed

definition tty_example :: tty where
  "tty_example = \<lparr>vga_enabled = False, uart_enabled = True, monitor = screen_example, uart_out = [], tty_kernel = kernel_waiting,
     read_wait = 0x20000044, fg_pgid = 1, line_buffer = replicate 511 0, buffer_final_length = 0, buffer_current_position = 0,
     tty_echo_on = True, tty_canonical_mode = True, character_present = False, newline_present = False,
     key_sequence = replicate 4 0, key_sequence_position = 0\<rparr>"

text \<open>A line that is typed as \<open>ac\<close>, cursor left, \<open>x\<close>, backspace, \<open>b\<close>.\<close>

theorem tty_delivers_edited_line_witness:
  "\<exists>t1 t2 t3. for_each press_key [Char 97, Char 99, Cursor_Left, Char 120, Erase, Char 98] tty_example = Some t1 \<and>
    write_to_keyboard_buffer t1 (uint ENDL) = Some t2 \<and> tty_read_end t2 0x20000100 100 = Some (t3, 4) \<and>
    map (memory_k (tty_kernel t3)) [0x20000100, 0x20000101, 0x20000102, 0x20000103, 0x20000104] = [97, 98, 99, ENDL, 0]"
proof -
  let ?ks = "[Char 97, Char 99, Cursor_Left, Char 120, Erase, Char 98]"
  have "(do { k1 \<leftarrow> wake_up_interruptible kernel_waiting 0x20000044; wait_event_end k1 0x20000044 }) \<noteq> None"
    by code_simp
  then obtain k1 k2 wq2 where k: "wake_up_interruptible kernel_waiting 0x20000044 = Some k1"
    "wait_event_end k1 0x20000044 = Some (k2, wq2)" by (auto simp: bind_eq_Some_conv)
  have shown: "line_shown kernel_waiting 0x20000044 tty_example ([], 0)" by (simp add: tty_example_def)
  have ks: "length ?ks \<le> 510" "\<forall>key\<in>set ?ks. typeable key" by simp_all
  have s: "[97, 98, 99, ENDL] = fst (edits ?ks ([], 0)) @ [ENDL]" by simp
  have n: "4 = min (unat (100 :: u32)) (length [97, 98, 99, ENDL])" by simp
  obtain t1 t2 t3 where "for_each press_key ?ks tty_example = Some t1" "write_to_keyboard_buffer t1 (uint ENDL) = Some t2"
    "tty_read_end t2 0x20000100 100 = Some (t3, int 4)"
    "memory_k (tty_kernel t3) = stored (memory_k k2) 0x20000100 (take 4 [97, 98, 99, ENDL] @ [0])"
    using tty_delivers_edited_line [OF shown ks k s n, of "0x20000100"] by blast
  then show ?thesis by (intro exI [of _ t1] exI [of _ t2] exI [of _ t3]) (simp add: stored_def)
qed

end
