(* ===== verification/Ramfs_Dirs.thy ===== *)
theory Ramfs_Dirs
  imports Ramfs
begin

text \<open>
  The directories of the file system in memory, \<open>src/fs/ramfs.c\<close>: the entries as the bytes of the directory
  spell them, what a lookup finds among them and what is left of them when a file is removed.
\<close>

section \<open>Looking up a name\<close>

text \<open>The entries of a directory: 40 bytes each, with a name that ends within the entry.\<close>

definition dirent_ok :: "byte list \<Rightarrow> bool" where
  "dirent_ok e \<longleftrightarrow> length e = 40 \<and> 0 \<in> set (drop 8 e)"

definition entry_name :: "byte list \<Rightarrow> byte list" where
  "entry_name e = takeWhile (\<lambda>c. c \<noteq> 0) (drop 8 e)"

definition entry_inode :: "byte list \<Rightarrow> addr" where
  "entry_inode e = word32 (e ! 4) (e ! 5) (e ! 6) (e ! 7)"

lemma concat_entry:
  "\<forall>e\<in>set es. length e = n \<Longrightarrow> j < length es \<Longrightarrow> i < n \<Longrightarrow> concat es ! (n * j + i) = es ! j ! i"
proof (induction es arbitrary: j)
  case (Cons e es)
  then show ?case by (cases j) (auto simp: nth_append add.assoc)
qed simp

lemma length_concat_entries: "\<forall>e\<in>set es. length e = n \<Longrightarrow> length (concat es) = n * length es"
  by (induction es) auto

lemma entry_fields:
  assumes ok: "dirent_ok e" and at: "\<forall>i<40. m (a + of_nat i) = e ! i"
  shows "load32 m (a + 4) = entry_inode e" and "cstr m (a + 8) (entry_name e)"
proof -
  have l: "length e = 40" using ok by (simp add: dirent_ok_def)
  show "load32 m (a + 4) = entry_inode e"
    using at [rule_format, of 4] at [rule_format, of 5] at [rule_format, of 6] at [rule_format, of 7]
    by (simp add: load32_def entry_inode_def add.assoc)
  have lt: "length (entry_name e) < length (drop 8 e)"
  proof -
    have "takeWhile (\<lambda>c. c \<noteq> 0) (drop 8 e) \<noteq> drop 8 e" using ok by (auto simp: takeWhile_eq_all_conv dirent_ok_def)
    then show ?thesis unfolding entry_name_def
      by (metis length_takeWhile_le le_neq_implies_less takeWhile_eq_take take_all_iff)
  qed
  have z: "drop 8 e ! length (entry_name e) = 0"
    using nth_length_takeWhile [of "\<lambda>c. c \<noteq> 0" "drop 8 e"] lt by (simp add: entry_name_def)
  have byte: "m (a + 8 + of_nat i) = drop 8 e ! i" if "i < 32" for i
    using at [rule_format, of "8 + i"] that l by (simp add: add.assoc)
  show "cstr m (a + 8) (entry_name e)"
    unfolding cstr_iff
  proof (intro conjI allI impI)
    show "m (a + 8 + of_nat i) = entry_name e ! i" if "i < length (entry_name e)" for i
      using byte [of i] that lt l by (simp add: entry_name_def takeWhile_nth)
    show "0 \<notin> set (entry_name e)" using set_takeWhileD by (force simp: entry_name_def)
    show "m (a + 8 + of_nat (length (entry_name e))) = 0" using byte [of "length (entry_name e)"] lt l z by simp
  qed
qed

lemma ramfs_lookup_loop_find:
  assumes ok: "\<forall>e\<in>set es. dirent_ok e" and len: "40 * length es < 2 ^ 31"
    and at: "\<forall>i<length (concat es). contents (k_heap k) (buf + of_nat i) = concat es ! i"
    and name: "cstr (contents (k_heap k)) (d_name file) s"
    and inos: "\<forall>e\<in>set es. entry_inode e \<noteq> NULL \<and> inodes k (entry_inode e) \<noteq> None"
  shows "j \<le> length es \<Longrightarrow> \<exists>r. ramfs_lookup_loop k buf (of_nat (40 * length es)) file (of_nat (40 * j)) = Some r \<and>
    map_option d_inode r = map_option entry_inode
      (find (\<lambda>e. entry_name e = s \<or> entry_inode e = d_inode file) (drop j es))"
proof (induction "length es - j" arbitrary: j)
  case 0
  then show ?case by (subst ramfs_lookup_loop.simps) simp
next
  case (Suc d)
  then have j: "j < length es" "d = length es - Suc j" by simp_all
  define e where "e = es ! j"
  have e: "e \<in> set es" "drop j es = e # drop (Suc j) es" using j by (simp_all add: e_def Cons_nth_drop_Suc)
  have l40: "\<forall>e\<in>set es. length e = 40" using ok by (simp add: dirent_ok_def)
  have "unat (of_nat (40 * j) :: u32) = 40 * j" "unat (of_nat (40 * length es) :: u32) = 40 * length es"
    using j len by (intro unat_of_nat_less; simp)+
  then have lt: "(of_nat (40 * j) :: u32) < of_nat (40 * length es)" using j(1) by (simp only: word_less_nat_alt)
  have "contents (k_heap k) (buf + of_nat (40 * j) + of_nat i) = e ! i" if "i < 40" for i
  proof -
    have "40 * j + i < length (concat es)" using that j(1) length_concat_entries [OF l40] by simp
    then have "contents (k_heap k) (buf + of_nat (40 * j + i)) = concat es ! (40 * j + i)" using at by blast
    then show ?thesis using concat_entry [OF l40 j(1) that] by (simp add: e_def add.assoc)
  qed
  from entry_fields [OF _ allI [OF impI [OF this]]] ok e(1)
  have f: "load32 (contents (k_heap k)) (buf + of_nat (40 * j) + 4) = entry_inode e"
    "cstr (contents (k_heap k)) (buf + of_nat (40 * j) + 8) (entry_name e)" by blast+
  have c: "strcmp (contents (k_heap k)) (buf + of_nat (40 * j) + 8) (d_name file) = Some (cmp_bytes (entry_name e) s)"
    by (rule strcmp_cstr [OF f(2) name])
  have z: "(cmp_bytes (entry_name e) s = 0) = (entry_name e = s)"
    using cmp_bytes_zero_iff cstr_nonzero [OF f(2)] cstr_nonzero [OF name] by blast
  obtain ino where ino: "deref (inodes k) (entry_inode e) = Some ino" using inos e(1) by (force simp: deref_def)
  show ?case
  proof (cases "entry_name e = s \<or> entry_inode e = d_inode file")
    case True
    then show ?thesis using lt c z f(1) ino e(2)
      by (subst ramfs_lookup_loop.simps) (simp add: Let_def del: of_nat_mult of_nat_Suc)
  next
    case False
    have next_off: "of_nat (40 * j) + dirent_bytes = (of_nat (40 * Suc j) :: u32)"
      by (simp add: dirent_bytes_def algebra_simps)
    have "ramfs_lookup_loop k buf (of_nat (40 * length es)) file (of_nat (40 * j)) =
        ramfs_lookup_loop k buf (of_nat (40 * length es)) file (of_nat (40 * j) + dirent_bytes)"
      using lt c z f(1) False
      by (subst ramfs_lookup_loop.simps) (simp add: Let_def del: of_nat_mult of_nat_Suc)
    then show ?thesis unfolding next_off using Suc.hyps(1) [OF j(2)] j(1) e(2) False by (simp del: of_nat_mult of_nat_Suc)
  qed
qed

lemma ramfs_storage_extend:
  assumes "ramfs_storage k bs ino data" and "heap_inv heap bs'" "contents heap = contents (k_heap k)" "set bs \<subseteq> set bs'"
  shows "ramfs_storage (k\<lparr>k_heap := heap\<rparr>) bs' ino data"
  using assms by (fastforce simp: ramfs_storage_def)

text \<open>C18: A lookup returns the first entry of the directory that has the name, or the inode, that is looked for,
  and a null result exactly when there is none; the copy of the directory that it searches is released again and
  no byte of a chunk in use changes.\<close>

theorem ramfs_lookup_finds:
  assumes dir: "dirp \<noteq> NULL" "inodes k dirp = Some dir" "ramfs_storage k bs dir (concat es)"
    and ok: "\<forall>e\<in>set es. dirent_ok e" and len: "40 * length es < 2 ^ 31"
    and inos: "\<forall>e\<in>set es. entry_inode e \<noteq> NULL \<and> inodes k (entry_inode e) \<noteq> None"
    and ops: "deref (fop_tables k) (i_fop dir) = Some ops" "read_op (fop_read ops) = ramfs_read"
    and room: "kmalloc_room (k_heap k) bs (i_size dir)"
    and name: "cstr (contents (k_heap k)) (d_name file) s" "buffer_chunk bs NULL (d_name file) (length s + 1)"
  shows "\<exists>k' r. ramfs_lookup read_op k dirp file = Some (k', r) \<and>
    map_option d_inode r = map_option entry_inode (find (\<lambda>e. entry_name e = s \<or> entry_inode e = d_inode file) es) \<and>
    heap_inv (k_heap k') bs \<and> other_chunks_kept bs NULL (contents (k_heap k)) (contents (k_heap k')) \<and>
    k' = k\<lparr>k_heap := k_heap k'\<rparr>"
proof -
  let ?n = "length (concat es)" and ?m = "contents (k_heap k)"
  have n: "?n = 40 * length es" using length_concat_entries [of es 40] ok by (simp add: dirent_ok_def)
  have size: "unat (i_size dir) = ?n" and inv: "heap_inv (k_heap k) bs" using dir(3) by (simp_all add: ramfs_storage_def)
  have "i_size dir = of_nat (unat (i_size dir))" by simp
  then have size': "i_size dir = of_nat (40 * length es)" by (simp only: size n)
  obtain bs' a where pl: "place_block (heap_start (k_heap k)) (align_size (i_size dir)) bs = (bs', a)" by fastforce
  let ?N = "align_size (i_size dir)"
  obtain heap' where h: "kmalloc (k_heap k) (i_size dir) = Some (heap', a + 12)" "heap_inv heap' bs'" "contents heap' = ?m"
    using kmalloc_places [OF inv room pl] by blast
  obtain ys zs where bs: "bs = ys @ zs" "bs' = ys @ (a, ?N) # zs" using place_block_inserts [OF pl] by blast
  have blk: "(a, ?N) \<in> set bs'" "set bs \<subseteq> set bs'" using bs by auto
  have new: "fst b \<noteq> a" if "b \<in> set bs" for b using heap_inv_distinct [OF h(2)] bs that by (force simp: image_iff)
  have fits: "?n \<le> unat ?N" using align_size_bounds(1) [of "i_size dir"] n len size by simp
  define k1 where "k1 = k\<lparr>k_heap := heap'\<rparr>"
  have st1: "ramfs_storage k1 bs' dir (concat es)"
    unfolding k1_def by (rule ramfs_storage_extend [OF dir(3) h(2,3) blk(2)])
  have inside: "unat (a + 12 + of_nat i) \<in> chunk_region (a, ?N)" if "i < ?n" for i
  proof (rule chunk_offset [OF h(2) blk(1)])
    have "unat (of_nat i :: u32) = i" using that n len by (intro unat_of_nat_less) simp
    then show "unat (a + 12 + of_nat i - (a + 12)) < unat ?N" using that fits by simp
  qed
  have "?n = 0 \<or> buffer_chunk bs' (file_begin dir - 12) (a + 12) (unat (i_size dir))"
  proof (cases "?n = 0")
    case False
    then have "\<exists>c\<in>set bs. fst c = file_begin dir - 12" using dir(3) size by (force simp: ramfs_storage_def)
    then have "a \<noteq> file_begin dir - 12" using new by metis
    then show ?thesis using inside blk(1) size unfolding buffer_chunk_def by (metis fst_conv)
  qed simp
  moreover have "length (concat es) < 2 ^ 31" "unat (0 :: u32) + unat (i_size dir) < 2 ^ 31" using n len size by simp_all
  ultimately obtain m' where m': "ramfs_read k1 (wrapper_file dirp) (a + 12) (i_size dir) 0 =
      Some (k1\<lparr>k_heap := (k_heap k1)\<lparr>contents := m'\<rparr>\<rparr>, int ?n)"
    "\<forall>i<?n. m' (a + 12 + of_nat i) = concat es ! i" "\<forall>x. ?n \<le> unat (x - (a + 12)) \<longrightarrow> m' x = ?m x"
    using ramfs_read_bytes [of "wrapper_file dirp" k1 dir bs' "concat es" 0 "i_size dir" ?n "a + 12"] dir(1,2) st1 size h(3)
    by (auto simp: k1_def wrapper_file_def)
  have kept: "m' x = ?m x" if "b \<in> set bs" "unat x \<in> chunk_region b" for b and x :: addr
  proof (rule ccontr)
    assume "m' x \<noteq> ?m x"
    then have "unat (x - (a + 12)) < unat ?N" using m'(3) fits by (meson not_le order_less_le_trans)
    from chunk_offset [OF h(2) blk(1) this] show False
      using chunks_disjoint [OF h(2) blk(1), of b] that blk(2) new [OF that(1)] by fastforce
  qed
  define k2 where "k2 = k1\<lparr>k_heap := (k_heap k1)\<lparr>contents := m'\<rparr>\<rparr>"
  have "cstr m' (d_name file) s"
    using name kept cstr_cong [of s m' "d_name file" ?m] unfolding buffer_chunk_def by (metis less_Suc_eq_le Suc_eq_plus1)
  then obtain r where r: "ramfs_lookup_loop k2 (a + 12) (i_size dir) file 0 = Some r"
    "map_option d_inode r = map_option entry_inode (find (\<lambda>e. entry_name e = s \<or> entry_inode e = d_inode file) es)"
    using ramfs_lookup_loop_find [OF ok len, of k2 "a + 12" "file" s 0] m'(2) inos size' by (auto simp: k2_def k1_def)
  obtain heap2 where f: "kfree (heap'\<lparr>contents := m'\<rparr>) (a + 12) = Some heap2" "heap_inv heap2 bs" "contents heap2 = m'"
    using kfree_removes [of "heap'\<lparr>contents := m'\<rparr>" ys a ?N zs] h(2) bs by auto
  have tab: "i_fop dir \<noteq> NULL" "fop_tables k (i_fop dir) = Some ops"
    using ops(1) by (simp_all add: deref_def split: if_splits)
  have nz: "a + 12 \<noteq> NULL" using heap_inv_block_ptr(2) [OF h(2) blk(1)] by simp
  have "ramfs_lookup read_op k dirp file = Some (k\<lparr>k_heap := heap2\<rparr>, r)"
    using dir(1,2) h(1) ops(2) tab m'(1) r(1) f(1) nz
    by (simp add: ramfs_lookup_def kmalloc_k_def kfree_k_def deref_def k1_def k2_def)
  then show ?thesis using r(2) f(2,3) kept by (intro exI conjI) (auto simp: other_chunks_kept_def)
qed

section \<open>Removing a file\<close>

lemma kfree_k_chunk:
  assumes "heap_inv (k_heap k) bs" and "(p - 12, n) \<in> set bs"
  shows "\<exists>heap' bs'. kfree_k k p = Some (k\<lparr>k_heap := heap'\<rparr>) \<and> heap_inv heap' bs' \<and>
    set bs' = set bs - {(p - 12, n)} \<and> contents heap' = contents (k_heap k)"
proof -
  obtain ys zs where bs: "bs = ys @ (p - 12, n) # zs" using split_list [OF assms(2)] by blast
  obtain heap' where h: "kfree (k_heap k) p = Some heap'" "heap_inv heap' (ys @ zs)" "contents heap' = contents (k_heap k)"
    using kfree_removes [of "k_heap k" ys "p - 12" n zs] assms(1) bs by auto
  have "distinct bs" using heap_inv_distinct [OF assms(1)] by (simp add: distinct_map)
  then have "set (ys @ zs) = set bs - {(p - 12, n)}" using bs by auto
  then show ?thesis using h by (intro exI [of _ heap'] exI [of _ "ys @ zs"]) (simp add: kfree_k_def)
qed

text \<open>Releasing several chunks.\<close>

lemma kfree_k_chunks:
  "heap_inv (k_heap k) bs \<Longrightarrow> \<forall>p\<in>set ps. \<exists>n. (p - 12, n) \<in> set bs \<Longrightarrow> distinct ps \<Longrightarrow>
    \<exists>heap' bs'. for_each (\<lambda>p k. kfree_k k p) ps k = Some (k\<lparr>k_heap := heap'\<rparr>) \<and> heap_inv heap' bs' \<and>
      set bs' = {b \<in> set bs. fst b + 12 \<notin> set ps} \<and> contents heap' = contents (k_heap k)"
proof (induction ps arbitrary: k bs)
  case (Cons p ps)
  obtain n where n: "(p - 12, n) \<in> set bs" using Cons.prems(2) by auto
  obtain heap1 bs1 where 1: "kfree_k k p = Some (k\<lparr>k_heap := heap1\<rparr>)" "heap_inv heap1 bs1"
    "set bs1 = set bs - {(p - 12, n)}" "contents heap1 = contents (k_heap k)"
    using kfree_k_chunk [OF Cons.prems(1) n] by blast
  have "\<exists>n. (q - 12, n) \<in> set bs1" if "q \<in> set ps" for q
  proof -
    have "q \<noteq> p" using that Cons.prems(3) by auto
    then have "q - 12 \<noteq> p - 12" by simp
    then show ?thesis using Cons.prems(2) that 1(3) by auto
  qed
  then obtain heap' bs' where 2: "for_each (\<lambda>p k. kfree_k k p) ps (k\<lparr>k_heap := heap1\<rparr>) = Some (k\<lparr>k_heap := heap'\<rparr>)"
    "heap_inv heap' bs'" "set bs' = {b \<in> set bs1. fst b + 12 \<notin> set ps}" "contents heap' = contents heap1"
    using Cons.IH [of "k\<lparr>k_heap := heap1\<rparr>" bs1] 1(2) Cons.prems(3) by auto
  have "{b \<in> set bs. fst b + 12 \<notin> set (p # ps)} = {b \<in> set bs1. fst b + 12 \<notin> set ps}"
  proof -
    have "fst b + 12 = p \<longleftrightarrow> b = (p - 12, n)" if "b \<in> set bs" for b
      using heap_inv_distinct [OF Cons.prems(1)] n that
      by (metis add_diff_cancel_right' distinct_map fst_conv inj_onD diff_add_cancel)
    then show ?thesis using 1(3) by auto
  qed
  moreover have "for_each (\<lambda>p k. kfree_k k p) (p # ps) k = Some (k\<lparr>k_heap := heap'\<rparr>)" using 1(1) 2(1) by simp
  ultimately show ?case using 1(4) 2(2,3,4) by (intro exI [of _ heap'] exI [of _ bs']) simp
next
  case Nil
  have "k = k\<lparr>k_heap := k_heap k\<rparr>" by simp
  then show ?case using Nil.prems by (intro exI [of _ "k_heap k"] exI [of _ bs]) simp
qed

text \<open>Removing a file releases its chunks, but shortens its directory by one entry without regard to whose
  entry that is: the directory forgets the file that was entered last, and the entry of the removed file stays
  when it was not the last one.\<close>

theorem ramfs_unlink_drops_last_entry:
  assumes dir: "dirp \<noteq> NULL" "inodes k dirp = Some dir" "ramfs_storage k bs dir (concat es @ e)" "length e = 40"
    and ino: "d_inode file \<noteq> NULL" "inodes k (d_inode file) = Some ino"
    and chunks: "distinct [file_begin ino, i_fop ino, i_op ino, d_inode file]"
      "\<forall>p\<in>{file_begin ino, i_fop ino, i_op ino, d_inode file}. (\<exists>n. (p - 12, n) \<in> set bs) \<and> p \<noteq> file_begin dir"
  shows "\<exists>k' bs'. ramfs_unlink k dirp file = Some (k', 0) \<and>
    inodes k' = (inodes k)(dirp \<mapsto> dir\<lparr>i_size := i_size dir - 40\<rparr>) \<and>
    ramfs_storage k' bs' (dir\<lparr>i_size := i_size dir - 40\<rparr>) (concat es) \<and>
    set bs' = {b \<in> set bs. fst b + 12 \<notin> {file_begin ino, i_fop ino, i_op ino, d_inode file}}"
proof -
  let ?ps = "[file_begin ino, i_fop ino, i_op ino, d_inode file]"
  have inv: "heap_inv (k_heap k) bs" using dir(3) by (simp add: ramfs_storage_def)
  obtain heap' bs' where f: "for_each (\<lambda>p k. kfree_k k p) ?ps k = Some (k\<lparr>k_heap := heap'\<rparr>)" "heap_inv heap' bs'"
    "set bs' = {b \<in> set bs. fst b + 12 \<notin> set ?ps}" "contents heap' = contents (k_heap k)"
    using kfree_k_chunks [OF inv _ chunks(1)] chunks(2) by auto
  let ?k = "k\<lparr>k_heap := heap', inodes := (inodes k)(dirp \<mapsto> dir\<lparr>i_size := i_size dir - 40\<rparr>)\<rparr>"
  have "ramfs_unlink k dirp file = for_each (\<lambda>p k. kfree_k k p) ?ps k \<bind> (\<lambda>k. deref (inodes k) dirp \<bind>
      (\<lambda>dir. Some (k\<lparr>inodes := (inodes k)(dirp \<mapsto> dir\<lparr>i_size := i_size dir - 40\<rparr>)\<rparr>, 0)))"
    using ino by (simp add: ramfs_unlink_def deref_def dirent_bytes_def)
  then have "ramfs_unlink k dirp file = Some (?k, 0)" unfolding f(1) using dir(1,2) by (simp add: deref_def)
  moreover have "unat (i_size dir) = length (concat es) + 40" using dir(3,4) by (simp add: ramfs_storage_def)
  then have "unat (i_size dir - 40) = length (concat es)" using unat_available [of 40 "i_size dir"] by simp
  then have "ramfs_storage ?k bs' (dir\<lparr>i_size := i_size dir - 40\<rparr>) (concat es)"
    using dir(3) f(2,3,4) chunks(2) by (auto simp: ramfs_storage_def nth_append)
  ultimately show ?thesis using f(3) by (intro exI [of _ ?k] exI [of _ bs']) simp
qed

text \<open>A heap of six chunks: a directory of one entry, the storage, tables and inode of the file that it lists,
  and the name that is looked for.\<close>

definition heap_files :: allocator where
  "heap_files = \<lparr>head = 0x20000000, allocated_size = 264, allocated_chunks = 6, heap_start = 0x20000000,
     heap_start_ptr = 0x20000000, heap_end_ptr = 0x20001000,
     headers = [0x20000000 \<mapsto> \<lparr>ptr = 0x2000000C, csize = 44, next_node = 0x20000038\<rparr>,
                0x20000038 \<mapsto> \<lparr>ptr = 0x20000044, csize = 44, next_node = 0x20000070\<rparr>,
                0x20000070 \<mapsto> \<lparr>ptr = 0x2000007C, csize = 44, next_node = 0x200000A8\<rparr>,
                0x200000A8 \<mapsto> \<lparr>ptr = 0x200000B4, csize = 44, next_node = 0x200000E0\<rparr>,
                0x200000E0 \<mapsto> \<lparr>ptr = 0x200000EC, csize = 44, next_node = 0x20000118\<rparr>,
                0x20000118 \<mapsto> \<lparr>ptr = 0x20000124, csize = 44, next_node = NULL\<rparr>],
     contents = (\<lambda>_. 0)(0x2000000C := 45, 0x20000010 := 0xB4, 0x20000013 := 0x20, 0x20000014 := 97,
                        0x20000124 := 97)\<rparr>"

definition blocks_files :: "block list" where
  "blocks_files = [(0x20000000, 44), (0x20000038, 44), (0x20000070, 44), (0x200000A8, 44), (0x200000E0, 44),
     (0x20000118, 44)]"

definition entry_a :: "byte list" where
  "entry_a = [45, 0, 0, 0, 0xB4, 0, 0, 0x20, 97] @ replicate 31 0"

definition dir_files :: inode where
  "dir_files = inode_zero\<lparr>i_size := 40, bytes_allocated := 40, file_begin := 0x2000000C, i_fop := 0x20000500\<rparr>"

definition file_a :: inode where
  "file_a = inode_zero\<lparr>bytes_allocated := 40, file_begin := 0x20000044, i_fop := 0x2000007C, i_op := 0x200000EC\<rparr>"

definition kernel_files :: kernel where
  "kernel_files = kernel_example\<lparr>k_heap := heap_files,
     inodes := [0x20000400 \<mapsto> dir_files, 0x200000B4 \<mapsto> file_a],
     fop_tables := [0x20000500 \<mapsto> empty_fop\<lparr>fop_read := 1\<rparr>]\<rparr>"

lemma kernel_files_sel [simp]:
  "k_heap kernel_files = heap_files" "inodes kernel_files = [0x20000400 \<mapsto> dir_files, 0x200000B4 \<mapsto> file_a]"
  "fop_tables kernel_files = [0x20000500 \<mapsto> empty_fop\<lparr>fop_read := 1\<rparr>]"
  by (simp_all add: kernel_files_def)

lemma heap_files_inv: "heap_inv heap_files blocks_files"
  by (simp add: heap_inv_def heap_files_def blocks_files_def block_end_def)

lemma dir_files_storage: "ramfs_storage kernel_files blocks_files dir_files (concat [entry_a])"
proof -
  have e: "map (\<lambda>i. contents heap_files (0x2000000C + of_nat i)) [0..<40] = entry_a" by code_simp
  have "contents heap_files (0x2000000C + of_nat i) = entry_a ! i" if "i < 40" for i
    using that by (simp add: e [symmetric])
  then show ?thesis using heap_files_inv
    by (simp add: ramfs_storage_def dir_files_def blocks_files_def) (simp add: entry_a_def)
qed

lemma file_a_storage: "ramfs_storage kernel_files blocks_files file_a []"
  using heap_files_inv by (simp add: ramfs_storage_def file_a_def blocks_files_def inode_zero_def)

lemma name_files: "buffer_chunk blocks_files a 0x20000124 2" if "a \<noteq> 0x20000118"
proof -
  have "unat (0x20000124 + of_nat i :: u32) \<in> chunk_region (0x20000118, 44)" if "i < 2" for i
    using that by (auto simp: less_2_cases_iff chunk_region_def block_end_def)
  then show ?thesis using that by (force simp: buffer_chunk_def blocks_files_def)
qed

lemma room_files: "unat n \<le> 1024 \<Longrightarrow> kmalloc_room heap_files blocks_files n"
  using align_size_bounds(4) [of n]
  by (simp add: kmalloc_room_def heap_files_def blocks_files_def heap_top_def heap_used_def block_end_def)

theorem ramfs_write_then_read_witness:
  "\<exists>k' m' n. ramfs_write kernel_files \<lparr>f_inode = 0x200000B4, f_op = NULL, f_flags = 0, f_pos = 0, f_owner = 0\<rparr>
      0x20000124 2 0 = Some (k', 2) \<and>
    ramfs_read k' \<lparr>f_inode = 0x200000B4, f_op = NULL, f_flags = 0, f_pos = 0, f_owner = 0\<rparr> 0x20000124 2 0 =
      Some (k'\<lparr>k_heap := (k_heap k')\<lparr>contents := m'\<rparr>\<rparr>, int n) \<and>
    map (\<lambda>i. m' (0x20000124 + of_nat i)) [0..<n] = [97, 0]"
proof -
  let ?f = "\<lparr>f_inode = 0x200000B4, f_op = NULL, f_flags = 0, f_pos = 0, f_owner = 0\<rparr>"
  have "kmalloc_room (k_heap kernel_files) blocks_files (align_size (i_size file_a + 2 + 512))"
    using room_files by (simp add: file_a_def inode_zero_def align_size_def)
  moreover have "buffer_chunk blocks_files (file_begin file_a - 12) 0x20000124 (unat (2 :: u32))"
    using name_files by (simp add: file_a_def)
  moreover have "i_size file_a = 0" by (simp add: file_a_def inode_zero_def)
  ultimately have *: "kmalloc_room (k_heap kernel_files) blocks_files (align_size (i_size file_a + 2 + 512))"
    "buffer_chunk blocks_files (file_begin file_a - 12) 0x20000124 (unat (2 :: u32))" "i_size file_a = 0" by blast+
  have f: "f_inode ?f \<noteq> NULL" "inodes kernel_files (f_inode ?f) = Some file_a"
    "length ([] :: byte list) + unat (2 :: u32) + 512 < 2 ^ 31" by simp_all
  have two: "unat (2 :: u32) = 2" "int 2 = 2" by simp_all
  obtain k' bs' and ino' :: inode where w: "ramfs_write kernel_files ?f 0x20000124 2 0 = Some (k', 2)"
    "{b \<in> set blocks_files. fst b \<noteq> file_begin file_a - 12} \<subseteq> {b \<in> set bs'. fst b \<noteq> file_begin ino' - 12}"
    and r: "\<forall>buf' off count'. buffer_chunk bs' (file_begin ino' - 12) buf' (unat count') \<and> unat off + unat count' < 2 ^ 31 \<longrightarrow>
        (\<exists>m' n. ramfs_read k' ?f buf' count' off = Some (k'\<lparr>k_heap := (k_heap k')\<lparr>contents := m'\<rparr>\<rparr>, int n) \<and>
          map (\<lambda>i. m' (buf' + of_nat i)) [0..<n] = take (unat count') (drop (unat off)
            (map (\<lambda>i. contents heap_files (0x20000124 + of_nat i)) [0..<2])))"
    using ramfs_write_then_read [OF f(1) f(2) file_a_storage f(3) *(1,2)] unfolding *(3) kernel_files_sel append_Nil two
    by blast
  have "map (\<lambda>i. contents heap_files (0x20000124 + of_nat i)) [0..<2] = [97, 0]" by code_simp
  moreover have "buffer_chunk bs' (file_begin ino' - 12) 0x20000124 (unat (2 :: u32))"
    using name_files [of "file_begin file_a - 12"] w(2) by (auto simp: buffer_chunk_def file_a_def)
  ultimately show ?thesis
    using w(1) r [rule_format, of "0x20000124" 2 0] by simp
qed

theorem ramfs_lookup_finds_witness:
  "\<exists>k' r. ramfs_lookup (\<lambda>_. ramfs_read) kernel_files 0x20000400 \<lparr>d_name = 0x20000124, d_inode = NULL, d_sb = NULL\<rparr> = Some (k', Some r) \<and>
    d_inode r = 0x200000B4"
proof -
  have e: "dirent_ok entry_a" "entry_inode entry_a = 0x200000B4" "entry_name entry_a = [97]" by code_simp+
  have ops: "deref (fop_tables kernel_files) (i_fop dir_files) = Some (empty_fop\<lparr>fop_read := 1\<rparr>)"
    by (simp add: dir_files_def deref_def)
  have room: "kmalloc_room (k_heap kernel_files) blocks_files (i_size dir_files)"
    using room_files by (simp add: dir_files_def)
  have c: "cstr (contents (k_heap kernel_files)) 0x20000124 [97]" by (simp add: heap_files_def)
  have nm: "buffer_chunk blocks_files 0 0x20000124 (Suc (Suc 0))"
    using name_files [of 0] by (simp only: numeral_2_eq_2) simp
  obtain k' r where "ramfs_lookup (\<lambda>_. ramfs_read) kernel_files 0x20000400 \<lparr>d_name = 0x20000124, d_inode = NULL, d_sb = NULL\<rparr> = Some (k', r)"
    "map_option d_inode r = map_option entry_inode (find (\<lambda>e. entry_name e = [97] \<or> entry_inode e = NULL) [entry_a])"
    using ramfs_lookup_finds [OF _ _ dir_files_storage _ _ _ ops _ room, of "0x20000400" "\<lambda>_. ramfs_read"
      "\<lparr>d_name = 0x20000124, d_inode = NULL, d_sb = NULL\<rparr>" "[97]"] e c nm by auto
  then show ?thesis using e by auto
qed

theorem ramfs_unlink_drops_last_entry_witness:
  "\<exists>k' bs'. ramfs_unlink kernel_files 0x20000400 \<lparr>d_name = 0x20000124, d_inode = 0x200000B4, d_sb = NULL\<rparr> = Some (k', 0) \<and>
    ramfs_storage k' bs' (dir_files\<lparr>i_size := 0\<rparr>) [] \<and> set bs' = {(0x20000000, 44), (0x20000118, 44)}"
proof -
  have st: "ramfs_storage kernel_files blocks_files dir_files (concat [] @ entry_a)" using dir_files_storage by simp
  have l: "length entry_a = 40" by (simp add: entry_a_def)
  have z: "i_size dir_files - 40 = 0" by (simp add: dir_files_def)
  obtain k' bs' where u: "ramfs_unlink kernel_files 0x20000400 \<lparr>d_name = 0x20000124, d_inode = 0x200000B4, d_sb = NULL\<rparr> = Some (k', 0)"
    "ramfs_storage k' bs' (dir_files\<lparr>i_size := 0\<rparr>) []"
    "set bs' = {b \<in> set blocks_files. fst b + 12 \<notin> {file_begin file_a, i_fop file_a, i_op file_a, 0x200000B4}}"
    using ramfs_unlink_drops_last_entry [OF _ _ st l, of "0x20000400" "\<lparr>d_name = 0x20000124, d_inode = 0x200000B4, d_sb = NULL\<rparr>" file_a]
    by (fastforce simp: z file_a_def dir_files_def blocks_files_def)
  moreover have "set bs' = {(0x20000000, 44), (0x20000118, 44)}"
    unfolding u(3) by (auto simp: blocks_files_def file_a_def)
  ultimately show ?thesis by blast
qed

end
