(* ===== verification/Fat16_Read.thy ===== *)
theory Fat16_Read
  imports Fat16_Table Ramfs_Dirs
begin

text \<open>
  Reading a file of the FAT16 file system, \<open>FAT16_read\<close> and \<open>FAT16_read_cluster_chain\<close> of \<open>src/fs/fat16.c\<close>: the
  bytes of a chain of clusters, one round of the loop, the loop by induction on the chain, and the read from a position
  with the temporary buffer that is allocated and released around it.
\<close>

section \<open>The data of a chain\<close>

definition cluster_data :: "('d \<Rightarrow> u32 \<Rightarrow> byte list) \<Rightarrow> 'd fat \<Rightarrow> u16 \<Rightarrow> byte list" where
  "cluster_data blocks s c =
     concat (map (\<lambda>i. blocks (drive s) (chain_sector s c + of_nat i)) [0..<unat (sectors_per_cluster (boot s))])"

definition chain_data :: "('d \<Rightarrow> u32 \<Rightarrow> byte list) \<Rightarrow> 'd fat \<Rightarrow> u16 list \<Rightarrow> byte list" where
  "chain_data blocks s xs = concat (map (cluster_data blocks s) xs)"

text \<open>Sectors of 512 bytes, clusters of less than 64 KiB, and sector numbers of the chain that fit 16 bits.\<close>

definition chain_geometry :: "'d fat \<Rightarrow> u16 list \<Rightarrow> bool" where
  "chain_geometry s xs \<longleftrightarrow> bytes_per_sector (boot s) = 512 \<and> 0 < unat (sectors_per_cluster (boot s)) \<and>
     unat (sectors_per_cluster (boot s)) < 128 \<and> (\<forall>c\<in>set xs. 0 \<le> cluster_sector s c \<and> cluster_sector s c < 2 ^ 16)"

text \<open>A state that differs by reads of the drive and by writes to memory.\<close>

definition fat_reads :: "('d \<Rightarrow> u32 \<Rightarrow> byte list) \<Rightarrow> 'd fat \<Rightarrow> 'd fat \<Rightarrow> bool" where
  "fat_reads blocks s t \<longleftrightarrow> blocks (drive t) = blocks (drive s) \<and>
     (\<exists>d ca n. t = s\<lparr>drive := d, FAT_sector_cache := ca, FAT_cached_sector := n, fk := set_memory (fk s) (fat_mem t)\<rparr>)"

lemma set_memory_simps [simp]:
  "set_memory (set_memory k m) m' = set_memory k m'" "memory_k (set_memory k m) = m" "set_memory k (memory_k k) = k"
  by (simp_all add: set_memory_def memory_k_def)

lemma fat_mem_simps [simp]:
  "fat_mem (set_fat_mem s m) = m" "drive (set_fat_mem s m) = drive s" "boot (set_fat_mem s m) = boot s"
  "FAT_sector (set_fat_mem s m) = FAT_sector s" "FAT_sector_cache (set_fat_mem s m) = FAT_sector_cache s"
  "FAT_cached_sector (set_fat_mem s m) = FAT_cached_sector s"
  by (auto simp: fat_mem_def set_fat_mem_def FAT_sector_def)

lemma fat_reads_refl [simp]: "fat_reads blocks s s"
  by (auto simp: fat_reads_def fat_mem_def intro!: exI [of _ "drive s"] exI [of _ "FAT_sector_cache s"] exI [of _ "FAT_cached_sector s"])

lemma fat_reads_trans: "fat_reads blocks s t \<Longrightarrow> fat_reads blocks t u \<Longrightarrow> fat_reads blocks s u"
proof -
  assume a: "fat_reads blocks s t" "fat_reads blocks t u"
  obtain d ca n where t: "t = s\<lparr>drive := d, FAT_sector_cache := ca, FAT_cached_sector := n, fk := set_memory (fk s) (fat_mem t)\<rparr>"
    using a(1) by (auto simp: fat_reads_def)
  obtain d' ca' n' where u: "u = t\<lparr>drive := d', FAT_sector_cache := ca', FAT_cached_sector := n', fk := set_memory (fk t) (fat_mem u)\<rparr>"
    using a(2) by (auto simp: fat_reads_def)
  have "fk t = set_memory (fk s) (fat_mem t)" by (subst t) simp
  then have "u = s\<lparr>drive := d', FAT_sector_cache := ca', FAT_cached_sector := n', fk := set_memory (fk s) (fat_mem u)\<rparr>"
    by (subst u, subst t) simp
  then show ?thesis using a by (auto simp: fat_reads_def)
qed

lemma fat_readsD:
  assumes "fat_reads blocks s t"
  shows "blocks (drive t) = blocks (drive s)" "boot t = boot s" "FAT_sector t = FAT_sector s" "cluster_sector t = cluster_sector s"
    "fat_entry blocks t = fat_entry blocks s" "chain_data blocks t = chain_data blocks s" "fk t = set_memory (fk s) (fat_mem t)"
    "fat_inodes t = fat_inodes s"
proof -
  obtain d ca n where t: "t = s\<lparr>drive := d, FAT_sector_cache := ca, FAT_cached_sector := n, fk := set_memory (fk s) (fat_mem t)\<rparr>"
    using assms by (auto simp: fat_reads_def)
  show b: "blocks (drive t) = blocks (drive s)" using assms by (simp add: fat_reads_def)
  show boot: "boot t = boot s" "fk t = set_memory (fk s) (fat_mem t)" "fat_inodes t = fat_inodes s" by (subst t, simp)+
  show sec: "FAT_sector t = FAT_sector s" by (subst t) (simp add: FAT_sector_def fun_eq_iff)
  show cl: "cluster_sector t = cluster_sector s" by (subst t) (simp add: cluster_sector_def fun_eq_iff)
  show "fat_entry blocks t = fat_entry blocks s" by (simp add: fat_entry_def fun_eq_iff sec b)
  show "chain_data blocks t = chain_data blocks s"
    by (simp add: chain_data_def cluster_data_def [abs_def] fun_eq_iff b chain_sector_def cl boot)
qed

lemma fat_reads_mem: "fat_reads blocks s (set_fat_mem s m)"
  unfolding fat_reads_def
  by (intro conjI exI [of _ "drive s"] exI [of _ "FAT_sector_cache s"] exI [of _ "FAT_cached_sector s"])
    (simp_all add: set_fat_mem_def fat_mem_def)

lemma coherent_mem [simp]: "fat_coherent dev blocks (set_fat_mem s m) = fat_coherent dev blocks s"
  by (simp add: fat_coherent_def)

lemma find_next_reads_only:
  assumes "fat_coherent dev blocks s"
  shows "fat_reads blocks s (FAT_fetch dev s c) \<and> fat_mem (FAT_fetch dev s c) = fat_mem s"
proof (cases "FAT_cached s c")
  case False
  from assms have "block_device dev blocks" "drive_ready blocks (drive s)" by (simp_all add: fat_coherent_def)
  from block_device_one(1) [OF this, of "FAT_sector s (c div 256)"] obtain d' where
    r: "read_block dev (drive s) (FAT_sector s (c div 256)) 512 = (d', blocks (drive s) (FAT_sector s (c div 256)), 0)"
      "blocks d' = blocks (drive s)" by auto
  have t: "FAT_fetch dev s c = s\<lparr>drive := d', FAT_sector_cache := words16 (blocks (drive s) (FAT_sector s (c div 256))),
      FAT_cached_sector := c div 256\<rparr>"
    using False r(1) by (simp add: FAT_fetch_def FAT_load_def FAT_sector_def)
  show ?thesis unfolding fat_reads_def t using r(2)
    by (auto simp: fat_mem_def intro!: exI [of _ d'] exI [of _ "words16 (blocks (drive s) (FAT_sector s (c div 256)))"]
        exI [of _ "c div 256"])
qed (simp add: FAT_fetch_def)

text \<open>Reading a cluster.\<close>

lemma length_blocks: "drive_ready blocks d \<Longrightarrow> length (concat (map (\<lambda>i. blocks d (b + of_nat i)) [0..<k])) = 512 * k"
  by (induction k) (auto simp: drive_ready_def)

lemma chain_sector_trunc:
  assumes "0 \<le> cluster_sector s c" "cluster_sector s c < 2 ^ 16"
  shows "ucast (word_of_int (cluster_sector s c) :: u16) = (chain_sector s c :: u32)"
proof -
  have "uint (word_of_int (cluster_sector s c) :: u16) = cluster_sector s c"
    using assms by (simp add: uint_word_of_int)
  moreover have "(ucast (word_of_int (cluster_sector s c) :: u16) :: u32) =
      word_of_int (uint (word_of_int (cluster_sector s c) :: u16))" by simp
  ultimately show ?thesis unfolding chain_sector_def by metis
qed

lemma cluster_read:
  assumes "fat_coherent dev blocks s" "chain_geometry s (c # xs)" "unat n = 512 * unat (sectors_per_cluster (boot s))"
  shows "\<exists>d'. drive_read dev s (ucast (word_of_int (cluster_sector s c) :: u16)) n p =
      (set_fat_mem (s\<lparr>drive := d'\<rparr>) (stored (fat_mem s) p (cluster_data blocks s c)), 0) \<and> blocks d' = blocks (drive s)"
proof -
  let ?k = "unat (sectors_per_cluster (boot s))"
  have k: "0 < ?k" "?k < 2 ^ 23" using assms(2) by (simp_all add: chain_geometry_def)
  have "block_device dev blocks" "drive_ready blocks (drive s)" using assms(1) by (simp_all add: fat_coherent_def)
  from block_device_read [OF this k, of "chain_sector s c"] obtain d' where
    "read_block dev (drive s) (chain_sector s c) (of_nat (512 * ?k)) = (d', cluster_data blocks s c, 0)" "blocks d' = blocks (drive s)"
    unfolding cluster_data_def by blast
  moreover have "ucast (word_of_int (cluster_sector s c) :: u16) = chain_sector s c"
    using assms(2) by (intro chain_sector_trunc) (simp_all add: chain_geometry_def)
  moreover have "of_nat (512 * ?k) = n" unfolding assms(3) [symmetric] by simp
  ultimately show ?thesis by (intro exI [of _ d']) (simp add: drive_read_def set_fat_mem_def fat_mem_def)
qed

lemma unat_of_nat_self: "of_nat (unat (x :: 'a::len word)) = x"
  by simp

lemma coherent_drive: "blocks d' = blocks (drive s) \<Longrightarrow> fat_coherent dev blocks (s\<lparr>drive := d'\<rparr>) = fat_coherent dev blocks s"
  by (simp add: fat_coherent_def FAT_sector_def drive_ready_def)

lemma reads_drive: "blocks d' = blocks (drive s) \<Longrightarrow> fat_reads blocks s (s\<lparr>drive := d'\<rparr>)"
  unfolding fat_reads_def
  by (auto simp: fat_mem_def intro!: exI [of _ d'] exI [of _ "FAT_sector_cache s"] exI [of _ "FAT_cached_sector s"])

lemma length_cluster_data:
  "fat_coherent dev blocks s \<Longrightarrow> length (cluster_data blocks s c) = 512 * unat (sectors_per_cluster (boot s))"
  using length_blocks [of blocks "drive s" "chain_sector s c"] by (simp add: cluster_data_def fat_coherent_def)

text \<open>One round of the loop: a cluster is read, its part of the request is copied, and the chain is followed.\<close>

lemma read_chain_step:
  assumes "fat_coherent dev blocks s" "chain_geometry s (c # xs)" "unat bpc = 512 * unat (sectors_per_cluster (boot s))"
    and "unat skip < unat bpc" and n: "n = min (unat bpc - unat skip) (unat remaining)"
    and apart: "\<forall>i<n. \<forall>j<unat bpc. buf + count - remaining + of_nat i \<noteq> temp + of_nat j"
  shows "\<exists>s'. fat_coherent dev blocks s' \<and> fat_reads blocks s s' \<and>
    read_chain_loop dev s buf count temp bpc c skip remaining =
      (if remaining - of_nat n \<noteq> 0 \<and> 3 \<le> fat_entry blocks s c \<and> fat_entry blocks s c < 0xfff0
       then read_chain_loop dev s' buf count temp bpc (fat_entry blocks s c) 0 (remaining - of_nat n)
       else Some (s', Some (remaining - of_nat n))) \<and>
    (\<forall>i<n. fat_mem s' (buf + count - remaining + of_nat i) = cluster_data blocks s c ! (unat skip + i)) \<and>
    (\<forall>a. unat bpc \<le> unat (a - temp) \<longrightarrow> n \<le> unat (a - (buf + count - remaining)) \<longrightarrow> fat_mem s' a = fat_mem s a)"
proof -
  let ?data = "cluster_data blocks s c" and ?d = "buf + count - remaining"
  define B where "B = (ucast bpc :: u32)"
  have B: "unat B = unat bpc" "unat B = 512 * unat (sectors_per_cluster (boot s))"
    using assms(3) by (simp_all only: B_def unat_ucast_u16)
  have len: "length ?data = unat bpc" using length_cluster_data [OF assms(1)] assms(3) by simp
  have bound: "unat bpc < 2 ^ 16" using unat_lt_exp [of bpc] by simp
  obtain d' where r: "drive_read dev s (ucast (word_of_int (cluster_sector s c) :: u16)) B temp =
      (set_fat_mem (s\<lparr>drive := d'\<rparr>) (stored (fat_mem s) temp ?data), 0)" "blocks d' = blocks (drive s)"
    using cluster_read [OF assms(1,2) B(2), of temp] by auto
  define m1 where "m1 = stored (fat_mem s) temp ?data"
  define to_copy where "to_copy = (if B - skip < remaining then B - skip else remaining)"
  have v: "unat (B - skip) = unat bpc - unat skip" using assms(4) B(1) by (simp add: unat_sub word_le_nat_alt)
  have to: "unat to_copy = n" using v by (simp add: to_copy_def n word_less_nat_alt min_def)
  then have to_n: "to_copy = of_nat n" by (metis unat_of_nat_self)
  have n_small: "n < 2 ^ 32" using unat_lt_exp [of to_copy] to by simp
  define m2 where "m2 = copied m1 ?d (temp + skip) to_copy"
  have src: "unat (skip + of_nat i) = unat skip + i" if "i < n" for i
  proof -
    have "unat skip + i < unat bpc" using that assms(4) unfolding n by auto
    then show ?thesis using bound by (intro unat_add_of_nat) simp
  qed
  have "\<not> (temp + skip) + of_nat i - ?d < to_copy" if "i < n" for i
  proof
    assume "(temp + skip) + of_nat i - ?d < to_copy"
    then have j: "unat ((temp + skip) + of_nat i - ?d) < n" using to by (simp add: word_less_nat_alt)
    have "?d + of_nat (unat ((temp + skip) + of_nat i - ?d)) = temp + of_nat (unat (skip + of_nat i))" by (simp add: algebra_simps)
    moreover have "unat (skip + of_nat i) < unat bpc" using src [OF that] that n by linarith
    ultimately show False using apart j by blast
  qed
  then have copy: "fst (memcpy m1 ?d (temp + skip) to_copy) = m2"
    using memcpy_copied [OF fwd_safe_apart [where s = "temp + skip" and d = ?d and n = to_copy]] to by (simp add: m2_def)
  define s2 where "s2 = set_fat_mem (set_fat_mem (s\<lparr>drive := d'\<rparr>) m1) m2"
  define s3 where "s3 = FAT_fetch dev s2 c"
  have s2: "fat_coherent dev blocks s2" "fat_reads blocks s s2"
    using assms(1) coherent_drive [of blocks d' s dev, OF r(2)]
      fat_reads_trans [OF reads_drive [of blocks d' s, OF r(2)] fat_reads_trans [OF fat_reads_mem fat_reads_mem]]
    unfolding s2_def by simp_all
  note s3 = FAT_fetch_coherent [OF s2(1), of c] find_next_reads_only [OF s2(1), of c]
  have entry: "fat_entry blocks s2 = fat_entry blocks s" using fat_readsD [OF s2(2)] by simp
  have step: "read_chain_loop dev s buf count temp bpc c skip remaining =
      (if remaining - of_nat n \<noteq> 0 \<and> 3 \<le> fat_entry blocks s c \<and> fat_entry blocks s c < 0xfff0
       then read_chain_loop dev s3 buf count temp bpc (fat_entry blocks s c) 0 (remaining - of_nat n)
       else Some (s3, Some (remaining - of_nat n)))"
    using r(1) copy find_next_reads [OF s2(1), of c] entry
    by (subst read_chain_loop.simps)
      (simp add: B_def [symmetric] to_copy_def [symmetric] to_n [symmetric] m1_def [symmetric] s2_def [symmetric] s3_def [symmetric],
        auto simp: Let_def)
  have mem: "fat_mem s3 = m2" using s3 by (simp add: s3_def) (simp add: s2_def)
  have got: "m2 (?d + of_nat i) = ?data ! (unat skip + i)" if i: "i < n" for i
  proof -
    have "(of_nat i :: u32) < to_copy" using i to n_small by (simp add: word_less_nat_alt unat_of_nat_less)
    then have "m2 (?d + of_nat i) = m1 (temp + (skip + of_nat i))" by (simp add: m2_def copied_in add.assoc)
    also have "\<dots> = ?data ! (unat skip + i)"
    proof -
      have "unat (skip + of_nat i) < length ?data" using src [OF i] i n len by linarith
      from stored_at [OF this, of "fat_mem s" temp] show ?thesis unfolding m1_def src [OF i] .
    qed
    finally show ?thesis .
  qed
  have frame: "m2 a = fat_mem s a" if "unat bpc \<le> unat (a - temp)" "n \<le> unat (a - ?d)" for a
  proof -
    have "m2 a = m1 a" using that(2) to by (simp add: m2_def copied_out word_less_nat_alt)
    then show ?thesis using that(1) len by (simp add: m1_def stored_out)
  qed
  show ?thesis using step s3 s2(2) got frame mem unfolding s3_def
    by (intro exI [of _ s3] conjI) (auto simp: s3_def intro: fat_reads_trans)
qed

lemma read_chain_loop_reads:
  assumes "fat_coherent dev blocks s" "fat_chain (fat_entry blocks s) (c # xs)" "chain_geometry s (c # xs)" "\<forall>x\<in>set xs. 3 \<le> x"
    and "unat bpc = 512 * unat (sectors_per_cluster (boot s))" "unat skip < unat bpc"
    and "unat remaining + unat skip \<le> length (chain_data blocks s (c # xs))"
    and "\<forall>i<unat remaining. \<forall>j<unat bpc. buf + count - remaining + of_nat i \<noteq> temp + of_nat j"
  shows "\<exists>s'. read_chain_loop dev s buf count temp bpc c skip remaining = Some (s', Some 0) \<and>
    fat_coherent dev blocks s' \<and> fat_reads blocks s s' \<and>
    (\<forall>i<unat remaining. fat_mem s' (buf + count - remaining + of_nat i) = chain_data blocks s (c # xs) ! (unat skip + i)) \<and>
    (\<forall>a. unat bpc \<le> unat (a - temp) \<longrightarrow> unat remaining \<le> unat (a - (buf + count - remaining)) \<longrightarrow> fat_mem s' a = fat_mem s a)"
  using assms
proof (induction xs arbitrary: s c skip remaining)
  case Nil
  let ?n = "min (unat bpc - unat skip) (unat remaining)"
  have len: "length (cluster_data blocks s c) = unat bpc" using length_cluster_data [OF Nil.prems(1)] Nil.prems(5) by simp
  then have n: "?n = unat remaining" using Nil.prems(6,7) by (simp add: chain_data_def)
  have zero: "remaining - of_nat ?n = 0" unfolding n by simp
  from read_chain_step [OF Nil.prems(1,3,5,6) refl, of remaining buf count temp] Nil.prems(8) show ?case
    unfolding zero unfolding n by (auto simp: chain_data_def)
next
  case (Cons x xs)
  let ?d = "buf + count - remaining" and ?n = "min (unat bpc - unat skip) (unat remaining)"
  have len: "length (cluster_data blocks s c) = unat bpc" using length_cluster_data [OF Cons.prems(1)] Cons.prems(5) by simp
  have data: "chain_data blocks s (c # x # xs) = cluster_data blocks s c @ chain_data blocks s (x # xs)"
    by (simp add: chain_data_def)
  have nx: "fat_entry blocks s c = x" "x < 0xfff0" "3 \<le> x" using Cons.prems(2,4) by auto
  have "\<forall>i<?n. \<forall>j<unat bpc. ?d + of_nat i \<noteq> temp + of_nat j" using Cons.prems(8) by simp
  from read_chain_step [OF Cons.prems(1,3,5,6) refl this] obtain s1 where
    s1: "fat_coherent dev blocks s1" "fat_reads blocks s s1" and
    step: "read_chain_loop dev s buf count temp bpc c skip remaining =
      (if remaining - of_nat ?n \<noteq> 0 then read_chain_loop dev s1 buf count temp bpc x 0 (remaining - of_nat ?n)
       else Some (s1, Some (remaining - of_nat ?n)))" and
    got: "\<And>i. i < ?n \<Longrightarrow> fat_mem s1 (?d + of_nat i) = cluster_data blocks s c ! (unat skip + i)" and
    frame: "\<And>a. unat bpc \<le> unat (a - temp) \<Longrightarrow> ?n \<le> unat (a - ?d) \<Longrightarrow> fat_mem s1 a = fat_mem s a"
    unfolding nx(1) using nx(2,3) by auto
  note same = fat_readsD [OF s1(2)]
  have got': "fat_mem s1 (?d + of_nat i) = chain_data blocks s (c # x # xs) ! (unat skip + i)" if "i < ?n" for i
  proof -
    have "unat skip + i < length (cluster_data blocks s c)" using that len by auto
    then show ?thesis using got [OF that] unfolding data by (simp add: nth_append)
  qed
  show ?case
  proof (cases "unat remaining \<le> unat bpc - unat skip")
    case True
    then have n: "?n = unat remaining" by simp
    have "remaining - of_nat ?n = 0" unfolding n by simp
    then show ?thesis using step s1 got' frame unfolding n by (intro exI [of _ s1]) simp
  next
    case False
    define n where "n = unat bpc - unat skip"
    define r where "r = remaining - of_nat n"
    have n: "?n = n" "n \<le> unat remaining" "0 < n" using False Cons.prems(6) by (simp_all add: n_def)
    have r: "unat r = unat remaining - n" using unat_available [OF n(2)] by (simp add: r_def)
    then have "0 < unat r" using False by (simp add: n_def)
    then have r_pos: "r \<noteq> 0" by auto
    have dest: "buf + count - r = ?d + of_nat n" by (simp add: r_def)
    have geo: "chain_geometry s1 (x # xs)" using Cons.prems(3) same(2,4) by (simp add: chain_geometry_def)
    have apart: "\<forall>i<unat r. \<forall>j<unat bpc. buf + count - r + of_nat i \<noteq> temp + of_nat j"
    proof (intro allI impI)
      fix i j assume "i < unat r" "j < unat bpc"
      then have "n + i < unat remaining" using r by simp
      then have "?d + of_nat (n + i) \<noteq> temp + of_nat j" using Cons.prems(8) \<open>j < unat bpc\<close> by blast
      then show "buf + count - r + of_nat i \<noteq> temp + of_nat j" unfolding dest by (simp add: add.assoc)
    qed
    have "unat r + unat (0 :: u32) \<le> length (chain_data blocks s (x # xs))"
      using Cons.prems(7) r len n_def n(2) unfolding data by simp
    moreover have "fat_chain (fat_entry blocks s1) (x # xs)" using Cons.prems(2) same(5) by simp
    moreover have "unat (0 :: u32) < unat bpc" using Cons.prems(6) by simp
    ultimately obtain s' where
      s': "read_chain_loop dev s1 buf count temp bpc x 0 r = Some (s', Some 0)" "fat_coherent dev blocks s'" "fat_reads blocks s1 s'" and
      got2: "\<And>i. i < unat r \<Longrightarrow> fat_mem s' (buf + count - r + of_nat i) = chain_data blocks s (x # xs) ! i" and
      frame2: "\<And>a. unat bpc \<le> unat (a - temp) \<Longrightarrow> unat r \<le> unat (a - (buf + count - r)) \<Longrightarrow> fat_mem s' a = fat_mem s1 a"
      using Cons.IH [OF s1(1) _ geo _ _ _ _ apart, of 0] Cons.prems(4,5) same(2,6) by auto
    have "fat_mem s' (?d + of_nat i) = chain_data blocks s (c # x # xs) ! (unat skip + i)" if rem: "i < unat remaining" for i
    proof (cases "i < n")
      case True
      have "\<forall>j<unat bpc. ?d + of_nat i \<noteq> temp + of_nat j" using Cons.prems(8) rem by blast
      then have "unat bpc \<le> unat (?d + of_nat i - temp)"
        by (metis add.commute diff_add_cancel not_le unat_of_nat_self)
      moreover have "unat (of_nat i - of_nat n :: u32) = 2 ^ 32 - (n - i)"
        using True n(2) unat_lt_exp [of remaining] by (intro unat_before) simp_all
      then have "unat r \<le> unat (?d + of_nat i - (buf + count - r))"
        unfolding dest using r n(2) True unat_lt_exp [of remaining] by simp
      ultimately have "fat_mem s' (?d + of_nat i) = fat_mem s1 (?d + of_nat i)" by (rule frame2)
      then show ?thesis using got' True n(1) by simp
    next
      case False
      then have i: "(of_nat i :: u32) = of_nat n + of_nat (i - n)" by (simp flip: of_nat_add)
      have "fat_mem s' (?d + of_nat i) = fat_mem s' (buf + count - r + of_nat (i - n))"
        unfolding dest i by (simp add: add.assoc)
      also have "\<dots> = chain_data blocks s (x # xs) ! (i - n)" using False rem r by (intro got2) simp
      also have "\<dots> = chain_data blocks s (c # x # xs) ! (unat skip + i)"
      proof -
        have "\<not> unat skip + i < length (cluster_data blocks s c)" "unat skip + i - length (cluster_data blocks s c) = i - n"
          using False n_def Cons.prems(6) len by linarith+
        then show ?thesis unfolding data nth_append by simp
      qed
      finally show ?thesis .
    qed
    moreover have "fat_mem s' a = fat_mem s a" if a: "unat bpc \<le> unat (a - temp)" "unat remaining \<le> unat (a - ?d)" for a
    proof -
      have "a - (buf + count - r) = (a - ?d) - of_nat n" unfolding dest by (simp add: algebra_simps)
      moreover have "unat ((a - ?d) - of_nat n) = unat (a - ?d) - n" using a(2) n(2) by (intro unat_available) simp
      ultimately have "unat (a - (buf + count - r)) = unat (a - ?d) - n" by (simp only:)
      then have "unat r \<le> unat (a - (buf + count - r))" using a(2) r by linarith
      then show ?thesis using frame2 [OF a(1)] frame [OF a(1)] a(2) n(1,2) by simp
    qed
    ultimately show ?thesis using step s' r_pos fat_reads_trans [OF s1(2) s'(3)] unfolding n(1) r_def [symmetric]
      by (intro exI [of _ s']) simp
  qed
qed

text \<open>A temporary chunk of the kernel.\<close>

lemma kmalloc_k_temp:
  assumes "heap_inv (k_heap k) bs" "kmalloc_room (k_heap k) bs sz"
  shows "\<exists>heap ys zs a N. kmalloc_k k sz = Some (k\<lparr>k_heap := heap\<rparr>, a + 12) \<and> bs = ys @ zs \<and>
    heap_inv heap (ys @ (a, N) # zs) \<and> unat sz \<le> unat N \<and> contents heap = contents (k_heap k) \<and> a + 12 \<noteq> NULL"
proof -
  obtain bs' a where pl: "place_block (heap_start (k_heap k)) (align_size sz) bs = (bs', a)" by fastforce
  obtain heap where h: "kmalloc (k_heap k) sz = Some (heap, a + 12)" "heap_inv heap bs'" "contents heap = contents (k_heap k)"
    using kmalloc_places [OF assms pl] by blast
  obtain ys zs where b: "bs = ys @ zs" "bs' = ys @ (a, align_size sz) # zs" using place_block_inserts [OF pl] by blast
  have "unat sz \<le> unat (align_size sz)" using align_size_bounds(1) [of sz] assms(2) by (simp add: kmalloc_room_def)
  moreover have "a + 12 \<noteq> NULL" using heap_inv_block_ptr(2) [OF h(2), of "(a, align_size sz)"] b by simp
  ultimately show ?thesis using h b by (auto simp: kmalloc_k_def)
qed

lemma kfree_k_temp:
  assumes "heap_inv (k_heap k) (ys @ (a, N) # zs)"
  shows "\<exists>heap. kfree_k k (a + 12) = Some (k\<lparr>k_heap := heap\<rparr>) \<and> heap_inv heap (ys @ zs) \<and> contents heap = contents (k_heap k)"
  using kfree_removes [OF assms] by (auto simp: kfree_k_def)

lemma temp_apart:
  assumes "heap_inv s (ys @ (a, N) # zs)" "b \<in> set (ys @ zs)" "\<forall>i<n. unat (buf + of_nat i) \<in> chunk_region b" "m \<le> unat N"
  shows "\<forall>i<n. \<forall>j<m. buf + of_nat i \<noteq> a + 12 + of_nat j"
proof (intro allI impI notI)
  fix i j assume a: "i < n" "j < m" "buf + of_nat i = a + 12 + of_nat j"
  have "unat (of_nat j :: u32) = j" using a(2) assms(4) unat_lt_exp [of N] by (intro unat_of_nat_less) simp
  then have "unat (a + 12 + of_nat j) \<in> chunk_region (a, N)"
    using a(2) assms(4) by (intro chunk_offset [OF assms(1)]) simp_all
  moreover have "unat (buf + of_nat i) \<in> chunk_region b" using assms(3) a(1) by blast
  moreover have "fst b \<noteq> a" using heap_inv_distinct [OF assms(1)] assms(2) by force
  ultimately show False using chunks_disjoint [OF assms(1), of "(a, N)" b] assms(2) a(3) by auto
qed

section \<open>Reading a file\<close>

lemma chain_nth: "fat_chain f (c # xs) \<Longrightarrow> k \<le> length xs \<Longrightarrow> (f ^^ k) c = (c # xs) ! k"
proof (induction xs arbitrary: c k)
  case (Cons x xs)
  show ?case
  proof (cases k)
    case (Suc j)
    have "(f ^^ Suc j) c = (f ^^ j) (f c)" by (simp add: funpow_swap1)
    then show ?thesis using Cons.IH [of x j] Cons.prems Suc by simp
  qed simp
qed simp

lemma follow_chain_reads:
  "fat_coherent dev blocks s \<Longrightarrow> \<exists>t. follow_chain dev s c n = (t, (fat_entry blocks s ^^ n) c) \<and>
    fat_coherent dev blocks t \<and> fat_reads blocks s t \<and> fat_mem t = fat_mem s"
proof (induction n arbitrary: s c)
  case 0
  then show ?case by auto
next
  case (Suc n)
  let ?s = "FAT_fetch dev s c"
  note s = FAT_fetch_coherent [OF Suc.prems, of c] find_next_reads_only [OF Suc.prems, of c]
  obtain t where "follow_chain dev ?s (fat_entry blocks s c) n = (t, (fat_entry blocks s ^^ n) (fat_entry blocks s c))"
    "fat_coherent dev blocks t" "fat_reads blocks ?s t" "fat_mem t = fat_mem ?s"
    using Suc.IH [of ?s "fat_entry blocks s c"] s by metis
  then show ?case using find_next_reads [OF Suc.prems, of c] s fat_reads_trans [of blocks s ?s t]
    by (auto simp: funpow_swap1)
qed

lemma length_chain_data:
  "fat_coherent dev blocks s \<Longrightarrow> length (chain_data blocks s xs) = length xs * (512 * unat (sectors_per_cluster (boot s)))"
  by (induction xs) (simp_all add: chain_data_def length_cluster_data)

lemma drop_chain_data:
  assumes "fat_coherent dev blocks s"
  shows "chain_data blocks s (drop k xs) = drop (k * (512 * unat (sectors_per_cluster (boot s)))) (chain_data blocks s xs)"
proof (induction xs arbitrary: k)
  case (Cons x xs)
  then show ?case using length_cluster_data [OF assms, of x] by (cases k) (simp_all add: chain_data_def)
qed (simp add: chain_data_def)

lemma fk_update_simps [simp]:
  "fat_coherent dev blocks (s\<lparr>fk := k\<rparr>) = fat_coherent dev blocks s" "fat_entry blocks (s\<lparr>fk := k\<rparr>) = fat_entry blocks s"
  "chain_data blocks (s\<lparr>fk := k\<rparr>) = chain_data blocks s" "chain_geometry (s\<lparr>fk := k\<rparr>) = chain_geometry s"
  by (auto simp: fat_coherent_def fat_entry_def FAT_sector_def chain_data_def cluster_data_def [abs_def] chain_sector_def
      cluster_sector_def chain_geometry_def fun_eq_iff)

text \<open>The number of clusters before a position, and the position in its cluster.\<close>

lemma position_words:
  assumes "unat off < 2 ^ 31" "0 < unat (bpc :: u16)"
  shows "nat (sint (off :: u32) sdiv uint bpc) = unat off div unat bpc"
    and "unat (if 0 < sint off - (sint off sdiv uint bpc) * uint bpc
      then (word_of_int (sint off - (sint off sdiv uint bpc) * uint bpc) :: u32) else 0) = unat off mod unat bpc"
proof -
  have b: "0 < uint bpc" using assms(2) unfolding uint_nat by linarith
  have q: "sint off sdiv uint bpc = int (unat off div unat bpc)"
    using sint_small [OF assms(1)] b by (simp add: signed_divide_int_def sgn_if zdiv_int)
  then show "nat (sint off sdiv uint bpc) = unat off div unat bpc" by simp
  have r: "sint off - (sint off sdiv uint bpc) * uint bpc = int (unat off mod unat bpc)"
    using sint_small [OF assms(1)] unfolding q
    by (simp only: uint_nat flip: of_nat_mult) (simp add: minus_div_mult_eq_mod [symmetric] of_nat_diff flip: of_nat_mult)
  have "unat off mod unat bpc < 2 ^ 32" by (rule le_less_trans [OF mod_less_eq_dividend]) (use assms(1) in simp)
  then show "unat (if 0 < sint off - (sint off sdiv uint bpc) * uint bpc
      then (word_of_int (sint off - (sint off sdiv uint bpc) * uint bpc) :: u32) else 0) = unat off mod unat bpc"
    unfolding r by (auto simp: unat_of_nat_less simp flip: of_nat_less_iff)
qed

definition chunk_bytes_kept :: "block list \<Rightarrow> addr \<Rightarrow> nat \<Rightarrow> mem \<Rightarrow> mem \<Rightarrow> bool" where
  "chunk_bytes_kept bs buf n m m' \<longleftrightarrow>
     (\<forall>b\<in>set bs. \<forall>x :: addr. unat x \<in> chunk_region b \<longrightarrow> n \<le> unat (x - buf) \<longrightarrow> m' x = m x)"

lemma chain_at:
  assumes "fat_chain f (c # xs)" "k \<le> length xs" "\<forall>x\<in>set xs. 3 \<le> x" "chain_geometry s (c # xs)"
  shows "\<exists>ys. drop k (c # xs) = (f ^^ k) c # ys \<and> fat_chain f ((f ^^ k) c # ys) \<and> (\<forall>x\<in>set ys. 3 \<le> x) \<and>
    chain_geometry s ((f ^^ k) c # ys)"
proof -
  have d: "drop k (c # xs) = (c # xs) ! k # drop k xs" using assms(2) Cons_nth_drop_Suc [of k "c # xs"] by simp
  have c: "(f ^^ k) c = (c # xs) ! k" using chain_nth [OF assms(1,2)] .
  have "fat_chain f ((c # xs) ! k # drop k xs)"
    using fat_chain_suffix [of f "take k (c # xs)" "(c # xs) ! k" "drop k xs"] assms(1) append_take_drop_id [of k "c # xs"] d by simp
  moreover have "set ((c # xs) ! k # drop k xs) \<subseteq> set (c # xs)" unfolding d [symmetric] by (rule set_drop_subset)
  then have "chain_geometry s ((c # xs) ! k # drop k xs)" using assms(4) unfolding chain_geometry_def by blast
  ultimately show ?thesis using d c assms(3) set_drop_subset [of k xs] by auto
qed

lemma temp_read:
  assumes "heap_inv s (ys @ (a, N) # zs)" "b \<in> set (ys @ zs)" "unat x \<in> chunk_region b" "m \<le> unat N"
  shows "m \<le> unat (x - (a + 12))"
proof (rule ccontr)
  assume "\<not> m \<le> unat (x - (a + 12))"
  then have "unat (x - (a + 12)) < m" by simp
  moreover have "\<forall>i<1. unat (x + of_nat i) \<in> chunk_region b" using assms(3) by simp
  from temp_apart [OF assms(1,2) this assms(4)] have "\<forall>j<m. x \<noteq> a + 12 + of_nat j" by simp
  moreover have "x = a + 12 + of_nat (unat (x - (a + 12)))" by simp
  ultimately show False by blast
qed

lemma read_chain_bytes:
  assumes co: "fat_coherent dev blocks s" and ino: "inodes (fk s) inode = Some ino" "fat_inodes s inode = Some fi" "inode \<noteq> NULL"
    and ch: "fat_chain (fat_entry blocks s) (first_cluster fi # xs)" "\<forall>x\<in>set xs. 3 \<le> x" "chain_geometry s (first_cluster fi # xs)"
    and data: "data = chain_data blocks s (first_cluster fi # xs)"
    and sz: "unat off < unat (i_size ino)" "unat off + unat count \<le> unat (i_size ino)" "unat (i_size ino) \<le> length data" "unat (i_size ino) < 2 ^ 31"
    and heap: "heap_inv (k_heap (fk s)) bs" "kmalloc_room (k_heap (fk s)) bs (bytes_per_cluster s)"
    and buf: "b \<in> set bs" "\<forall>i<unat count. unat (buf + of_nat i) \<in> chunk_region b"
  shows "\<exists>s'. FAT16_read_cluster_chain dev s inode buf count off = Some (s', sint count) \<and>
    (\<forall>i<unat count. fat_mem s' (buf + of_nat i) = data ! (unat off + i)) \<and>
    chunk_bytes_kept bs buf (unat count) (fat_mem s) (fat_mem s') \<and> heap_inv (k_heap (fk s')) bs \<and>
    fat_coherent dev blocks s' \<and> blocks (drive s') = blocks (drive s)"
proof -
  define bpc where "bpc = (ucast (sectors_per_cluster (boot s)) * bytes_per_sector (boot s) :: u16)"
  have spc: "0 < unat (sectors_per_cluster (boot s))" "unat (sectors_per_cluster (boot s)) < 128" "bytes_per_sector (boot s) = 512"
    using ch(3) by (simp_all add: chain_geometry_def)
  have us: "unat (ucast (sectors_per_cluster (boot s)) :: u16) = unat (sectors_per_cluster (boot s))"
    "unat (ucast (sectors_per_cluster (boot s)) :: u32) = unat (sectors_per_cluster (boot s))"
    using unat_lt_exp [of "sectors_per_cluster (boot s)"] by (simp_all add: unsigned_ucast_eq take_bit_eq_mod)
  have bpc: "unat bpc = 512 * unat (sectors_per_cluster (boot s))"
    using us spc by (simp add: bpc_def unat_word_ariths)
  have bpc32: "bytes_per_cluster s = ucast bpc"
    unfolding unat_eq_iff [symmetric] unat_ucast_u16 bpc using us spc by (simp add: bytes_per_cluster_def unat_word_ariths)
  have pos: "0 < unat bpc" using bpc spc by simp
  define k where "k = unat off div unat bpc"
  define skip where "skip = (if 0 < sint off - (sint off sdiv uint bpc) * uint bpc
      then (word_of_int (sint off - (sint off sdiv uint bpc) * uint bpc) :: u32) else 0)"
  have off31: "unat off < 2 ^ 31" using sz(1,4) by linarith
  have k: "nat (sint off sdiv uint bpc) = k" and skip: "unat skip = unat off mod unat bpc"
    using position_words [OF off31 pos] by (simp_all add: k_def skip_def)
  have len: "length data = (length xs + 1) * unat bpc" using length_chain_data [OF co] bpc by (simp add: data)
  have "unat off < (length xs + 1) * unat bpc" using sz(1,3) len by linarith
  then have "k < length xs + 1" unfolding k_def by (simp add: less_mult_imp_div_less)
  then have kx: "k \<le> length xs" by simp
  define c where "c = (fat_entry blocks s ^^ k) (first_cluster fi)"
  obtain ys where ys: "drop k (first_cluster fi # xs) = c # ys" "fat_chain (fat_entry blocks s) (c # ys)" "\<forall>x\<in>set ys. 3 \<le> x"
    "chain_geometry s (c # ys)"
    using chain_at [OF ch(1) kx ch(2,3)] unfolding c_def by blast
  have rest: "chain_data blocks s (c # ys) = drop (k * unat bpc) data"
    using drop_chain_data [OF co, of k "first_cluster fi # xs"] ys(1) bpc by (simp add: data)
  obtain t where t: "follow_chain dev s (first_cluster fi) k = (t, c)" "fat_coherent dev blocks t" "fat_reads blocks s t" "fat_mem t = fat_mem s"
    using follow_chain_reads [OF co, of "first_cluster fi" k] unfolding c_def by blast
  note same = fat_readsD [OF t(3)]
  have fkt: "fk t = fk s" using same(7) t(4) by (simp add: fat_mem_def)
  obtain heap us' vs a N where h: "kmalloc_k (fk s) (bytes_per_cluster s) = Some ((fk s)\<lparr>k_heap := heap\<rparr>, a + 12)" "bs = us' @ vs"
    "heap_inv heap (us' @ (a, N) # vs)" "unat (bytes_per_cluster s) \<le> unat N" "contents heap = contents (k_heap (fk s))" "a + 12 \<noteq> NULL"
    using kmalloc_k_temp [OF heap] by blast
  define u where "u = t\<lparr>fk := (fk s)\<lparr>k_heap := heap\<rparr>\<rparr>"
  have u: "fat_coherent dev blocks u" "fat_entry blocks u = fat_entry blocks s" "chain_data blocks u = chain_data blocks s"
    "chain_geometry u (c # ys)" "boot u = boot s" "fat_mem u = fat_mem s" "k_heap (fk u) = heap" "blocks (drive u) = blocks (drive s)"
    using t(2) same ys(4) h(5) unfolding u_def by (simp_all add: chain_geometry_def fat_mem_def memory_k_def)
  have N: "unat bpc \<le> unat N" using h(4) by (simp add: bpc32 unat_ucast_u16)
  have b: "b \<in> set (us' @ vs)" using buf(1) h(2) by simp
  have "\<forall>i<unat count. \<forall>j<unat bpc. buf + count - count + of_nat i \<noteq> a + 12 + of_nat j"
    using temp_apart [OF h(3) b buf(2) N] by simp
  moreover have "unat skip < unat bpc" using skip pos by simp
  moreover have "unat count + unat skip \<le> length (chain_data blocks u (c # ys))"
  proof -
    have "unat off = k * unat bpc + unat skip" unfolding k_def skip by simp
    then show ?thesis using sz(2,3) unfolding u(3) rest by simp
  qed
  ultimately obtain s2 where
    s2: "read_chain_loop dev u buf count (a + 12) bpc c skip count = Some (s2, Some 0)" "fat_coherent dev blocks s2" "fat_reads blocks u s2" and
    got: "\<And>i. i < unat count \<Longrightarrow> fat_mem s2 (buf + of_nat i) = chain_data blocks u (c # ys) ! (unat skip + i)" and
    frame: "\<And>x. unat bpc \<le> unat (x - (a + 12)) \<Longrightarrow> unat count \<le> unat (x - buf) \<Longrightarrow> fat_mem s2 x = fat_mem u x"
    using read_chain_loop_reads [of dev blocks u c ys bpc skip count buf count "a + 12"] u ys(2,3) bpc by auto
  note same2 = fat_readsD [OF s2(3)]
  have heap2: "k_heap (fk s2) = heap\<lparr>contents := fat_mem s2\<rparr>" using same2(7) u(7) by (simp add: set_memory_def)
  have "heap_inv (k_heap (fk s2)) (us' @ (a, N) # vs)" using h(3) unfolding heap2 by simp
  from kfree_k_temp [OF this] obtain heap3 where
    f: "kfree_k (fk s2) (a + 12) = Some ((fk s2)\<lparr>k_heap := heap3\<rparr>)" "heap_inv heap3 bs" "contents heap3 = fat_mem s2"
    unfolding h(2) heap2 by auto
  let ?s' = "s2\<lparr>fk := (fk s2)\<lparr>k_heap := heap3\<rparr>\<rparr>"
  have mem: "fat_mem ?s' = fat_mem s2" by (simp add: fat_mem_def memory_k_def f(3))
  have "\<not> sint (i_size ino) \<le> sint off" unfolding sint_small [OF off31] sint_small [OF sz(4)] using sz(1) by linarith
  moreover have "(if sint off sdiv uint bpc * uint bpc < sint off
      then word_of_int (sint off - sint off sdiv uint bpc * uint bpc) else 0) = skip" by (simp add: skip_def)
  moreover have "bpc \<noteq> 0" using pos by auto
  ultimately have "FAT16_read_cluster_chain dev s inode buf count off = Some (?s', sint count)"
    using ino t(1) h(1,6) s2(1) f(1)
    by (simp add: FAT16_read_cluster_chain_def deref_def bpc_def [symmetric] k Let_def fat_kmalloc_def fat_kfree_def
        bpc32 [symmetric] fkt u_def [symmetric])
  moreover have "fat_mem ?s' (buf + of_nat i) = data ! (unat off + i)" if "i < unat count" for i
  proof -
    have "unat off = k * unat bpc + unat skip" unfolding k_def skip by simp
    moreover have "k * unat bpc \<le> length data" using kx unfolding len by (intro mult_le_mono1) simp
    ultimately show ?thesis using got [OF that] unfolding mem u(3) rest by (simp add: add.assoc)
  qed
  moreover have "chunk_bytes_kept bs buf (unat count) (fat_mem s) (fat_mem ?s')"
    unfolding chunk_bytes_kept_def mem using frame temp_read [OF h(3) _ _ N] h(2) u(6) by auto
  moreover have "fat_coherent dev blocks ?s'" "blocks (drive ?s') = blocks (drive s)" using s2(2) same2(1) u(8) by simp_all
  ultimately show ?thesis using f(2) by (intro exI [of _ ?s']) simp
qed

section \<open>Property\<close>

text \<open>A file of the drive outside of the root directory: its inode is set up, its clusters are linked in the table, and
  \<open>data\<close> are the bytes of the clusters up to the size of the file.\<close>

definition fat_file :: "('d \<Rightarrow> u32 \<Rightarrow> byte list) \<Rightarrow> 'd fat \<Rightarrow> addr \<Rightarrow> byte list \<Rightarrow> bool" where
  "fat_file blocks s inode data \<longleftrightarrow> inode \<noteq> NULL \<and> (\<exists>ino fi root xs.
     inodes (fk s) inode = Some ino \<and> fat_inodes s inode = Some fi \<and> fat_inodes s (fat_root s) = Some root \<and>
     first_cluster fi \<noteq> first_cluster root \<and> fat_chain (fat_entry blocks s) (first_cluster fi # xs) \<and>
     (\<forall>x\<in>set xs. 3 \<le> x) \<and> chain_geometry s (first_cluster fi # xs) \<and>
     data = take (unat (i_size ino)) (chain_data blocks s (first_cluster fi # xs)) \<and>
     length data = unat (i_size ino) \<and> unat (i_size ino) < 2 ^ 31)"

text \<open>C19: Reading a file yields its bytes: for a file whose clusters are linked in the table, a read from a position within
  the file transfers the bytes from that position to the end of the request or of the file, whichever comes first,
  and returns their number. The clusters are visited through the cache of the table, the temporary buffer is
  released, no other byte of a chunk in use changes, and the drive is not written.\<close>

theorem fat_read_yields_file:
  assumes "fat_coherent dev blocks s" and "fat_file blocks s inode data"
    and "unat off < length data" "unat off + unat count < 2 ^ 32" and n: "n = min (unat count) (length data - unat off)"
    and "heap_inv (k_heap (fk s)) bs" "kmalloc_room (k_heap (fk s)) bs (bytes_per_cluster s)"
    and "b \<in> set bs" "\<forall>i<n. unat (buf + of_nat i) \<in> chunk_region b"
  shows "\<exists>s'. FAT16_read dev s inode buf count off = Some (s', int n) \<and>
    map (\<lambda>i. fat_mem s' (buf + of_nat i)) [0..<n] = take n (drop (unat off) data) \<and>
    chunk_bytes_kept bs buf n (fat_mem s) (fat_mem s') \<and> heap_inv (k_heap (fk s')) bs \<and>
    fat_coherent dev blocks s' \<and> blocks (drive s') = blocks (drive s)"
proof -
  obtain ino fi root xs where f: "inodes (fk s) inode = Some ino" "fat_inodes s inode = Some fi" "inode \<noteq> NULL"
    "fat_inodes s (fat_root s) = Some root" "first_cluster fi \<noteq> first_cluster root"
    "fat_chain (fat_entry blocks s) (first_cluster fi # xs)" "\<forall>x\<in>set xs. 3 \<le> x" "chain_geometry s (first_cluster fi # xs)"
    "data = take (unat (i_size ino)) (chain_data blocks s (first_cluster fi # xs))" "length data = unat (i_size ino)"
    "unat (i_size ino) < 2 ^ 31"
    using assms(2) unfolding fat_file_def by metis
  have off: "unat off < unat (i_size ino)" using assms(3) f(10) by simp
  define c where "c = (if i_size ino < off + count then i_size ino - off else count)"
  have "unat (off + count) = unat off + unat count" using assms(4) by (simp add: unat_word_ariths)
  moreover have "unat (i_size ino - off) = unat (i_size ino) - unat off" using off by (simp add: unat_sub word_le_nat_alt)
  ultimately have c: "unat c = n" unfolding n f(10) c_def by (simp add: word_less_nat_alt)
  then have fits: "unat off + unat c \<le> unat (i_size ino)" using off n f(10) by linarith
  have whole: "unat (i_size ino) \<le> length (chain_data blocks s (first_cluster fi # xs))" using f(9,10) by simp
  have buf: "\<forall>i<unat c. unat (buf + of_nat i) \<in> chunk_region b" using assms(9) by (simp only: c)
  obtain s' where s': "FAT16_read_cluster_chain dev s inode buf c off = Some (s', sint c)"
    "\<forall>i<unat c. fat_mem s' (buf + of_nat i) = chain_data blocks s (first_cluster fi # xs) ! (unat off + i)"
    "chunk_bytes_kept bs buf (unat c) (fat_mem s) (fat_mem s')" "heap_inv (k_heap (fk s')) bs" "fat_coherent dev blocks s'"
    "blocks (drive s') = blocks (drive s)"
    using read_chain_bytes [OF assms(1) f(1-3,6-8) refl off fits whole f(11) assms(6-8) buf] by blast
  have "FAT16_read dev s inode buf count off = FAT16_read_cluster_chain dev s inode buf c off"
    using f(1-5) by (simp add: FAT16_read_def deref_def c_def)
  moreover have "sint c = int n"
  proof -
    have "unat c < 2 ^ 31" using fits f(11) by linarith
    from sint_small [OF this] show ?thesis by (simp only: c)
  qed
  moreover have "map (\<lambda>i. fat_mem s' (buf + of_nat i)) [0..<n] = take n (drop (unat off) data)"
  proof (rule nth_equalityI)
    have "n \<le> unat (i_size ino) - unat off" using n f(10) by simp
    then show "length (map (\<lambda>i. fat_mem s' (buf + of_nat i)) [0..<n]) = length (take n (drop (unat off) data))" using f(10) by simp
    fix i assume "i < length (map (\<lambda>i. fat_mem s' (buf + of_nat i)) [0..<n])"
    then have i: "i < n" by simp
    then have "unat off + i < unat (i_size ino)" using n f(10) by linarith
    then show "map (\<lambda>i. fat_mem s' (buf + of_nat i)) [0..<n] ! i = take n (drop (unat off) data) ! i"
      using i s'(2) c f(10) by (simp add: f(9))
  qed
  ultimately show ?thesis using s' c by auto
qed

text \<open>A file of 520 bytes in the clusters 3 and 4 of a drive: the first byte of the second cluster is 7.\<close>

definition fat_file_drive :: "u32 \<Rightarrow> byte list" where
  "fat_file_drive b = (if b = 1 then [0xf8, 0xff, 0xff, 0xff, 0xff, 0xff, 4, 0, 0xff, 0xff] else if b = 6 then [7, 8] else [])"

definition fat_file_example :: "(u32 \<Rightarrow> byte list) fat" where
  "fat_file_example = fat_example\<lparr>drive := fat_file_drive,
     fk := kernel_example\<lparr>k_heap := heap_files, inodes := [0x20000400 \<mapsto> inode_zero\<lparr>i_size := 520\<rparr>]\<rparr>,
     fat_root := 0x20000500, fat_inodes := [0x20000400 \<mapsto> \<lparr>first_cluster = 3, parent_dentry_index = 0\<rparr>,
       0x20000500 \<mapsto> \<lparr>first_cluster = 2, parent_dentry_index = 0\<rparr>]\<rparr>"

theorem fat_read_yields_file_witness:
  "\<exists>s'. FAT16_read ram_disk fat_file_example 0x20000400 0x20000124 2 511 = Some (s', 2) \<and>
    fat_mem s' 0x20000124 = 0 \<and> fat_mem s' 0x20000125 = 7"
proof -
  let ?s = fat_file_example
  have co: "fat_coherent ram_disk ram_block ?s"
    by (simp add: fat_coherent_def ram_disk_blocks FAT_sector_def fat_file_example_def fat_file_drive_def fat_example_def ram_block_def)
  have ch: "fat_chain (fat_entry ram_block ?s) [3, 4]"
    by (simp add: fat_entry_def FAT_sector_def fat_file_example_def fat_file_drive_def fat_example_def ram_block_def words16_nth
        nth_append word16_def)
  have geo: "chain_geometry ?s [3, 4]" by (simp add: chain_geometry_def fat_file_example_def fat_example_def cluster_sector_def)
  have data: "chain_data ram_block ?s [3, 4] = replicate 512 0 @ [7, 8] @ replicate 510 0"
    by (simp add: chain_data_def cluster_data_def chain_sector_def cluster_sector_def fat_file_example_def fat_example_def
        fat_file_drive_def ram_block_def)
  define D :: "byte list" where "D = replicate 512 0 @ [7, 8] @ replicate 6 0"
  have D: "take 520 (replicate 512 0 @ [7, 8] @ replicate 510 0) = D" "length D = 520" "take 2 (drop 511 D) = [0, 7]"
    by (simp_all add: D_def)
  have ff: "fat_file ram_block ?s 0x20000400 D"
    unfolding fat_file_def
    by (intro conjI exI [of _ "inode_zero\<lparr>i_size := 520\<rparr>"] exI [of _ "\<lparr>first_cluster = 3, parent_dentry_index = 0\<rparr>"]
        exI [of _ "\<lparr>first_cluster = 2, parent_dentry_index = 0\<rparr>"] exI [of _ "[4]"])
      (use ch geo data D in \<open>simp_all add: fat_file_example_def fat_example_def\<close>)
  have heap: "heap_inv (k_heap (fk ?s)) blocks_files" "kmalloc_room (k_heap (fk ?s)) blocks_files (bytes_per_cluster ?s)"
    using heap_files_inv room_files [of 512] by (simp_all add: fat_file_example_def fat_example_def bytes_per_cluster_def)
  have buf: "(0x20000118, 44) \<in> set blocks_files" by (simp add: blocks_files_def)
  have "unat (0x20000124 + of_nat i :: u32) \<in> chunk_region (0x20000118, 44)" if "i < 2" for i
    using that by (auto simp: less_2_cases_iff chunk_region_def block_end_def)
  then have room: "\<forall>i<2. unat (0x20000124 + of_nat i :: u32) \<in> chunk_region (0x20000118, 44)" by blast
  have n: "2 = min (unat (2 :: u32)) (length D - unat (511 :: u32))" "unat (511 :: u32) < length D"
    "unat (511 :: u32) + unat (2 :: u32) < 2 ^ 32" by (simp_all add: D)
  from fat_read_yields_file [OF co ff n(2,3,1) heap buf room] obtain s' where
    "FAT16_read ram_disk ?s 0x20000400 0x20000124 2 511 = Some (s', int 2)"
    "map (\<lambda>i. fat_mem s' (0x20000124 + of_nat i)) [0..<2] = take 2 (drop (unat (511 :: u32)) D)" by blast
  moreover have "[0..<2] = [0, 1 :: nat]" by (simp add: upt_conv_Cons)
  moreover have "unat (511 :: u32) = 511" by simp
  ultimately show ?thesis using D(3) by auto
qed

end
