(* ===== verification/Loader.thy ===== *)
theory Loader
  imports Vfs
begin

text \<open>
  The loader of ELF executables, \<open>src/kernel/loader.c\<close>, on an image that is in memory: validation of the header,
  the section table, segments, the dynamic library and its relocations, and the entry point. String literals are
  in memory at the addresses that the parameter \<open>lit\<close> gives.
\<close>

section \<open>The structures of an image\<close>

record elf_shdr =
  sh_name :: u32
  sh_offset :: u32
  sh_size :: u32

definition read_shdr :: "mem \<Rightarrow> addr \<Rightarrow> u32 \<Rightarrow> elf_shdr" where
  "read_shdr m table i = \<lparr>sh_name = load32 m (table + i * 40), sh_offset = load32 m (table + i * 40 + 16),
     sh_size = load32 m (table + i * 40 + 20)\<rparr>"

record elf_phdr =
  p_type :: u32
  p_offset :: u32
  p_paddr :: u32
  p_filesz :: u32
  p_memsz :: u32

definition read_phdr :: "mem \<Rightarrow> addr \<Rightarrow> u32 \<Rightarrow> elf_phdr" where
  "read_phdr m table i = \<lparr>p_type = load32 m (table + i * 32), p_offset = load32 m (table + i * 32 + 4),
     p_paddr = load32 m (table + i * 32 + 12), p_filesz = load32 m (table + i * 32 + 16),
     p_memsz = load32 m (table + i * 32 + 20)\<rparr>"

record elf_sym =
  st_name :: u32
  st_value :: u32

definition read_sym :: "mem \<Rightarrow> addr \<Rightarrow> u32 \<Rightarrow> elf_sym" where
  "read_sym m table i = \<lparr>st_name = load32 m (table + i * 16), st_value = load32 m (table + i * 16 + 4)\<rparr>"

record elf_rel =
  r_offset :: u32
  r_info :: u32

definition read_rel :: "mem \<Rightarrow> addr \<Rightarrow> u32 \<Rightarrow> elf_rel" where
  "read_rel m table i = \<lparr>r_offset = load32 m (table + i * 8), r_info = load32 m (table + i * 8 + 4)\<rparr>"

definition ELF32_R_SYM :: "u32 \<Rightarrow> u32" where
  "ELF32_R_SYM i = drop_bit 8 i"

record elf_dyn =
  d_tag :: u32
  d_un :: u32

definition read_dyn :: "mem \<Rightarrow> addr \<Rightarrow> u32 \<Rightarrow> elf_dyn" where
  "read_dyn m table i = \<lparr>d_tag = load32 m (table + i * 8), d_un = load32 m (table + i * 8 + 4)\<rparr>"

definition DT_NULL :: u32 where "DT_NULL = 0"
definition DT_NEEDED :: u32 where "DT_NEEDED = 1"
definition DT_STRTAB :: u32 where "DT_STRTAB = 5"
definition E_TYPE_EXEC :: u16 where "E_TYPE_EXEC = 2"
definition E_TYPE_DYN :: u16 where "E_TYPE_DYN = 3"
definition E_MACHINE_ARM :: u16 where "E_MACHINE_ARM = 0x28"
definition PT_LOAD :: u32 where "PT_LOAD = 1"
definition STN_UNDEF :: u32 where "STN_UNDEF = 0"

abbreviation (input) e_phoff :: "mem \<Rightarrow> addr \<Rightarrow> u32" where "e_phoff m f \<equiv> load32 m (f + 28)"
abbreviation (input) e_shoff :: "mem \<Rightarrow> addr \<Rightarrow> u32" where "e_shoff m f \<equiv> load32 m (f + 32)"
abbreviation (input) e_phnum :: "mem \<Rightarrow> addr \<Rightarrow> u16" where "e_phnum m f \<equiv> load16 m (f + 44)"
abbreviation (input) e_shnum :: "mem \<Rightarrow> addr \<Rightarrow> u16" where "e_shnum m f \<equiv> load16 m (f + 48)"
abbreviation (input) e_shstrndx :: "mem \<Rightarrow> addr \<Rightarrow> u16" where "e_shstrndx m f \<equiv> load16 m (f + 50)"

section \<open>Validation\<close>

definition elf_magic :: "byte list" where
  "elf_magic = [0x7f, 0x45, 0x4c, 0x46, 1, 1, 1, 0]"

text \<open>\<open>magic\<close> is an object of the function: its bytes are compared with those of the image in order.\<close>

definition validate_elf :: "mem \<Rightarrow> addr \<Rightarrow> bool" where
  "validate_elf m fbytes \<longleftrightarrow>
     map (\<lambda>i. m (fbytes + of_nat i)) [0..<8] = elf_magic \<and>
     (load16 m (fbytes + 16) = E_TYPE_EXEC \<or> load16 m (fbytes + 16) = E_TYPE_DYN) \<and>
     load16 m (fbytes + 18) = E_MACHINE_ARM \<and>
     load32 m (fbytes + 20) = 1"

section \<open>Sections\<close>

text \<open>Members of \<open>Elf32_Sections\<close>: \<open>text\<close>, \<open>rodata\<close>, \<open>data\<close>, \<open>bss\<close> and \<open>interp\<close> are offsets, the others pointers.\<close>

record elf_sections =
  interp :: u32
  symtab :: addr
  symtab_len :: u32
  strtab :: addr
  dynsym :: addr
  dynsym_len :: u32
  dynstr :: addr
  rel_plt :: addr
  rel_plt_len :: u32
  rel_dyn :: addr
  rel_dyn_len :: u32
  rel_data :: addr
  rel_data_len :: u32
  rel_bss :: addr
  rel_bss_len :: u32
  got :: addr
  got_len :: u32
  dynamic :: addr
  dynamic_len :: u32
  got_plt :: addr
  got_plt_len :: u32
  hash :: addr
  hash_len :: u32
  text_off :: u32
  text_len :: u32
  rodata_off :: u32
  rodata_len :: u32
  data_off :: u32
  data_len :: u32
  bss_off :: u32
  bss_len :: u32

definition no_sections :: elf_sections where
  "no_sections = \<lparr>interp = 0, symtab = 0, symtab_len = 0, strtab = 0, dynsym = 0, dynsym_len = 0, dynstr = 0,
     rel_plt = 0, rel_plt_len = 0, rel_dyn = 0, rel_dyn_len = 0, rel_data = 0, rel_data_len = 0,
     rel_bss = 0, rel_bss_len = 0, got = 0, got_len = 0, dynamic = 0, dynamic_len = 0, got_plt = 0, got_plt_len = 0,
     hash = 0, hash_len = 0, text_off = 0, text_len = 0, rodata_off = 0, rodata_len = 0, data_off = 0, data_len = 0,
     bss_off = 0, bss_len = 0\<rparr>"

text \<open>The chain of tests of \<open>parse_sections\<close>: a name and what a section of that name sets.\<close>

definition section_cases :: "addr \<Rightarrow> elf_shdr \<Rightarrow> (string \<times> (elf_sections \<Rightarrow> elf_sections)) list" where
  "section_cases fbytes h = (let off = sh_offset h; p = fbytes + sh_offset h; n = sh_size h in
     [(''.text'', \<lambda>s. s\<lparr>text_off := off, text_len := n\<rparr>),
      (''.data'', \<lambda>s. s\<lparr>data_off := off, data_len := n\<rparr>),
      (''.rodata'', \<lambda>s. s\<lparr>rodata_off := off, rodata_len := n\<rparr>),
      (''.bss'', \<lambda>s. s\<lparr>bss_off := off, bss_len := n\<rparr>),
      (''.interp'', \<lambda>s. s\<lparr>interp := off\<rparr>),
      (''.symtab'', \<lambda>s. s\<lparr>symtab := p, symtab_len := n div 16\<rparr>),
      (''.strtab'', \<lambda>s. s\<lparr>strtab := p\<rparr>),
      (''.dynsym'', \<lambda>s. s\<lparr>dynsym := p, dynsym_len := n div 16\<rparr>),
      (''.dynstr'', \<lambda>s. s\<lparr>dynstr := p\<rparr>),
      (''.rel.plt'', \<lambda>s. s\<lparr>rel_plt := p, rel_plt_len := n div 8\<rparr>),
      (''.rel.dyn'', \<lambda>s. s\<lparr>rel_dyn := p, rel_dyn_len := n div 8\<rparr>),
      (''.rel.data'', \<lambda>s. s\<lparr>rel_data := p, rel_data_len := n div 8\<rparr>),
      (''.rel.bss'', \<lambda>s. s\<lparr>rel_bss := p, rel_bss_len := n div 8\<rparr>),
      (''.got'', \<lambda>s. s\<lparr>got := p, got_len := n\<rparr>),
      (''.got.plt'', \<lambda>s. s\<lparr>got_plt := p, got_plt_len := n\<rparr>),
      (''.dynamic'', \<lambda>s. s\<lparr>dynamic := p, dynamic_len := n\<rparr>),
      (''.hash'', \<lambda>s. s\<lparr>hash := p, hash_len := n div 4\<rparr>)])"

fun first_case :: "(string \<Rightarrow> addr) \<Rightarrow> mem \<Rightarrow> addr \<Rightarrow> (string \<times> ('s \<Rightarrow> 's)) list \<Rightarrow> 's \<Rightarrow> 's option" where
  "first_case lit m name [] s = Some s"
| "first_case lit m name ((l, f) # cases) s = do {
     c \<leftarrow> strcmp m name (lit l);
     (if c = 0 then Some (f s) else first_case lit m name cases s)
   }"

definition section_name :: "mem \<Rightarrow> addr \<Rightarrow> elf_shdr \<Rightarrow> addr" where
  "section_name m fbytes h =
     fbytes + sh_offset (read_shdr m (fbytes + e_shoff m fbytes) (ucast (e_shstrndx m fbytes))) + sh_name h"

definition parse_sections :: "(string \<Rightarrow> addr) \<Rightarrow> mem \<Rightarrow> addr \<Rightarrow> elf_sections option" where
  "parse_sections lit m fbytes =
     for_each (\<lambda>i s. let h = read_shdr m (fbytes + e_shoff m fbytes) (of_nat i)
                     in first_case lit m (section_name m fbytes h) (section_cases fbytes h) s)
       [0..<unat (e_shnum m fbytes)] no_sections"

section \<open>Segments\<close>

text \<open>The loop over the program headers; the result is the buffer, null when it could not grow, and its size.\<close>

fun load_segments :: "kernel \<Rightarrow> addr \<Rightarrow> nat list \<Rightarrow> addr \<Rightarrow> u32 \<Rightarrow> (kernel \<times> addr \<times> u32) option" where
  "load_segments k fbytes [] buffer bufsz = Some (k, buffer, bufsz)"
| "load_segments k fbytes (i # is) buffer bufsz =
     (let m = memory_k k;
          ph = read_phdr m (fbytes + e_phoff m fbytes) (of_nat i)
      in if p_type ph \<noteq> PT_LOAD then load_segments k fbytes is buffer bufsz
         else (let index = p_paddr ph;
                   grow = (bufsz \<le> index + p_memsz ph);
                   bufsz' = (if grow then bufsz + (index + p_memsz ph) else bufsz)
               in do {
                 (k, buffer) \<leftarrow>
                   (if grow
                    then do { (heap, p) \<leftarrow> krealloc (k_heap k) buffer bufsz'; Some (k\<lparr>k_heap := heap\<rparr>, p) }
                    else Some (k, buffer));
                 (if buffer = NULL then Some (k, NULL, bufsz')
                  else load_segments
                    (set_memory k (fst (memcpy (memory_k k) (buffer + index) (fbytes + p_offset ph) (p_filesz ph))))
                    fbytes is buffer bufsz')
               }))"

text \<open>Members of the new structure that are not set keep what the memory of its chunk held.\<close>

definition load_pages_to_ram :: "kernel \<Rightarrow> addr \<Rightarrow> (kernel \<times> addr) option" where
  "load_pages_to_ram k fbytes = do {
     (k, buffer) \<leftarrow> kmalloc_k k 1024;
     (if buffer = NULL then Some (k, NULL)
      else do {
        let k = set_memory k (fst (memset (memory_k k) buffer 0 1024));
        (k, buffer, bufsz) \<leftarrow> load_segments k fbytes [0..<unat (e_phnum (memory_k k) fbytes)] buffer 1024;
        (if buffer = NULL then Some (k, NULL)
         else do {
           (k, p) \<leftarrow> kmalloc_k k 20;
           require (p \<noteq> NULL);
           let m = memory_k k;
           Some (k\<lparr>process_pages := (process_pages k)(p \<mapsto>
             \<lparr>page_ptr = buffer, page_size = bufsz, start_offset = sint (load32 m (p + 8)),
              static_base = load32 m (p + 12), static_base_len = load32 m (p + 16)\<rparr>)\<rparr>, p)
         })
      })
   }"

section \<open>The dynamic library\<close>

datatype dynlib_status = DynOk | ERR_NO_STRTAB_FOUND | ERR_ONE_DYNLIB_SUPPORTED

text \<open>The first loop over the dynamic section: the address of the string table, null when there is none.\<close>

partial_function (option) find_strtab :: "mem \<Rightarrow> addr \<Rightarrow> addr \<Rightarrow> u32 \<Rightarrow> addr option" where
  "find_strtab m fbytes dyn i =
     (let d = read_dyn m dyn i
      in if d_tag d = DT_NULL then Some NULL
         else if d_tag d = DT_STRTAB then Some (fbytes + d_un d)
         else find_strtab m fbytes dyn (i + 1))"

partial_function (option) find_needed ::
    "mem \<Rightarrow> addr \<Rightarrow> addr \<Rightarrow> u32 \<Rightarrow> addr \<Rightarrow> nat \<Rightarrow> (dynlib_status \<times> addr) option" where
  "find_needed m strtab' dyn i name names_index =
     (let d = read_dyn m dyn i
      in if d_tag d = DT_NULL then Some (DynOk, name)
         else if d_tag d = DT_NEEDED \<and> 0 < names_index then Some (ERR_ONE_DYNLIB_SUPPORTED, name)
         else if d_tag d = DT_NEEDED then find_needed m strtab' dyn (i + 1) (strtab' + d_un d) (names_index + 1)
         else find_needed m strtab' dyn (i + 1) name names_index)"

declare find_strtab.simps [simp del] find_strtab.simps [code] find_needed.simps [simp del] find_needed.simps [code]

definition retrieve_dynlib_name :: "mem \<Rightarrow> addr \<Rightarrow> elf_sections \<Rightarrow> (dynlib_status \<times> addr) option" where
  "retrieve_dynlib_name m fbytes s = do {
     require (dynamic s \<noteq> NULL);
     strtab' \<leftarrow> find_strtab m fbytes (dynamic s) 0;
     (if strtab' = NULL then Some (ERR_NO_STRTAB_FOUND, NULL)
      else find_needed m strtab' (dynamic s) 0 NULL 0)
   }"

definition elf_hash_step :: "u32 \<Rightarrow> byte \<Rightarrow> u32" where
  "elf_hash_step h c =
     (let h = push_bit 4 h + ucast c;
          g = h AND 0xf0000000;
          h = (if g \<noteq> 0 then h XOR drop_bit 24 g else h)
      in h AND NOT g)"

partial_function (option) elf_hash_loop :: "mem \<Rightarrow> addr \<Rightarrow> u32 \<Rightarrow> u32 option" where
  "elf_hash_loop m name h = (if m name \<noteq> 0 then elf_hash_loop m (name + 1) (elf_hash_step h (m name)) else Some h)"

declare elf_hash_loop.simps [simp del] elf_hash_loop.simps [code]

definition elf_hash :: "mem \<Rightarrow> addr \<Rightarrow> u32 option" where
  "elf_hash m name = elf_hash_loop m name 0"

record dynlib =
  dl_name :: addr
  dl_sections :: elf_sections
  dl_fbytes :: addr
  dl_static_base :: addr
  dl_static_base_len :: u32

text \<open>
  The library is \<open>initramfs/lib/<name>\<close>. The three lookups share one directory entry, a local variable at the address
  \<open>frame\<close>, which the code also hands to \<open>kfree\<close>; a result that is not the entry is a null pointer.
\<close>

definition lookup_step :: "vfs \<Rightarrow> addr \<Rightarrow> kernel \<Rightarrow> addr \<Rightarrow> dentry \<Rightarrow> (kernel \<times> dentry) option" where
  "lookup_step v op k dirp d = do {
     (k, r) \<leftarrow> lookup_op v op k dirp d;
     d \<leftarrow> r;
     Some (k, d)
   }"

definition load_dynlib :: "vfs \<Rightarrow> (string \<Rightarrow> addr) \<Rightarrow> addr \<Rightarrow> kernel \<Rightarrow> dynlib \<Rightarrow> (kernel \<times> dynlib \<times> int) option" where
  "load_dynlib v lit frame k dl = do {
     cur \<leftarrow> proc_at k (current_process k);
     root \<leftarrow> deref (inodes k) (p_root cur);
     ops \<leftarrow> deref (iop_tables k) (i_op root);
     (k, d) \<leftarrow> lookup_step v (iop_lookup ops) k (p_root cur) (named (lit ''initramfs''));
     (k, d) \<leftarrow> lookup_step v (iop_lookup ops) k (d_inode d) (d\<lparr>d_name := lit ''lib''\<rparr>);
     k \<leftarrow> kfree_k k frame;
     (k, d) \<leftarrow> lookup_step v (iop_lookup ops) k (d_inode d) (d\<lparr>d_name := dl_name dl\<rparr>);
     k \<leftarrow> kfree_k k frame;
     file \<leftarrow> deref (inodes k) (d_inode d);
     let fbytes = file_begin file;
     k \<leftarrow> kfree_k k frame;
     s \<leftarrow> parse_sections lit (memory_k k) fbytes;
     let len = data_len s + dynamic_len s + got_plt_len s + bss_len s;
     (k, base) \<leftarrow> kmalloc_k k len;
     (if base = NULL then Some (k, dl, - ENOMEM)
      else (let m = fst (memcpy (memory_k k) base (fbytes + data_off s) (data_len s));
                m = fst (memset m (base + data_len s) 0 (len - data_len s))
            in Some (set_memory k m, dl\<lparr>dl_fbytes := fbytes, dl_sections := s, dl_static_base := base,
                                        dl_static_base_len := len\<rparr>, 0)))
   }"

section \<open>Symbols and relocations\<close>

text \<open>A word of the hash section.\<close>

definition hash_word :: "mem \<Rightarrow> dynlib \<Rightarrow> u32 \<Rightarrow> u32" where
  "hash_word m dl i = load32 m (hash (dl_sections dl) + i * 4)"

definition symbol_name :: "mem \<Rightarrow> elf_sections \<Rightarrow> u32 \<Rightarrow> addr" where
  "symbol_name m s i = dynstr s + st_name (read_sym m (dynsym s) i)"

partial_function (option) get_dyn_loop :: "mem \<Rightarrow> addr \<Rightarrow> dynlib \<Rightarrow> u32 \<Rightarrow> u32 option" where
  "get_dyn_loop m name dl index =
     (if index \<noteq> STN_UNDEF
      then do {
        c \<leftarrow> strcmp m (symbol_name m (dl_sections dl) index) name;
        (if c = 0 then Some (st_value (read_sym m (dynsym (dl_sections dl)) index))
         else get_dyn_loop m name dl (hash_word m dl (2 + hash_word m dl 0 + index)))
      }
      else Some 0)"

declare get_dyn_loop.simps [simp del] get_dyn_loop.simps [code]

definition get_dyn :: "mem \<Rightarrow> addr \<Rightarrow> dynlib \<Rightarrow> u32 option" where
  "get_dyn m name dl = do {
     h \<leftarrow> elf_hash m name;
     require (hash (dl_sections dl) \<noteq> NULL);
     require (hash_word m dl 0 \<noteq> 0);
     get_dyn_loop m name dl (hash_word m dl (2 + h mod hash_word m dl 0))
   }"

text \<open>One of the two loops over relocations; \<open>offset\<close> is what a symbol's value is relative to.\<close>

fun relocate :: "elf_sections \<Rightarrow> dynlib \<Rightarrow> addr \<Rightarrow> addr \<Rightarrow> addr \<Rightarrow> nat list \<Rightarrow> mem \<Rightarrow> (mem \<times> int) option" where
  "relocate s dl buffer rels offset [] m = Some (m, 0)"
| "relocate s dl buffer rels offset (i # is) m = do {
     let rel = read_rel m rels (of_nat i);
     value \<leftarrow> get_dyn m (symbol_name m s (ELF32_R_SYM (r_info rel))) dl;
     (if offset + value = 0 then Some (m, - 1)
      else relocate s dl buffer rels offset is (store32 m (buffer + r_offset rel) (offset + value)))
   }"

definition resolve_dyn_relocations ::
    "mem \<Rightarrow> process_page \<Rightarrow> elf_sections \<Rightarrow> dynlib \<Rightarrow> (mem \<times> int) option" where
  "resolve_dyn_relocations m pp s dl = do {
     (m, r) \<leftarrow> relocate s dl (page_ptr pp) (rel_plt s) (dl_fbytes dl + data_off (dl_sections dl))
                [0..<unat (rel_plt_len s)] m;
     (if r \<noteq> 0 then Some (m, r)
      else relocate s dl (page_ptr pp) (rel_dyn s) (static_base pp) [0..<unat (rel_dyn_len s)] m)
   }"

text \<open>The loop over the symbol table keeps the last symbol of the name; unnamed symbols are skipped.\<close>

fun entry_point_loop :: "(string \<Rightarrow> addr) \<Rightarrow> mem \<Rightarrow> elf_sections \<Rightarrow> nat list \<Rightarrow> u32 \<Rightarrow> u32 option" where
  "entry_point_loop lit m s [] start = Some start"
| "entry_point_loop lit m s (i # is) start =
     (let sym = read_sym m (symtab s) (of_nat i)
      in if st_name sym = 0 then entry_point_loop lit m s is start
         else do {
           c \<leftarrow> strcmp m (strtab s + st_name sym) (lit ''_start'');
           entry_point_loop lit m s is (if c = 0 then st_value sym else start)
         })"

definition find_entry_point :: "(string \<Rightarrow> addr) \<Rightarrow> mem \<Rightarrow> elf_sections \<Rightarrow> u32 option" where
  "find_entry_point lit m s = entry_point_loop lit m s [0..<unat (symtab_len s)] 0"

section \<open>Loading\<close>

definition load_cleanup :: "kernel \<Rightarrow> addr \<Rightarrow> (kernel \<times> addr) option" where
  "load_cleanup k p = do {
     pp \<leftarrow> deref (process_pages k) p;
     k \<leftarrow> kfree_k k (page_ptr pp);
     k \<leftarrow> kfree_k k p;
     Some (k, NULL)
   }"

definition upd_page :: "kernel \<Rightarrow> addr \<Rightarrow> (process_page \<Rightarrow> process_page) \<Rightarrow> kernel option" where
  "upd_page k p f = do {
     pp \<leftarrow> deref (process_pages k) p;
     Some (k\<lparr>process_pages := (process_pages k)(p \<mapsto> f pp)\<rparr>)
   }"

definition load_finish :: "(string \<Rightarrow> addr) \<Rightarrow> kernel \<Rightarrow> elf_sections \<Rightarrow> addr \<Rightarrow> (kernel \<times> addr) option" where
  "load_finish lit k s p = do {
     entry_point \<leftarrow> find_entry_point lit (memory_k k) s;
     (if entry_point = 0 then load_cleanup k p
      else do {
        k \<leftarrow> upd_page k p (\<lambda>pp. pp\<lparr>start_offset := sint entry_point\<rparr>);
        Some (k, p)
      })
   }"

definition load_exec :: "vfs \<Rightarrow> (string \<Rightarrow> addr) \<Rightarrow> addr \<Rightarrow> kernel \<Rightarrow> addr \<Rightarrow> (kernel \<times> addr) option" where
  "load_exec v lit frame k fbytes =
     (if fbytes = NULL \<or> \<not> validate_elf (memory_k k) fbytes then Some (k, NULL)
      else do {
        s \<leftarrow> parse_sections lit (memory_k k) fbytes;
        (if text_off s = 0 then Some (k, NULL)
         else do {
           (k, p) \<leftarrow> load_pages_to_ram k fbytes;
           (status, name) \<leftarrow> retrieve_dynlib_name (memory_k k) fbytes s;
           (if status = DynOk \<and> name \<noteq> NULL
            then do {
              (k, dl, r) \<leftarrow> load_dynlib v lit frame k \<lparr>dl_name = name, dl_sections = no_sections, dl_fbytes = NULL,
                              dl_static_base = NULL, dl_static_base_len = 0\<rparr>;
              (if r \<noteq> 0 then Some (k, NULL)
               else do {
                 k \<leftarrow> upd_page k p (\<lambda>pp. pp\<lparr>static_base := dl_static_base dl, static_base_len := dl_static_base_len dl\<rparr>);
                 pp \<leftarrow> deref (process_pages k) p;
                 (m, r) \<leftarrow> resolve_dyn_relocations (memory_k k) pp s dl;
                 let k = set_memory k m;
                 (if r \<noteq> 0 then load_cleanup k p else load_finish lit k s p)
               })
            }
            else if status = DynOk
            then do {
              k \<leftarrow> upd_page k p (\<lambda>pp. pp\<lparr>static_base := NULL\<rparr>);
              load_finish lit k s p
            }
            else load_finish lit k s p)
         })
      })"

end
