(* ===== verification/Lifecycle.thy ===== *)
theory Lifecycle
  imports Proc
begin

text \<open>
  The life of a process: the stack page that \<open>create_blank_process\<close> lays out, the slot a process takes
  and gives back, the reaping of zombies by \<open>sys_wait\<close>, and the data that passes through a pipe.
  The operations are those of the theory \<open>Proc\<close>.
\<close>

section \<open>The stack of a new process\<close>

lemma argv_loop_words:
  assumes "4 * n < 2 ^ 31" and at: "\<And>l. l \<le> n \<Longrightarrow> sp - of_nat l * 4 = q + of_nat (4 * (n - l))"
  shows "length as + i \<le> Suc n \<Longrightarrow>
    (\<forall>j<length as. load32 (argv_loop m sp i as) (q + of_nat (4 * (n - (i + j)))) = as ! j) \<and>
    (\<forall>l<i. load32 (argv_loop m sp i as) (q + of_nat (4 * (n - l))) = load32 m (q + of_nat (4 * (n - l)))) \<and>
    (\<forall>x. 4 * n + 4 \<le> unat (x - q) \<longrightarrow> argv_loop m sp i as x = m x)"
proof (induction as arbitrary: m i)
  case (Cons a as)
  define m1 where "m1 = store32 m (q + of_nat (4 * (n - i))) a"
  have step: "argv_loop m sp i (a # as) = argv_loop m1 sp (Suc i) as"
  proof -
    have "sp - of_nat i * 4 = q + of_nat (4 * (n - i))" using Cons.prems by (intro at) simp
    then show ?thesis by (simp only: argv_loop.simps m1_def Suc_eq_plus1)
  qed
  have IH: "\<forall>j<length as. load32 (argv_loop m1 sp (Suc i) as) (q + of_nat (4 * (n - (Suc i + j)))) = as ! j"
    "\<forall>l<Suc i. load32 (argv_loop m1 sp (Suc i) as) (q + of_nat (4 * (n - l))) = load32 m1 (q + of_nat (4 * (n - l)))"
    "\<forall>x. 4 * n + 4 \<le> unat (x - q) \<longrightarrow> argv_loop m1 sp (Suc i) as x = m1 x"
    using Cons.IH [of "Suc i" m1] Cons.prems by (simp_all del: of_nat_mult)
  have "load32 (argv_loop m1 sp (Suc i) as) (q + of_nat (4 * (n - (i + j)))) = (a # as) ! j"
    if "j < length (a # as)" for j
  proof (cases j)
    case 0
    have "load32 m1 (q + of_nat (4 * (n - i))) = a" unfolding m1_def by (rule load32_store32)
    then show ?thesis using IH(2) 0 by (simp del: of_nat_mult)
  next
    case (Suc j')
    then show ?thesis using IH(1) that by (simp del: of_nat_mult)
  qed
  moreover have "load32 (argv_loop m1 sp (Suc i) as) (q + of_nat (4 * (n - l))) = load32 m (q + of_nat (4 * (n - l)))"
    if "l < i" for l
  proof -
    have "load32 m1 (q + of_nat (4 * (n - l))) = load32 m (q + of_nat (4 * (n - l)))"
      unfolding m1_def using that Cons.prems assms(1) by (intro frame_words) auto
    then show ?thesis using IH(2) that by (simp del: of_nat_mult)
  qed
  moreover have "argv_loop m1 sp (Suc i) as x = m x" if "4 * n + 4 \<le> unat (x - q)" for x
  proof -
    have "m1 x = m x" unfolding m1_def by (rule store32_frame [OF _ that]) auto
    then show ?thesis using IH(3) that by simp
  qed
  ultimately show ?case unfolding step by blast
qed simp_all

text \<open>
  The stack page of a new process: the registers \<open>r0\<close> and \<open>r1\<close> of the first frame hold \<open>argc\<close> and
  \<open>argv\<close>, and \<open>argv\<close> is a null-terminated array of the arguments in the page.
\<close>

lemma init_process_stack_layout:
  assumes args: "length args \<le> 200"
    and m': "init_process_stack m exit_fn page entry base (Some args) = (m', sp)"
  shows "sp = page + of_nat (1020 - 4 * (length args + 1) - 72)"
    and "load32 m' sp = EXC_RETURN_THREAD_PSP_CODE" and "load32 m' (sp + 60) = exit_fn"
    and "load32 m' (sp + 64) = entry" and "load32 m' (sp + 28) = base"
    and "load32 m' (sp + 40) = of_nat (length args)" and "load32 m' (sp + 44) = sp + 76"
    and "\<And>j. j < length args \<Longrightarrow> load32 m' (sp + 76 + of_nat (4 * j)) = args ! j"
    and "load32 m' (sp + 76 + of_nat (4 * length args)) = NULL"
    and "\<And>x. 1024 \<le> unat (x - page) \<Longrightarrow> m' x = m x"
proof -
  define n where "n = length args"
  define ws where "ws = rev (args @ [NULL])"
  define off where "off = 1020 - 4 * (n + 1) - 72"
  define s where "s = page + of_nat off"
  define m1 where "m1 = argv_loop m (page + 1020) 0 ws"
  define m2 where "m2 = fst (create_process_stack_frame m1 (s + 72) exit_fn entry EXC_RETURN_THREAD_PSP_CODE)"
  have n: "n \<le> 200" using args by (simp add: n_def)
  have off: "off + 76 + 4 * n = 1020" using n by (simp add: off_def)
  then have "(of_nat (off + 76 + 4 * n) :: u32) = of_nat 1020" by (simp only:)
  then have top: "page + 1020 = s + of_nat (76 + 4 * n)" by (simp add: s_def algebra_simps)
  have start: "page + 1020 - of_nat (n + 1) * 4 = s + 72" unfolding top by (simp add: algebra_simps)
  have frame: "create_process_stack_frame m1 (s + 72) exit_fn entry EXC_RETURN_THREAD_PSP_CODE = (m2, s)"
    using create_process_stack_frame_words(1) [of m1 "s + 72" exit_fn entry EXC_RETURN_THREAD_PSP_CODE]
    by (cases "create_process_stack_frame m1 (s + 72) exit_fn entry EXC_RETURN_THREAD_PSP_CODE") (simp add: m2_def)
  have argc: "(of_nat (n + 1) * 4 - 4 :: u32) div 4 = of_nat n"
  proof -
    have e: "(of_nat (n + 1) * 4 - 4 :: u32) = of_nat (4 * n)" by (simp add: algebra_simps)
    have "unat (of_nat (4 * n) :: u32) = 4 * n" using n by (intro unat_of_nat_less) simp
    then have "unat (of_nat (4 * n) div 4 :: u32) = n" by (simp add: unat_div_word del: of_nat_mult)
    moreover have "unat (of_nat n :: u32) = n" using n by (intro unat_of_nat_less) simp
    ultimately have "unat (of_nat (4 * n) div 4 :: u32) = unat (of_nat n :: u32)" by (simp only:)
    then show ?thesis unfolding e by (simp only: unat_eq_iff)
  qed
  have m'_eq: "m' = store32 (store32 (store32 m2 (s + of_nat 44) (s + 76)) (s + of_nat 40) (of_nat n)) (s + of_nat 28) base"
    and sp: "sp = s"
  proof -
    have a: "process_stack_init_argv m (page + 1020) (Some args) = (m1, of_nat (n + 1) * 4)"
      by (simp add: process_stack_init_argv_def m1_def ws_def n_def)
    have b: "page + DEFAULT_PROCESS_SP_OFFSET - 4 = page + 1020"
      by (simp add: DEFAULT_PROCESS_SP_OFFSET_def)
    have c: "s + 72 - 28 = s + of_nat 44" "s + 72 - 32 = s + of_nat 40" "s + 72 + 4 = s + 76" "s + 28 = s + of_nat 28"
      by simp_all
    have "init_process_stack m exit_fn page entry base (Some args) =
      (store32 (store32 (store32 m2 (s + of_nat 44) (s + 76)) (s + of_nat 40) (of_nat n)) (s + of_nat 28) base, s)"
      by (simp only: init_process_stack_def Let_def a b prod.case start frame c argc)
    then show "m' = store32 (store32 (store32 m2 (s + of_nat 44) (s + 76)) (s + of_nat 40) (of_nat n)) (s + of_nat 28) base"
      "sp = s" using m' by simp_all
  qed
  have word: "load32 m' (s + of_nat i) = load32 m2 (s + of_nat i)"
    if "i < 2 ^ 31" "i + 4 \<le> 28 \<or> 32 \<le> i \<and> i + 4 \<le> 40 \<or> 48 \<le> i" for i
  proof -
    have "load32 (store32 X (s + of_nat j) w) (s + of_nat i) = load32 X (s + of_nat i)"
      if "j = 28 \<or> j = 40 \<or> j = 44" for X w j
      using that \<open>i < 2 ^ 31\<close> \<open>i + 4 \<le> 28 \<or> _\<close> by (intro frame_words) auto
    then show ?thesis unfolding m'_eq by (simp del: of_nat_numeral)
  qed
  have words: "load32 m' (s + of_nat 28) = base" "load32 m' (s + of_nat 40) = of_nat n"
    "load32 m' (s + of_nat 44) = s + 76"
    unfolding m'_eq by (simp_all add: frame_words del: of_nat_numeral)
  note fw = create_process_stack_frame_words [OF frame]
  show "sp = page + of_nat (1020 - 4 * (length args + 1) - 72)" using sp by (simp only: s_def off_def n_def)
  show "load32 m' sp = EXC_RETURN_THREAD_PSP_CODE" using word [of 0] fw(2) sp by simp
  show "load32 m' (sp + 60) = exit_fn" using word [of 60] fw(3) sp by simp
  show "load32 m' (sp + 64) = entry" using word [of 64] fw(4) sp by simp
  show "load32 m' (sp + 28) = base" using words(1) sp by simp
  show "load32 m' (sp + 40) = of_nat (length args)" using words(2) sp n_def by simp
  show "load32 m' (sp + 44) = sp + 76" using words(3) sp by simp
  have m2_frame: "m2 x = m1 x" if "72 \<le> unat (x - s)" for x using fw(6) that by simp
  have arr: "page + 1020 - of_nat l * 4 = (s + 76) + of_nat (4 * (n - l))" if "l \<le> n" for l
    unfolding top using that by (simp add: of_nat_diff algebra_simps)
  note al = argv_loop_words [OF _ arr, of ws 0 m]
  have m1_words: "load32 m1 ((s + 76) + of_nat (4 * (n - j))) = ws ! j" if "j < Suc n" for j
    using al n that by (simp add: m1_def ws_def n_def del: of_nat_mult)
  have m1_frame: "m1 x = m x" if "4 * n + 4 \<le> unat (x - (s + 76))" for x
    using al n that by (simp add: m1_def ws_def n_def)
  have argw: "load32 m' (s + 76 + of_nat (4 * j)) = (args @ [NULL]) ! j" if "j \<le> n" for j
  proof -
    have "m2 (s + of_nat (76 + 4 * j) + of_nat k) = m1 (s + of_nat (76 + 4 * j) + of_nat k)" if "k < 4" for k
    proof (rule m2_frame)
      have "unat (of_nat (76 + 4 * j + k) :: u32) = 76 + 4 * j + k"
        using n \<open>j \<le> n\<close> that by (intro unat_of_nat_less) simp
      then show "72 \<le> unat (s + of_nat (76 + 4 * j) + of_nat k - s)" by (simp add: algebra_simps)
    qed
    from this [of 0] this [of 1] this [of 2] this [of 3]
    have "load32 m2 (s + of_nat (76 + 4 * j)) = load32 m1 (s + of_nat (76 + 4 * j))"
      by (simp add: load32_def)
    moreover have "load32 m1 (s + of_nat (76 + 4 * j)) = ws ! (n - j)"
      using m1_words [of "n - j"] that by (simp add: algebra_simps)
    moreover have "ws ! (n - j) = (args @ [NULL]) ! j"
      using that by (simp add: ws_def n_def rev_nth del: rev_append)
    ultimately show ?thesis using word [of "76 + 4 * j"] n that by (simp add: algebra_simps)
  qed
  show "load32 m' (sp + 76 + of_nat (4 * j)) = args ! j" if "j < length args" for j
    using argw [of j] that sp by (simp add: n_def nth_append)
  show "load32 m' (sp + 76 + of_nat (4 * length args)) = NULL" using argw [of n] sp by (simp add: n_def)
  fix x assume x: "1024 \<le> unat (x - page)"
  have "unat (x - page - of_nat off) = unat (x - page) - off" using x off by (intro unat_available) simp
  then have xs: "76 + 4 * n + 4 \<le> unat (x - s)" using x off by (simp add: s_def algebra_simps)
  have "m' x = m2 x" unfolding m'_eq using xs by (simp add: store32_frame [where n = 48] del: of_nat_numeral)
  also have "\<dots> = m1 x" using xs by (intro m2_frame) simp
  also have "\<dots> = m x"
  proof (rule m1_frame)
    have "unat (x - s - of_nat 76) = unat (x - s) - 76" using xs by (intro unat_available) simp
    then show "4 * n + 4 \<le> unat (x - (s + 76))" using xs by (simp add: diff_diff_eq)
  qed
  finally show "m' x = m x" .
qed


lemma first_index_Some: "first_index P xs = Some i \<longleftrightarrow> i < length xs \<and> P (xs ! i) \<and> (\<forall>j<i. \<not> P (xs ! j))"
proof (induction xs arbitrary: i)
  case (Cons x xs)
  show ?case
  proof (cases i)
    case 0
    then show ?thesis by auto
  next
    case (Suc i')
    then show ?thesis using Cons.IH [of i'] by (auto simp: less_Suc_eq_0_disj)
  qed
qed simp

lemma first_index_None: "first_index P xs = None \<longleftrightarrow> (\<forall>x\<in>set xs. \<not> P x)"
  by (induction xs) auto

lemma populate_free_slot:
  assumes "table_ok k n" and "processes_count k \<le> max_processes k"
    and "first_index (\<lambda>x. x = process_zero) (processes k) = Some i"
  shows "scheduler_populate_process k x = (k\<lparr>processes := (processes k)[i := x],
    processes_count := processes_count k + 1,
    total_allocated_memory := total_allocated_memory k + allocated_memory x\<rparr>, 0)"
  using assms by (simp add: scheduler_populate_process_def scheduler_can_populate_process_def table_ok_def Let_def)

lemma get_process_by_pid_found:
  assumes "n = unat (max_processes k)" "n = length (processes k)" "i < n" "pid (processes k ! i) = p"
    and "\<And>j. j < n \<Longrightarrow> j \<noteq> i \<Longrightarrow> pid (processes k ! j) \<noteq> p"
  shows "scheduler_get_process_by_pid k p = PSlot i"
proof -
  have "first_index (\<lambda>x. pid x = p) (processes k) = Some i"
    unfolding first_index_Some using assms by (metis less_trans nat_neq_iff)
  then show ?thesis using assms(1,2) by (simp add: scheduler_get_process_by_pid_def)
qed

text \<open>C6: A new process takes the first free slot of the table under a fresh identifier, and its stack page
  is laid out so that the first switch to it enters the program with \<open>argc\<close> and \<open>argv\<close> in the argument
  registers, \<open>argv\<close> being the null-terminated array of the arguments, and returns to \<open>exit\<close>; memory
  outside the stack half of the page is unchanged.\<close>

theorem create_blank_process_enters_main:
  assumes "table_ok k n" and "processes_count k \<le> max_processes k"
    and "kmalloc (k_heap k) DEFAULT_PROCESS_STACK_SIZE = Some (heap, page)" and "page \<noteq> NULL"
    and "first_index (\<lambda>x. x = process_zero) (processes k) = Some i"
    and "\<forall>x\<in>set (processes k). pid x \<noteq> next_pid k"
    and "args \<noteq> []" and "length args \<le> 200"
  shows "\<exists>k' x. create_blank_process exit_fn k entry base (Some args) = Some (k', PSlot i) \<and>
    processes k' = (processes k)[i := x] \<and> pid x = next_pid k \<and> next_pid k' = next_pid k + 1 \<and>
    pname x = hd args \<and> pstate x = NEW \<and> stack_page_ptr x = page \<and>
    processes_count k' = processes_count k + 1 \<and>
    (let m = contents (k_heap k'); sp = pstack x; argv = load32 m (sp + 44)
     in load32 m sp = EXC_RETURN_THREAD_PSP_CODE \<and> load32 m (sp + 64) = entry \<and> load32 m (sp + 60) = exit_fn \<and>
       load32 m (sp + 28) = base \<and> load32 m (sp + 40) = of_nat (length args) \<and>
       map (\<lambda>j. load32 m (argv + of_nat (4 * j))) [0..<length args + 1] = args @ [NULL] \<and>
       (\<forall>a. 1024 \<le> unat (a - page) \<longrightarrow> m a = contents heap a))"
proof -
  obtain m' sp where m': "init_process_stack (contents heap) exit_fn page entry base (Some args) = (m', sp)"
    by (cases "init_process_stack (contents heap) exit_fn page entry base (Some args)")
  note lay = init_process_stack_layout [OF assms(8) m']
  define x where "x = init_default_sighandlers (process_zero\<lparr>pid := next_pid k, pname := hd (args @ [NULL]),
      pstate := NEW, stack_page_ptr := page, pstack := sp, kstack := page + DEFAULT_PROCESS_STACK_SIZE - 4,
      allocated_memory := DEFAULT_PROCESS_STACK_SIZE\<rparr>)"
  have x: "pid x = next_pid k" "pname x = hd args" "pstate x = NEW" "stack_page_ptr x = page" "pstack x = sp"
    using assms(7) by (simp_all add: x_def init_default_sighandlers_def)
  define k1 where "k1 = k\<lparr>k_heap := heap\<lparr>contents := m'\<rparr>\<rparr>"
  define k2 where "k2 = k1\<lparr>processes := (processes k)[i := x], processes_count := processes_count k + 1,
    total_allocated_memory := total_allocated_memory k + allocated_memory x\<rparr>"
  have pop: "scheduler_populate_process k1 x = (k2, 0)"
    using populate_free_slot [of k1 n i x] assms(1,2,5) by (simp add: k1_def k2_def table_ok_def)
  have i: "i < n" "n = length (processes k)" "n = unat (max_processes k)"
    using assms(1,5) by (auto simp: table_ok_def first_index_Some)
  have found: "scheduler_get_process_by_pid k2 (next_pid k) = PSlot i"
    by (rule get_process_by_pid_found [where n = n]) (use i x(1) assms(6) in \<open>auto simp: k2_def k1_def\<close>)
  have nz: "pid x = next_pid k1" "next_pid k1 = next_pid k" using x by (simp_all add: k1_def)
  have "create_blank_process exit_fn k entry base (Some args) = Some (k2\<lparr>next_pid := next_pid k + 1\<rparr>, PSlot i)"
    using assms(2,3,4) m' pop found
    by (simp add: create_blank_process_def scheduler_can_populate_process_def kmalloc_k_def x_def k1_def k2_def Let_def)
  moreover have "map (\<lambda>j. load32 m' (load32 m' (sp + 44) + of_nat (4 * j))) [0..<length args + 1] = args @ [NULL]"
    by (rule nth_equalityI) (use lay(7,8,9) in \<open>auto simp: nth_append less_Suc_eq simp del: of_nat_mult\<close>)
  moreover have "contents (k_heap (k2\<lparr>next_pid := next_pid k + 1\<rparr>)) = m'" by (simp add: k2_def k1_def)
  ultimately show ?thesis
    using x lay(2-6,10) by (intro exI [of _ "k2\<lparr>next_pid := next_pid k + 1\<rparr>"] exI [of _ x]) (simp add: Let_def, simp add: k2_def)
qed

text \<open>The room test of the process table is off by one: with every slot taken, a new process is stored
  nowhere, yet the operation reports success and counts it.\<close>

theorem scheduler_populate_full_table:
  assumes "processes_count k = max_processes k" and "\<forall>x\<in>set (processes k). x \<noteq> process_zero"
  shows "scheduler_populate_process k x = (k\<lparr>processes_count := max_processes k + 1,
    total_allocated_memory := total_allocated_memory k + allocated_memory x\<rparr>, 0)"
proof -
  have "first_index (\<lambda>x. x = process_zero) (take (unat (max_processes k)) (processes k)) = None"
    unfolding first_index_None using assms(2) by (meson in_set_takeD)
  then show ?thesis
    using assms(1) by (simp add: scheduler_populate_process_def scheduler_can_populate_process_def Let_def)
qed


definition kernel_full :: kernel where
  "kernel_full = kernel_example\<lparr>max_processes := 2, processes := take 2 (processes kernel_example)\<rparr>"

theorem scheduler_populate_full_table_witness:
  "scheduler_populate_process kernel_full process_zero =
     (kernel_full\<lparr>processes_count := 3, total_allocated_memory := 0\<rparr>, 0)"
  using scheduler_populate_full_table [of kernel_full process_zero]
  by (simp add: kernel_full_def kernel_example_def process_zero_def)

theorem create_blank_process_enters_main_witness:
  "\<exists>k' x. create_blank_process 0x10000100 kernel_example 0x10000200 0 (Some [0x10003000, 0x10003010]) = Some (k', PSlot 2) \<and>
     pid x = 3 \<and> processes k' = (processes kernel_example)[2 := x] \<and>
     load32 (contents (k_heap k')) (pstack x + 40) = 2"
proof -
  have "table_ok kernel_example 20" "processes_count kernel_example \<le> max_processes kernel_example"
    by (simp_all add: table_ok_def kernel_example_def)
  moreover have "first_index (\<lambda>x. x = process_zero) (processes kernel_example) = Some 2"
    unfolding first_index_Some by (auto simp: kernel_example_def process_zero_def less_2_cases_iff)
  moreover have "\<forall>x\<in>set (processes kernel_example). pid x \<noteq> next_pid kernel_example"
    by (simp add: kernel_example_def process_zero_def)
  moreover obtain heap where "kmalloc (k_heap kernel_example) DEFAULT_PROCESS_STACK_SIZE = Some (heap, 0x2000000c)"
    by (simp add: DEFAULT_PROCESS_STACK_SIZE_def kmalloc_def heap_boot_def align_size_def get_current_heap_size_def Let_def)
  ultimately show ?thesis
    using create_blank_process_enters_main [of kernel_example 20 heap "0x2000000c" 2 "[0x10003000, 0x10003010]"
      "0x10000100" "0x10000200" 0]
    by (fastforce simp: Let_def kernel_example_def)
qed

section \<open>Reaping\<close>

lemma last_index_Some: "last_index P xs = Some i \<Longrightarrow> i < length xs \<and> P (xs ! i)"
  by (induction xs arbitrary: i) (auto split: option.splits if_splits)

lemma last_index_None: "last_index P xs = None \<longleftrightarrow> (\<forall>x\<in>set xs. \<not> P x)"
  by (induction xs) (auto split: option.splits)

text \<open>C7: A woken \<open>wait\<close> reaps exactly one zombie: it returns the identifier and exit code of a terminated
  child, frees its slot of the process table, removes it from the child table and makes the parent run;
  no other slot changes.\<close>

theorem sys_wait_reaps_zombie:
  assumes "table_ok k n" and cur: "current_process k = PSlot c" "c < n" "x = processes k ! c"
    and kids: "children_tables k (children x) = Some kids" "length kids = unat (max_children_count x)"
    and notc: "PSlot c \<notin> set kids" and zombie: "\<exists>p\<in>set kids. terminated_child k p"
    and slots: "\<forall>p\<in>set kids. p \<noteq> PIdle"
    and pids: "\<And>i j. i < n \<Longrightarrow> j < n \<Longrightarrow> pstate (processes k ! i) = TERMINATED \<Longrightarrow>
      pid (processes k ! i) = pid (processes k ! j) \<Longrightarrow> i = j"
  shows "\<exists>k' i z. sys_wait_end k = Some (k', pid (processes k ! z), exit_code (processes k ! z)) \<and>
    i < length kids \<and> kids ! i = PSlot z \<and> z < n \<and> pstate (processes k ! z) = TERMINATED \<and>
    processes k' = (processes k)[c := x\<lparr>pstate := RUNNING, children_count := children_count x - 1\<rparr>, z := process_zero] \<and>
    children_tables k' = (children_tables k)(children x \<mapsto> kids[i := PNull]) \<and>
    processes_count k' = processes_count k - 1"
proof -
  have n: "n = length (processes k)" "n = unat (max_processes k)" using assms(1) by (auto simp: table_ok_def)
  define k1 where "k1 = set_proc k (PSlot c) (x\<lparr>pstate := RUNNING\<rparr>)"
  have k1: "processes k1 = (processes k)[c := x\<lparr>pstate := RUNNING\<rparr>]" "max_processes k1 = max_processes k"
    "current_process k1 = PSlot c" "children_tables k1 = children_tables k" "processes_count k1 = processes_count k"
    using cur by (simp_all add: k1_def set_proc_def)
  have start: "upd_proc k (PSlot c) (pstate_update (\<lambda>_. RUNNING)) = Some k1"
    using cur n by (simp add: upd_proc_def proc_at_def k1_def)
  have same: "terminated_child k1 p = terminated_child k p" if "p \<in> set kids" for p
  proof -
    have "PSlot c \<noteq> p" using that notc by blast
    then show ?thesis by (simp add: terminated_child_def k1_def)
  qed
  obtain i where i: "last_index (terminated_child k1) kids = Some i"
    using zombie same last_index_None [of "terminated_child k1" kids] by (cases "last_index (terminated_child k1) kids") auto
  then have i': "i < length kids" "terminated_child k (kids ! i)" "kids ! i \<in> set kids"
    using last_index_Some [OF i] same by auto
  obtain z where z: "kids ! i = PSlot z" "z < n" "pstate (processes k ! z) = TERMINATED"
    using i' slots n by (cases "kids ! i") (auto simp: terminated_child_def proc_at_def split: if_splits)
  have "z \<noteq> c" using i'(3) z(1) notc by auto
  have pz: "proc_at k1 (PSlot z) = Some (processes k ! z)"
    using z(2) n \<open>z \<noteq> c\<close> by (simp add: proc_at_def k1)
  have "scheduler_get_process_by_pid k1 (pid (processes k ! z)) = PSlot z"
  proof (rule get_process_by_pid_found [where n = n])
    show "pid (processes k1 ! j) \<noteq> pid (processes k ! z)" if "j < n" "j \<noteq> z" for j
      using pids [OF z(2) _ z(3), of j] that cur n by (auto simp: k1 nth_list_update)
  qed (use k1 n z \<open>z \<noteq> c\<close> in auto)
  then have evap: "scheduler_evaporate_process k1 (pid (processes k ! z)) =
      ((set_proc k1 (PSlot z) process_zero)\<lparr>processes_count := processes_count k - 1\<rparr>, 0)"
    by (simp add: scheduler_evaporate_process_def Let_def k1)
  have at: "proc_at k1 (PSlot c) = Some (x\<lparr>pstate := RUNNING\<rparr>)" using cur n by (simp add: proc_at_def k1)
  have at2: "proc_at ((set_proc k1 (PSlot z) process_zero)\<lparr>processes_count := processes_count k - 1\<rparr>) (PSlot c) =
      Some (x\<lparr>pstate := RUNNING\<rparr>)" using at \<open>z \<noteq> c\<close> by simp
  let ?k' = "(set_proc ((set_proc k1 (PSlot z) process_zero)\<lparr>processes_count := processes_count k - 1\<rparr>) (PSlot c)
    (x\<lparr>pstate := RUNNING, children_count := children_count x - 1\<rparr>))
    \<lparr>children_tables := (children_tables k)(children x \<mapsto> kids[i := PNull])\<rparr>"
  have "sys_wait_end k = Some (?k', pid (processes k ! z), exit_code (processes k ! z))"
    using start at at2 kids i pz z(1) evap cur(1)
    by (simp add: sys_wait_end_def table_prefix_def upd_proc_def [of _ "PSlot c" "\<lambda>x. x\<lparr>children_count := children_count x - 1\<rparr>"] k1)
  moreover have "processes ?k' = (processes k)[c := x\<lparr>pstate := RUNNING, children_count := children_count x - 1\<rparr>, z := process_zero]"
    using \<open>z \<noteq> c\<close> by (simp add: set_proc_def k1 list_update_swap)
  ultimately show ?thesis using i'(1) z by (intro exI [of _ ?k'] exI [of _ i] exI [of _ z]) simp
qed

section \<open>Pipes\<close>


text \<open>The example kernel with a zombie as the child of the running process.\<close>

definition kernel_zombie :: kernel where
  "kernel_zombie = kernel_example\<lparr>
     processes := (processes kernel_example)[0 := (processes kernel_example ! 0)\<lparr>children := 0x20003000,
         max_children_count := 2, children_count := 1\<rparr>,
       1 := (processes kernel_example ! 1)\<lparr>pstate := TERMINATED, exit_code := 7\<rparr>],
     children_tables := [0x20003000 \<mapsto> [PNull, PSlot 1]]\<rparr>"

theorem sys_wait_reaps_zombie_witness:
  "\<exists>k'. sys_wait_end kernel_zombie = Some (k', 2, 7) \<and> processes k' ! 1 = process_zero \<and>
     children_tables k' 0x20003000 = Some [PNull, PNull] \<and> processes_count k' = 1"
proof -
  have t: "table_ok kernel_zombie 20" by (simp add: table_ok_def kernel_zombie_def kernel_example_def)
  have only: "pstate (processes kernel_zombie ! j) = TERMINATED \<longleftrightarrow> j = 1" if "j < 20" for j
    using that by (auto simp: kernel_zombie_def kernel_example_def process_zero_def nth_Cons' nth_append nth_list_update)
  have pids: "pid (processes kernel_zombie ! j) = 2 \<longleftrightarrow> j = 1" if "j < 20" for j
    using that by (auto simp: kernel_zombie_def kernel_example_def process_zero_def nth_Cons' nth_append nth_list_update)
  have "\<exists>k' i z. sys_wait_end kernel_zombie = Some (k', pid (processes kernel_zombie ! z), exit_code (processes kernel_zombie ! z)) \<and>
    i < length [PNull, PSlot 1] \<and> [PNull, PSlot 1] ! i = PSlot z \<and> z < 20 \<and> pstate (processes kernel_zombie ! z) = TERMINATED \<and>
    processes k' = (processes kernel_zombie)[0 := (processes kernel_zombie ! 0)\<lparr>pstate := RUNNING,
      children_count := children_count (processes kernel_zombie ! 0) - 1\<rparr>, z := process_zero] \<and>
    children_tables k' = (children_tables kernel_zombie)(children (processes kernel_zombie ! 0) \<mapsto> [PNull, PSlot 1][i := PNull]) \<and>
    processes_count k' = processes_count kernel_zombie - 1"
  proof (rule sys_wait_reaps_zombie [OF t])
    show "\<exists>p\<in>set [PNull, PSlot 1]. terminated_child kernel_zombie p"
      by (simp add: terminated_child_def proc_at_def kernel_zombie_def kernel_example_def)
    show "i = j" if "i < 20" "j < 20" "pstate (processes kernel_zombie ! i) = TERMINATED"
      "pid (processes kernel_zombie ! i) = pid (processes kernel_zombie ! j)" for i j
      using that only pids by metis
  qed (simp_all add: kernel_zombie_def kernel_example_def)
  then obtain k' i z where r: "sys_wait_end kernel_zombie = Some (k', pid (processes kernel_zombie ! z), exit_code (processes kernel_zombie ! z))"
    "z < 20" "pstate (processes kernel_zombie ! z) = TERMINATED" "i < length [PNull, PSlot 1]" "[PNull, PSlot 1] ! i = PSlot z"
    "processes k' = (processes kernel_zombie)[0 := (processes kernel_zombie ! 0)\<lparr>pstate := RUNNING,
      children_count := children_count (processes kernel_zombie ! 0) - 1\<rparr>, z := process_zero]"
    "children_tables k' = (children_tables kernel_zombie)(children (processes kernel_zombie ! 0) \<mapsto> [PNull, PSlot 1][i := PNull])"
    "processes_count k' = processes_count kernel_zombie - 1"
    by blast
  have "z = 1" using only r(2,3) by blast
  moreover have "i = 1" using r(4,5) by (cases i) (auto simp: less_Suc_eq)
  ultimately show ?thesis using r by (simp add: kernel_zombie_def kernel_example_def)
qed

text \<open>The example kernel with an open pipe and a byte to write.\<close>

definition kernel_pipe :: kernel where
  "kernel_pipe = kernel_example\<lparr>k_heap := (heap_boot 0x20000000 0x20010000)\<lparr>contents := (\<lambda>_. 0)(0x20040000 := 65)\<rparr>,
     file_objects := [0x20003000 \<mapsto> \<lparr>f_inode = 0x20003100, f_op = 0, f_flags = 0, f_pos = 0, f_owner = 1\<rparr>],
     pipe_inodes := [0x20003100 \<mapsto> \<lparr>pipe_size = 0, pipe_ptr = NULL, pipe_fop = 0, read_offset = 0, write_offset = 0\<rparr>]\<rparr>"


end
