(* ===== verification/Spawn.thy ===== *)
theory Spawn
  imports Loader Lifecycle
begin

text \<open>
  Starting programs, the rest of \<open>src/kernel/proc.c\<close>: running an executable from a descriptor, and the first process with its
  standard input and output. Addresses of string literals are parameters.
\<close>

section \<open>Stacks of the running process\<close>

text \<open>The two functions return the address of a member of the current process, or a null pointer.\<close>

definition scheduler_get_current_kernel_stack :: "kernel \<Rightarrow> proc_ptr option" where
  "scheduler_get_current_kernel_stack k = (if current_process k = PNull then None else Some (current_process k))"

definition scheduler_get_current_process_stack :: "kernel \<Rightarrow> proc_ptr option" where
  "scheduler_get_current_process_stack k = (if current_process k = PNull then None else Some (current_process k))"

section \<open>Running a program\<close>

definition sys_spawn_process ::
    "vfs \<Rightarrow> (string \<Rightarrow> addr) \<Rightarrow> addr \<Rightarrow> addr \<Rightarrow> kernel \<Rightarrow> int \<Rightarrow> addr list option \<Rightarrow> (kernel \<times> int) option" where
  "sys_spawn_process v lit frame exit_fn k fd argv = do {
     cur \<leftarrow> proc_at k (current_process k);
     table \<leftarrow> deref (fdtables k) (fdtable cur);
     require (0 \<le> fd \<and> nat fd < length table);
     f \<leftarrow> deref (file_objects k) (table ! nat fd);
     ino \<leftarrow> deref (inodes k) (f_inode f);
     let executable_size = i_size ino;
     (k, executable_buffer) \<leftarrow> kmalloc_k k executable_size;
     (if executable_buffer = NULL then Some (k, - 1)
      else do {
        (k, _) \<leftarrow> sys_read v k fd executable_buffer (sint executable_size);
        (k, page) \<leftarrow> load_exec v lit frame k executable_buffer;
        k \<leftarrow> kfree_k k executable_buffer;
        (if page = NULL then Some (k, - ENOEXEC)
         else do {
           pp \<leftarrow> deref (process_pages k) page;
           (if page_ptr pp = NULL then Some (k, - ENOEXEC)
            else do {
              let start_address = page_ptr pp + word_of_int (start_offset pp);
              (k, new_process) \<leftarrow> create_blank_process exit_fn k start_address (static_base pp) argv;
              (if new_process = PNull then Some (k, - 1)
               else do {
                 k \<leftarrow> upd_proc k new_process (\<lambda>x. x\<lparr>ppage := page,
                        allocated_memory := allocated_memory x + (if static_base pp \<noteq> NULL then static_base_len pp else 0) + page_size pp\<rparr>);
                 fill_process_and_spawn k new_process
               })
            })
         })
      })
   }"

section \<open>The first process\<close>

definition stdio_file :: "addr \<Rightarrow> addr \<Rightarrow> kfile" where
  "stdio_file fop ino = \<lparr>f_inode = ino, f_op = fop, f_flags = 0, f_pos = 0, f_owner = 0\<rparr>"

definition new_fop :: "kernel \<Rightarrow> fop_table \<Rightarrow> (kernel \<times> addr) option" where
  "new_fop k t = do {
     (k, p) \<leftarrow> kmalloc_k k 36;
     require (p \<noteq> NULL);
     Some (k\<lparr>fop_tables := (fop_tables k)(p \<mapsto> t)\<rparr>, p)
   }"

text \<open>\<open>sizeof(struct File)\<close> is 24 on the target. The flags are not set by the code; nothing reads them.\<close>

definition new_stdio :: "kernel \<Rightarrow> addr \<Rightarrow> addr \<Rightarrow> (kernel \<times> addr) option" where
  "new_stdio k fop ino = do {
     (k, p) \<leftarrow> kmalloc_k k 24;
     require (p \<noteq> NULL);
     Some (k\<lparr>file_objects := (file_objects k)(p \<mapsto> stdio_file fop ino)\<rparr>, p)
   }"

definition setup_init_stdio :: "vfs \<Rightarrow> addr \<Rightarrow> addr \<Rightarrow> kernel \<Rightarrow> addr \<Rightarrow> (kernel \<times> u32 \<times> addr) option" where
  "setup_init_stdio v dev_str tty_str k root = do {
     (k, dev) \<leftarrow> lookup_in v k root (named dev_str);
     dev \<leftarrow> dev;
     (k, tty) \<leftarrow> lookup_in v k (d_inode dev) (named tty_str);
     tty \<leftarrow> tty;
     ino \<leftarrow> deref (inodes k) (d_inode tty);
     ops \<leftarrow> deref (fop_tables k) (i_fop ino);
     (k, stdin_fop) \<leftarrow> new_fop k (empty_fop\<lparr>fop_read := fop_read ops, fop_ioctl := fop_ioctl ops\<rparr>);
     (k, stdout_fop) \<leftarrow> new_fop k (empty_fop\<lparr>fop_write := fop_write ops, fop_ioctl := fop_ioctl ops\<rparr>);
     (k, f_stdin) \<leftarrow> new_stdio k stdin_fop (d_inode tty);
     (k, f_stdout) \<leftarrow> new_stdio k stdout_fop (d_inode tty);
     (k, f_stderr) \<leftarrow> new_stdio k stdout_fop (d_inode tty);
     (k, fdt) \<leftarrow> kmalloc_k k (4 * of_nat MAX_OPEN_FILE_DESCRIPTORS);
     require (fdt \<noteq> NULL);
     Some (k\<lparr>fdtables := (fdtables k)(fdt \<mapsto> [f_stdin, f_stdout, f_stderr, NULL, NULL, NULL, NULL, NULL])\<rparr>, 3, fdt)
   }"

text \<open>
  The table of children: the call that clears it counts with a member of the process that is still zero, so that the length
  is not that of the table. The second result is a null pointer when there is no memory for it.
\<close>

definition init_children :: "kernel \<Rightarrow> proc_ptr \<Rightarrow> (kernel \<times> addr) option" where
  "init_children k process_init = do {
     (k, children) \<leftarrow> kmalloc_k k (4 * (INITIAL_PROCESS_COUNT - 1));
     (if children = NULL then do { k \<leftarrow> kfree_k k (proc_addr k process_init); Some (k, NULL) }
      else do {
        x \<leftarrow> proc_at k process_init;
        Some (set_memory k (fst (memset (memory_k k) children 0 (4 * (max_children_count x - 1)))), children)
      })
   }"

definition create_process_init ::
    "vfs \<Rightarrow> addr \<Rightarrow> addr \<Rightarrow> addr \<Rightarrow> addr list \<Rightarrow> kernel \<Rightarrow> addr \<Rightarrow> addr \<Rightarrow> (kernel \<times> int) option" where
  "create_process_init v exit_fn dev_str tty_str argv k entry root =
     (if processes_count k \<noteq> 0 then Some (k, - 1)
      else do {
        (k, process_init) \<leftarrow> create_blank_process exit_fn k entry NULL (Some argv);
        (if process_init = PNull then Some (k, - 1)
         else do {
           (k, kids) \<leftarrow> init_children k process_init;
           (if kids = NULL then Some (k, - 1)
            else do {
              (k, n, fdt) \<leftarrow> setup_init_stdio v dev_str tty_str k root;
              let k = k\<lparr>children_tables := (children_tables k)(kids \<mapsto> replicate (unat (INITIAL_PROCESS_COUNT - 1)) PNull)\<rparr>;
              k \<leftarrow> upd_proc k process_init (\<lambda>x. x\<lparr>files_count := n, fdtable := fdt, p_root := root, p_pwd := root,
                     max_children_count := INITIAL_PROCESS_COUNT - 1, children := kids, pstate := READY\<rparr>);
              Some (k, 0)
            })
         })
      })"

text \<open>Control goes to the first process by a system call that the processor handles.\<close>

definition run_process_init :: "kernel \<Rightarrow> kernel option" where
  "run_process_init k = upd_proc (k\<lparr>current_process := PSlot 0\<rparr>) (PSlot 0) (pstate_update (\<lambda>_. RUNNING))"

section \<open>What clearing the table of children clears\<close>



end
