(* ===== verification/Ethernet.thy ===== *)
theory Ethernet
  imports Board Vfs
begin

text \<open>
  The Ethernet driver, \<open>src/drivers/ethernet.c\<close>, with the mutexes of \<open>include/kernel/mutex.h\<close>: the registers of the chip
  behind its bus, the sockets and their descriptions, commands and interrupts, sending and receiving through the
  buffers of the chip, and the set-up of chip and sockets. What the chip does on the bus is the hardware
  parameter of theory \<open>Board\<close>; waiting for it is a loop that returns None when the condition never comes.
\<close>

section \<open>Registers\<close>

definition ESOCKTNOSUPPORT :: int where "ESOCKTNOSUPPORT = 124"
definition ENOTCONN :: int where "ENOTCONN = 128"
definition ETIMEDOUT :: int where "ETIMEDOUT = 116"
definition ECONNABORTED :: int where "ECONNABORTED = 113"
definition ENOSOCKFREE :: int where "ENOSOCKFREE = 129"
definition MAX_ERRNO :: int where "MAX_ERRNO = 132"

abbreviation (input) ETH_CS_PIN :: nat where "ETH_CS_PIN \<equiv> 17"
abbreviation (input) ETH_INT_PIN :: nat where "ETH_INT_PIN \<equiv> 21"
abbreviation (input) ETH_SPI_BLOCK :: nat where "ETH_SPI_BLOCK \<equiv> 0"
definition S0_TX_BASE :: u16 where "S0_TX_BASE = 0x4000"
definition S0_RX_BASE :: u16 where "S0_RX_BASE = 0x6000"

definition MR :: u16 where "MR = 0x0000"
definition GAR :: u16 where "GAR = 0x0001"
definition SUBR :: u16 where "SUBR = 0x0005"
definition SHAR :: u16 where "SHAR = 0x0009"
definition SIPR :: u16 where "SIPR = 0x000f"
definition IMR :: u16 where "IMR = 0x0016"
definition RTR :: u16 where "RTR = 0x0017"
definition RCR :: u16 where "RCR = 0x0019"
definition PHYSR0 :: u16 where "PHYSR0 = 0x003c"
definition VERR_REG :: u16 where "VERR_REG = 0x0080"

text \<open>The registers of a socket: \<open>SN_CR(socket)\<close> is \<open>sn SN_CR socket\<close>.\<close>

definition sn :: "u16 \<Rightarrow> u32 \<Rightarrow> u16" where
  "sn offset socket = offset + 0x0100 * (ucast socket + 4)"

definition SN_MR :: u16 where "SN_MR = 0x00"
definition SN_CR :: u16 where "SN_CR = 0x01"
definition SN_IR :: u16 where "SN_IR = 0x02"
definition SN_SR :: u16 where "SN_SR = 0x03"
definition SN_PORTR :: u16 where "SN_PORTR = 0x04"
definition SN_DIPR :: u16 where "SN_DIPR = 0x0c"
definition SN_DPORTR :: u16 where "SN_DPORTR = 0x10"
definition SN_RXBUF_SIZE :: u16 where "SN_RXBUF_SIZE = 0x1e"
definition SN_TXBUF_SIZE :: u16 where "SN_TXBUF_SIZE = 0x1f"
definition SN_TX_FSR :: u16 where "SN_TX_FSR = 0x20"
definition SN_TX_WR :: u16 where "SN_TX_WR = 0x24"
definition SN_RX_RSR :: u16 where "SN_RX_RSR = 0x26"
definition SN_RX_RD :: u16 where "SN_RX_RD = 0x28"

definition INT_SENDOK :: byte where "INT_SENDOK = 0x16"
definition INT_TIMEOUT :: byte where "INT_TIMEOUT = 0x08"
definition INT_RECV :: byte where "INT_RECV = 0x04"
definition INT_DISCON :: byte where "INT_DISCON = 0x02"
definition INT_CON :: byte where "INT_CON = 0x01"

definition SOCK_CLOSED :: byte where "SOCK_CLOSED = 0x00"
definition SOCK_INIT :: byte where "SOCK_INIT = 0x13"
definition SOCK_LISTEN :: byte where "SOCK_LISTEN = 0x14"
definition SOCK_UDP :: byte where "SOCK_UDP = 0x22"
definition SOCK_MACRAW :: byte where "SOCK_MACRAW = 0x42"

definition CMD_OPEN :: byte where "CMD_OPEN = 0x01"
definition CMD_LISTEN :: byte where "CMD_LISTEN = 0x02"
definition CMD_CONNECT :: byte where "CMD_CONNECT = 0x04"
definition CMD_DISCON :: byte where "CMD_DISCON = 0x08"
definition CMD_CLOSE :: byte where "CMD_CLOSE = 0x10"
definition CMD_SEND :: byte where "CMD_SEND = 0x20"
definition CMD_RECV :: byte where "CMD_RECV = 0x40"

section \<open>State\<close>

datatype socket_mode = CLOSED | TCP | UDP | IPRAW | MACRAW

primrec mode_byte :: "socket_mode \<Rightarrow> byte" where
  "mode_byte CLOSED = 0"
| "mode_byte TCP = 1"
| "mode_byte UDP = 2"
| "mode_byte IPRAW = 3"
| "mode_byte MACRAW = 4"

text \<open>\<open>struct WIZnetSocket\<close> without the file that it starts with, which is a file of the kernel at the same address.\<close>

record wiz_socket =
  mode :: socket_mode
  port :: u16
  txbuf_start :: u16
  txbuf_size_max :: u32
  txbuf_mask :: u32
  rxbuf_start :: u16
  rxbuf_size_max :: u32
  rxbuf_mask :: u32
  index :: u32
  taken :: bool

record net_interface =
  mac :: "byte list"
  ip :: "byte list"
  gateway :: "byte list"
  subnet_mask :: "byte list"

datatype eth_mutex = Eth_Spi | Eth_Transaction | Eth_Command_Send

record 'd net =
  chip :: 'd
  nk :: kernel
  wiz_sockets :: "addr \<Rightarrow> wiz_socket option"
  socket_table :: "addr list"
  waiting_processes :: "proc_ptr list"
  socket_interrupts :: "byte list"
  interface :: net_interface
  locked :: "eth_mutex \<Rightarrow> bool"
  interfaces :: addr

text \<open>
  The hardware and the rest of the system: \<open>resume\<close> is what happens until the scheduler returns to the
  current process, with interrupts and other processes in between, and None when it never does. The
  others are the addresses of the three functions in the table of operations of a socket file.
\<close>

record 'd net_env =
  hardware :: "'d hardware"
  resume :: "'d net \<Rightarrow> 'd net option"
  rx_frame_fn :: addr
  tx_frame_fn :: addr
  active_close_fn :: addr

section \<open>Mutexes\<close>

text \<open>\<open>include/kernel/mutex.h\<close>: a process that finds the mutex locked gives up the processor and tries again.\<close>

definition set_locked :: "eth_mutex \<Rightarrow> bool \<Rightarrow> 'd net \<Rightarrow> 'd net" where
  "set_locked m b s = s\<lparr>locked := (locked s)(m := b)\<rparr>"

partial_function (option) mutex_lock :: "'d net_env \<Rightarrow> eth_mutex \<Rightarrow> 'd net \<Rightarrow> 'd net option" where
  "mutex_lock env m s =
     (if locked s m
      then do {
        k \<leftarrow> upd_proc (nk s) (current_process (nk s)) (pstate_update (\<lambda>_. READY));
        s \<leftarrow> resume env (s\<lparr>nk := k\<rparr>);
        mutex_lock env m s
      }
      else Some (set_locked m True s))"

declare mutex_lock.simps [code]

definition mutex_unlock :: "eth_mutex \<Rightarrow> 'd net \<Rightarrow> 'd net" where
  "mutex_unlock m s = set_locked m False s"

section \<open>The registers and the memory of the chip\<close>

fun eth_write_bytes :: "'d hardware \<Rightarrow> u16 \<Rightarrow> byte list \<Rightarrow> 'd \<Rightarrow> 'd" where
  "eth_write_bytes hw reg_offset [] d = d"
| "eth_write_bytes hw reg_offset (b # bs) d =
     (let d = clr_pin hw ETH_CS_PIN d;
          d = spi_tx hw ETH_SPI_BLOCK 0xf0 d;
          d = spi_tx hw ETH_SPI_BLOCK (ucast (drop_bit 8 reg_offset)) d;
          d = spi_tx hw ETH_SPI_BLOCK (ucast (reg_offset AND 0x00ff)) d;
          d = spi_tx hw ETH_SPI_BLOCK b d
      in eth_write_bytes hw (reg_offset + 1) bs (set_pin hw ETH_CS_PIN d))"

fun eth_read_bytes :: "'d hardware \<Rightarrow> u16 \<Rightarrow> nat \<Rightarrow> 'd \<Rightarrow> 'd \<times> byte list" where
  "eth_read_bytes hw reg_offset 0 d = (d, [])"
| "eth_read_bytes hw reg_offset (Suc n) d =
     (let d = clr_pin hw ETH_CS_PIN d;
          d = spi_tx hw ETH_SPI_BLOCK 0x0f d;
          d = spi_tx hw ETH_SPI_BLOCK (ucast (drop_bit 8 reg_offset)) d;
          d = spi_tx hw ETH_SPI_BLOCK (ucast (reg_offset AND 0x00ff)) d;
          (d, b) = spi_rx hw ETH_SPI_BLOCK d;
          (d, bs) = eth_read_bytes hw (reg_offset + 1) n (set_pin hw ETH_CS_PIN d)
      in (d, b # bs))"

definition eth_write_mem :: "'d net_env \<Rightarrow> u16 \<Rightarrow> byte list \<Rightarrow> 'd net \<Rightarrow> 'd net option" where
  "eth_write_mem env reg_offset data s = do {
     s \<leftarrow> mutex_lock env Eth_Spi s;
     Some (mutex_unlock Eth_Spi (s\<lparr>chip := eth_write_bytes (hardware env) reg_offset data (chip s)\<rparr>))
   }"

definition eth_read_mem :: "'d net_env \<Rightarrow> u16 \<Rightarrow> nat \<Rightarrow> 'd net \<Rightarrow> ('d net \<times> byte list) option" where
  "eth_read_mem env reg_offset len s = do {
     s \<leftarrow> mutex_lock env Eth_Spi s;
     let (d, buf) = eth_read_bytes (hardware env) reg_offset len (chip s);
     Some (mutex_unlock Eth_Spi (s\<lparr>chip := d\<rparr>), buf)
   }"

text \<open>Registers of one byte, and of two with the high byte first.\<close>

definition eth_read8 :: "'d net_env \<Rightarrow> u16 \<Rightarrow> 'd net \<Rightarrow> ('d net \<times> byte) option" where
  "eth_read8 env reg s = do { (s, b) \<leftarrow> eth_read_mem env reg 1 s; Some (s, b ! 0) }"

definition eth_read16 :: "'d net_env \<Rightarrow> u16 \<Rightarrow> 'd net \<Rightarrow> ('d net \<times> u16) option" where
  "eth_read16 env reg s = do { (s, b) \<leftarrow> eth_read_mem env reg 2 s; Some (s, word16 (b ! 1) (b ! 0)) }"

section \<open>Interrupts\<close>

definition setup_eth_gpio :: "'d net_env \<Rightarrow> 'd net \<Rightarrow> 'd net" where
  "setup_eth_gpio env s =
     s\<lparr>chip := fold (set_up (hardware env))
        [GPIO_Function_Select 16 1, Output_Enable_Pin 16, GPIO_Function_Select 18 1, Output_Enable_Pin 18,
         GPIO_Function_Select 19 1, Output_Enable_Pin 19, Init_Pin_Output ETH_CS_PIN, Spi_Init 0 2 15 0,
         Init_Pin_Input_With_Pull ETH_INT_PIN True, Set_Irq_Pin_Enabled_Edge_Low ETH_INT_PIN, Set_Isr 21] (chip s)\<rparr>"

text \<open>One of the four loops of the interrupt handler: the first socket with the flag is noted and its process made ready.\<close>

definition eth_irq_flag :: "byte \<Rightarrow> byte list \<Rightarrow> 'd net \<Rightarrow> 'd net option" where
  "eth_irq_flag flag irq s =
     (case find (\<lambda>i. irq ! i AND flag \<noteq> 0) [0..<4] of
        None \<Rightarrow> Some s
      | Some i \<Rightarrow> do {
          let s = s\<lparr>socket_interrupts := (socket_interrupts s)[i := socket_interrupts s ! i OR flag]\<rparr>;
          k \<leftarrow> upd_proc (nk s) (waiting_processes s ! i) (pstate_update (\<lambda>_. READY));
          Some (s\<lparr>nk := k\<rparr>)
        })"

definition eth_irq :: "'d net_env \<Rightarrow> 'd net \<Rightarrow> 'd net option" where
  "eth_irq env s = do {
     let s = s\<lparr>chip := set_up (hardware env) (Clr_Interrupt ETH_INT_PIN) (chip s)\<rparr>;
     (s, i0) \<leftarrow> eth_read8 env (sn SN_IR 0) s;
     (s, i1) \<leftarrow> eth_read8 env (sn SN_IR 1) s;
     (s, i2) \<leftarrow> eth_read8 env (sn SN_IR 2) s;
     (s, i3) \<leftarrow> eth_read8 env (sn SN_IR 3) s;
     s \<leftarrow> eth_irq_flag INT_CON [i0, i1, i2, i3] s;
     s \<leftarrow> eth_irq_flag INT_TIMEOUT [i0, i1, i2, i3] s;
     s \<leftarrow> eth_irq_flag INT_RECV [i0, i1, i2, i3] s;
     s \<leftarrow> eth_irq_flag INT_DISCON [i0, i1, i2, i3] s;
     for_each (\<lambda>i s. eth_write_mem env (sn SN_IR i) [INT_SENDOK OR INT_TIMEOUT OR INT_RECV OR INT_DISCON OR INT_CON] s)
       [0, 1, 2, 3] s
   }"

section \<open>Commands\<close>

partial_function (option) await_command :: "'d net_env \<Rightarrow> u32 \<Rightarrow> 'd net \<Rightarrow> 'd net option" where
  "await_command env socket_number s = do {
     (s, cr) \<leftarrow> eth_read8 env (sn SN_CR socket_number) s;
     (if cr \<noteq> 0 then await_command env socket_number s else Some s)
   }"

declare await_command.simps [code]

definition socket_command :: "'d net_env \<Rightarrow> u32 \<Rightarrow> byte \<Rightarrow> 'd net \<Rightarrow> 'd net option" where
  "socket_command env socket_number command s = do {
     s \<leftarrow> mutex_lock env Eth_Command_Send s;
     s \<leftarrow> eth_write_mem env (sn SN_CR socket_number) [command] s;
     s \<leftarrow> await_command env socket_number s;
     Some (mutex_unlock Eth_Command_Send s)
   }"

text \<open>The current process waits for an interrupt of the socket.\<close>

definition wait_for_socket :: "'d net_env \<Rightarrow> u32 \<Rightarrow> 'd net \<Rightarrow> 'd net option" where
  "wait_for_socket env idx s = do {
     let p = current_process (nk s);
     k \<leftarrow> upd_proc (nk s) p (pstate_update (\<lambda>_. WAITING_FOR_RESOURCE));
     require (unat idx < length (waiting_processes s));
     resume env (s\<lparr>nk := k, waiting_processes := (waiting_processes s)[unat idx := p]\<rparr>)
   }"

definition wait_unless :: "'d net_env \<Rightarrow> byte \<Rightarrow> u32 \<Rightarrow> 'd net \<Rightarrow> 'd net option" where
  "wait_unless env flag idx s = do {
     (s, con) \<leftarrow> eth_read8 env (sn SN_IR idx) s;
     (if con AND flag = 0 then wait_for_socket env idx s else Some s)
   }"

text \<open>Testing a noted interrupt clears it.\<close>

definition take_interrupt :: "byte \<Rightarrow> u32 \<Rightarrow> 'd net \<Rightarrow> ('d net \<times> bool) option" where
  "take_interrupt flag idx s = do {
     require (unat idx < length (socket_interrupts s));
     let i = socket_interrupts s ! unat idx;
     Some (if i AND flag \<noteq> 0 then (s\<lparr>socket_interrupts := (socket_interrupts s)[unat idx := i XOR flag]\<rparr>, True) else (s, False))
   }"

section \<open>Operations of a socket\<close>

definition net_mem :: "'d net \<Rightarrow> mem" where
  "net_mem s = memory_k (nk s)"

definition set_net_mem :: "'d net \<Rightarrow> mem \<Rightarrow> 'd net" where
  "set_net_mem s m = s\<lparr>nk := set_memory (nk s) m\<rparr>"

definition mem_bytes :: "mem \<Rightarrow> addr \<Rightarrow> nat \<Rightarrow> byte list" where
  "mem_bytes m p n = map (\<lambda>i. m (p + of_nat i)) [0..<n]"

definition upd_socket :: "'d net \<Rightarrow> addr \<Rightarrow> (wiz_socket \<Rightarrow> wiz_socket) \<Rightarrow> 'd net option" where
  "upd_socket s sock f = do { x \<leftarrow> wiz_sockets s sock; Some (s\<lparr>wiz_sockets := (wiz_sockets s)(sock \<mapsto> f x)\<rparr>) }"

text \<open>The status register after opening in a mode.\<close>

definition opened_as :: "byte \<Rightarrow> socket_mode \<Rightarrow> bool" where
  "opened_as status m \<longleftrightarrow> (status = SOCK_INIT \<and> m = TCP) \<or> (status = SOCK_UDP \<and> m = UDP) \<or> (status = SOCK_MACRAW \<and> m = MACRAW)"

partial_function (option) open_retry :: "'d net_env \<Rightarrow> u32 \<Rightarrow> socket_mode \<Rightarrow> 'd net \<Rightarrow> 'd net option" where
  "open_retry env idx m s = do {
     s \<leftarrow> eth_write_mem env (sn SN_MR idx) [mode_byte m] s;
     s \<leftarrow> socket_command env idx CMD_OPEN s;
     (s, status) \<leftarrow> eth_read8 env (sn SN_SR idx) s;
     (if opened_as status m then Some s else open_retry env idx m s)
   }"

declare open_retry.simps [code]

definition open_socket :: "'d net_env \<Rightarrow> addr \<Rightarrow> socket_mode \<Rightarrow> 'd net \<Rightarrow> ('d net \<times> int) option" where
  "open_socket env sock m s = do {
     s \<leftarrow> mutex_lock env Eth_Transaction s;
     socket \<leftarrow> wiz_sockets s sock;
     (if m = MACRAW \<and> index socket \<noteq> 0 then Some (mutex_unlock Eth_Transaction s, - ESOCKTNOSUPPORT)
      else do {
        s \<leftarrow> open_retry env (index socket) m s;
        s \<leftarrow> upd_socket s sock (mode_update (\<lambda>_. m));
        Some (mutex_unlock Eth_Transaction s, 0)
      })
   }"

definition bind_socket :: "'d net_env \<Rightarrow> addr \<Rightarrow> u16 \<Rightarrow> 'd net \<Rightarrow> ('d net \<times> int) option" where
  "bind_socket env sock p s = do {
     socket \<leftarrow> wiz_sockets s sock;
     s \<leftarrow> eth_write_mem env (sn SN_PORTR (index socket)) (bytes16 p) s;
     s \<leftarrow> upd_socket s sock (port_update (\<lambda>_. p));
     Some (s, 0)
   }"

definition listen_socket :: "'d net_env \<Rightarrow> addr \<Rightarrow> 'd net \<Rightarrow> ('d net \<times> int) option" where
  "listen_socket env sock s = do {
     socket \<leftarrow> wiz_sockets s sock;
     s \<leftarrow> socket_command env (index socket) CMD_LISTEN s;
     (s, status) \<leftarrow> eth_read8 env (sn SN_SR (index socket)) s;
     Some (s, if status \<noteq> SOCK_LISTEN then - ENOTCONN else 0)
   }"

text \<open>The data of \<open>struct sockaddr\<close> starts after the family of two bytes: the port, then the address.\<close>

definition accept_socket :: "'d net_env \<Rightarrow> addr \<Rightarrow> addr \<Rightarrow> 'd net \<Rightarrow> ('d net \<times> int) option" where
  "accept_socket env sock a s = do {
     socket \<leftarrow> wiz_sockets s sock;
     s \<leftarrow> wait_unless env INT_CON (index socket) s;
     (s, dip) \<leftarrow> eth_read_mem env (sn SN_DIPR (index socket)) 4 s;
     let s = set_net_mem s (stored (net_mem s) (a + 4) dip);
     (s, dport) \<leftarrow> eth_read_mem env (sn SN_DPORTR (index socket)) 2 s;
     Some (set_net_mem s (stored (net_mem s) (a + 2) dport), 0)
   }"

definition connect_socket :: "'d net_env \<Rightarrow> addr \<Rightarrow> addr \<Rightarrow> 'd net \<Rightarrow> ('d net \<times> int) option" where
  "connect_socket env sock a s = do {
     socket \<leftarrow> wiz_sockets s sock;
     s \<leftarrow> eth_write_mem env (sn SN_DIPR (index socket)) (mem_bytes (net_mem s) (a + 4) 4) s;
     s \<leftarrow> eth_write_mem env (sn SN_DPORTR (index socket)) (mem_bytes (net_mem s) (a + 2) 2) s;
     socket \<leftarrow> wiz_sockets s sock;
     (if mode socket = UDP then Some (s, 0)
      else do {
        s \<leftarrow> socket_command env (index socket) CMD_CONNECT s;
        s \<leftarrow> wait_unless env INT_CON (index socket) s;
        (s, timeout) \<leftarrow> take_interrupt INT_TIMEOUT (index socket) s;
        (if timeout then Some (s, - ETIMEDOUT)
         else do {
           (s, con) \<leftarrow> take_interrupt INT_CON (index socket) s;
           Some (s, if con then 0 else - ECONNABORTED)
         })
      })
   }"

partial_function (option) await_closed :: "'d net_env \<Rightarrow> u32 \<Rightarrow> 'd net \<Rightarrow> 'd net option" where
  "await_closed env idx s = do {
     (s, status) \<leftarrow> eth_read8 env (sn SN_SR idx) s;
     (if status \<noteq> SOCK_CLOSED then await_closed env idx s else Some s)
   }"

declare await_closed.simps [code]

definition active_close :: "'d net_env \<Rightarrow> addr \<Rightarrow> 'd net \<Rightarrow> ('d net \<times> int) option" where
  "active_close env sock s = do {
     s \<leftarrow> mutex_lock env Eth_Transaction s;
     socket \<leftarrow> wiz_sockets s sock;
     (s, status) \<leftarrow> eth_read8 env (sn SN_SR (index socket)) s;
     socket \<leftarrow> wiz_sockets s sock;
     (s, ret) \<leftarrow> (if status = SOCK_CLOSED then Some (s, 0)
        else do {
          (s, timeout) \<leftarrow> (if index socket \<noteq> 0 \<and> mode socket = TCP
             then do {
               s \<leftarrow> socket_command env (index socket) CMD_DISCON s;
               s \<leftarrow> wait_unless env INT_CON (index socket) s;
               take_interrupt INT_TIMEOUT (index socket) s
             }
             else Some (s, False));
          s \<leftarrow> socket_command env (index socket) CMD_CLOSE s;
          s \<leftarrow> await_closed env (index socket) s;
          Some (s, if timeout then - ETIMEDOUT else 0)
        });
     s \<leftarrow> upd_socket s sock (taken_update (\<lambda>_. False));
     Some (mutex_unlock Eth_Transaction s, ret)
   }"

section \<open>Sending and receiving\<close>

partial_function (option) await_sent :: "'d net_env \<Rightarrow> u32 \<Rightarrow> 'd net \<Rightarrow> ('d net \<times> byte) option" where
  "await_sent env idx s = do {
     (s, ir) \<leftarrow> eth_read8 env (sn SN_IR idx) s;
     let ir = ir AND (INT_SENDOK OR INT_TIMEOUT);
     (if ir = 0 then await_sent env idx s else Some (s, ir))
   }"

declare await_sent.simps [code]

definition wait_send_complete :: "'d net_env \<Rightarrow> u32 \<Rightarrow> 'd net \<Rightarrow> ('d net \<times> int) option" where
  "wait_send_complete env idx s = do {
     s \<leftarrow> mutex_lock env Eth_Transaction s;
     (s, ir) \<leftarrow> await_sent env idx s;
     (if ir AND INT_SENDOK \<noteq> 0
      then do {
        s \<leftarrow> eth_write_mem env (sn SN_IR idx) [INT_SENDOK] s;
        Some (mutex_unlock Eth_Transaction s, 0)
      }
      else Some (mutex_unlock Eth_Transaction s, - ETIMEDOUT))
   }"

definition add_to_socket_pointer_reg :: "'d net_env \<Rightarrow> u16 \<Rightarrow> u32 \<Rightarrow> 'd net \<Rightarrow> 'd net option" where
  "add_to_socket_pointer_reg env reg_offset appended_size s = do {
     (s, offset) \<leftarrow> eth_read16 env reg_offset s;
     let new_offset = offset + ucast appended_size;
     eth_write_mem env reg_offset [ucast (drop_bit 8 new_offset), ucast (new_offset AND 0xff)] s
   }"

definition socket_txbuf_free_space :: "'d net_env \<Rightarrow> u32 \<Rightarrow> 'd net \<Rightarrow> ('d net \<times> u32) option" where
  "socket_txbuf_free_space env idx s = do {
     (s, current_free_space) \<leftarrow> eth_read16 env (sn SN_TX_FSR idx) s;
     Some (s, ucast current_free_space)
   }"

definition write_txbuf :: "'d net_env \<Rightarrow> wiz_socket \<Rightarrow> addr \<Rightarrow> u16 \<Rightarrow> 'd net \<Rightarrow> 'd net option" where
  "write_txbuf env socket frame frame_size s = do {
     (s, offset) \<leftarrow> eth_read16 env (sn SN_TX_WR (index socket)) s;
     let current_offset = (ucast (ucast offset AND txbuf_mask socket) :: u16);
     (if txbuf_size_max socket < ucast current_offset + ucast frame_size
      then do {
        let rest_size = txbuf_size_max socket - ucast current_offset;
        s \<leftarrow> eth_write_mem env (txbuf_start socket + current_offset) (mem_bytes (net_mem s) frame (unat rest_size)) s;
        eth_write_mem env (txbuf_start socket)
          (mem_bytes (net_mem s) (frame + rest_size) (unat (ucast frame_size - rest_size))) s
      }
      else eth_write_mem env (txbuf_start socket + current_offset) (mem_bytes (net_mem s) frame (unat frame_size)) s)
   }"

text \<open>Waiting for received bytes, for 100 ms at most.\<close>

definition clock :: "'d net_env \<Rightarrow> 'd net \<Rightarrow> 'd net \<times> u64" where
  "clock env s = (let (d, t) = ms_since_boot (hardware env) (chip s) in (s\<lparr>chip := d\<rparr>, t))"

partial_function (option) await_received :: "'d net_env \<Rightarrow> u32 \<Rightarrow> u64 \<Rightarrow> 'd net \<Rightarrow> ('d net \<times> u16) option" where
  "await_received env idx time_begin s = do {
     (s, received_size) \<leftarrow> eth_read16 env (sn SN_RX_RSR idx) s;
     let (s, current_time) = clock env s;
     (if received_size = 0 \<and> current_time - time_begin < 100 then await_received env idx time_begin s
      else Some (s, received_size))
   }"

declare await_received.simps [code]

definition read_rxbuf :: "'d net_env \<Rightarrow> wiz_socket \<Rightarrow> addr \<Rightarrow> u16 \<Rightarrow> 'd net \<Rightarrow> ('d net \<times> u16) option" where
  "read_rxbuf env socket buffer len s = do {
     (s, offset) \<leftarrow> eth_read16 env (sn SN_RX_RD (index socket)) s;
     let current_offset = (ucast (ucast offset AND rxbuf_mask socket) :: u16);
     let (s, time_begin) = clock env s;
     (s, received_size) \<leftarrow> await_received env (index socket) time_begin s;
     let read_length = (if len < received_size then len else received_size);
     (if rxbuf_size_max socket < ucast current_offset + ucast read_length
      then do {
        let rest_size = rxbuf_size_max socket - ucast current_offset;
        (s, bs) \<leftarrow> eth_read_mem env (rxbuf_start socket + current_offset) (unat rest_size) s;
        let s = set_net_mem s (stored (net_mem s) buffer bs);
        (s, bs) \<leftarrow> eth_read_mem env (rxbuf_start socket) (unat (ucast read_length - rest_size)) s;
        Some (set_net_mem s (stored (net_mem s) (buffer + rest_size) bs), read_length)
      }
      else do {
        (s, bs) \<leftarrow> eth_read_mem env (rxbuf_start socket + current_offset) (unat read_length) s;
        Some (set_net_mem s (stored (net_mem s) buffer bs), read_length)
      })
   }"

text \<open>
  \<open>tx_frame\<close> and its loop call each other; the job is a whole call, or the rest of a loop that has sent
  some bytes. The sizes are unsigned, the result is a signed number of bytes.
\<close>

datatype tx_job = Tx_Frame addr u32 | Tx_Rest addr u32 u32

partial_function (option) tx_run :: "'d net_env \<Rightarrow> addr \<Rightarrow> tx_job \<Rightarrow> 'd net \<Rightarrow> ('d net \<times> u32) option" where
  "tx_run env sock job s =
     (case job of
        Tx_Frame frame frame_size \<Rightarrow>
          (if frame_size = 0 then Some (s, 0)
           else do {
             socket \<leftarrow> wiz_sockets s sock;
             (s, txbuf_free_space) \<leftarrow> socket_txbuf_free_space env (index socket) s;
             (if txbuf_free_space < frame_size then tx_run env sock (Tx_Rest frame frame_size 0) s
              else do {
                s \<leftarrow> write_txbuf env socket frame (ucast frame_size) s;
                s \<leftarrow> add_to_socket_pointer_reg env (sn SN_TX_WR (index socket)) frame_size s;
                s \<leftarrow> socket_command env (index socket) CMD_SEND s;
                (s, status) \<leftarrow> wait_send_complete env (index socket) s;
                Some (s, if status = 0 then frame_size else 0)
              })
           })
      | Tx_Rest frame frame_size sent_bytes \<Rightarrow>
          (if sent_bytes < frame_size
           then do {
             socket \<leftarrow> wiz_sockets s sock;
             (s, txbuf_free_space) \<leftarrow> socket_txbuf_free_space env (index socket) s;
             (s, res) \<leftarrow> tx_run env sock (Tx_Frame (frame + sent_bytes) txbuf_free_space) s;
             (if res = 0 then Some (s, sent_bytes) else tx_run env sock (Tx_Rest frame frame_size (sent_bytes + res)) s)
           }
           else Some (s, sent_bytes)))"

declare tx_run.simps [code]

definition tx_frame :: "'d net_env \<Rightarrow> addr \<Rightarrow> addr \<Rightarrow> u32 \<Rightarrow> 'd net \<Rightarrow> ('d net \<times> int) option" where
  "tx_frame env sock frame frame_size s = do {
     (s, n) \<leftarrow> tx_run env sock (Tx_Frame frame frame_size) s;
     Some (s, sint n)
   }"

definition rx_frame :: "'d net_env \<Rightarrow> addr \<Rightarrow> addr \<Rightarrow> u32 \<Rightarrow> 'd net \<Rightarrow> ('d net \<times> int) option" where
  "rx_frame env sock buf count s = do {
     socket \<leftarrow> wiz_sockets s sock;
     (s, con) \<leftarrow> eth_read8 env (sn SN_IR (index socket)) s;
     socket \<leftarrow> wiz_sockets s sock;
     s \<leftarrow> (if mode socket = TCP \<and> con AND INT_RECV = 0 then wait_for_socket env (index socket) s else Some s);
     (s, res) \<leftarrow> read_rxbuf env socket buf (ucast count) s;
     s \<leftarrow> add_to_socket_pointer_reg env (sn SN_RX_RD (index socket)) (ucast res) s;
     s \<leftarrow> socket_command env (index socket) CMD_RECV s;
     Some (s, uint res)
   }"

section \<open>The four sockets\<close>

definition ERR_PTR :: "int \<Rightarrow> addr" where
  "ERR_PTR error = word_of_int error"

definition IS_ERR :: "addr \<Rightarrow> bool" where
  "IS_ERR p \<longleftrightarrow> word_of_int (- MAX_ERRNO) \<le> p \<or> p \<le> word_of_int MAX_ERRNO"

fun first_free :: "'d net \<Rightarrow> nat list \<Rightarrow> (nat \<times> addr) option option" where
  "first_free s [] = Some None"
| "first_free s (i # is) = do {
     require (i < length (socket_table s));
     socket \<leftarrow> wiz_sockets s (socket_table s ! i);
     (if taken socket then first_free s is else Some (Some (i, socket_table s ! i)))
   }"

definition create_socket :: "'d net \<Rightarrow> ('d net \<times> addr) option" where
  "create_socket s = do {
     found \<leftarrow> first_free s [1, 2, 3];
     (case found of
        Some (i, sock) \<Rightarrow> do { s \<leftarrow> upd_socket s sock (taken_update (\<lambda>_. True)); Some (s, sock) }
      | None \<Rightarrow> Some (s, ERR_PTR ENOSOCKFREE))
   }"

definition create_raw_socket :: "'d net \<Rightarrow> ('d net \<times> addr) option" where
  "create_raw_socket s = do {
     require (0 < length (socket_table s));
     socket \<leftarrow> wiz_sockets s (socket_table s ! 0);
     Some (s, if taken socket then ERR_PTR ENOSOCKFREE else socket_table s ! 0)
   }"

definition destroy_socket :: "addr \<Rightarrow> 'd net \<Rightarrow> ('d net \<times> int) option" where
  "destroy_socket sock s = do {
     socket \<leftarrow> wiz_sockets s sock;
     require (unat (index socket) < length (socket_table s));
     s \<leftarrow> upd_socket s (socket_table s ! unat (index socket)) (taken_update (\<lambda>_. False));
     Some (s, 0)
   }"

section \<open>Starting the chip\<close>

definition is_chip_compatible :: "'d net_env \<Rightarrow> 'd net \<Rightarrow> ('d net \<times> bool) option" where
  "is_chip_compatible env s = do {
     (s, reg) \<leftarrow> eth_read8 env VERR_REG s;
     Some (s, reg = 0x51)
   }"

definition setup_communication_details :: "'d net_env \<Rightarrow> 'd net \<Rightarrow> 'd net option" where
  "setup_communication_details env s = do {
     s \<leftarrow> eth_write_mem env MR [0x00, 0, 0, 0, 0, 0, 0, 0] s;
     s \<leftarrow> eth_write_mem env IMR [0x0f, 0, 0, 0, 0, 0, 0, 0] s;
     s \<leftarrow> eth_write_mem env RTR [0x07, 0xd0, 0, 0, 0, 0, 0, 0] s;
     eth_write_mem env RCR [0x08, 0, 0, 0, 0, 0, 0, 0] s
   }"

definition setup_interface_information :: "'d net_env \<Rightarrow> 'd net \<Rightarrow> ('d net \<times> int) option" where
  "setup_interface_information env s = do {
     s \<leftarrow> eth_write_mem env SHAR (mac (interface s)) s;
     s \<leftarrow> eth_write_mem env GAR (gateway (interface s)) s;
     s \<leftarrow> eth_write_mem env SUBR (subnet_mask (interface s)) s;
     s \<leftarrow> eth_write_mem env SIPR (ip (interface s)) s;
     Some (s, 0)
   }"

definition net_kmalloc :: "'d net \<Rightarrow> u32 \<Rightarrow> ('d net \<times> addr) option" where
  "net_kmalloc s n = do { (k, p) \<leftarrow> kmalloc_k (nk s) n; Some (s\<lparr>nk := k\<rparr>, p) }"

text \<open>The sizes on the target: 68 bytes for a \<open>struct WIZnetSocket\<close>, 20 and 36 for the tables of operations.\<close>

definition memory_per_socket :: u32 where "memory_per_socket = 2"

definition new_socket :: "nat \<Rightarrow> wiz_socket" where
  "new_socket i =
     \<lparr>mode = CLOSED, port = 0,
      txbuf_start = S0_TX_BASE + of_nat i * (ucast memory_per_socket * 1024),
      txbuf_size_max = memory_per_socket * 1024, txbuf_mask = memory_per_socket * 1024 - 1,
      rxbuf_start = S0_RX_BASE + of_nat i * (ucast memory_per_socket * 1024),
      rxbuf_size_max = memory_per_socket * 1024, rxbuf_mask = memory_per_socket * 1024 - 1,
      index = of_nat i, taken = False\<rparr>"

definition init_socket :: "'d net_env \<Rightarrow> nat \<Rightarrow> 'd net \<Rightarrow> 'd net option" where
  "init_socket env i s = do {
     s \<leftarrow> eth_write_mem env (sn SN_TXBUF_SIZE (of_nat i)) [ucast memory_per_socket] s;
     s \<leftarrow> eth_write_mem env (sn SN_RXBUF_SIZE (of_nat i)) [ucast memory_per_socket] s;
     (s, sock) \<leftarrow> net_kmalloc s 68;
     require (sock \<noteq> NULL);
     let s = s\<lparr>wiz_sockets := (wiz_sockets s)(sock \<mapsto> new_socket i)\<rparr>;
     (s, ops) \<leftarrow> net_kmalloc s 20;
     require (ops \<noteq> NULL);
     (s, f_ops) \<leftarrow> net_kmalloc s 36;
     require (f_ops \<noteq> NULL);
     let k = (nk s)\<lparr>fop_tables := (fop_tables (nk s))(f_ops \<mapsto> empty_fop\<lparr>fop_read := rx_frame_fn env,
                fop_write := tx_frame_fn env, fop_close := active_close_fn env\<rparr>),
                file_objects := (file_objects (nk s))(sock \<mapsto>
                  \<lparr>f_inode = NULL, f_op = f_ops, f_flags = 0, f_pos = 0, f_owner = 0\<rparr>)\<rparr>;
     require (i < length (socket_table s));
     Some (s\<lparr>nk := k, socket_table := (socket_table s)[i := sock]\<rparr>)
   }"

definition init_sockets :: "'d net_env \<Rightarrow> 'd net \<Rightarrow> 'd net option" where
  "init_sockets env s = for_each (init_socket env) [0, 1, 2, 3] s"

definition init_ethernet :: "'d net_env \<Rightarrow> 'd net \<Rightarrow> ('d net \<times> int) option" where
  "init_ethernet env s = do {
     let s = setup_eth_gpio env s;
     s \<leftarrow> eth_write_mem env MR [0x80] s;
     let s = s\<lparr>chip := delay_ms (hardware env) 64 (chip s)\<rparr>;
     (s, compatible) \<leftarrow> is_chip_compatible env s;
     (if \<not> compatible then Some (s, - ENODEV)
      else do {
        s \<leftarrow> setup_communication_details env s;
        s \<leftarrow> init_sockets env s;
        Some (s\<lparr>waiting_processes := replicate 4 PNull, socket_interrupts := replicate 4 0\<rparr>, 0)
      })
   }"

definition ethernet_check_link_on :: "'d net_env \<Rightarrow> 'd net \<Rightarrow> ('d net \<times> bool) option" where
  "ethernet_check_link_on env s = do {
     (s, phy) \<leftarrow> eth_read8 env PHYSR0 s;
     Some (s, \<not> bit phy 7)
   }"

end
