(* ===== verification/Network.thy ===== *)
theory Network
  imports Ethernet Libc_Num Libc_Token
begin

text \<open>
  The network layer, \<open>src/kernel/network.c\<close>: addresses in text, the set-up of the interface, and the system calls on
  sockets.
\<close>

section \<open>Addresses in text\<close>

definition ENETDOWN :: int where "ENETDOWN = 115"
definition EPROTONOSUPPORT :: int where "EPROTONOSUPPORT = 123"
definition EAFNOSUPPORT :: int where "EAFNOSUPPORT = 130"

text \<open>
  The local array that a function copies its argument to and the string literal of the separator have
  addresses \<open>copy\<close> and \<open>sep\<close>; \<open>scan\<close> is the position that \<open>strtok\<close> remembers. The loop converts one
  part at a time and asks for the next part.
\<close>

fun mac_loop :: "mem \<Rightarrow> addr \<Rightarrow> addr \<Rightarrow> addr \<Rightarrow> addr \<Rightarrow> nat \<Rightarrow> (mem \<times> addr \<times> int) option" where
  "mac_loop m scan sep part buf 0 = Some (m, scan, 0)"
| "mac_loop m scan sep part buf (Suc n) = do {
     require (part \<noteq> NULL);
     len \<leftarrow> strlen m part;
     (if len \<noteq> 2 then Some (m, scan, - EINVAL)
      else do {
        (v, _) \<leftarrow> strtoul m part 16;
        (m, scan, part) \<leftarrow> strtok (m(buf := ucast v)) scan NULL sep;
        mac_loop m scan sep part (buf + 1) n
      })
   }"

definition str2mac :: "mem \<Rightarrow> addr \<Rightarrow> addr \<Rightarrow> addr \<Rightarrow> addr \<Rightarrow> addr \<Rightarrow> (mem \<times> addr \<times> int) option" where
  "str2mac m scan copy sep src_mac buf =
     (if src_mac = NULL \<or> buf = NULL then Some (m, scan, - EINVAL)
      else do {
        n \<leftarrow> strlen m src_mac;
        (if n \<noteq> 17 then Some (m, scan, - EINVAL)
         else do {
           (m, _) \<leftarrow> strcpy m copy src_mac;
           (m, scan, part) \<leftarrow> strtok m scan copy sep;
           mac_loop m scan sep part buf 6
         })
      })"

fun ip_loop :: "mem \<Rightarrow> addr \<Rightarrow> addr \<Rightarrow> addr \<Rightarrow> addr \<Rightarrow> nat \<Rightarrow> (mem \<times> addr \<times> int) option" where
  "ip_loop m scan sep part buf 0 = Some (m, scan, 0)"
| "ip_loop m scan sep part buf (Suc n) = do {
     require (part \<noteq> NULL);
     len \<leftarrow> strlen m part;
     (if 3 < len then Some (m, scan, - EINVAL)
      else do {
        (octet, _) \<leftarrow> strtoul m part 10;
        (if 255 < octet then Some (m, scan, - EINVAL)
         else do {
           (m, scan, part) \<leftarrow> strtok (m(buf := ucast octet)) scan NULL sep;
           ip_loop m scan sep part (buf + 1) n
         })
      })
   }"

definition str2ip :: "mem \<Rightarrow> addr \<Rightarrow> addr \<Rightarrow> addr \<Rightarrow> addr \<Rightarrow> addr \<Rightarrow> (mem \<times> addr \<times> int) option" where
  "str2ip m scan copy sep src_ip buf =
     (if src_ip = NULL \<or> buf = NULL then Some (m, scan, - EINVAL)
      else do {
        n \<leftarrow> strlen m src_ip;
        (if 15 < n then Some (m, scan, - EINVAL)
         else do {
           (m, _) \<leftarrow> strcpy m copy src_ip;
           (m, scan, part) \<leftarrow> strtok m scan copy sep;
           ip_loop m scan sep part buf 4
         })
      })"

section \<open>Setting up the interface\<close>

text \<open>The addresses of the local arrays and of the string literals.\<close>

record net_frame =
  copy_at :: addr
  mac_at :: addr
  gw_at :: addr
  sub_at :: addr
  ip_at :: addr
  colon_str :: addr
  dot_str :: addr
  ip_addr_str :: addr
  mac_addr_str :: addr
  gateway_str :: addr
  subnet_str :: addr

definition parse_mac :: "net_frame \<Rightarrow> addr \<Rightarrow> addr \<Rightarrow> 'd net \<Rightarrow> ('d net \<times> byte list option) option" where
  "parse_mac fr src buf s = do {
     (m, scan, r) \<leftarrow> str2mac (net_mem s) (strtok_ptr (nk s)) (copy_at fr) (colon_str fr) src buf;
     let s = s\<lparr>nk := (set_memory (nk s) m)\<lparr>strtok_ptr := scan\<rparr>\<rparr>;
     Some (s, if r = 0 then Some (mem_bytes m buf 6) else None)
   }"

definition parse_ip :: "net_frame \<Rightarrow> addr \<Rightarrow> addr \<Rightarrow> 'd net \<Rightarrow> ('d net \<times> byte list option) option" where
  "parse_ip fr src buf s = do {
     (m, scan, r) \<leftarrow> str2ip (net_mem s) (strtok_ptr (nk s)) (copy_at fr) (dot_str fr) src buf;
     let s = s\<lparr>nk := (set_memory (nk s) m)\<lparr>strtok_ptr := scan\<rparr>\<rparr>;
     Some (s, if r = 0 then Some (mem_bytes m buf 4) else None)
   }"

definition keep_or :: "'a \<Rightarrow> 'a option \<Rightarrow> 'a" where
  "keep_or old new = (case new of Some x \<Rightarrow> x | None \<Rightarrow> old)"

definition setup_network_information ::
    "'d net_env \<Rightarrow> net_frame \<Rightarrow> addr \<Rightarrow> addr \<Rightarrow> addr \<Rightarrow> addr \<Rightarrow> 'd net \<Rightarrow> ('d net \<times> int) option" where
  "setup_network_information env fr ip_address mac_address gateway_address subnet_address s = do {
     (s, x) \<leftarrow> parse_mac fr mac_address (mac_at fr) s;
     let s = s\<lparr>interface := (interface s)\<lparr>mac := keep_or (mac (interface s)) x\<rparr>\<rparr>;
     (s, x) \<leftarrow> parse_ip fr gateway_address (gw_at fr) s;
     let s = s\<lparr>interface := (interface s)\<lparr>gateway := keep_or (gateway (interface s)) x\<rparr>\<rparr>;
     (s, x) \<leftarrow> parse_ip fr subnet_address (sub_at fr) s;
     let s = s\<lparr>interface := (interface s)\<lparr>subnet_mask := keep_or (subnet_mask (interface s)) x\<rparr>\<rparr>;
     (s, x) \<leftarrow> parse_ip fr ip_address (ip_at fr) s;
     let s = s\<lparr>interface := (interface s)\<lparr>ip := keep_or (ip (interface s)) x\<rparr>\<rparr>;
     setup_interface_information env s
   }"

text \<open>The table of one interface takes four bytes. The calls that report progress are not modelled.\<close>

definition init_network :: "'d net_env \<Rightarrow> net_frame \<Rightarrow> 'd net \<Rightarrow> ('d net \<times> int) option" where
  "init_network env fr s = do {
     (s, table) \<leftarrow> net_kmalloc s 4;
     (if table = NULL then Some (s, - ENOMEM)
      else do {
        (s, r) \<leftarrow> init_ethernet env s;
        (if r \<noteq> 0 then Some (s, - ENETDOWN)
         else do {
           (s, link) \<leftarrow> ethernet_check_link_on env s;
           (if \<not> link then Some (s, - ENETDOWN)
            else do {
              (s, _) \<leftarrow> setup_network_information env fr (ip_addr_str fr) (mac_addr_str fr) (gateway_str fr) (subnet_str fr) s;
              Some (s\<lparr>interfaces := table\<rparr>, 0)
            })
         })
      })
   }"

section \<open>System calls\<close>

abbreviation (input) AF_INET :: int where "AF_INET \<equiv> 2"
abbreviation (input) SOCK_STREAM :: int where "SOCK_STREAM \<equiv> 1"
abbreviation (input) SOCK_DGRAM :: int where "SOCK_DGRAM \<equiv> 2"
abbreviation (input) SOCK_RAW :: int where "SOCK_RAW \<equiv> 3"

text \<open>A new socket and its mode: the result is an error or what \<open>open\<close> returns for the socket.\<close>

definition open_new :: "'d net_env \<Rightarrow> ('d net \<times> addr) option \<Rightarrow> socket_mode \<Rightarrow> ('d net \<times> addr \<times> int) option" where
  "open_new env created m = do {
     (s, sock) \<leftarrow> created;
     (if IS_ERR sock then Some (s, sock, - ENOSOCKFREE)
      else do { (s, res) \<leftarrow> open_socket env sock m s; Some (s, sock, res) })
   }"

definition sys_socket :: "'d net_env \<Rightarrow> int \<Rightarrow> int \<Rightarrow> int \<Rightarrow> 'd net \<Rightarrow> ('d net \<times> int) option" where
  "sys_socket env domain type protocol s =
     (if domain \<noteq> AF_INET then Some (s, - EAFNOSUPPORT)
      else do {
        let p = current_process (nk s);
        cur \<leftarrow> proc_at (nk s) p;
        (if of_nat MAX_OPEN_FILE_DESCRIPTORS \<le> files_count cur then Some (s, - EMFILE)
         else do {
           require (interfaces s \<noteq> NULL);
           (s, link) \<leftarrow> ethernet_check_link_on env s;
           (if \<not> link then Some (s, - ENETDOWN)
            else if type \<noteq> SOCK_STREAM \<and> type \<noteq> SOCK_DGRAM \<and> type \<noteq> SOCK_RAW then Some (s, - EPROTONOSUPPORT)
            else do {
              (s, sock, res) \<leftarrow> (if type = SOCK_STREAM then open_new env (create_socket s) TCP
                 else if type = SOCK_DGRAM then open_new env (create_socket s) UDP
                 else open_new env (create_raw_socket s) MACRAW);
              (if res < 0 then Some (s, res)
               else do {
                 cur \<leftarrow> proc_at (nk s) p;
                 table \<leftarrow> deref (fdtables (nk s)) (fdtable cur);
                 slots \<leftarrow> table_prefix (Some table) MAX_OPEN_FILE_DESCRIPTORS;
                 (case find (\<lambda>i. slots ! i = NULL) [0..<MAX_OPEN_FILE_DESCRIPTORS] of
                    None \<Rightarrow> Some (s, - ENOSOCKFREE)
                  | Some i \<Rightarrow> do {
                      let k = (nk s)\<lparr>fdtables := (fdtables (nk s))(fdtable cur \<mapsto> table[i := sock])\<rparr>;
                      k \<leftarrow> upd_proc k p (\<lambda>x. x\<lparr>files_count := files_count x + 1\<rparr>);
                      Some (s\<lparr>nk := k\<rparr>, int i)
                    })
               })
            })
         })
      })"

text \<open>
  The calls on a socket descriptor, with the test of theory \<open>Vfs\<close>. A descriptor of a file that is not a socket
  is taken for one, which has no defined result. \<open>sys_connect\<close> stops at a breakpoint when the
  descriptor is wrong.
\<close>

definition sys_bind :: "'d net_env \<Rightarrow> int \<Rightarrow> addr \<Rightarrow> u32 \<Rightarrow> 'd net \<Rightarrow> ('d net \<times> int) option" where
  "sys_bind env sockfd a addrlen s = do {
     socket_file \<leftarrow> file_of_fd (nk s) sockfd;
     (if socket_file = NULL then Some (s, - EBADF)
      else bind_socket env socket_file (load16 (net_mem s) (a + 2)) s)
   }"

definition sys_listen :: "'d net_env \<Rightarrow> int \<Rightarrow> int \<Rightarrow> 'd net \<Rightarrow> ('d net \<times> int) option" where
  "sys_listen env sockfd backlog s = do {
     socket_file \<leftarrow> file_of_fd (nk s) sockfd;
     (if socket_file = NULL then Some (s, - EBADF) else listen_socket env socket_file s)
   }"

definition sys_accept :: "'d net_env \<Rightarrow> int \<Rightarrow> addr \<Rightarrow> u32 \<Rightarrow> 'd net \<Rightarrow> ('d net \<times> int) option" where
  "sys_accept env sockfd a addrlen s = do {
     socket_file \<leftarrow> file_of_fd (nk s) sockfd;
     (if socket_file = NULL then Some (s, - EBADF)
      else do {
        (s, res) \<leftarrow> accept_socket env socket_file a s;
        Some (s, if res < 0 then res else sockfd)
      })
   }"

definition sys_connect :: "'d net_env \<Rightarrow> int \<Rightarrow> addr \<Rightarrow> u32 \<Rightarrow> 'd net \<Rightarrow> ('d net \<times> int) option" where
  "sys_connect env sockfd a addrlen s = do {
     socket_file \<leftarrow> file_of_fd (nk s) sockfd;
     require (socket_file \<noteq> NULL);
     connect_socket env socket_file a s
   }"

end
