(* ===== verification/Ethernet_Chip.thy ===== *)
theory Ethernet_Chip
  imports Ethernet
begin

text \<open>
  A specification of the Ethernet chip as the driver sees it: which accesses on the bus read and write its memory,
  what the commands to send and to receive do, and how the buffers of a socket are rings of 2048 bytes.
  Writing to the ring and reading from it as the driver does are proved to store and to return the bytes.
\<close>

section \<open>What the chip does\<close>

definition SN_TX_RD :: u16 where "SN_TX_RD = 0x22"

text \<open>One access is four bytes on the bus while the chip is selected.\<close>

definition eth_frame_write :: "'d hardware \<Rightarrow> u16 \<Rightarrow> byte \<Rightarrow> 'd \<Rightarrow> 'd" where
  "eth_frame_write hw r v d =
     put_pin hw 17 True (spi_send hw 0 [0xf0, ucast (drop_bit 8 r), ucast r, v] (put_pin hw 17 False d))"

definition eth_frame_read :: "'d hardware \<Rightarrow> u16 \<Rightarrow> 'd \<Rightarrow> 'd \<times> byte" where
  "eth_frame_read hw r d =
     (let d = spi_send hw 0 [0x0f, ucast (drop_bit 8 r), ucast r] (put_pin hw 17 False d);
          (d, v) = spi_rx hw 0 d
      in (put_pin hw 17 True d, v))"

text \<open>The address of a byte of a ring of 2048 bytes, and what a ring holds from an offset on.\<close>

definition ring_addr :: "u16 \<Rightarrow> nat \<Rightarrow> nat \<Rightarrow> u16" where
  "ring_addr start off k = start + of_nat ((off + k) mod 2048)"

definition ring_bytes :: "(u16 \<Rightarrow> byte) \<Rightarrow> u16 \<Rightarrow> nat \<Rightarrow> nat \<Rightarrow> byte list" where
  "ring_bytes m start off n = map (\<lambda>k. m (ring_addr start off k)) [0..<n]"

definition reg16 :: "(u16 \<Rightarrow> byte) \<Rightarrow> u16 \<Rightarrow> u16" where
  "reg16 m r = word16 (m (r + 1)) (m r)"

text \<open>
  What the data sheet of the W5100S states, as long as nothing arrives from the network: reading has no effect;
  a write changes the location it names, where \<open>plain\<close> are the locations that behave as memory, and a command
  register is the exception; the send command transmits the bytes between the read and the write pointer of the
  socket's buffer and moves the read pointer, then the command register is clear and the interrupt register has
  the flag of a completed transmission. The function \<open>sent\<close> gives the segments that have been transmitted.
\<close>

definition tx_pending :: "(u16 \<Rightarrow> byte) \<Rightarrow> u32 \<Rightarrow> byte list" where
  "tx_pending m i =
     (let rd = reg16 m (sn SN_TX_RD i); wr = reg16 m (sn SN_TX_WR i)
      in ring_bytes m (S0_TX_BASE + ucast i * 0x800) (unat rd mod 2048) (unat (wr - rd)))"

definition reads_plainly :: "'d hardware \<Rightarrow> ('d \<Rightarrow> u16 \<Rightarrow> byte) \<Rightarrow> ('d \<Rightarrow> (u32 \<times> byte list) list) \<Rightarrow> bool" where
  "reads_plainly hw m sent \<longleftrightarrow> (\<forall>d r. \<exists>d'. eth_frame_read hw r d = (d', m d r) \<and> m d' = m d \<and> sent d' = sent d)"

definition writes_plainly ::
    "'d hardware \<Rightarrow> ('d \<Rightarrow> u16 \<Rightarrow> byte) \<Rightarrow> ('d \<Rightarrow> (u32 \<times> byte list) list) \<Rightarrow> u16 set \<Rightarrow> bool" where
  "writes_plainly hw m sent plain \<longleftrightarrow> (\<forall>d r v. (\<forall>i<4. r \<noteq> sn SN_CR i) \<longrightarrow>
     sent (eth_frame_write hw r v d) = sent d \<and>
     (\<forall>a\<in>plain. m (eth_frame_write hw r v d) a = (if a = r then v else m d a)))"

definition sends_pending ::
    "'d hardware \<Rightarrow> ('d \<Rightarrow> u16 \<Rightarrow> byte) \<Rightarrow> ('d \<Rightarrow> (u32 \<times> byte list) list) \<Rightarrow> u16 set \<Rightarrow> bool" where
  "sends_pending hw m sent plain \<longleftrightarrow> (\<forall>d i. i < 4 \<longrightarrow>
     (let d' = eth_frame_write hw (sn SN_CR i) CMD_SEND d
      in sent d' = sent d @ [(i, tx_pending (m d) i)] \<and> m d' (sn SN_CR i) = 0 \<and> bit (m d' (sn SN_IR i)) 4 \<and>
         reg16 (m d') (sn SN_TX_RD i) = reg16 (m d) (sn SN_TX_WR i) \<and>
         (\<forall>a\<in>plain. a \<noteq> sn SN_TX_RD i \<longrightarrow> a \<noteq> sn SN_TX_RD i + 1 \<longrightarrow> m d' a = m d a)))"

definition receives_plainly ::
    "'d hardware \<Rightarrow> ('d \<Rightarrow> u16 \<Rightarrow> byte) \<Rightarrow> ('d \<Rightarrow> (u32 \<times> byte list) list) \<Rightarrow> u16 set \<Rightarrow> bool" where
  "receives_plainly hw m sent plain \<longleftrightarrow> (\<forall>d i. i < 4 \<longrightarrow>
     (let d' = eth_frame_write hw (sn SN_CR i) CMD_RECV d
      in sent d' = sent d \<and> m d' (sn SN_CR i) = 0 \<and> (\<forall>a\<in>plain. m d' a = m d a)))"

text \<open>The free space of a buffer of 2048 bytes.\<close>

definition free_space_law :: "('d \<Rightarrow> u16 \<Rightarrow> byte) \<Rightarrow> bool" where
  "free_space_law m \<longleftrightarrow> (\<forall>d i. i < 4 \<longrightarrow>
     reg16 (m d) (sn SN_TX_FSR i) = 2048 - (reg16 (m d) (sn SN_TX_WR i) - reg16 (m d) (sn SN_TX_RD i)))"

definition w5100s ::
    "'d hardware \<Rightarrow> ('d \<Rightarrow> u16 \<Rightarrow> byte) \<Rightarrow> ('d \<Rightarrow> (u32 \<times> byte list) list) \<Rightarrow> u16 set \<Rightarrow> bool" where
  "w5100s hw m sent plain \<longleftrightarrow> reads_plainly hw m sent \<and> writes_plainly hw m sent plain \<and>
     sends_pending hw m sent plain \<and> receives_plainly hw m sent plain \<and> free_space_law m"

section \<open>Accesses while the mutex is free\<close>

lemma mutex_lock_free [simp]: "\<not> locked s l \<Longrightarrow> mutex_lock env l s = Some (set_locked l True s)"
  by (subst mutex_lock.simps) simp

lemma unlock_lock: "\<not> locked s l \<Longrightarrow> mutex_unlock l (set_locked l True s) = s"
  by (simp add: mutex_unlock_def set_locked_def fun_upd_idem)

lemma write_mem_free:
  "\<not> locked s Eth_Spi \<Longrightarrow> eth_write_mem env r bs s = Some (s\<lparr>chip := eth_write_bytes (hardware env) r bs (chip s)\<rparr>)"
  by (simp add: eth_write_mem_def mutex_unlock_def set_locked_def fun_upd_idem)

lemma read_mem_free:
  "\<not> locked s Eth_Spi \<Longrightarrow> eth_read_mem env r n s =
    (let (d, bs) = eth_read_bytes (hardware env) r n (chip s) in Some (s\<lparr>chip := d\<rparr>, bs))"
  by (simp add: eth_read_mem_def mutex_unlock_def set_locked_def fun_upd_idem split_beta Let_def)

lemma low_byte_ucast: "(ucast (r AND 0xff :: u16) :: byte) = ucast r"
proof (rule bit_eqI)
  show "bit (ucast (r AND 0xff :: u16) :: byte) n = bit (ucast r :: byte) n" if "possible_bit TYPE(byte) n" for n
  proof -
    have "r AND 0xff = take_bit 8 r" by (simp add: take_bit_eq_mask mask_eq_exp_minus_1)
    then show ?thesis using that by (simp add: bit_simps)
  qed
qed

lemma write_bytes_frame:
  "eth_write_bytes hw r (b # bs) d = eth_write_bytes hw (r + 1) bs (eth_frame_write hw r b d)"
  by (simp add: eth_frame_write_def low_byte_ucast Let_def)

lemma read_bytes_frame:
  "eth_read_bytes hw r (Suc n) d =
    (let (d, b) = eth_frame_read hw r d; (d, bs) = eth_read_bytes hw (r + 1) n d in (d, b # bs))"
  by (simp add: eth_frame_read_def low_byte_ucast Let_def split_beta)

lemma read_bytes_plain:
  assumes "reads_plainly hw m sent"
  shows "\<exists>d'. eth_read_bytes hw r n d = (d', map (\<lambda>i. m d (r + of_nat i)) [0..<n]) \<and> m d' = m d \<and> sent d' = sent d"
proof (induction n arbitrary: r d)
  case (Suc n)
  obtain d1 where d1: "eth_frame_read hw r d = (d1, m d r)" "m d1 = m d" "sent d1 = sent d"
    using assms unfolding reads_plainly_def by blast
  obtain d2 where d2: "eth_read_bytes hw (r + 1) n d1 = (d2, map (\<lambda>i. m d1 (r + 1 + of_nat i)) [0..<n])" "m d2 = m d1" "sent d2 = sent d1"
    using Suc.IH by blast
  have "map (\<lambda>i. m d (r + of_nat i)) [0..<Suc n] = m d r # map (\<lambda>i. m d1 (r + 1 + of_nat i)) [0..<n]"
    by (simp add: upt_conv_Cons map_Suc_upt [symmetric] comp_def d1(2) add.assoc del: upt_Suc)
  then show ?case using d1 d2 by (simp add: read_bytes_frame del: upt_Suc eth_read_bytes.simps)
qed simp

lemma write_bytes_plain:
  assumes "writes_plainly hw m sent plain" "\<forall>k<length bs. \<forall>i<4. r + of_nat k \<noteq> sn SN_CR i" "length bs \<le> 2 ^ 16" "a \<in> plain"
  shows "m (eth_write_bytes hw r bs d) a = (if unat (a - r) < length bs then bs ! unat (a - r) else m d a)"
    and "sent (eth_write_bytes hw r bs d) = sent d"
proof -
  have "m (eth_write_bytes hw r bs d) a = (if unat (a - r) < length bs then bs ! unat (a - r) else m d a) \<and>
      sent (eth_write_bytes hw r bs d) = sent d"
    using assms(2,3)
  proof (induction bs arbitrary: r d)
    case (Cons b bs)
    let ?d = "eth_frame_write hw r b d"
    have "\<forall>i<4. r \<noteq> sn SN_CR i" using Cons.prems(1) [rule_format, of 0] by simp
    then have d: "sent ?d = sent d" "m ?d a = (if a = r then b else m d a)"
      using assms(1,4) unfolding writes_plainly_def by auto
    have "\<forall>k<length bs. \<forall>i<4. (r + 1) + of_nat k \<noteq> sn SN_CR i"
    proof (intro allI impI)
      fix k and i :: u32 assume "k < length bs" "i < 4"
      then show "(r + 1) + of_nat k \<noteq> sn SN_CR i" using Cons.prems(1) [rule_format, of "Suc k" i] by (simp add: add.assoc)
    qed
    from Cons.IH [OF this, of ?d] Cons.prems(2) have IH:
      "m (eth_write_bytes hw (r + 1) bs ?d) a = (if unat (a - (r + 1)) < length bs then bs ! unat (a - (r + 1)) else m ?d a)"
      "sent (eth_write_bytes hw (r + 1) bs ?d) = sent ?d" by auto
    show ?case
    proof (cases "a = r")
      case True
      have "unat (- 1 :: u16) = 65535" by (simp only: unsigned_minus_1_eq_mask) (simp add: mask_eq_exp_minus_1)
      then show ?thesis using IH d True Cons.prems(2) by (simp add: write_bytes_frame del: eth_write_bytes.simps)
    next
      case False
      then have nz: "a - r \<noteq> 0" "unat (a - r) \<noteq> 0" by (simp_all add: unat_eq_zero)
      have "unat (a - r) = Suc (unat (a - r - 1))" unfolding unat_minus_one [OF nz(1)] using nz(2) by linarith
      then have "unat (a - r) = Suc (unat (a - (r + 1)))" by (simp add: diff_diff_eq)
      then show ?thesis using IH d False by (simp add: write_bytes_frame del: eth_write_bytes.simps)
    qed
  qed simp
  then show "m (eth_write_bytes hw r bs d) a = (if unat (a - r) < length bs then bs ! unat (a - r) else m d a)"
    "sent (eth_write_bytes hw r bs d) = sent d" by auto
qed

lemma read8_plain:
  assumes "reads_plainly (hardware env) m sent" "\<not> locked s Eth_Spi"
  shows "\<exists>d'. eth_read8 env r s = Some (s\<lparr>chip := d'\<rparr>, m (chip s) r) \<and> m d' = m (chip s) \<and> sent d' = sent (chip s)"
  using read_bytes_plain [OF assms(1), of r 1 "chip s"] assms(2)
  by (auto simp: eth_read8_def read_mem_free simp del: eth_read_bytes.simps)

lemma read16_plain:
  assumes "reads_plainly (hardware env) m sent" "\<not> locked s Eth_Spi"
  shows "\<exists>d'. eth_read16 env r s = Some (s\<lparr>chip := d'\<rparr>, reg16 (m (chip s)) r) \<and> m d' = m (chip s) \<and> sent d' = sent (chip s)"
  using read_bytes_plain [OF assms(1), of r 2 "chip s"] assms(2)
  by (auto simp: eth_read16_def read_mem_free reg16_def numeral_2_eq_2 simp del: eth_read_bytes.simps)

section \<open>Rings\<close>

definition ring_store :: "(u16 \<Rightarrow> byte) \<Rightarrow> u16 \<Rightarrow> nat \<Rightarrow> byte list \<Rightarrow> u16 \<Rightarrow> byte" where
  "ring_store m start off bs a =
     (let x = unat (a - start); k = (if off \<le> x then x - off else x + 2048 - off)
      in if x < 2048 \<and> k < length bs then bs ! k else m a)"

lemma unat_ring_addr: "unat (ring_addr start off k - start) = (off + k) mod 2048"
proof -
  have "(off + k) mod 2048 < 2048" by simp
  then have "(off + k) mod 2048 < 2 ^ 16" by (rule less_le_trans) simp
  then show ?thesis by (simp add: ring_addr_def unat_of_nat_less)
qed

lemma ring_store_nth:
  assumes "off < 2048" "length bs \<le> 2048" "k < length bs"
  shows "ring_store m start off bs (ring_addr start off k) = bs ! k"
proof (cases "off + k < 2048")
  case True
  then show ?thesis using assms by (simp add: ring_store_def unat_ring_addr)
next
  case False
  then have "(off + k) mod 2048 = off + k - 2048" using assms by (simp add: mod_if)
  moreover have "\<not> off \<le> off + k - 2048" "off + k - 2048 < 2048" using False assms by linarith+
  ultimately show ?thesis using False assms by (simp add: ring_store_def unat_ring_addr Let_def)
qed

lemma ring_store_bytes:
  assumes "off < 2048" "length bs \<le> 2048"
  shows "ring_bytes (ring_store m start off bs) start off (length bs) = bs"
  by (rule nth_equalityI) (simp_all add: ring_bytes_def ring_store_nth [OF assms])

lemma ring_store_out: "2048 \<le> unat (a - start) \<Longrightarrow> ring_store m start off bs a = m a"
  by (simp add: ring_store_def Let_def)

lemma unat_sub_u16: "unat (v - c :: u16) = (if unat c \<le> unat v then unat v - unat c else unat v + 65536 - unat c)"
  using unat_sub_if' [of v c] by (simp add: word_le_nat_alt)

lemma ring_store_plain:
  assumes "off + length bs \<le> 2048"
  shows "(if unat (a - (start + of_nat off)) < length bs then bs ! unat (a - (start + of_nat off)) else m a) =
    ring_store m start off bs a"
proof -
  have "unat (of_nat off :: u16) = off" using assms by (intro unat_of_nat_less) simp
  moreover have "a - (start + of_nat off) = (a - start) - of_nat off" by simp
  ultimately have x: "unat (a - (start + of_nat off)) = (if off \<le> unat (a - start) then unat (a - start) - off
      else unat (a - start) + 65536 - off)" by (simp only: unat_sub_u16)
  show ?thesis unfolding x ring_store_def using assms by (auto simp: Let_def)
qed

lemma ring_store_wrapped:
  assumes "off < 2048" "length bs \<le> 2048" "2048 < off + length bs" "rest = 2048 - off"
  shows "(if unat (a - start) < length bs - rest then drop rest bs ! unat (a - start)
      else if unat (a - (start + of_nat off)) < rest then take rest bs ! unat (a - (start + of_nat off)) else m a) =
    ring_store m start off bs a"
proof -
  have "unat (of_nat off :: u16) = off" using assms by (intro unat_of_nat_less) simp
  moreover have "a - (start + of_nat off) = (a - start) - of_nat off" by simp
  ultimately have x: "unat (a - (start + of_nat off)) = (if off \<le> unat (a - start) then unat (a - start) - off
      else unat (a - start) + 65536 - off)" by (simp only: unat_sub_u16)
  show ?thesis unfolding x ring_store_def using assms by (auto simp: Let_def add.commute)
qed

section \<open>The sockets of the chip\<close>

text \<open>The geometry that \<open>init_sockets\<close> gives to the four sockets.\<close>

definition wiz_geometry :: "wiz_socket \<Rightarrow> bool" where
  "wiz_geometry x \<longleftrightarrow> index x < 4 \<and>
     txbuf_start x = S0_TX_BASE + ucast (index x) * 0x800 \<and> txbuf_size_max x = 2048 \<and> txbuf_mask x = 2047 \<and>
     rxbuf_start x = S0_RX_BASE + ucast (index x) * 0x800 \<and> rxbuf_size_max x = 2048 \<and> rxbuf_mask x = 2047"

definition eth_memory :: "u16 set" where
  "eth_memory = {a. 0x4000 \<le> a} \<union> (\<Union>i\<in>{0, 1, 2, 3}. 
     {sn SN_TX_WR i, sn SN_TX_WR i + 1, sn SN_TX_RD i, sn SN_TX_RD i + 1, sn SN_RX_RD i, sn SN_RX_RD i + 1})"

lemma less4_cases: "(i :: u32) < 4 \<Longrightarrow> i = 0 \<or> i = 1 \<or> i = 2 \<or> i = 3"
proof -
  assume "i < 4"
  then have "unat i < 4" by (simp add: word_less_nat_alt)
  then have "unat i = 0 \<or> unat i = 1 \<or> unat i = 2 \<or> unat i = 3" by linarith
  then have "unat i = unat (0 :: u32) \<or> unat i = unat (1 :: u32) \<or> unat i = unat (2 :: u32) \<or> unat i = unat (3 :: u32)" by simp
  then show ?thesis unfolding unat_eq_iff .
qed

lemma new_socket_geometry: "i < 4 \<Longrightarrow> wiz_geometry (new_socket i)"
proof -
  assume "i < 4"
  then have "i \<in> {0, 1, 2, 3}" by auto
  moreover have "\<forall>i\<in>{0, 1, 2, 3}. wiz_geometry (new_socket i)"
    by (simp add: wiz_geometry_def new_socket_def memory_per_socket_def)
  ultimately show ?thesis by blast
qed

text \<open>No byte of a buffer is a command register.\<close>

lemma high_not_command: "0x4000 \<le> a \<Longrightarrow> (i :: u32) < 4 \<Longrightarrow> a \<noteq> sn SN_CR i"
  using less4_cases [of i] by (auto simp: sn_def SN_CR_def word_le_nat_alt)

lemma buffer_high:
  assumes "i < 4" "start = S0_TX_BASE + ucast (i :: u32) * 0x800 \<or> start = S0_RX_BASE + ucast i * 0x800" "x < 2048"
  shows "(0x4000 :: u16) \<le> start + of_nat x"
proof -
  have x: "unat (of_nat x :: u16) = x" using assms(3) by (intro unat_of_nat_less) simp
  have "unat start \<in> {0x4000, 0x4800, 0x5000, 0x5800, 0x6000, 0x6800, 0x7000, 0x7800}"
    using assms(2) less4_cases [OF assms(1)] by (auto simp: S0_TX_BASE_def S0_RX_BASE_def)
  then have "0x4000 \<le> unat start" "unat start + x < 2 ^ 16" using assms(3) by auto
  then have "unat (start + of_nat x) = unat start + x" "0x4000 \<le> unat start + x" using x by (simp_all add: unat_word_ariths)
  then show ?thesis by (simp add: word_le_nat_alt)
qed

lemma masked_offset: "unat (ucast (ucast (v :: u16) AND (2047 :: u32)) :: u16) = unat v mod 2048"
proof -
  have "ucast v AND (2047 :: u32) = take_bit 11 (ucast v)" by (simp add: take_bit_eq_mask mask_eq_exp_minus_1)
  then have "(ucast (ucast v AND (2047 :: u32)) :: u16) = take_bit 11 v"
    by (intro bit_eqI) (auto simp: bit_simps)
  then show ?thesis by (simp add: take_bit_eq_mod unat_mod_word)
qed

lemma ring_write:
  assumes "writes_plainly hw m sent plain" "i < 4"
    "start = S0_TX_BASE + ucast (i :: u32) * 0x800 \<or> start = S0_RX_BASE + ucast i * 0x800"
    "off + length bs \<le> 2048" "a \<in> plain"
  shows "m (eth_write_bytes hw (start + of_nat off) bs d) a =
      (if unat (a - (start + of_nat off)) < length bs then bs ! unat (a - (start + of_nat off)) else m d a)"
    and "sent (eth_write_bytes hw (start + of_nat off) bs d) = sent d"
proof -
  have "(start + of_nat off) + of_nat k \<noteq> sn SN_CR j" if "k < length bs" "j < 4" for k and j :: u32
  proof -
    have "0x4000 \<le> start + of_nat (off + k)" using assms(4) that(1) by (intro buffer_high [OF assms(2,3)]) linarith
    then have "start + of_nat (off + k) \<noteq> sn SN_CR j" using that(2) by (intro high_not_command)
    then show ?thesis by (simp add: add.assoc)
  qed
  then have c: "\<forall>k<length bs. \<forall>j<4. (start + of_nat off) + of_nat k \<noteq> sn SN_CR j" by blast
  have l: "length bs \<le> 2 ^ 16" using assms(4) by simp
  show "m (eth_write_bytes hw (start + of_nat off) bs d) a =
      (if unat (a - (start + of_nat off)) < length bs then bs ! unat (a - (start + of_nat off)) else m d a)"
    "sent (eth_write_bytes hw (start + of_nat off) bs d) = sent d"
    using write_bytes_plain [OF assms(1) c l assms(5)] by blast+
qed

lemma mem_bytes_add: "mem_bytes m p (j + k) = mem_bytes m p j @ mem_bytes m (p + of_nat j) k"
proof (rule nth_equalityI)
  fix i assume i: "i < length (mem_bytes m p (j + k))"
  have "(of_nat j + of_nat (i - j) :: u32) = of_nat i" if "j \<le> i"
    using that by (simp flip: of_nat_add)
  then show "mem_bytes m p (j + k) ! i = (mem_bytes m p j @ mem_bytes m (p + of_nat j) k) ! i"
    using i by (auto simp: mem_bytes_def nth_append add.assoc)
qed (simp add: mem_bytes_def)

lemma length_mem_bytes [simp]: "length (mem_bytes m p n) = n"
  by (simp add: mem_bytes_def)

lemma unat_ucast_up: "unat (ucast (x :: u16) :: u32) = unat x"
  using unat_lt_exp [of x] by (simp add: unsigned_ucast_eq take_bit_eq_mod)

text \<open>Writing to the buffer stores the bytes in the ring from the write pointer on, and nothing else.\<close>

lemma write_txbuf_stores:
  assumes "reads_plainly (hardware env) m sent" "writes_plainly (hardware env) m sent plain" "wiz_geometry x"
    and "\<not> locked s Eth_Spi" "unat n \<le> 2048"
  shows "\<exists>d'. write_txbuf env x frame n s = Some (s\<lparr>chip := d'\<rparr>) \<and> (plain \<noteq> {} \<longrightarrow> sent d' = sent (chip s)) \<and>
    (\<forall>a\<in>plain. m d' a = ring_store (m (chip s)) (txbuf_start x) (unat (reg16 (m (chip s)) (sn SN_TX_WR (index x))) mod 2048)
       (mem_bytes (net_mem s) frame (unat n)) a)"
proof -
  let ?wr = "reg16 (m (chip s)) (sn SN_TX_WR (index x))" and ?hw = "hardware env"
  define co :: u16 where "co = ucast (ucast ?wr AND (2047 :: u32))"
  define off where "off = unat ?wr mod 2048"
  let ?bs = "mem_bytes (net_mem s) frame (unat n)" and ?start = "txbuf_start x"
  have co: "unat co = off" "co = of_nat off" using masked_offset [of ?wr] by (simp_all add: co_def off_def) (metis of_nat_unat ucast_id)
  have off: "off < 2048" by (simp add: off_def)
  have x: "txbuf_mask x = 2047" "txbuf_size_max x = 2048" "index x < 4"
    "?start = S0_TX_BASE + ucast (index x) * 0x800 \<or> ?start = S0_RX_BASE + ucast (index x) * 0x800"
    using assms(3) by (simp_all add: wiz_geometry_def)
  obtain d1 where d1: "eth_read16 env (sn SN_TX_WR (index x)) s = Some (s\<lparr>chip := d1\<rparr>, ?wr)" "m d1 = m (chip s)" "sent d1 = sent (chip s)"
    using read16_plain [OF assms(1,4)] by blast
  note w = ring_write [OF assms(2) x(3,4)]
  have cond: "(2048 :: u32) < ucast co + ucast n \<longleftrightarrow> 2048 < off + unat n"
  proof -
    have "unat (ucast co + ucast n :: u32) = off + unat n"
      using off assms(5) co(1) by (simp add: unat_word_ariths unat_ucast_up)
    then show ?thesis by (simp add: word_less_nat_alt)
  qed
  show ?thesis
  proof (cases "2048 < off + unat n")
    case False
    let ?d = "eth_write_bytes ?hw (?start + of_nat off) ?bs d1"
    have "write_txbuf env x frame n s = Some (s\<lparr>chip := ?d\<rparr>)"
      using False cond d1(1) assms(4) co(2) by (simp add: write_txbuf_def x co_def [symmetric] write_mem_free Let_def net_mem_def)
    moreover have "m ?d a = ring_store (m (chip s)) ?start off ?bs a" "sent ?d = sent (chip s)" if "a \<in> plain" for a
    proof -
      have l: "off + length ?bs \<le> 2048" using False by simp
      show "m ?d a = ring_store (m (chip s)) ?start off ?bs a" unfolding w(1) [OF l that] d1(2) by (rule ring_store_plain [OF l])
      show "sent ?d = sent (chip s)" using w(2) [OF l that] d1(3) by simp
    qed
    ultimately show ?thesis by (intro exI [of _ ?d]) (auto simp: off_def)
  next
    case True
    define rest where "rest = 2048 - off"
    have rest: "unat (2048 - ucast co :: u32) = rest" "(2048 - ucast co :: u32) = of_nat rest" "rest \<le> unat n"
    proof -
      show 1: "unat (2048 - ucast co :: u32) = rest"
        using off co(1) by (simp add: rest_def unat_sub word_le_nat_alt unat_ucast_up)
      show "(2048 - ucast co :: u32) = of_nat rest" using 1 by (metis of_nat_unat ucast_id)
      show "rest \<le> unat n" using True by (simp add: rest_def)
    qed
    have len: "unat (ucast n - of_nat rest :: u32) = unat n - rest"
      using rest(3) unat_available [of rest "ucast n"] by (simp add: unat_ucast_up)
    let ?a = "take rest ?bs" and ?b = "drop rest ?bs"
    have split: "mem_bytes (net_mem s) frame rest = ?a" "mem_bytes (net_mem s) (frame + of_nat rest) (unat n - rest) = ?b"
      using mem_bytes_add [of "net_mem s" frame rest "unat n - rest"] rest(3) by simp_all
    let ?d1 = "eth_write_bytes ?hw (?start + of_nat off) ?a d1"
    let ?d = "eth_write_bytes ?hw (?start + of_nat 0) ?b ?d1"
    have "write_txbuf env x frame n s = Some (s\<lparr>chip := ?d\<rparr>)"
      using True cond d1(1) assms(4) co(2) rest len split
      by (simp add: write_txbuf_def x co_def [symmetric] write_mem_free Let_def net_mem_def)
    moreover have "m ?d a = ring_store (m (chip s)) ?start off ?bs a" "sent ?d = sent (chip s)" if "a \<in> plain" for a
    proof -
      have l: "off + length ?a \<le> 2048" "0 + length ?b \<le> 2048" "length ?b = length ?bs - rest" "length ?a = rest"
        using assms(5) rest(3) off by (simp_all add: rest_def)
      have "m ?d a = (if unat (a - ?start) < length ?bs - rest then ?b ! unat (a - ?start)
          else if unat (a - (?start + of_nat off)) < rest then ?a ! unat (a - (?start + of_nat off)) else m (chip s) a)"
        using w(1) [OF l(2) that, of ?d1] unfolding w(1) [OF l(1) that] d1(2) l(3,4) by simp
      also have "\<dots> = ring_store (m (chip s)) ?start off ?bs a"
        using off assms(5) True by (intro ring_store_wrapped) (simp_all add: rest_def)
      finally show "m ?d a = ring_store (m (chip s)) ?start off ?bs a" .
      show "sent ?d = sent (chip s)" using w(2) [OF l(2) that, of ?d1] w(2) [OF l(1) that] d1(3) by simp
    qed
    ultimately show ?thesis by (intro exI [of _ ?d]) (auto simp: off_def)
  qed
qed

end
