(* ===== verification/Ethernet_Frames.thy ===== *)
theory Ethernet_Frames
  imports Ethernet_Chip
begin

text \<open>
  Frames: on every chip of the specification, receiving stores the next frame for the caller and advances the read
  pointer, and sending puts the bytes on the wire in segments of 2048 bytes.
\<close>

section \<open>Receiving\<close>

lemma ring_bytes_split:
  assumes "off < 2048" "off + n \<le> 4096"
  shows "ring_bytes m start off n = (if off + n \<le> 2048 then map (\<lambda>i. m (start + of_nat off + of_nat i)) [0..<n]
    else map (\<lambda>i. m (start + of_nat off + of_nat i)) [0..<2048 - off] @ map (\<lambda>i. m (start + of_nat i)) [0..<off + n - 2048])"
proof (rule nth_equalityI)
  show "length (ring_bytes m start off n) = length (if off + n \<le> 2048 then map (\<lambda>i. m (start + of_nat off + of_nat i)) [0..<n]
    else map (\<lambda>i. m (start + of_nat off + of_nat i)) [0..<2048 - off] @ map (\<lambda>i. m (start + of_nat i)) [0..<off + n - 2048])"
    using assms by (simp add: ring_bytes_def)
  fix k assume "k < length (ring_bytes m start off n)"
  then have k: "k < n" by (simp add: ring_bytes_def)
  then have "ring_bytes m start off n ! k = m (start + of_nat ((off + k) mod 2048))" by (simp add: ring_bytes_def ring_addr_def)
  moreover have "(off + k) mod 2048 = (if off + k < 2048 then off + k else off + k - 2048)"
    using k assms by (auto simp: mod_if)
  moreover have "k - (2048 - off) = off + k - 2048" if "\<not> off + k < 2048" using that assms by linarith
  ultimately show "ring_bytes m start off n ! k = (if off + n \<le> 2048 then map (\<lambda>i. m (start + of_nat off + of_nat i)) [0..<n]
    else map (\<lambda>i. m (start + of_nat off + of_nat i)) [0..<2048 - off] @ map (\<lambda>i. m (start + of_nat i)) [0..<off + n - 2048]) ! k"
    using k assms by (auto simp: nth_append add.assoc)
qed

definition clock_plainly :: "'d hardware \<Rightarrow> ('d \<Rightarrow> u16 \<Rightarrow> byte) \<Rightarrow> ('d \<Rightarrow> (u32 \<times> byte list) list) \<Rightarrow> bool" where
  "clock_plainly hw m sent \<longleftrightarrow> (\<forall>d. m (fst (ms_since_boot hw d)) = m d \<and> sent (fst (ms_since_boot hw d)) = sent d)"

lemma read_mem_plain:
  assumes "reads_plainly (hardware env) m sent" "\<not> locked s Eth_Spi"
  shows "\<exists>d'. eth_read_mem env r n s = Some (s\<lparr>chip := d'\<rparr>, map (\<lambda>i. m (chip s) (r + of_nat i)) [0..<n]) \<and>
    m d' = m (chip s) \<and> sent d' = sent (chip s)"
  using read_bytes_plain [OF assms(1), of r n "chip s"] assms(2)
  by (auto simp: read_mem_free simp del: eth_read_bytes.simps)

lemma clock_free:
  assumes "clock_plainly (hardware env) m sent"
  shows "\<exists>d' t. clock env s = (s\<lparr>chip := d'\<rparr>, t) \<and> m d' = m (chip s) \<and> sent d' = sent (chip s)"
  using assms by (auto simp: clock_def clock_plainly_def split_beta)

text \<open>The part of \<open>read_rxbuf\<close> after the registers have been read.\<close>

definition rx_copy :: "'d net_env \<Rightarrow> wiz_socket \<Rightarrow> addr \<Rightarrow> u16 \<Rightarrow> u16 \<Rightarrow> 'd net \<Rightarrow> ('d net \<times> u16) option" where
  "rx_copy env x buf co n s =
     (if rxbuf_size_max x < ucast co + ucast n
      then do {
        let rest_size = rxbuf_size_max x - ucast co;
        (s, bs) \<leftarrow> eth_read_mem env (rxbuf_start x + co) (unat rest_size) s;
        let s = set_net_mem s (stored (net_mem s) buf bs);
        (s, bs) \<leftarrow> eth_read_mem env (rxbuf_start x) (unat (ucast n - rest_size)) s;
        Some (set_net_mem s (stored (net_mem s) (buf + rest_size) bs), n)
      }
      else do {
        (s, bs) \<leftarrow> eth_read_mem env (rxbuf_start x + co) (unat n) s;
        Some (set_net_mem s (stored (net_mem s) buf bs), n)
      })"

lemma read_rxbuf_begins:
  assumes "reads_plainly (hardware env) m sent" "clock_plainly (hardware env) m sent" "\<not> locked s Eth_Spi"
    and "rsr = reg16 (m (chip s)) (sn SN_RX_RSR (index x))" "rsr \<noteq> 0" "rxbuf_mask x = 2047"
  shows "\<exists>d'. read_rxbuf env x buf len s = rx_copy env x buf
      (ucast (ucast (reg16 (m (chip s)) (sn SN_RX_RD (index x))) AND (2047 :: u32))) (min len rsr) (s\<lparr>chip := d'\<rparr>) \<and>
    m d' = m (chip s) \<and> sent d' = sent (chip s)"
proof -
  let ?rd = "reg16 (m (chip s)) (sn SN_RX_RD (index x))"
  obtain d1 where d1: "eth_read16 env (sn SN_RX_RD (index x)) s = Some (s\<lparr>chip := d1\<rparr>, ?rd)" "m d1 = m (chip s)" "sent d1 = sent (chip s)"
    using read16_plain [OF assms(1,3)] by blast
  obtain d2 t where d2: "clock env (s\<lparr>chip := d1\<rparr>) = (s\<lparr>chip := d2\<rparr>, t)" "m d2 = m (chip s)" "sent d2 = sent (chip s)"
    using clock_free [OF assms(2), of "s\<lparr>chip := d1\<rparr>"] d1 by auto
  obtain d3 where d3: "eth_read16 env (sn SN_RX_RSR (index x)) (s\<lparr>chip := d2\<rparr>) = Some (s\<lparr>chip := d3\<rparr>, rsr)"
      "m d3 = m (chip s)" "sent d3 = sent (chip s)"
    using read16_plain [OF assms(1), of "s\<lparr>chip := d2\<rparr>" "sn SN_RX_RSR (index x)"] assms(3,4) d2 by auto
  obtain d4 t' where d4: "clock env (s\<lparr>chip := d3\<rparr>) = (s\<lparr>chip := d4\<rparr>, t')" "m d4 = m (chip s)" "sent d4 = sent (chip s)"
    using clock_free [OF assms(2), of "s\<lparr>chip := d3\<rparr>"] d3 by auto
  have "await_received env (index x) t (s\<lparr>chip := d2\<rparr>) = Some (s\<lparr>chip := d4\<rparr>, rsr)"
    using d3(1) d4(1) assms(5) by (subst await_received.simps) simp
  moreover have "(if len < rsr then len else rsr) = min len rsr" by (auto simp: min_def)
  ultimately show ?thesis using d1(1) d2(1) d4
    by (intro exI [of _ d4]) (simp add: read_rxbuf_def rx_copy_def assms(6) Let_def)
qed

lemma rx_copy_reads:
  assumes "reads_plainly (hardware env) m sent" "rxbuf_size_max x = 2048" "\<not> locked s Eth_Spi"
    and co: "unat co = off" "off < 2048" and n: "unat n \<le> 2048"
  shows "\<exists>d'. rx_copy env x buf co n s = Some (set_net_mem (s\<lparr>chip := d'\<rparr>) (stored (net_mem s) buf
      (ring_bytes (m (chip s)) (rxbuf_start x) off (unat n))), n) \<and> m d' = m (chip s) \<and> sent d' = sent (chip s)"
proof -
  let ?start = "rxbuf_start x"
  note rd = read_mem_plain [OF assms(1)]
  have co': "co = of_nat off" unfolding co(1) [symmetric] by simp
  have "unat (ucast co + ucast n :: u32) = off + unat n" using co n by (simp add: unat_word_ariths unat_ucast_up)
  then have cond: "(2048 :: u32) < ucast co + ucast n \<longleftrightarrow> 2048 < off + unat n" by (simp add: word_less_nat_alt)
  show ?thesis
  proof (cases "2048 < off + unat n")
    case False
    obtain d5 where "eth_read_mem env (?start + co) (unat n) s =
        Some (s\<lparr>chip := d5\<rparr>, map (\<lambda>i. m (chip s) (?start + co + of_nat i)) [0..<unat n])" "m d5 = m (chip s)" "sent d5 = sent (chip s)"
      using rd [OF assms(3), of "?start + co" "unat n"] by auto
    then show ?thesis
      using False cond co(2) ring_bytes_split [of off "unat n" "m (chip s)" ?start] co'
      by (intro exI [of _ d5]) (simp add: rx_copy_def assms(2) Let_def net_mem_def)
  next
    case True
    define rest where "rest = 2048 - off"
    have rest: "unat (2048 - ucast co :: u32) = rest" "rest \<le> unat n"
      using co True by (simp_all add: rest_def unat_sub word_le_nat_alt unat_ucast_up)
    then have rest': "(2048 - ucast co :: u32) = of_nat rest" by (metis of_nat_unat ucast_id)
    have len: "unat (ucast n - of_nat rest :: u32) = off + unat n - 2048"
      using rest(2) unat_available [of rest "ucast n"] co(2) by (simp add: unat_ucast_up rest_def)
    let ?b1 = "map (\<lambda>i. m (chip s) (?start + co + of_nat i)) [0..<rest]"
    let ?b2 = "map (\<lambda>i. m (chip s) (?start + of_nat i)) [0..<off + unat n - 2048]"
    obtain d5 where d5: "eth_read_mem env (?start + co) rest s = Some (s\<lparr>chip := d5\<rparr>, ?b1)" "m d5 = m (chip s)" "sent d5 = sent (chip s)"
      using rd [OF assms(3), of "?start + co" rest] by auto
    let ?s5 = "set_net_mem (s\<lparr>chip := d5\<rparr>) (stored (net_mem s) buf ?b1)"
    have "\<not> locked ?s5 Eth_Spi" "m (chip ?s5) = m (chip s)" "sent (chip ?s5) = sent (chip s)"
      using assms(3) d5 by (simp_all add: set_net_mem_def)
    then obtain d6 where d6: "eth_read_mem env ?start (off + unat n - 2048) ?s5 = Some (?s5\<lparr>chip := d6\<rparr>, ?b2)"
        "m d6 = m (chip s)" "sent d6 = sent (chip s)"
      using rd [of ?s5 ?start "off + unat n - 2048"] by auto
    have "stored (stored (net_mem s) buf ?b1) (buf + of_nat rest) ?b2 = stored (net_mem s) buf (?b1 @ ?b2)"
      using stored_append [of ?b1 ?b2 "net_mem s" buf] rest(2) n co(2) by (simp add: rest_def)
    then have "rx_copy env x buf co n s = Some (set_net_mem (s\<lparr>chip := d6\<rparr>) (stored (net_mem s) buf (?b1 @ ?b2)), n)"
      using True cond rest rest' len d5(1) d6(1)
      by (simp add: rx_copy_def assms(2) Let_def net_mem_def set_net_mem_def memory_k_def set_memory_def)
    moreover have "?b1 @ ?b2 = ring_bytes (m (chip s)) ?start off (unat n)"
      using True co n ring_bytes_split [of off "unat n" "m (chip s)" ?start] co' by (simp add: rest_def)
    ultimately show ?thesis using d6 by (intro exI [of _ d6]) simp
  qed
qed

text \<open>Reading from the buffer yields what the ring holds from the read pointer on, and changes nothing on the chip.\<close>

lemma read_rxbuf_reads:
  assumes "reads_plainly (hardware env) m sent" "clock_plainly (hardware env) m sent" "wiz_geometry x" "\<not> locked s Eth_Spi"
    and rsr: "rsr = reg16 (m (chip s)) (sn SN_RX_RSR (index x))" "rsr \<noteq> 0" "unat rsr \<le> 2048"
  shows "\<exists>d'. read_rxbuf env x buf len s = Some (set_net_mem (s\<lparr>chip := d'\<rparr>) (stored (net_mem s) buf
      (ring_bytes (m (chip s)) (rxbuf_start x) (unat (reg16 (m (chip s)) (sn SN_RX_RD (index x))) mod 2048)
        (min (unat len) (unat rsr)))), min len rsr) \<and> m d' = m (chip s) \<and> sent d' = sent (chip s)"
proof -
  let ?rd = "reg16 (m (chip s)) (sn SN_RX_RD (index x))"
  have x: "rxbuf_mask x = 2047" "rxbuf_size_max x = 2048" using assms(3) by (simp_all add: wiz_geometry_def)
  have n: "unat (min len rsr) = min (unat len) (unat rsr)" by (simp add: min_def word_le_nat_alt)
  obtain d4 where d4: "read_rxbuf env x buf len s = rx_copy env x buf (ucast (ucast ?rd AND (2047 :: u32))) (min len rsr) (s\<lparr>chip := d4\<rparr>)"
      "m d4 = m (chip s)" "sent d4 = sent (chip s)"
    using read_rxbuf_begins [OF assms(1,2,4) rsr(1,2) x(1)] by blast
  have "\<not> locked (s\<lparr>chip := d4\<rparr>) Eth_Spi" "unat ?rd mod 2048 < 2048" "unat (min len rsr) \<le> 2048" using assms(4) rsr(3) n by auto
  from rx_copy_reads [OF assms(1) x(2) this(1) masked_offset [of ?rd] this(2,3), of buf] show ?thesis
    using d4 n by (auto simp: net_mem_def)
qed

section \<open>Sending\<close>

lemma w5100sD:
  assumes "w5100s hw m sent plain"
  shows "reads_plainly hw m sent" "writes_plainly hw m sent plain" "sends_pending hw m sent plain"
    "receives_plainly hw m sent plain" "free_space_law m"
  using assms by (simp_all add: w5100s_def)

text \<open>A write of registers that are not command registers.\<close>

lemma regs_write:
  assumes "writes_plainly (hardware env) m sent plain" "\<not> locked s Eth_Spi" "plain \<noteq> {}"
    and "\<forall>k<length bs. \<forall>i<4. r + of_nat k \<noteq> sn SN_CR i" "length bs \<le> 2 ^ 16"
  shows "\<exists>d'. eth_write_mem env r bs s = Some (s\<lparr>chip := d'\<rparr>) \<and> sent d' = sent (chip s) \<and>
    (\<forall>a\<in>plain. m d' a = (if unat (a - r) < length bs then bs ! unat (a - r) else m (chip s) a))"
  using write_bytes_plain [OF assms(1,4,5)] assms(3) by (auto simp: write_mem_free [OF assms(2)])

lemma sn_apart:
  assumes "(i :: u32) < 4" "(j :: u32) < 4" "off \<in> {SN_IR, SN_TX_WR, SN_TX_WR + 1, SN_RX_RD, SN_RX_RD + 1}"
  shows "sn off i \<noteq> sn SN_CR j"
  using less4_cases [OF assms(1)] less4_cases [OF assms(2)] assms(3)
  by (auto simp: sn_def SN_IR_def SN_TX_WR_def SN_RX_RD_def SN_CR_def)

lemma sn_suc: "sn off i + 1 = sn (off + 1) i"
  by (simp add: sn_def)

lemma pointer_reg_adds:
  assumes "reads_plainly (hardware env) m sent" "writes_plainly (hardware env) m sent plain" "\<not> locked s Eth_Spi"
    and i: "i < 4" "off \<in> {SN_TX_WR, SN_RX_RD}" and "sn off i \<in> plain" "sn off i + 1 \<in> plain"
  shows "\<exists>d'. add_to_socket_pointer_reg env (sn off i) n s = Some (s\<lparr>chip := d'\<rparr>) \<and> sent d' = sent (chip s) \<and>
    reg16 (m d') (sn off i) = reg16 (m (chip s)) (sn off i) + ucast n \<and>
    (\<forall>a\<in>plain. a \<noteq> sn off i \<longrightarrow> a \<noteq> sn off i + 1 \<longrightarrow> m d' a = m (chip s) a)"
proof -
  let ?r = "sn off i"
  define v where "v = reg16 (m (chip s)) ?r + ucast n"
  obtain d1 where d1: "eth_read16 env ?r s = Some (s\<lparr>chip := d1\<rparr>, reg16 (m (chip s)) ?r)" "m d1 = m (chip s)" "sent d1 = sent (chip s)"
    using read16_plain [OF assms(1,3)] by blast
  let ?bs = "[ucast (drop_bit 8 v), ucast (v AND 0xff)] :: byte list"
  have c: "\<forall>k<length ?bs. \<forall>j<4. ?r + of_nat k \<noteq> sn SN_CR j"
  proof (intro allI impI)
    fix k and j :: u32 assume kj: "k < length ?bs" "j < 4"
    have "off \<in> {SN_IR, SN_TX_WR, SN_TX_WR + 1, SN_RX_RD, SN_RX_RD + 1}" "off + 1 \<in> {SN_IR, SN_TX_WR, SN_TX_WR + 1, SN_RX_RD, SN_RX_RD + 1}"
      using i(2) by auto
    from sn_apart [OF i(1) kj(2) this(1)] sn_apart [OF i(1) kj(2) this(2)] kj(1)
    show "?r + of_nat k \<noteq> sn SN_CR j" by (auto simp: less_Suc_eq sn_suc)
  qed
  have ne: "plain \<noteq> {}" "\<not> locked (s\<lparr>chip := d1\<rparr>) Eth_Spi" "length ?bs \<le> 2 ^ 16" using assms(3,6) by auto
  obtain d' where d': "eth_write_mem env ?r ?bs (s\<lparr>chip := d1\<rparr>) = Some (s\<lparr>chip := d'\<rparr>)" "sent d' = sent (chip s)"
      "\<forall>a\<in>plain. m d' a = (if unat (a - ?r) < length ?bs then ?bs ! unat (a - ?r) else m (chip s) a)"
    using regs_write [OF assms(2) ne(2,1) c ne(3)] d1 by auto
  have hi: "m d' ?r = ucast (drop_bit 8 v)" "m d' (?r + 1) = ucast (v AND 0xff)"
    using d'(3) assms(6,7) by simp_all
  then have "reg16 (m d') ?r = v" using word16_bytes16 [of v] by (simp add: reg16_def low_byte_ucast)
  moreover have "m d' a = m (chip s) a" if "a \<in> plain" "a \<noteq> ?r" "a \<noteq> ?r + 1" for a
  proof -
    have "a - ?r \<noteq> 0" "a - ?r \<noteq> 1" using that(2,3) by (auto simp: diff_eq_eq add.commute)
    then have "unat (a - ?r) \<noteq> unat (0 :: u16)" "unat (a - ?r) \<noteq> unat (1 :: u16)" unfolding unat_eq_iff by simp_all
    then have "\<not> unat (a - ?r) < 2" by (simp add: less_2_cases_iff)
    then show ?thesis using d'(3) that(1) by auto
  qed
  ultimately show ?thesis using d1(1) d'(1,2) by (auto simp: add_to_socket_pointer_reg_def v_def [symmetric] Let_def)
qed

text \<open>The send command, and the wait for its completion.\<close>

lemma send_command:
  assumes "w5100s (hardware env) m sent plain" "\<not> locked s Eth_Spi" "\<not> locked s Eth_Command_Send" "i < 4"
  shows "\<exists>d'. socket_command env i CMD_SEND s = Some (s\<lparr>chip := d'\<rparr>) \<and>
    sent d' = sent (chip s) @ [(i, tx_pending (m (chip s)) i)] \<and> bit (m d' (sn SN_IR i)) 4 \<and>
    reg16 (m d') (sn SN_TX_RD i) = reg16 (m (chip s)) (sn SN_TX_WR i) \<and>
    (\<forall>a\<in>plain. a \<noteq> sn SN_TX_RD i \<longrightarrow> a \<noteq> sn SN_TX_RD i + 1 \<longrightarrow> m d' a = m (chip s) a)"
proof -
  note w = w5100sD [OF assms(1)]
  let ?d = "eth_frame_write (hardware env) (sn SN_CR i) CMD_SEND (chip s)"
  have d: "sent ?d = sent (chip s) @ [(i, tx_pending (m (chip s)) i)]" "m ?d (sn SN_CR i) = 0" "bit (m ?d (sn SN_IR i)) 4"
      "reg16 (m ?d) (sn SN_TX_RD i) = reg16 (m (chip s)) (sn SN_TX_WR i)"
      "\<forall>a\<in>plain. a \<noteq> sn SN_TX_RD i \<longrightarrow> a \<noteq> sn SN_TX_RD i + 1 \<longrightarrow> m ?d a = m (chip s) a"
    using w(3) assms(4) unfolding sends_pending_def Let_def by blast+
  let ?s = "set_locked Eth_Command_Send True s"
  have s: "\<not> locked ?s Eth_Spi" "\<not> locked (?s\<lparr>chip := ?d\<rparr>) Eth_Spi" using assms(2) by (simp_all add: set_locked_def)
  have "eth_write_mem env (sn SN_CR i) [CMD_SEND] ?s = Some (?s\<lparr>chip := ?d\<rparr>)"
    by (subst write_mem_free [OF s(1)]) (simp add: write_bytes_frame set_locked_def del: eth_write_bytes.simps(2))
  moreover obtain d' where d': "eth_read8 env (sn SN_CR i) (?s\<lparr>chip := ?d\<rparr>) = Some (?s\<lparr>chip := d'\<rparr>, 0)" "m d' = m ?d" "sent d' = sent ?d"
    using read8_plain [OF w(1) s(2), of "sn SN_CR i"] d(2) by auto
  moreover have "await_command env i (?s\<lparr>chip := ?d\<rparr>) = Some (?s\<lparr>chip := d'\<rparr>)"
    using d'(1) by (subst await_command.simps) simp
  moreover have "mutex_unlock Eth_Command_Send (?s\<lparr>chip := d'\<rparr>) = s\<lparr>chip := d'\<rparr>"
    using assms(3) by (simp add: mutex_unlock_def set_locked_def fun_upd_idem)
  ultimately show ?thesis using d assms(3) by (auto simp: socket_command_def)
qed

lemma sent_flag: "bit (ir :: byte) 4 \<Longrightarrow> ir AND (INT_SENDOK OR INT_TIMEOUT) \<noteq> 0 \<and> (ir AND (INT_SENDOK OR INT_TIMEOUT)) AND INT_SENDOK \<noteq> 0"
proof -
  assume "bit ir 4"
  then have "bit ((ir AND (INT_SENDOK OR INT_TIMEOUT)) AND INT_SENDOK) 4"
    by (simp add: bit_and_iff bit_or_iff INT_SENDOK_def INT_TIMEOUT_def)
  then have "(ir AND (INT_SENDOK OR INT_TIMEOUT)) AND INT_SENDOK \<noteq> 0" by auto
  moreover from this have "ir AND (INT_SENDOK OR INT_TIMEOUT) \<noteq> 0" by auto
  ultimately show ?thesis by blast
qed

lemma send_completes:
  assumes "reads_plainly (hardware env) m sent" "writes_plainly (hardware env) m sent plain" "plain \<noteq> {}"
    and "\<not> locked s Eth_Spi" "\<not> locked s Eth_Transaction" "i < 4" "bit (m (chip s) (sn SN_IR i)) 4"
  shows "\<exists>d'. wait_send_complete env i s = Some (s\<lparr>chip := d'\<rparr>, 0) \<and> sent d' = sent (chip s) \<and>
    (\<forall>a\<in>plain. a \<noteq> sn SN_IR i \<longrightarrow> m d' a = m (chip s) a)"
proof -
  let ?s = "set_locked Eth_Transaction True s"
  have s: "\<not> locked ?s Eth_Spi" using assms(4) by (simp add: set_locked_def)
  obtain d1 where d1: "eth_read8 env (sn SN_IR i) ?s = Some (?s\<lparr>chip := d1\<rparr>, m (chip s) (sn SN_IR i))" "m d1 = m (chip s)" "sent d1 = sent (chip s)"
    using read8_plain [OF assms(1) s, of "sn SN_IR i"] by (auto simp: set_locked_def)
  define ir where "ir = m (chip s) (sn SN_IR i) AND (INT_SENDOK OR INT_TIMEOUT)"
  have ir: "ir \<noteq> 0" "ir AND INT_SENDOK \<noteq> 0" using sent_flag [OF assms(7)] by (simp_all add: ir_def)
  have aw: "await_sent env i ?s = Some (?s\<lparr>chip := d1\<rparr>, ir)"
    using d1(1) ir(1) by (subst await_sent.simps) (simp add: ir_def [symmetric] Let_def)
  have c: "\<forall>k<length [INT_SENDOK]. \<forall>j<4. sn SN_IR i + of_nat k \<noteq> sn SN_CR j"
    using sn_apart [OF assms(6), of _ SN_IR] by simp
  have s1: "\<not> locked (?s\<lparr>chip := d1\<rparr>) Eth_Spi" using s by (simp add: set_locked_def)
  obtain d2 where d2: "eth_write_mem env (sn SN_IR i) [INT_SENDOK] (?s\<lparr>chip := d1\<rparr>) = Some (?s\<lparr>chip := d2\<rparr>)" "sent d2 = sent (chip s)"
      "\<forall>a\<in>plain. m d2 a = (if unat (a - sn SN_IR i) < 1 then INT_SENDOK else m (chip s) a)"
    using regs_write [OF assms(2) s1 assms(3) c] d1(2,3) by auto
  have "mutex_unlock Eth_Transaction (?s\<lparr>chip := d2\<rparr>) = s\<lparr>chip := d2\<rparr>"
    using assms(5) by (simp add: mutex_unlock_def set_locked_def fun_upd_idem)
  then show ?thesis using assms(5) aw ir(2) d2 by (auto simp: wait_send_complete_def unat_eq_zero)
qed

lemma pointer_regs_outside:
  assumes "wiz_geometry x" "a \<in> {sn SN_TX_WR (index x), sn SN_TX_WR (index x) + 1, sn SN_TX_RD (index x), sn SN_TX_RD (index x) + 1}"
  shows "2048 \<le> unat (a - txbuf_start x)"
proof -
  have "index x < 4" "txbuf_start x = S0_TX_BASE + ucast (index x) * 0x800" using assms(1) by (simp_all add: wiz_geometry_def)
  with assms(2) less4_cases [of "index x"] show ?thesis
    by (auto simp: sn_def SN_TX_WR_def SN_TX_RD_def S0_TX_BASE_def)
qed

lemma pointer_regs_plain:
  assumes "eth_memory \<subseteq> plain" "i < 4"
  shows "sn SN_TX_WR i \<in> plain" "sn SN_TX_WR i + 1 \<in> plain" "sn SN_TX_RD i \<in> plain" "sn SN_TX_RD i + 1 \<in> plain"
    "sn SN_RX_RD i \<in> plain" "sn SN_RX_RD i + 1 \<in> plain"
  using assms(1) less4_cases [OF assms(2)] unfolding eth_memory_def by auto

lemma ring_bytes_cong:
  assumes "\<forall>a. 0x4000 \<le> a \<longrightarrow> f a = g a" "index x < 4" "start = S0_TX_BASE + ucast (index x) * 0x800"
  shows "ring_bytes f start off n = ring_bytes g start off n"
proof -
  have "0x4000 \<le> ring_addr start off k" for k
    unfolding ring_addr_def using assms(2,3) by (intro buffer_high) auto
  then show ?thesis using assms(1) by (simp add: ring_bytes_def)
qed

text \<open>After the bytes are in the buffer and the write pointer has moved, they are what is pending.\<close>

lemma tx_buffer_pending:
  assumes chip: "w5100s (hardware env) m sent plain" "eth_memory \<subseteq> plain"
    and free: "\<not> locked s Eth_Spi" and x: "wiz_geometry x" and n: "unat n \<le> 2048"
    and empty: "reg16 (m (chip s)) (sn SN_TX_RD (index x)) = reg16 (m (chip s)) (sn SN_TX_WR (index x))"
  shows "\<exists>d2 d3. write_txbuf env x frame (ucast n) s = Some (s\<lparr>chip := d2\<rparr>) \<and>
    add_to_socket_pointer_reg env (sn SN_TX_WR (index x)) n (s\<lparr>chip := d2\<rparr>) = Some (s\<lparr>chip := d3\<rparr>) \<and>
    sent d3 = sent (chip s) \<and> tx_pending (m d3) (index x) = mem_bytes (net_mem s) frame (unat n) \<and>
    reg16 (m d3) (sn SN_TX_WR (index x)) = reg16 (m (chip s)) (sn SN_TX_WR (index x)) + ucast n"
proof -
  note w = w5100sD [OF chip(1)]
  let ?i = "index x" and ?wr = "sn SN_TX_WR (index x)" and ?rd = "sn SN_TX_RD (index x)" and ?bs = "mem_bytes (net_mem s) frame (unat n)"
  let ?old = "reg16 (m (chip s)) ?wr" and ?n = "ucast n :: u16"
  let ?ring = "ring_store (m (chip s)) (txbuf_start x) (unat ?old mod 2048) ?bs"
  have i: "?i < 4" "txbuf_start x = S0_TX_BASE + ucast ?i * 0x800" using x by (simp_all add: wiz_geometry_def)
  note p = pointer_regs_plain [OF chip(2) i(1)]
  have un: "unat ?n = unat n" using n by (simp add: unsigned_ucast_eq take_bit_eq_mod)
  obtain d2 where d2: "write_txbuf env x frame ?n s = Some (s\<lparr>chip := d2\<rparr>)" "sent d2 = sent (chip s)" "\<forall>a\<in>plain. m d2 a = ?ring a"
    using write_txbuf_stores [OF w(1,2) x free, of ?n frame] p(1) n un by auto
  have regs2: "reg16 (m d2) ?wr = ?old" "reg16 (m d2) ?rd = ?old"
    using d2(3) p pointer_regs_outside [OF x] empty by (simp_all add: reg16_def ring_store_out)
  have lk: "\<not> locked (s\<lparr>chip := d2\<rparr>) Eth_Spi" using free by simp
  obtain d3 where d3: "add_to_socket_pointer_reg env ?wr n (s\<lparr>chip := d2\<rparr>) = Some (s\<lparr>chip := d3\<rparr>)" "sent d3 = sent (chip s)"
      "reg16 (m d3) ?wr = ?old + ?n" "\<forall>a\<in>plain. a \<noteq> ?wr \<longrightarrow> a \<noteq> ?wr + 1 \<longrightarrow> m d3 a = m d2 a"
    using pointer_reg_adds [OF w(1,2) lk i(1) _ p(1,2), of n] regs2(1) d2(2) by auto
  have "?rd \<noteq> ?wr" "?rd \<noteq> ?wr + 1" "?rd + 1 \<noteq> ?wr" "?rd + 1 \<noteq> ?wr + 1"
    by (simp_all add: sn_def SN_TX_RD_def SN_TX_WR_def)
  then have regs3: "reg16 (m d3) ?rd = ?old" using d3(4) p(3,4) regs2(2) by (simp add: reg16_def)
  have "m d3 a = ?ring a" if "0x4000 \<le> a" for a
  proof -
    have "a \<in> plain" using that chip(2) by (auto simp: eth_memory_def)
    moreover have "a \<noteq> ?wr" "a \<noteq> ?wr + 1" using that less4_cases [OF i(1)] by (auto simp: sn_def SN_TX_WR_def word_le_nat_alt)
    ultimately show ?thesis using d3(4) d2(3) by simp
  qed
  then have "tx_pending (m d3) ?i = ring_bytes ?ring (txbuf_start x) (unat ?old mod 2048) (unat ?n)"
    using ring_bytes_cong [OF _ i(1) i(2), of "m d3" ?ring] d3(3) regs3 i(2) by (simp add: tx_pending_def Let_def)
  also have "\<dots> = ?bs" using ring_store_bytes [of "unat ?old mod 2048" ?bs] n un by simp
  finally show ?thesis using d2(1) d3 by blast
qed

text \<open>One segment: a call with at most as many bytes as the buffer has, while nothing is pending.\<close>

definition tx_ready :: "'d net_env \<Rightarrow> ('d \<Rightarrow> u16 \<Rightarrow> byte) \<Rightarrow> ('d \<Rightarrow> (u32 \<times> byte list) list) \<Rightarrow> wiz_socket \<Rightarrow> addr \<Rightarrow> 'd net \<Rightarrow> bool" where
  "tx_ready env m sent x sock s \<longleftrightarrow> (\<exists>plain. w5100s (hardware env) m sent plain \<and> eth_memory \<subseteq> plain) \<and>
     locked s = (\<lambda>_. False) \<and> wiz_sockets s sock = Some x \<and> wiz_geometry x \<and>
     reg16 (m (chip s)) (sn SN_TX_RD (index x)) = reg16 (m (chip s)) (sn SN_TX_WR (index x))"

lemma tx_free_space:
  assumes "tx_ready env m sent x sock s"
  shows "\<exists>d'. socket_txbuf_free_space env (index x) s = Some (s\<lparr>chip := d'\<rparr>, 2048) \<and> m d' = m (chip s) \<and> sent d' = sent (chip s)"
proof -
  obtain plain where "w5100s (hardware env) m sent plain" using assms by (auto simp: tx_ready_def)
  note w = w5100sD(1,5) [OF this]
  have i: "index x < 4" using assms by (simp add: tx_ready_def wiz_geometry_def)
  have "\<not> locked s Eth_Spi" using assms by (simp add: tx_ready_def)
  from read16_plain [OF w(1) this, of "sn SN_TX_FSR (index x)"] obtain d' where
    d': "eth_read16 env (sn SN_TX_FSR (index x)) s = Some (s\<lparr>chip := d'\<rparr>, reg16 (m (chip s)) (sn SN_TX_FSR (index x)))"
      "m d' = m (chip s)" "sent d' = sent (chip s)" by blast
  have "reg16 (m (chip s)) (sn SN_TX_FSR (index x)) = 2048" using w(2) i assms by (simp add: free_space_law_def tx_ready_def)
  then show ?thesis using d' by (intro exI [of _ d']) (simp add: socket_txbuf_free_space_def)
qed

lemma tx_ready_chip:
  "tx_ready env m sent x sock s \<Longrightarrow> reg16 (m d) (sn SN_TX_RD (index x)) = reg16 (m d) (sn SN_TX_WR (index x)) \<Longrightarrow>
   tx_ready env m sent x sock (s\<lparr>chip := d\<rparr>)"
  by (simp add: tx_ready_def)

lemma tx_one_segment:
  assumes ready: "tx_ready env m sent x sock s" and n: "n \<noteq> 0" "unat n \<le> 2048"
  shows "\<exists>d'. tx_run env sock (Tx_Frame frame n) s = Some (s\<lparr>chip := d'\<rparr>, n) \<and>
    sent d' = sent (chip s) @ [(index x, mem_bytes (net_mem s) frame (unat n))] \<and>
    reg16 (m d') (sn SN_TX_WR (index x)) = reg16 (m (chip s)) (sn SN_TX_WR (index x)) + ucast n \<and>
    tx_ready env m sent x sock (s\<lparr>chip := d'\<rparr>)"
proof -
  obtain plain where chip: "w5100s (hardware env) m sent plain" "eth_memory \<subseteq> plain" using ready by (auto simp: tx_ready_def)
  have x: "wiz_sockets s sock = Some x" "wiz_geometry x" "index x < 4"
    and lk: "\<not> locked (s\<lparr>chip := d\<rparr>) l" for d l using ready by (simp_all add: tx_ready_def wiz_geometry_def)
  let ?i = "index x" and ?wr = "sn SN_TX_WR (index x)" and ?rd = "sn SN_TX_RD (index x)" and ?bs = "mem_bytes (net_mem s) frame (unat n)"
  let ?new = "reg16 (m (chip s)) ?wr + ucast n"
  note w = w5100sD [OF chip(1)] and p = pointer_regs_plain [OF chip(2) x(3)]
  have ne: "plain \<noteq> {}" using p(1) by blast
  obtain d1 where d1: "socket_txbuf_free_space env ?i s = Some (s\<lparr>chip := d1\<rparr>, 2048)" "m d1 = m (chip s)" "sent d1 = sent (chip s)"
    using tx_free_space [OF ready] by blast
  obtain d2 d3 where d3: "write_txbuf env x frame (ucast n) (s\<lparr>chip := d1\<rparr>) = Some (s\<lparr>chip := d2\<rparr>)"
      "add_to_socket_pointer_reg env ?wr n (s\<lparr>chip := d2\<rparr>) = Some (s\<lparr>chip := d3\<rparr>)"
      "sent d3 = sent (chip s)" "tx_pending (m d3) ?i = ?bs" "reg16 (m d3) ?wr = ?new"
    using tx_buffer_pending [OF chip _ x(2) n(2), where s = "s\<lparr>chip := d1\<rparr>" and frame = frame] lk ready d1
    by (auto simp: net_mem_def tx_ready_def)
  have "\<exists>d4. socket_command env ?i CMD_SEND (s\<lparr>chip := d3\<rparr>) = Some (s\<lparr>chip := d4\<rparr>) \<and>
      sent d4 = sent (chip s) @ [(?i, ?bs)] \<and> bit (m d4 (sn SN_IR ?i)) 4 \<and> reg16 (m d4) ?rd = ?new \<and>
      (\<forall>a\<in>plain. a \<noteq> ?rd \<longrightarrow> a \<noteq> ?rd + 1 \<longrightarrow> m d4 a = m d3 a)"
    using send_command [OF chip(1) lk lk x(3), of d3] d3(3,4,5) by simp
  then obtain d4 where d4: "socket_command env ?i CMD_SEND (s\<lparr>chip := d3\<rparr>) = Some (s\<lparr>chip := d4\<rparr>)"
      "sent d4 = sent (chip s) @ [(?i, ?bs)]" "bit (m d4 (sn SN_IR ?i)) 4" "reg16 (m d4) ?rd = ?new"
      "\<forall>a\<in>plain. a \<noteq> ?rd \<longrightarrow> a \<noteq> ?rd + 1 \<longrightarrow> m d4 a = m d3 a" by blast
  have "\<exists>d5. wait_send_complete env ?i (s\<lparr>chip := d4\<rparr>) = Some (s\<lparr>chip := d5\<rparr>, 0) \<and> sent d5 = sent d4 \<and>
      (\<forall>a\<in>plain. a \<noteq> sn SN_IR ?i \<longrightarrow> m d5 a = m d4 a)"
    using send_completes [OF w(1,2) ne lk lk x(3), of d4] d4(3) by simp
  then obtain d5 where d5: "wait_send_complete env ?i (s\<lparr>chip := d4\<rparr>) = Some (s\<lparr>chip := d5\<rparr>, 0)" "sent d5 = sent d4"
      "\<forall>a\<in>plain. a \<noteq> sn SN_IR ?i \<longrightarrow> m d5 a = m d4 a" by blast
  have "?wr \<noteq> ?rd" "?wr \<noteq> ?rd + 1" "?wr + 1 \<noteq> ?rd" "?wr + 1 \<noteq> ?rd + 1" "?wr \<noteq> sn SN_IR ?i" "?wr + 1 \<noteq> sn SN_IR ?i"
    "?rd \<noteq> sn SN_IR ?i" "?rd + 1 \<noteq> sn SN_IR ?i"
    by (simp_all add: sn_def SN_TX_RD_def SN_TX_WR_def SN_IR_def)
  then have regs: "reg16 (m d5) ?wr = ?new" "reg16 (m d5) ?rd = ?new"
    using d5(3) d4(4,5) d3(5) p(1-4) by (simp_all add: reg16_def)
  have "\<not> 2048 < n" using n(2) by (simp add: word_less_nat_alt)
  then have "tx_run env sock (Tx_Frame frame n) s = Some (s\<lparr>chip := d5\<rparr>, n)"
    by (subst tx_run.simps) (simp add: n(1) x(1) d1(1) d3(1,2) d4(1) d5(1))
  then show ?thesis using d5(2) d4(2) regs tx_ready_chip [OF ready, of d5] by (intro exI [of _ d5]) simp
qed

text \<open>The segments of 2048 bytes that a longer call sends.\<close>

definition tx_pieces :: "mem \<Rightarrow> u32 \<Rightarrow> addr \<Rightarrow> nat \<Rightarrow> nat \<Rightarrow> (u32 \<times> byte list) list" where
  "tx_pieces m i frame j k = map (\<lambda>l. (i, mem_bytes m (frame + of_nat (2048 * l)) 2048)) [j..<k]"

lemma tx_rest_sends:
  assumes "tx_ready env m sent x sock s" "j \<le> k" "unat n \<le> 2048 * k" "2048 * k < unat n + 2048" "2048 * k < 2 ^ 32"
  shows "\<exists>d'. tx_run env sock (Tx_Rest frame n (of_nat (2048 * j))) s = Some (s\<lparr>chip := d'\<rparr>, of_nat (2048 * k)) \<and>
    sent d' = sent (chip s) @ tx_pieces (net_mem s) (index x) frame j k"
  using assms
proof (induction "k - j" arbitrary: j s)
  case 0
  then have j: "j = k" by simp
  have u: "unat (of_nat (2048 * k) :: u32) = 2048 * k" using 0 by (intro unat_of_nat_less) simp
  have "\<not> of_nat (2048 * k) < n" using 0 unfolding word_less_nat_alt u by linarith
  then have "tx_run env sock (Tx_Rest frame n (of_nat (2048 * k))) s = Some (s, of_nat (2048 * k))"
    by (subst tx_run.simps) simp
  then show ?case unfolding j by (intro exI [of _ "chip s"]) (simp add: tx_pieces_def)
next
  case (Suc r)
  then have j: "j < k" by simp
  have u: "unat (of_nat (2048 * j) :: u32) = 2048 * j" using Suc j by (intro unat_of_nat_less) simp
  have "2048 * j < unat n" using j Suc.prems(4) by linarith
  then have less: "of_nat (2048 * j) < n" unfolding word_less_nat_alt u .
  obtain d1 where d1: "socket_txbuf_free_space env (index x) s = Some (s\<lparr>chip := d1\<rparr>, 2048)" "m d1 = m (chip s)" "sent d1 = sent (chip s)"
    using tx_free_space [OF Suc.prems(1)] by blast
  have r1: "tx_ready env m sent x sock (s\<lparr>chip := d1\<rparr>)"
    using Suc.prems(1) d1(2) by (intro tx_ready_chip) (simp_all add: tx_ready_def)
  have "unat (2048 :: u32) = 2048" "(2048 :: u32) \<noteq> 0" by simp_all
  with tx_one_segment [OF r1, of 2048 "frame + of_nat (2048 * j)"] d1(3) obtain d2 where
    d2: "tx_run env sock (Tx_Frame (frame + of_nat (2048 * j)) 2048) (s\<lparr>chip := d1\<rparr>) = Some (s\<lparr>chip := d2\<rparr>, 2048)"
      "sent d2 = sent (chip s) @ [(index x, mem_bytes (net_mem s) (frame + of_nat (2048 * j)) 2048)]"
      "tx_ready env m sent x sock (s\<lparr>chip := d2\<rparr>)"
    by (auto simp: net_mem_def)
  have "r = k - Suc j" using Suc.hyps(2) by linarith
  from Suc.hyps(1) [OF this d2(3)] j Suc.prems obtain d3 where
    d3: "tx_run env sock (Tx_Rest frame n (of_nat (2048 * Suc j))) (s\<lparr>chip := d2\<rparr>) = Some (s\<lparr>chip := d3\<rparr>, of_nat (2048 * k))"
      "sent d3 = sent d2 @ tx_pieces (net_mem s) (index x) frame (Suc j) k"
    by (auto simp: net_mem_def)
  have x: "wiz_sockets s sock = Some x" using Suc.prems(1) by (simp add: tx_ready_def)
  have next_j: "of_nat (2048 * j) + (2048 :: u32) = of_nat (2048 * Suc j)" by simp
  have "tx_run env sock (Tx_Rest frame n (of_nat (2048 * j))) s = Some (s\<lparr>chip := d3\<rparr>, of_nat (2048 * k))"
    using less x d1(1) d2(1) d3(1) unfolding next_j [symmetric] by (subst tx_run.simps) (simp del: of_nat_mult)
  moreover have "tx_pieces (net_mem s) (index x) frame j k =
      (index x, mem_bytes (net_mem s) (frame + of_nat (2048 * j)) 2048) # tx_pieces (net_mem s) (index x) frame (Suc j) k"
    using j by (simp add: tx_pieces_def upt_conv_Cons)
  ultimately show ?case using d2(2) d3(2) by (intro exI [of _ d3]) simp
qed

section \<open>Receiving a frame\<close>

lemma receive_command:
  assumes "w5100s (hardware env) m sent plain" "\<not> locked s Eth_Spi" "\<not> locked s Eth_Command_Send" "i < 4"
  shows "\<exists>d'. socket_command env i CMD_RECV s = Some (s\<lparr>chip := d'\<rparr>) \<and> sent d' = sent (chip s) \<and>
    (\<forall>a\<in>plain. m d' a = m (chip s) a)"
proof -
  note w = w5100sD [OF assms(1)]
  let ?d = "eth_frame_write (hardware env) (sn SN_CR i) CMD_RECV (chip s)"
  have d: "sent ?d = sent (chip s)" "m ?d (sn SN_CR i) = 0" "\<forall>a\<in>plain. m ?d a = m (chip s) a"
    using w(4) assms(4) unfolding receives_plainly_def Let_def by blast+
  let ?s = "set_locked Eth_Command_Send True s"
  have s: "\<not> locked ?s Eth_Spi" "\<not> locked (?s\<lparr>chip := ?d\<rparr>) Eth_Spi" using assms(2) by (simp_all add: set_locked_def)
  have "eth_write_mem env (sn SN_CR i) [CMD_RECV] ?s = Some (?s\<lparr>chip := ?d\<rparr>)"
    by (subst write_mem_free [OF s(1)]) (simp add: write_bytes_frame set_locked_def del: eth_write_bytes.simps(2))
  moreover obtain d' where d': "eth_read8 env (sn SN_CR i) (?s\<lparr>chip := ?d\<rparr>) = Some (?s\<lparr>chip := d'\<rparr>, 0)" "m d' = m ?d" "sent d' = sent ?d"
    using read8_plain [OF w(1) s(2), of "sn SN_CR i"] d(2) by auto
  moreover have "await_command env i (?s\<lparr>chip := ?d\<rparr>) = Some (?s\<lparr>chip := d'\<rparr>)"
    using d'(1) by (subst await_command.simps) simp
  moreover have "mutex_unlock Eth_Command_Send (?s\<lparr>chip := d'\<rparr>) = s\<lparr>chip := d'\<rparr>"
    using assms(3) by (simp add: mutex_unlock_def set_locked_def fun_upd_idem)
  ultimately show ?thesis using d assms(3) by (auto simp: socket_command_def)
qed

lemma rx_frame_receives:
  assumes chip: "w5100s (hardware env) m sent plain" "eth_memory \<subseteq> plain" "clock_plainly (hardware env) m sent"
    and free: "locked s = (\<lambda>_. False)"
    and x: "wiz_sockets s sock = Some x" "wiz_geometry x"
    and ready: "mode x = TCP \<Longrightarrow> m (chip s) (sn SN_IR (index x)) AND INT_RECV \<noteq> 0"
    and rsr: "rsr = reg16 (m (chip s)) (sn SN_RX_RSR (index x))" "rsr \<noteq> 0" "unat rsr \<le> 2048"
    and n: "n = min (unat (ucast count :: u16)) (unat rsr)" and rd: "rd = reg16 (m (chip s)) (sn SN_RX_RD (index x))"
  shows "\<exists>d'. rx_frame env sock buf count s = Some (set_net_mem (s\<lparr>chip := d'\<rparr>) (stored (net_mem s) buf
      (ring_bytes (m (chip s)) (rxbuf_start x) (unat rd mod 2048) n)), int n) \<and>
    reg16 (m d') (sn SN_RX_RD (index x)) = rd + of_nat n"
proof -
  note w = w5100sD [OF chip(1)]
  let ?i = "index x" and ?rd = "sn SN_RX_RD (index x)"
  have i: "?i < 4" using x(2) by (simp add: wiz_geometry_def)
  note p = pointer_regs_plain [OF chip(2) i]
  have lk: "\<not> locked (s\<lparr>chip := d\<rparr>) l" "\<not> locked s l" for d l using free by simp_all
  obtain d1 where d1: "eth_read8 env (sn SN_IR ?i) s = Some (s\<lparr>chip := d1\<rparr>, m (chip s) (sn SN_IR ?i))" "m d1 = m (chip s)" "sent d1 = sent (chip s)"
    using read8_plain [OF w(1) lk(2), of "sn SN_IR ?i"] by auto
  let ?bs = "ring_bytes (m (chip s)) (rxbuf_start x) (unat rd mod 2048) n" and ?len = "min (ucast count) rsr"
  have len: "unat ?len = n" by (simp add: n min_def word_le_nat_alt)
  obtain d2 where d2: "read_rxbuf env x buf (ucast count) (s\<lparr>chip := d1\<rparr>) =
      Some (set_net_mem (s\<lparr>chip := d2\<rparr>) (stored (net_mem s) buf ?bs), ?len)" "m d2 = m (chip s)" "sent d2 = sent (chip s)"
    using read_rxbuf_reads [OF w(1) chip(3) x(2) lk(1), of rsr d1 buf "ucast count"] rsr d1 by (auto simp: net_mem_def n rd)
  let ?s2 = "set_net_mem (s\<lparr>chip := d2\<rparr>) (stored (net_mem s) buf ?bs)"
  have s2: "\<not> locked ?s2 l" "chip ?s2 = d2" for l using lk by (simp_all add: set_net_mem_def)
  obtain d3 where d3: "add_to_socket_pointer_reg env ?rd (ucast ?len) ?s2 = Some (?s2\<lparr>chip := d3\<rparr>)"
      "reg16 (m d3) ?rd = rd + ucast (ucast ?len :: u32)"
    using pointer_reg_adds [OF w(1,2) s2(1) i _ p(5,6), of "ucast ?len"] s2(2) d2(2) by (auto simp: rd)
  have s3: "\<not> locked (?s2\<lparr>chip := d3\<rparr>) l" for l using s2(1) by simp
  obtain d4 where d4: "socket_command env ?i CMD_RECV (?s2\<lparr>chip := d3\<rparr>) = Some (?s2\<lparr>chip := d3, chip := d4\<rparr>)"
      "\<forall>a\<in>plain. m d4 a = m d3 a"
    using receive_command [OF chip(1) s3 s3 i] by auto
  have pick: "(if mode x = TCP \<and> m (chip s) (sn SN_IR ?i) AND INT_RECV = 0 then wait_for_socket env ?i (s\<lparr>chip := d1\<rparr>)
      else Some (s\<lparr>chip := d1\<rparr>)) = Some (s\<lparr>chip := d1\<rparr>)" using ready by auto
  have un: "uint ?len = int n" unfolding uint_nat len ..
  have "rx_frame env sock buf count s = Some (set_net_mem (s\<lparr>chip := d4\<rparr>) (stored (net_mem s) buf ?bs), int n)"
    using x(1) d1(1) d2(1) d3(1) d4(1) pick un
    by (simp add: rx_frame_def) (simp add: set_net_mem_def)
  moreover have "(ucast (ucast ?len :: u32) :: u16) = of_nat n" unfolding len [symmetric]
    by (rule bit_eqI) (auto simp: bit_simps)
  ultimately show ?thesis using d3(2) d4(2) p(5,6) by (intro exI [of _ d4]) (simp add: reg16_def)
qed

end
