(* ===== verification/Ethernet_Simulator.thy ===== *)
theory Ethernet_Simulator
  imports Ethernet_Frames
begin

text \<open>
  A chip that meets the specification, as a program: registers, the bytes of the access that is going on, and what it has
  transmitted. It shows that the specification can be met, and carries the examples of the properties about frames.
\<close>

section \<open>A chip\<close>

text \<open>
  A chip that does this: its registers and buffers, the bytes of the access that is going on, and what it has
  transmitted. The free space is computed from the pointers.
\<close>

record w_sim =
  regs :: "u16 \<Rightarrow> byte"
  access :: "byte list"
  wires :: "(u32 \<times> byte list) list"

definition w_free :: "(u16 \<Rightarrow> byte) \<Rightarrow> u32 \<Rightarrow> u16" where
  "w_free f i = 2048 - (reg16 f (sn SN_TX_WR i) - reg16 f (sn SN_TX_RD i))"

definition w_read :: "w_sim \<Rightarrow> u16 \<Rightarrow> byte" where
  "w_read c r =
     (case find (\<lambda>i. r = sn SN_TX_FSR i) [0, 1, 2, 3] of
        Some i \<Rightarrow> ucast (drop_bit 8 (w_free (regs c) i))
      | None \<Rightarrow> (case find (\<lambda>i. r = sn SN_TX_FSR i + 1) [0, 1, 2, 3] of
           Some i \<Rightarrow> ucast (w_free (regs c) i)
         | None \<Rightarrow> regs c r))"

definition w_command :: "u32 \<Rightarrow> byte \<Rightarrow> w_sim \<Rightarrow> w_sim" where
  "w_command i v c =
     (if v = CMD_SEND
      then c\<lparr>wires := wires c @ [(i, tx_pending (w_read c) i)],
             regs := (regs c)(sn SN_CR i := 0, sn SN_IR i := 0x10,
               sn SN_TX_RD i := regs c (sn SN_TX_WR i), sn SN_TX_RD i + 1 := regs c (sn SN_TX_WR i + 1))\<rparr>
      else c\<lparr>regs := (regs c)(sn SN_CR i := 0)\<rparr>)"

definition w_write :: "u16 \<Rightarrow> byte \<Rightarrow> w_sim \<Rightarrow> w_sim" where
  "w_write r v c =
     (case find (\<lambda>i. r = sn SN_CR i) [0, 1, 2, 3] of
        Some i \<Rightarrow> w_command i v c
      | None \<Rightarrow> c\<lparr>regs := (regs c)(r := v)\<rparr>)"

definition w_exchange :: "nat \<Rightarrow> byte \<Rightarrow> w_sim \<Rightarrow> w_sim \<times> byte" where
  "w_exchange block v c =
     (let f = access c in
      if length f < 3 then (c\<lparr>access := f @ [v]\<rparr>, of_nat (length f))
      else let r = word16 (f ! 2) (f ! 1)
           in if f ! 0 = 0xf0 then (w_write r v c, 3) else (c, w_read c r))"

definition w_hardware :: "w_sim hardware" where
  "w_hardware = \<lparr>spi_exchange = w_exchange, put_pin = (\<lambda>_ _ c. c\<lparr>access := []\<rparr>), spi_set_baudrate = (\<lambda>_ _ _ c. c),
     delay_ms = (\<lambda>_ c. c), ms_since_boot = (\<lambda>c. (c, 0)), set_up = (\<lambda>_ c. c)\<rparr>"

lemma w_io:
  "spi_tx w_hardware block v c = fst (w_exchange block v c)" "spi_rx w_hardware block c = w_exchange block 0xff c"
  "put_pin w_hardware p b c = c\<lparr>access := []\<rparr>"
  by (simp_all add: w_hardware_def spi_tx_def spi_rx_def)

lemma w_frame_write: "eth_frame_write w_hardware r v c = (w_write r v (c\<lparr>access := [0xf0, ucast (drop_bit 8 r), ucast r]\<rparr>))\<lparr>access := []\<rparr>"
  using word16_bytes16 [of r] by (simp add: eth_frame_write_def w_io w_exchange_def)

lemma w_frame_read: "eth_frame_read w_hardware r c = (c\<lparr>access := []\<rparr>, w_read c r)"
  using word16_bytes16 [of r] by (simp add: eth_frame_read_def w_io w_exchange_def Let_def w_read_def)

lemma w_read_access [simp]: "w_read (c\<lparr>access := f\<rparr>) = w_read c" "w_read (c\<lparr>wires := g\<rparr>) = w_read c"
proof -
  have r: "regs (c\<lparr>access := f\<rparr>) = regs c" "regs (c\<lparr>wires := g\<rparr>) = regs c" by simp_all
  show "w_read (c\<lparr>access := f\<rparr>) = w_read c" by (rule ext) (simp only: w_read_def r)
  show "w_read (c\<lparr>wires := g\<rparr>) = w_read c" by (rule ext) (simp only: w_read_def r)
qed

lemma w_reads: "reads_plainly w_hardware w_read wires"
  by (simp add: reads_plainly_def w_frame_read)

lemma w_clock: "clock_plainly w_hardware w_read wires"
  by (simp add: clock_plainly_def w_hardware_def)

lemma w_memory: "a \<in> eth_memory \<Longrightarrow> w_read c a = regs c a"
  by (auto simp: w_read_def eth_memory_def sn_def SN_TX_FSR_def SN_TX_WR_def SN_TX_RD_def SN_RX_RD_def word_le_nat_alt)

lemma w_writes: "writes_plainly w_hardware w_read wires eth_memory"
proof -
  have "w_write r v c = c\<lparr>regs := (regs c)(r := v)\<rparr>" if "\<forall>i<4. r \<noteq> sn SN_CR i" for r v c
    using that [rule_format, of 0] that [rule_format, of 1] that [rule_format, of 2] that [rule_format, of 3]
    by (simp add: w_write_def)
  then show ?thesis by (auto simp: writes_plainly_def w_frame_write w_memory)
qed

lemma w_write_command: "i < 4 \<Longrightarrow> w_write (sn SN_CR i) v c = w_command i v c"
  using less4_cases [of i] by (auto simp: w_write_def sn_def SN_CR_def)

lemma w_read_other:
  assumes "i < 4" "r \<in> {sn SN_CR i, sn SN_IR i, sn SN_TX_WR i, sn SN_TX_WR i + 1, sn SN_TX_RD i, sn SN_TX_RD i + 1}"
  shows "w_read c r = regs c r"
  using assms less4_cases [OF assms(1)]
  by (auto simp: w_read_def sn_def SN_CR_def SN_IR_def SN_TX_FSR_def SN_TX_WR_def SN_TX_RD_def)

lemma eth_memory_not_command:
  assumes "i < 4" "a \<in> eth_memory"
  shows "a \<noteq> sn SN_CR i" "a \<noteq> sn SN_IR i"
  using assms(2) less4_cases [OF assms(1)]
  by (auto simp: eth_memory_def sn_def SN_CR_def SN_IR_def SN_TX_WR_def SN_TX_RD_def SN_RX_RD_def word_le_nat_alt)

lemma w_sends: "sends_pending w_hardware w_read wires eth_memory"
  unfolding sends_pending_def Let_def
proof (intro allI impI conjI ballI)
  fix c and i :: u32 assume i: "i < 4"
  let ?c = "eth_frame_write w_hardware (sn SN_CR i) CMD_SEND c"
  have c: "regs ?c = (regs c)(sn SN_CR i := 0, sn SN_IR i := 0x10,
               sn SN_TX_RD i := regs c (sn SN_TX_WR i), sn SN_TX_RD i + 1 := regs c (sn SN_TX_WR i + 1))"
      "wires ?c = wires c @ [(i, tx_pending (w_read c) i)]"
    by (simp_all add: w_frame_write w_write_command [OF i] w_command_def)
  note rd = w_read_other [OF i]
  have ne: "sn SN_CR i \<noteq> sn SN_IR i" "sn SN_CR i \<noteq> sn SN_TX_RD i" "sn SN_CR i \<noteq> sn SN_TX_RD i + 1"
    "sn SN_IR i \<noteq> sn SN_TX_RD i" "sn SN_IR i \<noteq> sn SN_TX_RD i + 1"
    by (simp_all add: sn_def SN_CR_def SN_IR_def SN_TX_RD_def)
  show "wires ?c = wires c @ [(i, tx_pending (w_read c) i)]" by (rule c(2))
  show "w_read ?c (sn SN_CR i) = 0" using rd [of "sn SN_CR i" ?c] ne by (simp add: c(1))
  show "bit (w_read ?c (sn SN_IR i)) 4" using rd [of "sn SN_IR i" ?c] ne by (simp add: c(1))
  show "reg16 (w_read ?c) (sn SN_TX_RD i) = reg16 (w_read c) (sn SN_TX_WR i)"
    using rd ne by (simp add: reg16_def c(1))
  fix a assume a: "a \<in> eth_memory" "a \<noteq> sn SN_TX_RD i" "a \<noteq> sn SN_TX_RD i + 1"
  then show "w_read ?c a = w_read c a"
    using eth_memory_not_command [OF i a(1)] by (simp add: w_memory [OF a(1)] c(1))
qed

lemma w_receives: "receives_plainly w_hardware w_read wires eth_memory"
  unfolding receives_plainly_def Let_def
proof (intro allI impI conjI ballI)
  fix c and i :: u32 assume i: "i < 4"
  let ?c = "eth_frame_write w_hardware (sn SN_CR i) CMD_RECV c"
  have c: "regs ?c = (regs c)(sn SN_CR i := 0)" "wires ?c = wires c"
    by (simp_all add: w_frame_write w_write_command [OF i] w_command_def CMD_SEND_def CMD_RECV_def)
  show "wires ?c = wires c" by (rule c(2))
  show "w_read ?c (sn SN_CR i) = 0" using w_read_other [OF i, of "sn SN_CR i" ?c] by (simp add: c(1))
  fix a assume a: "a \<in> eth_memory"
  then show "w_read ?c a = w_read c a" using eth_memory_not_command [OF i a] by (simp add: w_memory [OF a] c(1))
qed

lemma w_free_law: "free_space_law w_read"
  unfolding free_space_law_def
proof (intro allI impI)
  fix c and i :: u32 assume i: "i < 4"
  have "w_read c (sn SN_TX_FSR i) = ucast (drop_bit 8 (w_free (regs c) i))"
    "w_read c (sn SN_TX_FSR i + 1) = ucast (w_free (regs c) i)"
    using less4_cases [OF i] by (auto simp: w_read_def sn_def SN_TX_FSR_def)
  then have "reg16 (w_read c) (sn SN_TX_FSR i) = w_free (regs c) i" using word16_bytes16 by (simp add: reg16_def)
  also have "\<dots> = w_free (w_read c) i" using w_read_other [OF i] by (simp add: w_free_def reg16_def)
  finally show "reg16 (w_read c) (sn SN_TX_FSR i) = 2048 - (reg16 (w_read c) (sn SN_TX_WR i) - reg16 (w_read c) (sn SN_TX_RD i))"
    by (simp add: w_free_def)
qed

lemma w_chip: "w5100s w_hardware w_read wires eth_memory"
  by (simp add: w5100s_def w_reads w_writes w_sends w_receives w_free_law)

section \<open>An example\<close>

definition net_example :: "w_sim net" where
  "net_example = \<lparr>chip = \<lparr>regs = (\<lambda>_. 0), access = [], wires = []\<rparr>,
     nk = set_memory kernel_example (\<lambda>a. if a < 0x2000 then 65 else 66),
     wiz_sockets = (\<lambda>a. if a = 0x5000 then Some (new_socket 1) else None),
     socket_table = [0, 0x5000, 0, 0], waiting_processes = replicate 4 PNull, socket_interrupts = replicate 4 0,
     interface = \<lparr>mac = replicate 6 0, ip = replicate 4 0, gateway = replicate 4 0, subnet_mask = replicate 4 0\<rparr>,
     locked = (\<lambda>_. False), interfaces = 0\<rparr>"

definition net_env_example :: "w_sim net_env" where
  "net_env_example = \<lparr>hardware = w_hardware, resume = (\<lambda>_. None), rx_frame_fn = 1, tx_frame_fn = 2, active_close_fn = 3\<rparr>"

lemma net_example_ready: "tx_ready net_env_example w_read wires (new_socket 1) 0x5000 net_example"
proof -
  have "reg16 (w_read (chip net_example)) (sn SN_TX_RD 1) = reg16 (w_read (chip net_example)) (sn SN_TX_WR 1)"
    using w_read_other [of 1 _ "chip net_example"] by (simp add: reg16_def) (simp add: net_example_def)
  then show ?thesis using w_chip new_socket_geometry [of 1]
    unfolding tx_ready_def by (auto simp: net_env_example_def net_example_def new_socket_def)
qed

section \<open>Properties\<close>

text \<open>C9: Sending at most 2048 bytes on a socket with nothing pending transmits exactly these bytes as one segment, wherever
  the write pointer of the ring is; the result is their number, the pointer moves by it, and the socket is ready again.\<close>

theorem tx_frame_transmits:
  assumes "tx_ready env m sent x sock s" "0 < n" "unat n \<le> 2048"
  shows "\<exists>s'. tx_frame env sock frame n s = Some (s', int (unat n)) \<and>
    sent (chip s') = sent (chip s) @ [(index x, mem_bytes (net_mem s) frame (unat n))] \<and>
    reg16 (m (chip s')) (sn SN_TX_WR (index x)) = reg16 (m (chip s)) (sn SN_TX_WR (index x)) + ucast n \<and>
    tx_ready env m sent x sock s'"
proof -
  have "n \<noteq> 0" using assms(2) by auto
  from tx_one_segment [OF assms(1) this assms(3), of frame] obtain d' where
    d': "tx_run env sock (Tx_Frame frame n) s = Some (s\<lparr>chip := d'\<rparr>, n)"
      "sent d' = sent (chip s) @ [(index x, mem_bytes (net_mem s) frame (unat n))]"
      "reg16 (m d') (sn SN_TX_WR (index x)) = reg16 (m (chip s)) (sn SN_TX_WR (index x)) + ucast n"
      "tx_ready env m sent x sock (s\<lparr>chip := d'\<rparr>)" by blast
  have "int (unat n) \<le> 2048" using assms(3) by linarith
  then have "uint n < 2 ^ 31" unfolding uint_nat by (rule le_less_trans) simp
  then have "sint n = int (unat n)" unfolding sint_u32_if uint_nat by simp
  then show ?thesis using d' by (intro exI [of _ "s\<lparr>chip := d'\<rparr>"]) (simp add: tx_frame_def)
qed

theorem tx_frame_transmits_witness:
  "\<exists>s'. tx_frame net_env_example 0x5000 0x1ffe 3 net_example = Some (s', 3) \<and> wires (chip s') = [(1, [65, 65, 66])]"
proof -
  have x: "index (new_socket 1) = 1" by (simp add: new_socket_def)
  have b: "mem_bytes (net_mem net_example) 0x1ffe 3 = [65, 65, 66]" "wires (chip net_example) = []"
    by (simp_all add: mem_bytes_def net_mem_def net_example_def memory_k_def set_memory_def upt_rec)
  from tx_frame_transmits [OF net_example_ready, of 3 "0x1ffe"] show ?thesis by (auto simp: x b simp del: One_nat_def)
qed

text \<open>A longer call sends too much: the bytes go out in whole segments of 2048 bytes until at least the requested
  number has been sent, so the last segment reaches beyond the end of the caller's buffer, and the result is larger than
  the request unless this is a multiple of 2048.\<close>

theorem tx_frame_oversends:
  assumes "tx_ready env m sent x sock s" "2048 < unat n" "unat n \<le> 2048 * k" "2048 * k < unat n + 2048" "2048 * k < 2 ^ 31"
  shows "\<exists>s'. tx_frame env sock frame n s = Some (s', int (2048 * k)) \<and>
    sent (chip s') = sent (chip s) @ map (\<lambda>l. (index x, mem_bytes (net_mem s) (frame + of_nat (2048 * l)) 2048)) [0..<k]"
proof -
  obtain d1 where d1: "socket_txbuf_free_space env (index x) s = Some (s\<lparr>chip := d1\<rparr>, 2048)" "m d1 = m (chip s)" "sent d1 = sent (chip s)"
    using tx_free_space [OF assms(1)] by blast
  have r1: "tx_ready env m sent x sock (s\<lparr>chip := d1\<rparr>)"
    using assms(1) d1(2) by (intro tx_ready_chip) (simp_all add: tx_ready_def)
  have small: "2048 * k < 2 ^ 32" using assms(5) by simp
  from tx_rest_sends [OF r1 le0 assms(3,4) small, of frame] d1(3) obtain d2 where
    d2: "tx_run env sock (Tx_Rest frame n 0) (s\<lparr>chip := d1\<rparr>) = Some (s\<lparr>chip := d2\<rparr>, of_nat (2048 * k))"
      "sent d2 = sent (chip s) @ tx_pieces (net_mem s) (index x) frame 0 k" by (auto simp: net_mem_def)
  have n: "n \<noteq> 0" "2048 < n" using assms(2) by (auto simp: word_less_nat_alt)
  have x: "wiz_sockets s sock = Some x" using assms(1) by (simp add: tx_ready_def)
  have "tx_run env sock (Tx_Frame frame n) s = Some (s\<lparr>chip := d2\<rparr>, of_nat (2048 * k))"
    using n x d1(1) d2(1) by (subst tx_run.simps) (simp del: of_nat_mult)
  moreover have "sint (of_nat (2048 * k) :: u32) = int (2048 * k)"
    using assms(5) by (simp add: signed_of_nat signed_take_bit_int_eq_self del: of_nat_mult)
  ultimately show ?thesis using d2(2)
    by (intro exI [of _ "s\<lparr>chip := d2\<rparr>"]) (simp add: tx_frame_def tx_pieces_def del: of_nat_mult)
qed

theorem tx_frame_oversends_witness:
  "\<exists>s'. tx_frame net_env_example 0x5000 0x1000 3000 net_example = Some (s', 4096)"
  using tx_frame_oversends [OF net_example_ready, of 3000 2 "0x1000"] by auto

text \<open>C10: A received segment is delivered: when bytes are waiting in the ring of a socket, \<open>rx_frame\<close> copies as many of them as
  the caller asked for, in order and across the end of the ring, to the buffer, returns their number, and moves the
  read pointer by it.\<close>

theorem rx_frame_delivers:
  assumes "w5100s (hardware env) m sent plain" "eth_memory \<subseteq> plain" "clock_plainly (hardware env) m sent"
    and "locked s = (\<lambda>_. False)" "wiz_sockets s sock = Some x" "wiz_geometry x"
    and "mode x = TCP \<Longrightarrow> m (chip s) (sn SN_IR (index x)) AND INT_RECV \<noteq> 0"
    and "rsr = reg16 (m (chip s)) (sn SN_RX_RSR (index x))" "rsr \<noteq> 0" "unat rsr \<le> 2048"
    and "n = min (unat (ucast count :: u16)) (unat rsr)" "rd = reg16 (m (chip s)) (sn SN_RX_RD (index x))"
  shows "\<exists>s'. rx_frame env sock buf count s = Some (s', int n) \<and>
    net_mem s' = stored (net_mem s) buf (ring_bytes (m (chip s)) (rxbuf_start x) (unat rd mod 2048) n) \<and>
    reg16 (m (chip s')) (sn SN_RX_RD (index x)) = rd + of_nat n"
  using rx_frame_receives [OF assms, of buf]
  by (auto simp: set_net_mem_def net_mem_def memory_k_def set_memory_def)

text \<open>The example with three bytes waiting across the end of the ring of socket 1.\<close>

definition net_received :: "w_sim net" where
  "net_received = net_example\<lparr>chip := \<lparr>regs = (\<lambda>_. 0)(0x0527 := 3, 0x0528 := 0x07, 0x0529 := 0xff,
     0x6fff := 1, 0x6800 := 2, 0x6801 := 3), access = [], wires = []\<rparr>\<rparr>"

theorem rx_frame_delivers_witness:
  "\<exists>s'. rx_frame net_env_example 0x5000 0x3000 100 net_received = Some (s', 3) \<and>
    net_mem s' = stored (net_mem net_received) 0x3000 [1, 2, 3]"
proof -
  have s: "locked net_received = (\<lambda>_. False)" "wiz_sockets net_received 0x5000 = Some (new_socket 1)"
    "hardware net_env_example = w_hardware"
    by (simp_all add: net_received_def net_example_def net_env_example_def)
  have x: "mode (new_socket 1) = CLOSED" "index (new_socket 1) = 1" "rxbuf_start (new_socket 1) = 0x6800"
    by (simp_all add: new_socket_def memory_per_socket_def S0_RX_BASE_def)
  have r: "w_read (chip net_received) a = regs (chip net_received) a" if "a \<in> {0x526, 0x527, 0x528, 0x529, 0x6fff, 0x6800, 0x6801}" for a
    using that by (auto simp: w_read_def sn_def SN_TX_FSR_def)
  have regs: "reg16 (w_read (chip net_received)) (sn SN_RX_RSR 1) = 3" "reg16 (w_read (chip net_received)) (sn SN_RX_RD 1) = 0x07ff"
    using r by (simp_all add: reg16_def sn_def SN_RX_RSR_def SN_RX_RD_def) (simp_all add: net_received_def word16_def)
  have ring: "ring_bytes (w_read (chip net_received)) 0x6800 2047 3 = [1, 2, 3]"
    using r by (simp add: ring_bytes_def ring_addr_def upt_rec) (simp add: net_received_def)
  have chip: "w5100s (hardware net_env_example) w_read wires eth_memory" "clock_plainly (hardware net_env_example) w_read wires"
    using w_chip w_clock s(3) by simp_all
  have tcp: "mode (new_socket 1) = TCP \<Longrightarrow> w_read (chip net_received) (sn SN_IR (index (new_socket 1))) AND INT_RECV \<noteq> 0"
    using x(1) by simp
  have rsr: "3 = reg16 (w_read (chip net_received)) (sn SN_RX_RSR (index (new_socket 1)))" "(3 :: u16) \<noteq> 0" "unat (3 :: u16) \<le> 2048"
    "3 = min (unat (ucast (100 :: u32) :: u16)) (unat (3 :: u16))" "0x07ff = reg16 (w_read (chip net_received)) (sn SN_RX_RD (index (new_socket 1)))"
    unfolding x(2) regs by simp_all
  have "unat (0x07ff :: u16) mod 2048 = 2047" by simp
  then have "ring_bytes (w_read (chip net_received)) (rxbuf_start (new_socket 1)) (unat (0x07ff :: u16) mod 2048) 3 = [1, 2, 3]"
    unfolding x(3) using ring by (simp only:)
  moreover have "1 < (4 :: nat)" by simp
  ultimately show ?thesis
    using rx_frame_delivers [OF chip(1) subset_refl chip(2) s(1,2) new_socket_geometry tcp rsr, of "0x3000"] by auto
qed

lemma other_ring:
  assumes "unat (v :: u16) \<in> {2048, 4096, 6144, 63488, 61440, 59392}" "unat w < 2048"
  shows "2048 \<le> unat (v + w)"
proof -
  have "unat v + unat w < 65536" "2048 \<le> unat v" using assms by auto
  then show ?thesis by (simp add: unat_word_ariths)
qed

text \<open>C24: A socket keeps to its own buffer: whatever the size of the frame, up to the 2048 bytes of the ring, and wherever the
  write pointer is, writing it changes nothing but bytes of this ring, so that the rings of the other sockets and the
  receive buffers keep their contents.\<close>

theorem write_txbuf_in_bounds:
  assumes "w5100s (hardware env) m sent plain" "eth_memory \<subseteq> plain" "wiz_geometry x" "\<not> locked s Eth_Spi" "unat n \<le> 2048"
  shows "\<exists>s'. write_txbuf env x frame n s = Some s' \<and>
    (\<forall>a. 0x4000 \<le> a \<longrightarrow> 2048 \<le> unat (a - txbuf_start x) \<longrightarrow> m (chip s') a = m (chip s) a) \<and>
    (\<forall>y off k. wiz_geometry y \<longrightarrow> index y \<noteq> index x \<longrightarrow>
       m (chip s') (ring_addr (txbuf_start y) off k) = m (chip s) (ring_addr (txbuf_start y) off k))"
proof -
  obtain d' where d': "write_txbuf env x frame n s = Some (s\<lparr>chip := d'\<rparr>)"
      "\<forall>a\<in>plain. m d' a = ring_store (m (chip s)) (txbuf_start x) (unat (reg16 (m (chip s)) (sn SN_TX_WR (index x))) mod 2048)
         (mem_bytes (net_mem s) frame (unat n)) a"
    using write_txbuf_stores [OF w5100sD(1,2) [OF assms(1)] assms(3-5)] by blast
  have out: "m d' a = m (chip s) a" if "0x4000 \<le> a" "2048 \<le> unat (a - txbuf_start x)" for a
    using that d'(2) assms(2) by (auto simp: eth_memory_def ring_store_out)
  have "m d' (ring_addr (txbuf_start y) off k) = m (chip s) (ring_addr (txbuf_start y) off k)"
    if y: "wiz_geometry y" "index y \<noteq> index x" for y off k
  proof (rule out)
    have i: "index y < 4" "index x < 4" "txbuf_start y = S0_TX_BASE + ucast (index y) * 0x800" "txbuf_start x = S0_TX_BASE + ucast (index x) * 0x800"
      using y(1) assms(3) by (simp_all add: wiz_geometry_def)
    show "0x4000 \<le> ring_addr (txbuf_start y) off k"
      unfolding ring_addr_def using i(1,3) by (intro buffer_high) auto
    have "ring_addr (txbuf_start y) off k - txbuf_start x = (txbuf_start y - txbuf_start x) + of_nat ((off + k) mod 2048)"
      by (simp add: ring_addr_def)
    moreover have "unat (of_nat ((off + k) mod 2048) :: u16) < 2048"
      by (subst unat_of_nat_less) (rule less_le_trans [of _ 2048], simp_all)
    moreover have "unat (txbuf_start y - txbuf_start x) \<in> {2048, 4096, 6144, 63488, 61440, 59392}"
      using less4_cases [OF i(1)] less4_cases [OF i(2)] y(2) i(3,4) by (auto simp: S0_TX_BASE_def)
    ultimately show "2048 \<le> unat (ring_addr (txbuf_start y) off k - txbuf_start x)"
      using other_ring [of "txbuf_start y - txbuf_start x" "of_nat ((off + k) mod 2048)"] by (simp add: diff_add_eq)
  qed
  then show ?thesis using d'(1) out by (intro exI [of _ "s\<lparr>chip := d'\<rparr>"]) auto
qed

theorem write_txbuf_in_bounds_witness:
  "\<exists>s'. write_txbuf net_env_example (new_socket 1) 0x1000 2048 net_example = Some s' \<and>
    w_read (chip s') (ring_addr (txbuf_start (new_socket 2)) 5 9) = w_read (chip net_example) (ring_addr (txbuf_start (new_socket 2)) 5 9)"
proof -
  have s: "\<not> locked net_example Eth_Spi" "hardware net_env_example = w_hardware" "index (new_socket 2) \<noteq> index (new_socket 1)"
    by (simp_all add: net_example_def net_env_example_def new_socket_def)
  show ?thesis
    using write_txbuf_in_bounds [of net_env_example w_read wires eth_memory "new_socket 1" net_example 2048 "0x1000"]
      w_chip new_socket_geometry [of 1] new_socket_geometry [of 2] s by auto
qed

end
