(* ===== verification/Sockets.thy ===== *)
theory Sockets
  imports Network Ethernet_Simulator
begin

text \<open>
  Sockets of the network layer over time: who holds a socket over every sequence of creations and destructions, what
  \<open>sys_socket\<close> returns, and that closing a descriptor does not give its socket back.
\<close>

section \<open>Handing out sockets\<close>

text \<open>
  The table of sockets with the sockets that are in use: each of the three that \<open>create_socket\<close> hands out is taken exactly
  when it is held. A run is any sequence of creations and destructions; socket 0 is left to \<open>create_raw_socket\<close>.
\<close>

definition socket_of :: "'d net \<Rightarrow> addr \<Rightarrow> wiz_socket" where
  "socket_of s p = the (wiz_sockets s p)"

definition sockets_ok :: "'d net \<Rightarrow> addr list \<Rightarrow> bool" where
  "sockets_ok s held \<longleftrightarrow> length (socket_table s) = 4 \<and> distinct (socket_table s) \<and>
     (\<forall>i<4. wiz_sockets s (socket_table s ! i) \<noteq> None \<and> \<not> IS_ERR (socket_table s ! i) \<and>
        index (socket_of s (socket_table s ! i)) = of_nat i) \<and>
     distinct held \<and> set held = {p \<in> set (tl (socket_table s)). taken (socket_of s p)}"

inductive socket_run :: "'d net \<Rightarrow> addr list \<Rightarrow> 'd net \<Rightarrow> addr list \<Rightarrow> bool" for s held where
  start: "socket_run s held s held"
| create: "socket_run s held s1 h1 \<Longrightarrow> create_socket s1 = Some (s2, p) \<Longrightarrow> \<not> IS_ERR p \<Longrightarrow> socket_run s held s2 (p # h1)"
| refuse: "socket_run s held s1 h1 \<Longrightarrow> create_socket s1 = Some (s2, p) \<Longrightarrow> IS_ERR p \<Longrightarrow> socket_run s held s2 h1"
| destroy: "socket_run s held s1 h1 \<Longrightarrow> p \<in> set h1 \<Longrightarrow> destroy_socket p s1 = Some (s2, r) \<Longrightarrow>
    socket_run s held s2 (remove1 p h1)"

lemma table4: "length xs = 4 \<Longrightarrow> xs = [xs ! 0, xs ! 1, xs ! 2, xs ! 3]"
  by (auto simp: numeral_eq_Suc length_Suc_conv)

lemma IS_ERR_ENOSOCKFREE [simp]: "IS_ERR (ERR_PTR ENOSOCKFREE)"
  by (simp add: IS_ERR_def ERR_PTR_def ENOSOCKFREE_def MAX_ERRNO_def)

lemma create_socket_cases:
  assumes "sockets_ok s held"
  obtains (full) "create_socket s = Some (s, ERR_PTR ENOSOCKFREE)" "\<forall>i\<in>{1, 2, 3}. taken (socket_of s (socket_table s ! i))"
  | (free) i where "i \<in> {1, 2, 3}" "\<not> taken (socket_of s (socket_table s ! i))"
      "\<forall>j\<in>{1..<i}. taken (socket_of s (socket_table s ! j))"
      "create_socket s = Some (s\<lparr>wiz_sockets := (wiz_sockets s)(socket_table s ! i \<mapsto>
          (socket_of s (socket_table s ! i))\<lparr>taken := True\<rparr>)\<rparr>, socket_table s ! i)"
proof -
  have w: "wiz_sockets s (socket_table s ! i) = Some (socket_of s (socket_table s ! i))" if "i \<in> {1, 2, 3}" for i
    using assms that by (auto simp: sockets_ok_def socket_of_def)
  note w' = w [of 1, simplified] w [of 2, simplified] w [of 3, simplified]
  have l: "length (socket_table s) = 4" using assms by (simp add: sockets_ok_def)
  let ?t = "\<lambda>i. taken (socket_of s (socket_table s ! i))"
  consider "?t 1" "?t 2" "?t 3" | "\<not> ?t 1" | "?t 1" "\<not> ?t 2" | "?t 1" "?t 2" "\<not> ?t 3" by blast
  then show thesis
  proof cases
    case 1
    then show thesis using w' l by (intro full) (simp_all add: create_socket_def)
  next
    case 2
    then show thesis using w' l by (intro free [of 1]) (simp_all add: create_socket_def upd_socket_def)
  next
    case 3
    then show thesis using w' l by (intro free [of 2]) (simp_all add: create_socket_def upd_socket_def numeral_2_eq_2)
  next
    case 4
    then show thesis using w' l
      by (intro free [of 3]) (auto simp: create_socket_def upd_socket_def numeral_eq_Suc atLeastLessThanSuc)
  qed
qed

lemma sockets_ok_set_taken:
  assumes "sockets_ok s held" "i \<in> {1, 2, 3}" "distinct held'"
    and "set held' = (if b then insert (socket_table s ! i) (set held) else set held - {socket_table s ! i})"
  shows "sockets_ok (s\<lparr>wiz_sockets := (wiz_sockets s)(socket_table s ! i \<mapsto>
    (socket_of s (socket_table s ! i))\<lparr>taken := b\<rparr>)\<rparr>) held'"
proof -
  let ?T = "socket_table s" and ?p = "socket_table s ! i"
  let ?s = "s\<lparr>wiz_sockets := (wiz_sockets s)(?p \<mapsto> (socket_of s ?p)\<lparr>taken := b\<rparr>)\<rparr>"
  have T: "length ?T = 4" "distinct ?T" "i < 4" "1 \<le> i" using assms(1,2) by (auto simp: sockets_ok_def)
  have other: "?T ! j = ?p \<longleftrightarrow> j = i" if "j < 4" for j using T that by (simp add: nth_eq_iff_index_eq)
  have p: "?p \<in> set (tl ?T)" using T by (cases ?T) (auto simp: nth_Cons')
  have so: "socket_of (s\<lparr>wiz_sockets := (wiz_sockets s)(?p \<mapsto> x)\<rparr>) q = (if q = ?p then x else socket_of s q)" for q x
    by (simp add: socket_of_def)
  have "set held = {q \<in> set (tl ?T). taken (socket_of s q)}" using assms(1) by (simp add: sockets_ok_def)
  then have "set held' = {q \<in> set (tl ?T). taken (socket_of ?s q)}"
    using assms(4) p by (auto simp: so split: if_splits)
  then show ?thesis using assms(1,3) other by (auto simp: sockets_ok_def so)
qed

lemma sockets_ok_create:
  assumes "sockets_ok s held" "create_socket s = Some (s', p)"
  shows "if IS_ERR p then s' = s \<and> length held = 3 else sockets_ok s' (p # held) \<and> p \<notin> set held"
  using assms(1)
proof (cases rule: create_socket_cases)
  case full
  have T: "length (socket_table s) = 4" "distinct (socket_table s)" using assms(1) by (auto simp: sockets_ok_def)
  have "set (tl (socket_table s)) = {socket_table s ! 1, socket_table s ! 2, socket_table s ! 3}"
    by (subst table4 [OF T(1)]) simp
  then have "set held = set (tl (socket_table s))" using assms(1) full(2) by (auto simp: sockets_ok_def)
  then have "length held = card (set (tl (socket_table s)))" using assms(1) distinct_card [of held] by (simp add: sockets_ok_def)
  also have "\<dots> = 3" using T by (simp add: distinct_card distinct_tl)
  finally show ?thesis using full(1) assms(2) by simp
next
  case (free i)
  let ?p = "socket_table s ! i"
  have h: "?p \<notin> set held" "\<not> IS_ERR ?p" using assms(1) free(1,2) by (auto simp: sockets_ok_def)
  have "sockets_ok s' (?p # held)" "p = ?p"
    using sockets_ok_set_taken [OF assms(1) free(1), of "?p # held" True] h assms free(4) by (auto simp: sockets_ok_def)
  then show ?thesis using h by simp
qed

lemma sockets_ok_destroy:
  assumes "sockets_ok s held" "p \<in> set held" "destroy_socket p s = Some (s', r)"
  shows "sockets_ok s' (remove1 p held)" "r = 0"
proof -
  have T: "length (socket_table s) = 4" "p \<in> set (tl (socket_table s))" using assms(1,2) by (auto simp: sockets_ok_def)
  have "set (tl (socket_table s)) = {socket_table s ! 1, socket_table s ! 2, socket_table s ! 3}"
    by (subst table4 [OF T(1)]) simp
  then obtain i where i: "i \<in> {1, 2, 3}" "p = socket_table s ! i" using T(2) by auto
  have w: "wiz_sockets s p = Some (socket_of s p)" "unat (index (socket_of s p)) = i"
    using assms(1) i by (auto simp: sockets_ok_def socket_of_def)
  have s': "s' = s\<lparr>wiz_sockets := (wiz_sockets s)(socket_table s ! i \<mapsto> (socket_of s (socket_table s ! i))\<lparr>taken := False\<rparr>)\<rparr>" "r = 0"
    using assms(3) w i T(1) by (auto simp: destroy_socket_def upd_socket_def)
  have d: "distinct held" using assms(1) by (simp add: sockets_ok_def)
  show "sockets_ok s' (remove1 p held)" unfolding s'(1)
    by (rule sockets_ok_set_taken [OF assms(1) i(1)]) (use d in \<open>simp_all add: i(2) set_remove1_eq distinct_remove1\<close>)
  show "r = 0" by (rule s'(2))
qed

lemma sockets_ok_run: "socket_run s held s' held' \<Longrightarrow> sockets_ok s held \<Longrightarrow> sockets_ok s' held'"
proof (induction rule: socket_run.induct)
  case (create s1 h1 s2 p)
  then show ?case using sockets_ok_create [of s1 h1 s2 p] by simp
next
  case (refuse s1 h1 s2 p)
  then show ?case using sockets_ok_create [of s1 h1 s2 p] by simp
next
  case (destroy s1 h1 p s2 r)
  then show ?case using sockets_ok_destroy [of s1 h1 p s2 r] by simp
qed

lemma sockets_ok_next:
  assumes ok: "sockets_ok s' held'"
  shows "length held' \<le> 3 \<and> (\<exists>s'' p. create_socket s' = Some (s'', p) \<and>
    (if length held' = 3 then p = ERR_PTR ENOSOCKFREE \<and> s'' = s' else p \<in> set (tl (socket_table s')) - set held' \<and> \<not> IS_ERR p))"
proof -
  have T: "length (socket_table s') = 4" "distinct (socket_table s')" using ok by (auto simp: sockets_ok_def)
  have "length held' = card (set held')" using ok distinct_card [of held'] by (simp add: sockets_ok_def)
  also have "\<dots> \<le> card (set (tl (socket_table s')))" using ok by (intro card_mono) (auto simp: sockets_ok_def)
  also have "\<dots> = 3" using T by (simp add: distinct_card distinct_tl)
  finally have le: "length held' \<le> 3" .
  from ok show ?thesis
  proof (cases rule: create_socket_cases)
    case full
    then show ?thesis using ok le sockets_ok_create [OF ok full(1)] by simp
  next
    case (free i)
    let ?p = "socket_table s' ! i"
    have "?p \<in> set (tl (socket_table s'))" using free(1) T(1) by (cases "socket_table s'") (auto simp: nth_Cons')
    moreover have "\<not> IS_ERR ?p" using ok free(1) by (auto simp: sockets_ok_def)
    moreover have "length held' \<noteq> 3"
    proof
      assume "length held' = 3"
      then have "card (set held') = card (set (tl (socket_table s')))"
        using ok T distinct_card [of held'] distinct_card [of "tl (socket_table s')"] by (simp add: sockets_ok_def distinct_tl)
      then have "set held' = set (tl (socket_table s'))" using ok by (intro card_subset_eq) (auto simp: sockets_ok_def)
      then show False using free(2) calculation(1) ok by (auto simp: sockets_ok_def)
    qed
    ultimately show ?thesis using free sockets_ok_create [OF ok free(4)] ok le by auto
  qed
qed

text \<open>C33: Over every sequence of creations and destructions a socket has at most one holder: the sockets marked as taken are
  exactly those handed out and not yet destroyed, at most three, and the next creation returns one that nobody holds, or
  an error when three are held.\<close>

theorem sockets_exclusive:
  assumes "sockets_ok s held" "socket_run s held s' held'"
  shows "sockets_ok s' held' \<and> length held' \<le> 3 \<and> (\<exists>s'' p. create_socket s' = Some (s'', p) \<and>
    (if length held' = 3 then p = ERR_PTR ENOSOCKFREE \<and> s'' = s' else p \<in> set (tl (socket_table s')) - set held' \<and> \<not> IS_ERR p))"
  using sockets_ok_run [OF assms(2,1)] sockets_ok_next by blast

text \<open>Four sockets as \<open>init_sockets\<close> leaves them.\<close>

definition net_four :: "unit net" where
  "net_four = \<lparr>chip = (), nk = kernel_example,
     wiz_sockets = [0x5000 \<mapsto> new_socket 0, 0x5100 \<mapsto> new_socket 1, 0x5200 \<mapsto> new_socket 2, 0x5300 \<mapsto> new_socket 3],
     socket_table = [0x5000, 0x5100, 0x5200, 0x5300], waiting_processes = replicate 4 PNull, socket_interrupts = replicate 4 0,
     interface = \<lparr>mac = replicate 6 0, ip = replicate 4 0, gateway = replicate 4 0, subnet_mask = replicate 4 0\<rparr>,
     locked = (\<lambda>_. False), interfaces = 0\<rparr>"

lemma net_four_ok: "sockets_ok net_four []"
proof -
  have "i = 0 \<or> i = 1 \<or> i = 2 \<or> i = 3" if "i < 4" for i :: nat using that by linarith
  then show ?thesis
    by (fastforce simp: sockets_ok_def net_four_def socket_of_def IS_ERR_def MAX_ERRNO_def new_socket_def)
qed

theorem sockets_exclusive_witness:
  "\<exists>s1 p1 s2 p2 s3 p3. create_socket net_four = Some (s1, p1) \<and> create_socket s1 = Some (s2, p2) \<and>
     destroy_socket p1 s2 = Some (s3, 0) \<and> sockets_ok s3 [p2] \<and> (\<exists>s4. create_socket s3 = Some (s4, p3) \<and> p3 \<noteq> p2)"
proof -
  obtain s1 where s1: "create_socket net_four = Some (s1, 0x5100)" "socket_table s1 = socket_table net_four"
      "wiz_sockets s1 = (wiz_sockets net_four)(0x5100 \<mapsto> (new_socket 1)\<lparr>taken := True\<rparr>)"
    by (simp add: create_socket_def net_four_def upd_socket_def new_socket_def)
  obtain s2 where s2: "create_socket s1 = Some (s2, 0x5200)" "socket_table s2 = socket_table net_four"
      "wiz_sockets s2 = (wiz_sockets s1)(0x5200 \<mapsto> (new_socket 2)\<lparr>taken := True\<rparr>)"
    using s1(2,3) by (simp add: create_socket_def net_four_def upd_socket_def new_socket_def)
  obtain s3 where s3: "destroy_socket 0x5100 s2 = Some (s3, 0)"
    using s2(2,3) s1(3) by (simp add: destroy_socket_def net_four_def upd_socket_def new_socket_def)
  have no: "\<not> IS_ERR 0x5100" "\<not> IS_ERR 0x5200" by (simp_all add: IS_ERR_def MAX_ERRNO_def)
  have "socket_run net_four [] s3 (remove1 0x5100 [0x5200, 0x5100])"
    by (rule socket_run.destroy [OF socket_run.create [OF socket_run.create [OF socket_run.start s1(1) no(1)] s2(1) no(2)] _ s3]) simp
  then have run: "socket_run net_four [] s3 [0x5200]" by simp
  from sockets_exclusive [OF net_four_ok run] s1(1) s2(1) s3 show ?thesis by auto
qed

section \<open>Descriptors\<close>

lemma open_socket_result: "open_socket env sock m s = Some (s', r) \<Longrightarrow> r \<in> {0, - ESOCKTNOSUPPORT}"
  by (auto simp: open_socket_def split: Option.bind_split_asm if_splits)

lemma open_new_result:
  "open_new env c m = Some (s', sock, r) \<Longrightarrow> r \<in> {0, - ESOCKTNOSUPPORT, - ENOSOCKFREE} \<and> (\<not> r < 0 \<longrightarrow> \<not> IS_ERR sock)"
  by (auto simp: open_new_def ENOSOCKFREE_def dest!: open_socket_result split: Option.bind_split_asm if_splits)

lemma NULL_is_error: "IS_ERR NULL"
  by (simp add: IS_ERR_def MAX_ERRNO_def)

lemma find_holds: "find P xs = Some x \<Longrightarrow> x \<in> set xs \<and> P x"
  by (auto simp: find_Some_iff)

lemma upd_proc_at: "upd_proc k p f = Some k' \<Longrightarrow> (\<exists>x. proc_at k p = Some x \<and> proc_at k' p = Some (f x)) \<and> fdtables k' = fdtables k"
  by (auto simp: upd_proc_def split: Option.bind_split_asm)

text \<open>The last part of \<open>sys_socket\<close>, once the socket is open.\<close>

lemma install_descriptor:
  assumes "do { cur \<leftarrow> proc_at (nk s) p;
       table \<leftarrow> deref (fdtables (nk s)) (fdtable cur);
       slots \<leftarrow> table_prefix (Some table) MAX_OPEN_FILE_DESCRIPTORS;
       (case find (\<lambda>i. slots ! i = NULL) [0..<MAX_OPEN_FILE_DESCRIPTORS] of
          None \<Rightarrow> Some (s, - ENOSOCKFREE)
        | Some i \<Rightarrow> do {
            let k = (nk s)\<lparr>fdtables := (fdtables (nk s))(fdtable cur \<mapsto> table[i := sock])\<rparr>;
            k \<leftarrow> upd_proc k p (\<lambda>x. x\<lparr>files_count := files_count x + 1\<rparr>);
            Some (s\<lparr>nk := k\<rparr>, int i)
          }) } = Some (s', r)"
  shows "r = - ENOSOCKFREE \<or> (0 \<le> r \<and> r < 8 \<and> (\<exists>cur table. proc_at (nk s') p = Some cur \<and>
    fdtables (nk s') (fdtable cur) = Some table \<and> nat r < length table \<and> table ! nat r = sock))"
proof -
  obtain cur table slots where c: "proc_at (nk s) p = Some cur" "deref (fdtables (nk s)) (fdtable cur) = Some table"
      "table_prefix (Some table) MAX_OPEN_FILE_DESCRIPTORS = Some slots"
    using assms by (auto split: Option.bind_split_asm)
  have len: "8 \<le> length table" using c(3) by (auto simp: table_prefix_def MAX_OPEN_FILE_DESCRIPTORS_def split: if_splits)
  show ?thesis
  proof (cases "find (\<lambda>i. slots ! i = NULL) [0..<MAX_OPEN_FILE_DESCRIPTORS]")
    case None
    then show ?thesis using assms c by simp
  next
    case (Some i)
    then have i: "i < 8" using find_holds [OF Some] by (simp add: MAX_OPEN_FILE_DESCRIPTORS_def)
    obtain k' where k': "upd_proc ((nk s)\<lparr>fdtables := (fdtables (nk s))(fdtable cur \<mapsto> table[i := sock])\<rparr>) p
        (\<lambda>x. x\<lparr>files_count := files_count x + 1\<rparr>) = Some k'" "s' = s\<lparr>nk := k'\<rparr>" "r = int i"
      using assms c Some by (auto split: Option.bind_split_asm)
    from upd_proc_at [OF k'(1)] have "proc_at k' p = Some (cur\<lparr>files_count := files_count cur + 1\<rparr>)"
        "fdtables k' (fdtable cur) = Some (table[i := sock])" using c(1) by auto
    then show ?thesis using k'(2,3) i len by auto
  qed
qed


text \<open>A process with three descriptors, and a chip whose socket 1 reports that it is open for TCP.\<close>

definition net_server :: "w_sim net" where
  "net_server = \<lparr>chip = \<lparr>regs = (\<lambda>_. 0)(0x503 := 0x13), access = [], wires = []\<rparr>,
     nk = kernel_example\<lparr>processes := (processes kernel_example)[0 := process_zero\<lparr>pid := 1, fdtable := 0x6000, files_count := 3\<rparr>],
       fdtables := [0x6000 \<mapsto> [0x7000, 0x7020, 0x7040, 0, 0, 0, 0, 0]],
       file_objects := [0x5100 \<mapsto> \<lparr>f_inode = 0, f_op = 0x7100, f_flags = 0, f_pos = 0, f_owner = 0\<rparr>],
       fop_tables := [0x7100 \<mapsto> empty_fop\<lparr>fop_read := 1, fop_write := 2, fop_close := 3\<rparr>]\<rparr>,
     wiz_sockets = wiz_sockets net_four, socket_table = socket_table net_four,
     waiting_processes = replicate 4 PNull, socket_interrupts = replicate 4 0,
     interface = interface net_four, locked = (\<lambda>_. False), interfaces = 0x4000\<rparr>"


section \<open>Closing a socket\<close>

lemma init_socket_owner:
  assumes "init_socket env i s = Some s'"
  shows "\<exists>f. file_objects (nk s') (socket_table s' ! i) = Some f \<and> f_owner f = 0"
  using assms by (auto simp: init_socket_def Let_def split: Option.bind_split_asm if_splits)

text \<open>C35: Closing a descriptor never gives its socket back. The file of a socket has owner 0 from \<open>init_sockets\<close> on, and
  \<open>sys_close\<close> calls the close operation of a file, whatever it is, for its owner only. So a process that has opened and
  closed three sockets gets an error for the next one.\<close>

theorem closed_sockets_run_out:
  assumes "proc_at (nk s) (current_process (nk s)) = Some cur" "pid cur \<noteq> 0"
    and "deref (fdtables (nk s)) (fdtable cur) = Some table" "3 \<le> fd" "nat fd < length table"
    and "deref (file_objects (nk s)) (table ! nat fd) = Some f" "f_owner f = 0" "deref (fop_tables (nk s)) (f_op f) = Some ops"
    and "sockets_ok s held" "length held = 3"
  shows "\<exists>k. (\<forall>v. sys_close v (nk s) fd = Some (k, 0)) \<and> fdtables k (fdtable cur) = Some (table[nat fd := NULL]) \<and>
    k_heap k = k_heap (nk s) \<and> create_socket (s\<lparr>nk := k\<rparr>) = Some (s\<lparr>nk := k\<rparr>, ERR_PTR ENOSOCKFREE)"
proof -
  let ?k = "(nk s)\<lparr>fdtables := (fdtables (nk s))(fdtable cur \<mapsto> table[nat fd := NULL])\<rparr>"
  obtain k where k: "upd_proc ?k (current_process (nk s)) (\<lambda>x. x\<lparr>files_count := files_count x - 1\<rparr>) = Some k"
      "fdtables k (fdtable cur) = Some (table[nat fd := NULL])" "k_heap k = k_heap (nk s)"
    using assms(1) by (simp add: upd_proc_def)
  have fd: "\<not> (0 \<le> fd \<and> fd \<le> 2)" "0 \<le> fd" using assms(4) by linarith+
  have "f_owner f \<noteq> pid cur" using assms(2,7) by simp
  then have close: "sys_close v (nk s) fd = Some (k, 0)" for v
    using assms(1,3,5,6,8) fd k(1) by (simp add: sys_close_def)
  have "sockets_ok (s\<lparr>nk := k\<rparr>) held" using assms(9) by (simp add: sockets_ok_def socket_of_def)
  from sockets_ok_next [OF this] have "create_socket (s\<lparr>nk := k\<rparr>) = Some (s\<lparr>nk := k\<rparr>, ERR_PTR ENOSOCKFREE)"
    by (simp add: assms(10))
  then show ?thesis using close k(2,3) by blast
qed

definition net_server_full :: "w_sim net" where
  "net_server_full = net_server\<lparr>nk := (nk net_server)\<lparr>fdtables := [0x6000 \<mapsto> [0x7000, 0x7020, 0x7040, 0x5100, 0, 0, 0, 0]]\<rparr>,
     wiz_sockets := [0x5000 \<mapsto> new_socket 0, 0x5100 \<mapsto> (new_socket 1)\<lparr>taken := True\<rparr>,
       0x5200 \<mapsto> (new_socket 2)\<lparr>taken := True\<rparr>, 0x5300 \<mapsto> (new_socket 3)\<lparr>taken := True\<rparr>]\<rparr>"

lemma net_server_full_ok: "sockets_ok net_server_full [0x5100, 0x5200, 0x5300]"
proof -
  have "i = 0 \<or> i = 1 \<or> i = 2 \<or> i = 3" if "i < 4" for i :: nat using that by linarith
  then show ?thesis
    by (fastforce simp: sockets_ok_def net_server_full_def net_server_def net_four_def socket_of_def IS_ERR_def MAX_ERRNO_def new_socket_def)
qed

theorem closed_sockets_run_out_witness:
  "\<exists>k. (\<forall>v. sys_close v (nk net_server_full) 3 = Some (k, 0)) \<and>
    create_socket (net_server_full\<lparr>nk := k\<rparr>) = Some (net_server_full\<lparr>nk := k\<rparr>, ERR_PTR ENOSOCKFREE)"
proof -
  let ?cur = "process_zero\<lparr>pid := 1, fdtable := 0x6000, files_count := 3\<rparr>"
  have "proc_at (nk net_server_full) (current_process (nk net_server_full)) = Some ?cur"
    by (simp add: net_server_full_def net_server_def proc_at_def kernel_example_def)
  moreover have "deref (fdtables (nk net_server_full)) (fdtable ?cur) = Some [0x7000, 0x7020, 0x7040, 0x5100, 0, 0, 0, 0]"
    "deref (file_objects (nk net_server_full)) 0x5100 = Some \<lparr>f_inode = 0, f_op = 0x7100, f_flags = 0, f_pos = 0, f_owner = 0\<rparr>"
    "deref (fop_tables (nk net_server_full)) 0x7100 = Some (empty_fop\<lparr>fop_read := 1, fop_write := 2, fop_close := 3\<rparr>)"
    by (simp_all add: net_server_full_def net_server_def deref_def)
  moreover note net_server_full_ok
  ultimately show ?thesis
    using closed_sockets_run_out [of net_server_full ?cur _ 3 _ _ "[0x5100, 0x5200, 0x5300]"] by fastforce
qed

end
