(* ===== verification/Clock.thy ===== *)
theory Clock
  imports Board
begin

text \<open>
  Setting and reading the time, \<open>src/kernel/time.c\<close>: the counter of milliseconds of the board is the hardware parameter of theory
  \<open>Board\<close>; the memory that the caller of \<open>sys_time\<close> passes is never written.
\<close>

section \<open>The two calls\<close>

text \<open>The static structure of the file, next to the board that has the counter of milliseconds.\<close>

record 'd clock_state =
  board :: 'd
  inner_time :: u64
  sntp_unix_timestamp :: u32

text \<open>The sum of the signed seconds and the unsigned quotient is converted to \<open>time_t\<close>, which is \<open>int32_t\<close>.\<close>

definition sys_time :: "'d hardware \<Rightarrow> 'd clock_state \<Rightarrow> 'd clock_state \<times> int" where
  "sys_time hw c =
     (let (d, current_time) = ms_since_boot hw (board c);
          delta_time = (ucast (current_time - inner_time c) :: u32)
      in (c\<lparr>board := d\<rparr>, sint (sntp_unix_timestamp c + delta_time div 1000)))"

definition sys_stime :: "'d hardware \<Rightarrow> int \<Rightarrow> 'd clock_state \<Rightarrow> 'd clock_state \<times> int" where
  "sys_stime hw t c =
     (let (d, now) = ms_since_boot hw (board c)
      in (c\<lparr>board := d, inner_time := now, sntp_unix_timestamp := word_of_int t\<rparr>, 0))"

section \<open>Reading the time back\<close>

lemma u64_elapsed: "unat (a :: u64) \<le> unat b \<Longrightarrow> unat (ucast (b - a) :: u32) = (unat b - unat a) mod 2 ^ 32"
  by (simp add: unsigned_ucast_eq unat_sub word_le_nat_alt take_bit_eq_mod)

lemma sint_of_time: "0 \<le> t \<Longrightarrow> t < 2 ^ 31 \<Longrightarrow> sint (word_of_int t :: u32) = t"
  by (simp add: sint_sbintrunc' signed_take_bit_int_eq_self)

text \<open>C38: After the time has been set, it is read back with the seconds that the counter of the board has counted since, as long
  as the result fits into \<open>time_t\<close>. The elapsed milliseconds are kept in 32 bits: after every 49.7 days
  the clock returns to the time that was set.\<close>

theorem time_read_back:
  assumes "ms_since_boot hw (board c) = (d, n0)" "ms_since_boot hw d' = (d'', n1)" "unat n0 \<le> unat n1"
    and "0 \<le> t" "t + int ((unat n1 - unat n0) mod 2 ^ 32 div 1000) < 2 ^ 31"
  shows "snd (sys_time hw ((fst (sys_stime hw t c))\<lparr>board := d'\<rparr>)) = t + int ((unat n1 - unat n0) mod 2 ^ 32 div 1000)"
proof -
  let ?e = "(unat n1 - unat n0) mod 2 ^ 32"
  have "(ucast (n1 - n0) :: u32) div 1000 = of_nat (?e div 1000)"
    using u64_elapsed [OF assms(3)] by (simp add: word_arith_nat_div)
  then have "word_of_int t + (ucast (n1 - n0) :: u32) div 1000 = word_of_int (t + int (?e div 1000))" by simp
  then show ?thesis
    using sint_of_time [of "t + int (?e div 1000)"] assms by (simp add: sys_stime_def sys_time_def)
qed

section \<open>An example\<close>

text \<open>A board with nothing but a counter of milliseconds.\<close>

definition counter_board :: "u64 hardware" where
  "counter_board = \<lparr>spi_exchange = (\<lambda>_ b d. (d, b)), put_pin = (\<lambda>_ _ d. d), spi_set_baudrate = (\<lambda>_ _ _ d. d),
     delay_ms = (\<lambda>n d. d + of_nat n), ms_since_boot = (\<lambda>d. (d, d)), set_up = (\<lambda>_ d. d)\<rparr>"

theorem time_read_back_witness:
  "snd (sys_time counter_board ((fst (sys_stime counter_board 951782400
       \<lparr>board = 4000, inner_time = 0, sntp_unix_timestamp = 0\<rparr>))\<lparr>board := 65000\<rparr>)) = 951782461"
  using time_read_back [of counter_board "\<lparr>board = 4000, inner_time = 0, sntp_unix_timestamp = 0\<rparr>" 4000 4000 65000 65000 65000 951782400]
  by (simp add: counter_board_def)

end
