(* ===== verification/Libc_Fmt.thy ===== *)
theory Libc_Fmt
  imports Libc_Num
begin

text \<open>
  Formatted output of \<open>src/kstdlib/libc.c\<close>: \<open>vdprintf\<close> and \<open>vsnprintf\<close> with the conversions
  \<open>%c\<close>, \<open>%s\<close>, \<open>%i\<close> and \<open>%x\<close>. A variable argument is one 32-bit word, as the procedure call
  standard of the target passes it; the list of the remaining ones is threaded through. The effect of
  \<open>vdprintf\<close> is the list of the byte blocks it passes to \<open>write\<close>, that of \<open>vsnprintf\<close> is a
  memory. The address of the string literal \<open>"%"\<close> is the parameter \<open>pct\<close>.

  The relation \<open>renders\<close> is the specification: what text a format denotes for a list of arguments.
\<close>

section \<open>The conversions\<close>

definition read_bytes :: "mem \<Rightarrow> addr \<Rightarrow> u32 \<Rightarrow> byte list" where
  "read_bytes m p n = map (\<lambda>i. m (p + of_nat i)) [0..<unat n]"

text \<open>The local array \<open>buf\<close> starts zeroed, at address 0 of a memory of its own.\<close>

definition format_int :: "u32 \<Rightarrow> byte list option" where
  "format_int value = do {
     let buf = (\<lambda>_ :: addr. 0 :: byte);
     (buf, _) \<leftarrow> (if sint value < 0 then itoa (buf(0 := 45)) (- value) 1 10 else itoa buf value 0 10);
     n \<leftarrow> strlen buf 0;
     Some (read_bytes buf 0 n)
   }"

definition format_hex :: "u32 \<Rightarrow> byte list option" where
  "format_hex value = do {
     (buf, _) \<leftarrow> itoa (\<lambda>_. 0) value 0 16;
     n \<leftarrow> strlen buf 0;
     Some (read_bytes buf 0 n)
   }"

text \<open>
  One branch of the \<open>switch\<close>: the bytes it produces and the arguments that are left; the inner
  \<^const>\<open>None\<close> is the \<open>default\<close> branch, which returns -1.
\<close>

definition conversion :: "mem \<Rightarrow> byte \<Rightarrow> u32 list \<Rightarrow> (byte list \<times> u32 list) option option" where
  "conversion m c vlist =
     (if c = 99 then do { require (vlist \<noteq> []); Some (Some ([ucast (hd vlist)], tl vlist)) }
      else if c = 115 then do {
        require (vlist \<noteq> []);
        n \<leftarrow> strlen m (hd vlist);
        Some (Some (read_bytes m (hd vlist) n, tl vlist))
      }
      else if c = 105 then do {
        require (vlist \<noteq> []);
        bs \<leftarrow> format_int (hd vlist);
        Some (Some (bs, tl vlist))
      }
      else if c = 120 then do {
        require (vlist \<noteq> []);
        bs \<leftarrow> format_hex (hd vlist);
        Some (Some (bs, tl vlist))
      }
      else Some None)"

section \<open>vdprintf\<close>

partial_function (option) vdprintf_loop ::
    "mem \<Rightarrow> addr \<Rightarrow> addr \<Rightarrow> addr \<Rightarrow> addr \<Rightarrow> u32 list \<Rightarrow> byte list list \<Rightarrow> (int \<times> byte list list) option"
where
  "vdprintf_loop m pct format_end ptr_begin ptr_end vlist writes =
     (if m ptr_end \<noteq> 0 \<and> ptr_end < format_end
      then do {
        n \<leftarrow> strcspn m ptr_begin pct;
        let ptr_end = ptr_end + n;
        let writes = writes @ [read_bytes m ptr_begin (ptr_end - ptr_begin)];
        let ptr_end = ptr_end + 1;
        (if format_end \<le> ptr_end then Some (0, writes)
         else do {
           r \<leftarrow> conversion m (m ptr_end) vlist;
           (case r of
              None \<Rightarrow> Some (- 1, writes)
            | Some (bs, vlist) \<Rightarrow>
                vdprintf_loop m pct format_end (ptr_end + 1) (ptr_end + 1) vlist (writes @ [bs]))
         })
      }
      else Some (0, writes))"

definition vdprintf :: "mem \<Rightarrow> addr \<Rightarrow> addr \<Rightarrow> u32 list \<Rightarrow> (int \<times> byte list list) option" where
  "vdprintf m pct format vlist = do {
     k \<leftarrow> strcspn m format pct;
     n \<leftarrow> strlen m format;
     (if k = n then Some (0, [read_bytes m format n])
      else vdprintf_loop m pct (format + n) format format vlist [])
   }"

section \<open>vsnprintf\<close>

text \<open>
  A string argument is copied from where it is, the other conversions from a local buffer.
\<close>

definition put_text :: "mem \<Rightarrow> byte \<Rightarrow> addr \<Rightarrow> u32 list \<Rightarrow> byte list \<Rightarrow> u32 \<Rightarrow> mem" where
  "put_text m c dst vlist bs to_copy =
     (if c = 115 then fst (memcpy m dst (hd vlist) to_copy) else stored m dst (take (unat to_copy) bs))"

text \<open>
  \<open>len\<close> and \<open>to_copy\<close> keep their value of the literal part in the branch for the character 0.
\<close>

partial_function (option) vsnprintf_loop ::
    "mem \<Rightarrow> addr \<Rightarrow> addr \<Rightarrow> u32 \<Rightarrow> addr \<Rightarrow> addr \<Rightarrow> u32 list \<Rightarrow> u32 \<Rightarrow> u32 \<Rightarrow> (mem \<times> u32) option"
where
  "vsnprintf_loop m pct str sz format_end ptr vlist index total_str_len =
     (if m ptr \<noteq> 0 \<and> ptr < format_end
      then do {
        len \<leftarrow> strcspn m ptr pct;
        let ptr_end = ptr + len;
        let available = sz - index;
        let to_copy = min len available;
        let m = fst (memcpy m (str + index) ptr to_copy);
        let index = index + to_copy;
        let available = available - len;
        let total_str_len = total_str_len + len;
        (if ptr_end = format_end then Some (m, total_str_len)
         else do {
           let ptr_end = ptr_end + 1;
           (if m ptr_end = 0
            then vsnprintf_loop m pct str sz format_end (ptr_end + 1) vlist
                   (index + to_copy) (total_str_len + len)
            else do {
              r \<leftarrow> conversion m (m ptr_end) vlist;
              (case r of
                 None \<Rightarrow> Some (m, - 1)
               | Some (bs, rest) \<Rightarrow>
                   (let len = of_nat (length bs);
                        to_copy = min len available;
                        m = put_text m (m ptr_end) (str + index) vlist bs to_copy
                    in vsnprintf_loop m pct str sz format_end (ptr_end + 1) rest
                         (index + to_copy) (total_str_len + len)))
            })
         })
      }
      else Some (m, total_str_len))"

definition vsnprintf ::
    "mem \<Rightarrow> addr \<Rightarrow> addr \<Rightarrow> u32 \<Rightarrow> addr \<Rightarrow> u32 list \<Rightarrow> (mem \<times> u32) option" where
  "vsnprintf m pct str sz format vlist = do {
     k \<leftarrow> strcspn m format pct;
     n \<leftarrow> strlen m format;
     (if k = n
      then (if str \<noteq> NULL
            then Some (fst (memcpy m str format (min n sz)), n)
            else Some (m, n))
      else vsnprintf_loop m pct str sz (format + n) format vlist 0 0)
   }"

section \<open>What a format denotes\<close>

definition int_text :: "int \<Rightarrow> byte list" where
  "int_text i = (if i < 0 then 45 # numeral_bytes 10 (nat (- i)) else numeral_bytes 10 (nat i))"

text \<open>The addresses in \<open>R\<close> are those that are written meanwhile: no string argument may touch them.\<close>

definition arg_text :: "mem \<Rightarrow> addr set \<Rightarrow> byte \<Rightarrow> u32 \<Rightarrow> byte list \<Rightarrow> bool" where
  "arg_text m R c v t \<longleftrightarrow>
     c = 99 \<and> t = [ucast v] \<or>
     c = 115 \<and> cstr m v t \<and> length t < 2 ^ 32 \<and> (\<forall>i\<le>length t. v + of_nat i \<notin> R) \<or>
     c = 105 \<and> t = int_text (sint v) \<or>
     c = 120 \<and> t = numeral_bytes 16 (unat v)"

inductive renders :: "mem \<Rightarrow> addr set \<Rightarrow> byte list \<Rightarrow> u32 list \<Rightarrow> byte list \<Rightarrow> bool" for m R where
  renders_end: "renders m R [] vlist []"
| renders_char: "c \<noteq> 37 \<Longrightarrow> renders m R s vlist out \<Longrightarrow> renders m R (c # s) vlist (c # out)"
| renders_conv: "arg_text m R c v t \<Longrightarrow> renders m R s vlist out \<Longrightarrow>
    renders m R (37 # c # s) (v # vlist) (t @ out)"

section \<open>The conversions produce the texts of the specification\<close>

lemma read_bytes_cstr: "cstr m p s \<Longrightarrow> length s < 2 ^ 32 \<Longrightarrow> read_bytes m p (of_nat (length s)) = s"
  by (rule nth_equalityI) (simp_all add: read_bytes_def unat_of_nat_less cstr_nth)

lemma read_text: "cstr m p s \<Longrightarrow> length s < 2 ^ 32 \<Longrightarrow>
    (do { n \<leftarrow> strlen m p; Some (read_bytes m p n) }) = Some s"
  by (simp add: strlen_cstr read_bytes_cstr)

lemma numeral_bytes_word_length: "2 \<le> b \<Longrightarrow> length (numeral_bytes b (unat (v :: u32))) \<le> 32"
  using numeral_bytes_length [of b "unat v" 32] unat_lt_exp [of v] by simp

lemma format_hex_text: "format_hex v = Some (numeral_bytes 16 (unat v))"
proof (cases "v = 0")
  case True
  then show ?thesis
    using read_text [of "(\<lambda>_. 0)(0 := 48)" 0 "numeral_bytes 16 0"]
    by (simp add: format_hex_def itoa_zero numeral_bytes_def)
next
  case False
  let ?bs = "numeral_bytes 16 (unat v)"
  have "length ?bs < 2 ^ 32" using numeral_bytes_word_length [of 16 v] by simp
  moreover from this have "cstr (stored (\<lambda>_. 0) 0 (?bs @ [0])) 0 ?bs"
    by (intro stored_cstr numeral_bytes_nonzero) simp_all
  ultimately show ?thesis
    using False itoa_nonzero [of 16 v "\<lambda>_. 0" 0] read_text by (simp add: format_hex_def)
qed

lemma format_int_text: "format_int v = Some (int_text (sint v))"
proof (cases "sint v < 0")
  case True
  let ?n = "- v" and ?m = "(\<lambda>_ :: addr. 0 :: byte)(0 := 45)"
  let ?bs = "numeral_bytes 10 (unat ?n)"
  have v: "v \<noteq> 0" using True by auto
  have "2 ^ 31 \<le> uint v" "sint v = uint v - 2 ^ 32"
    using True uint_ge_0 [of v] by (auto simp: sint_u32_if split: if_splits)
  then have neg: "nat (- sint v) = unat ?n"
    using unat_uminus_u32 [OF v] by (simp flip: nat_uint_eq)
  have len: "length ?bs \<le> 32" using numeral_bytes_word_length [of 10 ?n] by simp
  then have "cstr (stored ?m 1 (?bs @ [0])) 1 ?bs"
    by (intro stored_cstr numeral_bytes_nonzero) simp_all
  moreover have "stored ?m 1 (?bs @ [0]) 0 = 45"
    using len by (simp add: stored_def unsigned_minus_1_eq_mask mask_eq_exp_minus_1)
  ultimately have "cstr (stored ?m 1 (?bs @ [0])) 0 (45 # ?bs)" by simp
  from read_text [OF this] len show ?thesis
    using True v neg itoa_nonzero [of 10 ?n ?m 1] by (simp add: format_int_def int_text_def)
next
  case pos: False
  then have nat: "nat (sint v) = unat v"
    using uint_lt2p [of v] by (auto simp: sint_u32_if split: if_splits)
  show ?thesis
  proof (cases "v = 0")
    case True
    then show ?thesis
      using read_text [of "(\<lambda>_. 0)(0 := 48)" 0 "numeral_bytes 10 0"]
      by (simp add: format_int_def itoa_zero numeral_bytes_def int_text_def)
  next
    case False
    let ?bs = "numeral_bytes 10 (unat v)"
    have len: "length ?bs < 2 ^ 32" using numeral_bytes_word_length [of 10 v] by simp
    then have "cstr (stored (\<lambda>_. 0) 0 (?bs @ [0])) 0 ?bs"
      by (intro stored_cstr numeral_bytes_nonzero) simp_all
    from read_text [OF this len] show ?thesis
      using False pos nat itoa_nonzero [of 10 v "\<lambda>_. 0" 0]
      by (simp add: format_int_def int_text_def)
  qed
qed

text \<open>The array \<open>buf[20]\<close> of \<open>vdprintf\<close> is large enough for every conversion and its NUL.\<close>

lemma format_int_length: "format_int v = Some bs \<Longrightarrow> length bs \<le> 11"
proof -
  have "length (numeral_bytes 10 n) \<le> 10" if "n < 10 ^ 10" for n
    using digits_length_base [OF _ that] by (simp add: numeral_bytes_def)
  moreover have "nat (sint v) < 10 ^ 10" "nat (- sint v) < 10 ^ 10"
    using uint_lt2p [of v] uint_ge_0 [of v] by (auto simp: sint_u32_if simp flip: nat_uint_eq)
  ultimately show "format_int v = Some bs \<Longrightarrow> length bs \<le> 11"
    by (fastforce simp: format_int_text int_text_def intro: le_SucI)
qed

lemma conversion_text:
  "arg_text m R c v t \<Longrightarrow> conversion m c (v # vlist) = Some (Some (t, vlist))"
  by (auto simp: arg_text_def conversion_def format_int_text format_hex_text strlen_cstr read_bytes_cstr)


section \<open>vdprintf writes the text of its format\<close>

declare vdprintf_loop.simps [simp del] vsnprintf_loop.simps [simp del]

text \<open>A rendered format either has no conversion left, or splits at its first one.\<close>

lemma renders_split:
  "renders m R f vlist out \<Longrightarrow> 37 \<notin> set f \<and> out = f \<or>
    (\<exists>pre c g v vlist' t out'. f = pre @ 37 # c # g \<and> 37 \<notin> set pre \<and> vlist = v # vlist' \<and>
      arg_text m R c v t \<and> renders m R g vlist' out' \<and> out = pre @ t @ out')"
proof (induction rule: renders.induct)
  case (renders_char c s vlist out)
  from renders_char.IH show ?case
  proof (elim disjE exE conjE)
    fix pre c' g v vlist' t out'
    assume "s = pre @ 37 # c' # g" "37 \<notin> set pre" "vlist = v # vlist'" "arg_text m R c' v t"
      "renders m R g vlist' out'" "out = pre @ t @ out'"
    with renders_char.hyps(1) show ?case
      by (intro disjI2 exI [of _ "c # pre"] exI [of _ c'] exI [of _ g]) auto
  qed (use renders_char.hyps(1) in auto)
next
  case (renders_conv c v t s vlist out)
  then show ?case by (intro disjI2 exI [of _ "[]"] exI [of _ c] exI [of _ s]) auto
qed simp

lemma strcspn_conv:
  assumes "cstr m pct [37]" and "37 \<notin> set pre"
  shows "cstr m p pre \<Longrightarrow> strcspn m p pct = Some (of_nat (length pre))"
    and "cstr m p (pre @ 37 # s) \<Longrightarrow> strcspn m p pct = Some (of_nat (length pre))"
proof -
  have tw: "takeWhile (\<lambda>c. c \<notin> set [37]) pre = pre"
    "takeWhile (\<lambda>c. c \<notin> set [37]) (pre @ 37 # s) = pre"
    using assms(2) by (induction pre) auto
  have l: "length [37 :: byte] < 2 ^ 32" by simp
  show "cstr m p pre \<Longrightarrow> strcspn m p pct = Some (of_nat (length pre))"
    using strcspn_cstr [OF _ assms(1) l, of p pre] by (simp only: tw)
  show "cstr m p (pre @ 37 # s) \<Longrightarrow> strcspn m p pct = Some (of_nat (length pre))"
    using strcspn_cstr [OF _ assms(1) l, of p "pre @ 37 # s"] by (simp only: tw)
qed

lemma read_bytes_prefix:
  "cstr m p (pre @ s) \<Longrightarrow> length pre < 2 ^ 32 \<Longrightarrow> read_bytes m p (of_nat (length pre)) = pre"
  by (rule nth_equalityI) (simp_all add: read_bytes_def unat_of_nat_less cstr_append)

lemma vdprintf_loop_renders:
  assumes pct: "cstr m pct [37]"
  shows "renders m R f vlist out \<Longrightarrow> cstr m p f \<Longrightarrow> unat p + length f + 1 < 2 ^ 32 \<Longrightarrow>
    \<exists>ws'. vdprintf_loop m pct (p + of_nat (length f)) p p vlist ws = Some (0, ws @ ws') \<and> concat ws' = out"
proof (induction "length f" arbitrary: f p vlist out ws rule: less_induct)
  case less
  have fe: "unat (p + of_nat (length f)) = unat p + length f"
    using less.prems(3) by (intro unat_add_of_nat) simp
  from renders_split [OF less.prems(1)] show ?case
  proof (elim disjE exE conjE)
    assume n: "37 \<notin> set f" and out: "out = f"
    show ?thesis
    proof (cases "f = []")
      case True
      then show ?thesis using less.prems(2) out by (subst vdprintf_loop.simps) simp
    next
      case False
      then have "m p \<noteq> 0" using less.prems(2) by (cases f) auto
      moreover have "p < p + of_nat (length f)"
        using False fe by (simp add: word_less_nat_alt)
      moreover have "p + of_nat (length f) \<le> p + of_nat (length f) + 1"
        using unat_add_of_nat [of p "length f + 1"] fe less.prems(3)
        by (simp add: word_le_nat_alt ac_simps)
      moreover have "read_bytes m p (of_nat (length f)) = f"
        using less.prems(2,3) by (intro read_bytes_cstr) auto
      ultimately show ?thesis
        using strcspn_conv(1) [OF pct n less.prems(2)] out
        by (intro exI [of _ "[f]"]) (subst vdprintf_loop.simps, simp add: Let_def add.commute)
    qed
  next
    fix pre c g v vlist' t out'
    assume f: "f = pre @ 37 # c # g" and pre: "37 \<notin> set pre" and vl: "vlist = v # vlist'"
      and t: "arg_text m R c v t" and g: "renders m R g vlist' out'" and out: "out = pre @ t @ out'"
    let ?q = "p + of_nat (length pre) + 1"
    define E where "E = p + of_nat (length f)"
    have E: "?q + 1 + of_nat (length g) = E" using f by (simp add: E_def)
    have head: "m p \<noteq> 0" using less.prems(2) f by (cases pre) auto
    have lt: "p < E" using f fe by (simp add: word_less_nat_alt E_def)
    have nle: "\<not> E \<le> ?q"
      using unat_add_of_nat [of p "length pre + 1"] fe less.prems(3) f
      by (simp add: word_le_nat_alt E_def ac_simps)
    have rd: "read_bytes m p (of_nat (length pre)) = pre"
      using less.prems(2,3) f by (intro read_bytes_prefix [of m p pre "37 # c # g"]) auto
    have cs: "strcspn m p pct = Some (of_nat (length pre))"
      using strcspn_conv(2) [OF pct pre] less.prems(2) f by blast
    have c: "m ?q = c" "cstr m (?q + 1) g"
      using less.prems(2) f by (simp_all add: cstr_append)
    have "unat (?q + 1) = unat p + (length pre + 2)"
      using unat_add_of_nat [of p "length pre + 2"] less.prems(3) f by (simp add: ac_simps)
    then obtain ws' where "vdprintf_loop m pct E (?q + 1) (?q + 1) vlist' ((ws @ [pre]) @ [t]) =
        Some (0, ((ws @ [pre]) @ [t]) @ ws')" "concat ws' = out'"
      using less.hyps [of g vlist' out' "?q + 1" "(ws @ [pre]) @ [t]"] g c(2) less.prems(3) f E by auto
    then show ?thesis
      using conversion_text [OF t, of vlist'] vl out head lt nle rd cs c(1)
      unfolding E_def [symmetric]
      by (intro exI [of _ "pre # t # ws'"]) (subst vdprintf_loop.simps, simp add: Let_def)
  qed
qed

theorem vdprintf_renders:
  assumes "cstr m pct [37]" and "cstr m p f" and "renders m R f vlist out" and "unat p + length f + 1 < 2 ^ 32"
  obtains ws where "vdprintf m pct p vlist = Some (0, ws)" and "concat ws = out"
proof (cases "37 \<in> set f")
  case False
  with assms show thesis
    using renders_split [OF assms(3)] that [of "[f]"] strcspn_conv(1) [OF assms(1)]
    by (auto simp: vdprintf_def strlen_cstr read_bytes_cstr)
next
  case True
  then obtain pre g where f: "f = pre @ 37 # g" "37 \<notin> set pre" by (meson split_list_first)
  then have "strcspn m p pct = Some (of_nat (length pre))"
    using strcspn_conv(2) [OF assms(1) f(2)] assms(2) by blast
  moreover have "(of_nat (length pre) :: u32) \<noteq> of_nat (length f)"
  proof -
    have "unat (of_nat (length pre) :: u32) < unat (of_nat (length f) :: u32)"
      using f(1) assms(4) by (simp add: unat_of_nat_less del: of_nat_Suc of_nat_add)
    then show ?thesis by auto
  qed
  moreover obtain ws where "vdprintf_loop m pct (p + of_nat (length f)) p p vlist [] = Some (0, ws)" "concat ws = out"
    using vdprintf_loop_renders [OF assms(1,3,2,4), of "[]"] by auto
  ultimately show thesis
    using that strlen_cstr [OF assms(2)] by (simp add: vdprintf_def)
qed

section \<open>vsnprintf stores the text of its format\<close>

lemma copied_stored: "copied m d s n = stored m d (read_bytes m s n)"
  by (rule ext) (simp add: copied_def stored_def read_bytes_def word_less_nat_alt)

lemma memcpy_apart:
  "(\<And>i. i < unat n \<Longrightarrow> \<not> (s + of_nat i) - d < n) \<Longrightarrow> fst (memcpy m d s n) = stored m d (read_bytes m s n)"
  by (simp add: memcpy_copied fwd_safe_apart copied_stored)

lemma cstr_stored:
  assumes "cstr m p s" and "\<And>i. i \<le> length s \<Longrightarrow> n \<le> unat (p + of_nat i - str)" and "length o1 \<le> n"
  shows "cstr (stored m str o1) p s"
proof -
  have "stored m str o1 (p + of_nat i) = m (p + of_nat i)" if "i \<le> length s" for i
    using assms(2) [OF that] assms(3) by (intro stored_out) simp
  then show ?thesis using assms(1) cstr_cong by blast
qed

definition buffer :: "addr \<Rightarrow> u32 \<Rightarrow> addr set" where
  "buffer str sz = {a. unat (a - str) < unat sz}"

lemma arg_text_stored:
  "arg_text m (buffer str sz) c v t \<Longrightarrow> length o1 \<le> unat sz \<Longrightarrow> arg_text (stored m str o1) (buffer str sz) c v t"
  by (auto simp: arg_text_def buffer_def not_less intro: cstr_stored)

lemma fits: "n + k \<le> unat (sz :: u32) \<Longrightarrow>
  min (of_nat k :: u32) (sz - of_nat n) = of_nat k"
  using unat_available [of n sz] unat_lt_exp [of sz]
  by (intro min_absorb1) (simp add: word_le_nat_alt unat_of_nat_less)

lemma vsnprintf_literal:
  assumes "cstr (stored m str o1) p (pre @ s)" and "length o1 + length pre \<le> unat sz"
    and "\<And>i. i \<le> length (pre @ s) \<Longrightarrow> p + of_nat i \<notin> buffer str sz"
  shows "fst (memcpy (stored m str o1) (str + of_nat (length o1)) p (of_nat (length pre))) =
    stored m str (o1 @ pre)"
proof -
  have pre: "length pre < 2 ^ 32" using assms(2) unat_lt_exp [of sz] by simp
  have "\<not> (p + of_nat i) - (str + of_nat (length o1)) < of_nat (length pre)" if "i < length pre" for i
  proof -
    have "unat sz \<le> unat (p + of_nat i - str)"
      using assms(3) [of i] that by (simp add: buffer_def not_less)
    then have "unat (p + of_nat i - str - of_nat (length o1)) = unat (p + of_nat i - str) - length o1"
      using assms(2) by (intro unat_available) simp
    then show ?thesis
      using assms(2) \<open>unat sz \<le> _\<close> pre by (simp add: word_less_nat_alt unat_of_nat_less diff_diff_eq not_less)
  qed
  then have "fst (memcpy (stored m str o1) (str + of_nat (length o1)) p (of_nat (length pre))) =
    stored (stored m str o1) (str + of_nat (length o1)) (read_bytes (stored m str o1) p (of_nat (length pre)))"
    using pre by (intro memcpy_apart) (simp add: unat_of_nat_less)
  moreover have "length o1 + length pre \<le> 2 ^ 32" using assms(2) unat_lt_exp [of sz] by simp
  ultimately show ?thesis
    using pre read_bytes_prefix [OF assms(1)] by (simp add: stored_append)
qed

lemma put_text_full:
  assumes "arg_text m (buffer str sz) c v t" and "length o1 + length t \<le> unat sz"
  shows "put_text (stored m str o1) c (str + of_nat (length o1)) (v # vl) t (of_nat (length t)) =
    stored m str (o1 @ t)"
proof (cases "c = 115")
  case True
  then have "cstr (stored m str o1) v (t @ [])" "\<And>i. i \<le> length t \<Longrightarrow> v + of_nat i \<notin> buffer str sz"
    using arg_text_stored [OF assms(1), of o1] assms by (auto simp: arg_text_def)
  then show ?thesis using True assms(2) vsnprintf_literal [of m str o1 v t "[]" sz] by (simp add: put_text_def)
next
  case False
  have l: "length t < 2 ^ 32" "length o1 + length t \<le> 2 ^ 32"
    using assms(2) unat_lt_exp [of sz] by simp_all
  then show ?thesis using False by (simp add: put_text_def unat_of_nat_less stored_append)
qed

lemma vsnprintf_loop_renders:
  assumes pct: "cstr m pct [37]" "pct \<notin> buffer str sz" "pct + 1 \<notin> buffer str sz"
  shows "renders m (buffer str sz) f vlist out \<Longrightarrow> cstr m p f \<Longrightarrow>
    (\<And>i. i \<le> length f \<Longrightarrow> p + of_nat i \<notin> buffer str sz) \<Longrightarrow> unat p + length f + 1 < 2 ^ 32 \<Longrightarrow>
    length o1 + length out \<le> unat sz \<Longrightarrow>
    vsnprintf_loop (stored m str o1) pct str sz (p + of_nat (length f)) p vlist
      (of_nat (length o1)) (of_nat (length o1)) =
    Some (stored m str (o1 @ out), of_nat (length o1 + length out))"
proof (induction "length f" arbitrary: f p vlist out o1 rule: less_induct)
  case less
  let ?R = "buffer str sz" and ?m = "stored m str o1"
  have fe: "unat (p + of_nat (length f)) = unat p + length f"
    using less.prems(4) by (intro unat_add_of_nat) simp
  have apart: "unat sz \<le> unat (p + of_nat i - str)" if "i \<le> length f" for i
    using less.prems(3) [OF that] by (simp add: buffer_def not_less)
  have p: "cstr ?m p f" using less.prems(2,5) apart by (intro cstr_stored [where n = "unat sz"]) auto
  have "unat sz \<le> unat (pct + of_nat i - str)" if "i \<le> length [37 :: byte]" for i
    using that pct(2,3) by (cases i) (auto simp: buffer_def not_less)
  then have pct': "cstr (stored m str o2) pct [37]" if "length o2 \<le> unat sz" for o2
    using that by (intro cstr_stored [OF pct(1), where n = "unat sz"]) auto
  have pctm: "cstr ?m pct [37]" using pct' less.prems(5) by simp
  from renders_split [OF less.prems(1)] show ?case
  proof (elim disjE exE conjE)
    assume n: "37 \<notin> set f" and out: "out = f"
    show ?thesis
    proof (cases "f = []")
      case True
      then show ?thesis using p out by (subst vsnprintf_loop.simps) simp
    next
      case False
      then have "?m p \<noteq> 0" using p by (cases f) auto
      moreover have "p < p + of_nat (length f)"
        using False fe by (simp add: word_less_nat_alt)
      moreover have "fst (memcpy ?m (str + of_nat (length o1)) p (of_nat (length f))) = stored m str (o1 @ f)"
        using vsnprintf_literal [of m str o1 p f "[]" sz] p less.prems(3,5) out by simp
      moreover have "min (of_nat (length f)) (sz - of_nat (length o1)) = of_nat (length f)"
        using less.prems(5) out by (intro fits) simp
      ultimately show ?thesis
        using strcspn_conv(1) [OF pctm n p] out
        by (subst vsnprintf_loop.simps) (simp add: Let_def)
    qed
  next
    fix pre c g v vlist' t out'
    assume f: "f = pre @ 37 # c # g" and pre: "37 \<notin> set pre" and vl: "vlist = v # vlist'"
      and t: "arg_text m ?R c v t" and g: "renders m ?R g vlist' out'" and out: "out = pre @ t @ out'"
    let ?q = "p + of_nat (length pre) + 1"
    let ?o2 = "o1 @ pre @ t"
    define E where "E = p + of_nat (length f)"
    have E: "?q + 1 + of_nat (length g) = E" using f by (simp add: E_def)
    have head: "?m p \<noteq> 0" using p f by (cases pre) auto
    have lt: "p < E" using f fe by (simp add: word_less_nat_alt E_def)
    have "unat (p + of_nat (length pre)) < unat E"
      using unat_add_of_nat [of p "length pre"] fe less.prems(4) f by (simp add: E_def)
    then have ne: "p + of_nat (length pre) \<noteq> E" by auto
    have cs: "strcspn ?m p pct = Some (of_nat (length pre))"
      using strcspn_conv(2) [OF pctm pre] p f by blast
    have lit: "fst (memcpy ?m (str + of_nat (length o1)) p (of_nat (length pre))) = stored m str (o1 @ pre)"
      using p f less.prems(3,5) out by (intro vsnprintf_literal [of m str o1 p pre "37 # c # g" sz]) auto
    have "cstr (stored m str (o1 @ pre)) p f" using less.prems(2,5) apart out by (intro cstr_stored [where n = "unat sz"]) auto
    then have c: "stored m str (o1 @ pre) ?q = c" "c \<noteq> 0" using f by (simp_all add: cstr_append)
    have conv: "conversion (stored m str (o1 @ pre)) c vlist = Some (Some (t, vlist'))"
      using conversion_text [OF arg_text_stored [OF t, of "o1 @ pre"]] less.prems(5) out vl by simp
    have st: "put_text (stored m str (o1 @ pre)) c (str + of_nat (length (o1 @ pre))) vlist t (of_nat (length t)) =
        stored m str ?o2"
      using put_text_full [OF t, of "o1 @ pre" vlist'] less.prems(5) out vl by simp
    have "vsnprintf_loop (stored m str ?o2) pct str sz E (?q + 1) vlist'
        (of_nat (length ?o2)) (of_nat (length ?o2)) = Some (stored m str (?o2 @ out'), of_nat (length ?o2 + length out'))"
    proof -
      have "unat (?q + 1) = unat p + (length pre + 2)"
        using unat_add_of_nat [of p "length pre + 2"] less.prems(4) f by (simp add: ac_simps)
      moreover have "?q + 1 + of_nat i \<notin> ?R" if "i \<le> length g" for i
        using less.prems(3) [of "length pre + 2 + i"] that f by (simp add: ac_simps)
      moreover have "cstr m (?q + 1) g" using less.prems(2) f by (simp add: cstr_append)
      ultimately show ?thesis
        using less.hyps [of g vlist' out' "?q + 1" ?o2] g less.prems(4,5) f out E by (simp add: add.assoc)
    qed
    moreover have "length t < 2 ^ 32" "length pre < 2 ^ 32"
      using less.prems(5) out unat_lt_exp [of sz] by simp_all
    moreover have "min (of_nat (length pre)) (sz - of_nat (length o1)) = of_nat (length pre)"
      using less.prems(5) out by (intro fits) simp
    moreover have "min (of_nat (length t)) (sz - of_nat (length (o1 @ pre))) = of_nat (length t)"
      using less.prems(5) out by (intro fits) simp
    ultimately show ?thesis
      using head lt ne cs lit c conv st out
      unfolding E_def [symmetric]
      by (subst vsnprintf_loop.simps)
        (simp add: Let_def unat_of_nat_less add.assoc diff_diff_eq)
  qed
qed

text \<open>
  When the text fits, \<open>vsnprintf\<close> stores exactly its bytes (no NUL follows them) and returns their
  number; neither the format nor a string argument may overlap the buffer.
\<close>

theorem vsnprintf_renders:
  assumes pct: "cstr m pct [37]" "pct \<notin> buffer str sz" "pct + 1 \<notin> buffer str sz"
    and f: "cstr m p f" "\<And>i. i \<le> length f \<Longrightarrow> p + of_nat i \<notin> buffer str sz" "unat p + length f + 1 < 2 ^ 32"
    and r: "renders m (buffer str sz) f vlist out" "length out \<le> unat sz" and "str \<noteq> NULL"
  shows "vsnprintf m pct str sz p vlist = Some (stored m str out, of_nat (length out))"
proof (cases "37 \<in> set f")
  case False
  then have out: "out = f" using renders_split [OF r(1)] by auto
  then have "fst (memcpy m str p (of_nat (length f))) = stored m str f"
    using vsnprintf_literal [of m str "[]" p f "[]" sz] f(1,2) r(2) by simp
  then show ?thesis
    using strcspn_conv(1) [OF pct(1) False f(1)] out assms(9) fits [of 0 "length f" sz] r(2)
    by (auto simp add: vsnprintf_def strlen_cstr [OF f(1)])
next
  case True
  then obtain pre g where g: "f = pre @ 37 # g" "37 \<notin> set pre" by (meson split_list_first)
  then have "strcspn m p pct = Some (of_nat (length pre))"
    using strcspn_conv(2) [OF pct(1) g(2)] f(1) by blast
  moreover have "(of_nat (length pre) :: u32) \<noteq> of_nat (length f)"
  proof -
    have "unat (of_nat (length pre) :: u32) < unat (of_nat (length f) :: u32)"
      using g(1) f(3) by (simp add: unat_of_nat_less del: of_nat_Suc of_nat_add)
    then show ?thesis by auto
  qed
  moreover have "vsnprintf_loop m pct str sz (p + of_nat (length f)) p vlist 0 0 =
      Some (stored m str out, of_nat (length out))"
    using vsnprintf_loop_renders [OF pct r(1) f(1,2,3), of "[]"] r(2) by simp
  ultimately show ?thesis using strlen_cstr [OF f(1)] by (simp add: vsnprintf_def)
qed
end
