(* ===== verification/Libc_Time.thy ===== *)
theory Libc_Time
  imports Libc_Fmt "HOL-Library.Signed_Division"
begin

text \<open>
  Calendar time in \<open>src/kstdlib/libc.c\<close>: \<open>is_leap\<close> and \<open>ctime\<close>. A \<open>time_t\<close> is a signed
  32-bit count of seconds, here its integer value with C's truncating division. The specification counts the seconds from the
  epoch to a date, and \<open>ctime\<close> inverts it.
\<close>

section \<open>The code\<close>

definition is_leap :: "int \<Rightarrow> bool" where
  "is_leap year \<longleftrightarrow> year mod 4 = 0 \<and> (year mod 100 \<noteq> 0 \<or> year mod 400 = 0)"

definition day_seconds :: int where "day_seconds = 24 * (60 * 60)"
definition year_seconds :: int where "year_seconds = 365 * day_seconds"
definition leap_year_seconds :: int where "leap_year_seconds = year_seconds + day_seconds"

definition month_days :: "int list" where
  "month_days = [31, 28, 31, 30, 31, 30, 31, 31, 30, 31, 30, 31]"

partial_function (option) ctime_year :: "int \<Rightarrow> int \<Rightarrow> int \<Rightarrow> (int \<times> int) option" where
  "ctime_year year current_year_seconds time_left =
     (if 1 \<le> time_left sdiv current_year_seconds
      then (let time_left = time_left - current_year_seconds; year = year + 1
            in ctime_year year (if is_leap year then leap_year_seconds else year_seconds) time_left)
      else Some (year, time_left))"

text \<open>The last argument counts the iterations that are left: the loop index is 11 minus it.\<close>

fun ctime_month :: "int \<Rightarrow> int \<Rightarrow> int \<Rightarrow> nat \<Rightarrow> int \<times> int" where
  "ctime_month year month time_left 0 = (month, time_left)"
| "ctime_month year month time_left (Suc k) =
     (let i = 11 - k;
          days = month_days ! i + (if i = 1 \<and> is_leap year then 1 else 0);
          current_month_seconds = days * day_seconds
      in if 1 \<le> time_left sdiv current_month_seconds
         then ctime_month year (month + 1) (time_left - current_month_seconds) k
         else (month, time_left))"

text \<open>Year, month, day, hour, minute and second.\<close>

record calendar =
  c_year :: int
  c_month :: int
  c_day :: int
  c_hour :: int
  c_minute :: int
  c_second :: int

definition ctime_fields :: "int \<Rightarrow> calendar option" where
  "ctime_fields time = do {
     (year, time_left) \<leftarrow> ctime_year 1970 year_seconds time;
     let (month, time_left) = ctime_month year 1 time_left 12;
     let day = 1 + time_left sdiv day_seconds;
     let time_left = time_left smod day_seconds;
     let hour = time_left sdiv (60 * 60);
     let time_left = time_left smod (60 * 60);
     let minute = time_left sdiv 60;
     let second = time_left smod 60;
     Some \<lparr>c_year = year, c_month = month, c_day = day, c_hour = hour, c_minute = minute,
           c_second = second\<rparr>
   }"

text \<open>The static buffer \<open>tstr\<close>, and the literals \<open>"%"\<close> and \<open>"%i/%i/%i %i:%i:%i"\<close> are given by their addresses.\<close>

definition ctime :: "mem \<Rightarrow> addr \<Rightarrow> addr \<Rightarrow> addr \<Rightarrow> int \<Rightarrow> (mem \<times> addr) option" where
  "ctime m pct tstr fmt time = do {
     let m = fst (memset m tstr 0 26);
     c \<leftarrow> ctime_fields time;
     (m, _) \<leftarrow> vsnprintf m pct tstr 26 fmt
       (map word_of_int [c_year c, c_month c, c_day c, c_hour c, c_minute c, c_second c]);
     Some (m, tstr)
   }"

section \<open>The calendar\<close>

definition days_in_month :: "int \<Rightarrow> nat \<Rightarrow> int" where
  "days_in_month y i = month_days ! i + (if i = 1 \<and> is_leap y then 1 else 0)"

definition days_in_year :: "int \<Rightarrow> int" where
  "days_in_year y = (if is_leap y then 366 else 365)"

definition valid_date :: "calendar \<Rightarrow> bool" where
  "valid_date c \<longleftrightarrow> 1970 \<le> c_year c \<and> 1 \<le> c_month c \<and> c_month c \<le> 12 \<and>
     1 \<le> c_day c \<and> c_day c \<le> days_in_month (c_year c) (nat (c_month c) - 1) \<and>
     0 \<le> c_hour c \<and> c_hour c < 24 \<and> 0 \<le> c_minute c \<and> c_minute c < 60 \<and>
     0 \<le> c_second c \<and> c_second c < 60"

text \<open>Days before a year, days before a month of a year, and the seconds since the epoch.\<close>

definition days_before_year :: "int \<Rightarrow> int" where
  "days_before_year y = (\<Sum>i<nat (y - 1970). days_in_year (1970 + int i))"

definition days_before_month :: "int \<Rightarrow> nat \<Rightarrow> int" where
  "days_before_month y mo = (\<Sum>i<mo. days_in_month y i)"

definition epoch_seconds :: "calendar \<Rightarrow> int" where
  "epoch_seconds c =
     (days_before_year (c_year c) + days_before_month (c_year c) (nat (c_month c) - 1) + (c_day c - 1)) * 86400
     + c_hour c * 3600 + c_minute c * 60 + c_second c"

lemma days_before_year_Suc: "1970 \<le> y \<Longrightarrow> days_before_year (y + 1) = days_before_year y + days_in_year y"
proof -
  assume "1970 \<le> y"
  then have "nat (y + 1 - 1970) = Suc (nat (y - 1970))" and "1970 + int (nat (y - 1970)) = y" by auto
  then show ?thesis by (simp add: days_before_year_def)
qed

lemma days_before_month_12: "days_before_month y 12 = days_in_year y"
  by (simp add: days_before_month_def days_in_month_def month_days_def days_in_year_def eval_nat_numeral)

lemma sdiv_nonneg: "0 \<le> (a :: int) \<Longrightarrow> 0 < b \<Longrightarrow> a sdiv b = a div b"
  "0 \<le> (a :: int) \<Longrightarrow> 0 < b \<Longrightarrow> a smod b = a mod b"
  by (simp_all add: signed_divide_int_def signed_modulo_int_def sgn_if minus_mult_div_eq_mod)

lemma sdiv_ge_1: "0 \<le> (a :: int) \<Longrightarrow> 0 < b \<Longrightarrow> 1 \<le> a sdiv b \<longleftrightarrow> b \<le> a"
  by (auto simp: sdiv_nonneg pos_imp_zdiv_pos_iff int_one_le_iff_zero_less)


declare ctime_year.simps [simp del]

lemma year_length: "(if is_leap y then leap_year_seconds else year_seconds) = days_in_year y * 86400"
  by (simp add: days_in_year_def leap_year_seconds_def year_seconds_def day_seconds_def)

lemma days_in_year_pos: "0 < days_in_year y"
  by (simp add: days_in_year_def)

text \<open>The year loop ends, and leaves the seconds into the year it returns.\<close>

lemma ctime_year_correct:
  "1970 \<le> y \<Longrightarrow> 0 \<le> t \<Longrightarrow> \<exists>y' t'. ctime_year y (days_in_year y * 86400) t = Some (y', t') \<and> y \<le> y' \<and>
    0 \<le> t' \<and> t' < days_in_year y' * 86400 \<and>
    days_before_year y' * 86400 + t' = days_before_year y * 86400 + t"
proof (induction "nat t" arbitrary: y t rule: less_induct)
  case less
  let ?s = "days_in_year y * 86400"
  have pos: "0 < ?s" using days_in_year_pos [of y] by simp
  show ?case
  proof (cases "?s \<le> t")
    case False
    then show ?thesis
      using less.prems pos by (subst ctime_year.simps) (simp add: sdiv_ge_1)
  next
    case True
    then have "nat (t - ?s) < nat t" "0 \<le> t - ?s" using pos by auto
    from less.hyps [OF this(1) _ this(2), of "y + 1"] less.prems obtain y' t' where
      "ctime_year (y + 1) (days_in_year (y + 1) * 86400) (t - ?s) = Some (y', t')" "y + 1 \<le> y'" "0 \<le> t'"
      "t' < days_in_year y' * 86400"
      "days_before_year y' * 86400 + t' = days_before_year (y + 1) * 86400 + (t - ?s)"
      by auto
    moreover have "ctime_year y ?s t = ctime_year (y + 1) (days_in_year (y + 1) * 86400) (t - ?s)"
      using True less.prems pos
      by (subst ctime_year.simps) (simp add: sdiv_ge_1 year_length Let_def)
    ultimately show ?thesis using days_before_year_Suc [OF less.prems(1)] by auto
  qed
qed

text \<open>The month loop: \<open>k\<close> iterations are left after the months before \<open>12 - k\<close>.\<close>

lemma days_in_month_pos: "i < 12 \<Longrightarrow> 28 \<le> days_in_month y i"
proof -
  have "\<forall>i\<in>{..<12}. 28 \<le> month_days ! i" by code_simp
  moreover assume "i < 12"
  ultimately have "28 \<le> month_days ! i" by blast
  moreover have "0 \<le> (if i = 1 \<and> is_leap y then 1 else 0 :: int)" by simp
  ultimately show ?thesis unfolding days_in_month_def by linarith
qed

lemma days_in_month_nonneg: "i < 12 \<Longrightarrow> 0 \<le> days_in_month y i"
  using days_in_month_pos [of i y] by linarith

lemma days_before_month_Suc: "days_before_month y (Suc i) = days_before_month y i + days_in_month y i"
  by (simp add: days_before_month_def)

lemma ctime_month_step:
  assumes "k < 12" and "0 \<le> t"
  shows "ctime_month y mo t (Suc k) =
    (if days_in_month y (11 - k) * 86400 \<le> t
     then ctime_month y (mo + 1) (t - days_in_month y (11 - k) * 86400) k else (mo, t))"
proof -
  have eq: "(month_days ! (11 - k) + (if 11 - k = 1 \<and> is_leap y then 1 else 0)) * day_seconds =
      days_in_month y (11 - k) * 86400"
    by (simp add: days_in_month_def day_seconds_def)
  have "0 < days_in_month y (11 - k) * 86400" using days_in_month_pos [of "11 - k" y]
    by linarith
  then show ?thesis
    unfolding ctime_month.simps Let_def eq using sdiv_ge_1 [OF assms(2)] by simp
qed

declare ctime_month.simps [simp del]

lemma ctime_month_correct:
  "k \<le> 12 \<Longrightarrow> 0 \<le> t \<Longrightarrow> days_before_month y (12 - k) * 86400 + t < days_in_year y * 86400 \<Longrightarrow>
    ctime_month y (int (12 - k) + 1) t k = (mo, t') \<Longrightarrow>
    int (12 - k) < mo \<and> mo \<le> 12 \<and> 0 \<le> t' \<and> t' < days_in_month y (nat mo - 1) * 86400 \<and>
    days_before_month y (nat mo - 1) * 86400 + t' = days_before_month y (12 - k) * 86400 + t"
proof (induction k arbitrary: t)
  case 0
  then show ?case by (simp add: days_before_month_12)
next
  case (Suc k)
  define i where "i = 11 - k"
  have i: "12 - Suc k = i" "12 - k = Suc i" "11 - k = i" "i < 12" "k < 12"
    using Suc.prems(1) by (auto simp: i_def)
  note step = ctime_month_step [OF i(5) Suc.prems(2), of y "int i + 1", unfolded i]
  show ?case
  proof (cases "days_in_month y i * 86400 \<le> t")
    case False
    with step Suc.prems i(4) show ?thesis unfolding i by (auto simp: nat_add_distrib)
  next
    case True
    then have "ctime_month y (int (Suc i) + 1) (t - days_in_month y i * 86400) k = (mo, t')"
      using step Suc.prems(4) unfolding i by (simp add: add.commute)
    with Suc.IH [of "t - days_in_month y i * 86400"] Suc.prems True show ?thesis
      unfolding i by (auto simp: days_before_month_Suc algebra_simps)
  qed
qed

section \<open>ctime inverts the calendar\<close>

lemma ctime_fields_correct:
  assumes "0 \<le> t"
  shows "\<exists>c. ctime_fields t = Some c \<and> valid_date c \<and> epoch_seconds c = t"
proof -
  obtain y t1 where y: "ctime_year 1970 year_seconds t = Some (y, t1)" "1970 \<le> y" "0 \<le> t1"
    "t1 < days_in_year y * 86400" "days_before_year y * 86400 + t1 = t"
    using ctime_year_correct [of 1970 t] assms year_length [of 1970]
    by (auto simp: days_before_year_def is_leap_def)
  obtain mo t2 where mo: "ctime_month y 1 t1 12 = (mo, t2)" by (cases "ctime_month y 1 t1 12")
  then have m: "1 \<le> mo" "mo \<le> 12" "0 \<le> t2" "t2 < days_in_month y (nat mo - 1) * 86400"
    "days_before_month y (nat mo - 1) * 86400 + t2 = t1"
    using ctime_month_correct [of 12 t1 y mo t2] y(3,4) by (auto simp: days_before_month_def)
  define d r h r2 mi se where def: "d = t2 div 86400" "r = t2 mod 86400" "h = r div 3600"
    "r2 = r mod 3600" "mi = r2 div 60" "se = r2 mod 60"
  have split: "t2 = d * 86400 + r" "0 \<le> r" "r < 86400" "r = h * 3600 + r2" "0 \<le> r2" "r2 < 3600"
    "r2 = mi * 60 + se" "0 \<le> se" "se < 60"
    by (simp_all add: def)
  let ?c = "\<lparr>c_year = y, c_month = mo, c_day = 1 + d, c_hour = h, c_minute = mi, c_second = se\<rparr>"
  have "ctime_fields t = Some ?c"
    using m(3) by (simp add: ctime_fields_def y(1) mo day_seconds_def sdiv_nonneg Let_def def)
  moreover have "0 \<le> d" "0 \<le> h" "h < 24" "0 \<le> mi" "mi < 60"
    using split m(3) by linarith+
  moreover have "d < days_in_month y (nat mo - 1)"
  proof -
    have "d * 86400 < days_in_month y (nat mo - 1) * 86400" using split(1,2) m(4) by linarith
    then show ?thesis by linarith
  qed
  moreover have "epoch_seconds ?c = t"
    unfolding y(5) [symmetric] m(5) [symmetric] split(1,4,7) by (simp add: epoch_seconds_def)
  ultimately show ?thesis using y(2) m(1,2) split(8,9) by (simp add: valid_date_def)
qed

text \<open>Different valid dates have different times, so the inverse is exact on both sides.\<close>

lemma days_before_year_mono: "1970 \<le> y \<Longrightarrow> y < y' \<Longrightarrow> days_before_year y + days_in_year y \<le> days_before_year y'"
proof -
  assume y: "1970 \<le> y" "y < y'"
  then have "{..<nat (y + 1 - 1970)} \<subseteq> {..<nat (y' - 1970)}" by auto
  then have "days_before_year (y + 1) \<le> days_before_year y'"
    unfolding days_before_year_def using days_in_year_pos
    by (intro sum_mono2) (auto intro: order_less_imp_le)
  then show ?thesis using days_before_year_Suc [OF y(1)] by simp
qed

lemma days_before_month_mono: "i < j \<Longrightarrow> j \<le> 12 \<Longrightarrow> days_before_month y i + days_in_month y i \<le> days_before_month y j"
proof -
  assume "i < j" "j \<le> 12"
  then have "days_before_month y (Suc i) \<le> days_before_month y j"
    unfolding days_before_month_def 
    by (intro sum_mono2) (auto intro: days_in_month_nonneg)
  then show ?thesis by (simp add: days_before_month_Suc)
qed

lemma strict_parts_unique:
  fixes f g :: "'a::linorder \<Rightarrow> int"
  assumes "\<And>a b. P a \<Longrightarrow> P b \<Longrightarrow> a < b \<Longrightarrow> f a + g a \<le> f b"
    and "P a" "P b" "0 \<le> x" "x < g a" "0 \<le> y" "y < g b" "f a + x = f b + y"
  shows "a = b \<and> x = y"
  using assms(1) [of a b] assms(1) [of b a] assms(2-) by (cases a b rule: linorder_cases) auto

lemma scaled_unique:
  fixes a b k x y :: int
  assumes "0 \<le> x" "x < k" "0 \<le> y" "y < k" "a * k + x = b * k + y"
  shows "a = b \<and> x = y"
proof (rule strict_parts_unique [where P = "\<lambda>_. True" and f = "\<lambda>a. a * k" and g = "\<lambda>_. k"])
  show "a * k + k \<le> b * k" if "a < b" for a b :: int
    using that assms(1,2) mult_right_mono [of "a + 1" b k] by (simp add: algebra_simps)
qed (use assms in auto)

lemma epoch_seconds_inj:
  assumes "valid_date c" and "valid_date c'" and "epoch_seconds c = epoch_seconds c'"
  shows "c = c'"
proof -
  let ?D = "\<lambda>c. days_before_year (c_year c) + days_before_month (c_year c) (nat (c_month c) - 1) + (c_day c - 1)"
  let ?M = "\<lambda>c. days_before_month (c_year c) (nat (c_month c) - 1) + (c_day c - 1)"
  have M: "0 \<le> ?M c \<and> ?M c < days_in_year (c_year c) \<and> nat (c_month c) - 1 < 12" if "valid_date c" for c
  proof -
    let ?i = "nat (c_month c) - 1"
    have i: "?i < 12" using that by (auto simp: valid_date_def)
    have "0 \<le> days_before_month (c_year c) ?i"
      unfolding days_before_month_def using i
      by (intro sum_nonneg days_in_month_nonneg) auto
    moreover have "days_before_month (c_year c) ?i + days_in_month (c_year c) ?i \<le> days_in_year (c_year c)"
      using days_before_month_mono [OF i, of "c_year c"] by (simp add: days_before_month_12)
    ultimately show ?thesis using that i by (auto simp: valid_date_def)
  qed
  have eq: "?D c * 86400 + c_hour c * 3600 + c_minute c * 60 + c_second c =
      ?D c' * 86400 + c_hour c' * 3600 + c_minute c' * 60 + c_second c'"
    using assms(3) by (simp add: epoch_seconds_def)
  note v = assms(1,2) [unfolded valid_date_def]
  let ?S = "\<lambda>c. c_minute c * 60 + c_second c" and ?T = "\<lambda>c. c_hour c * 3600 + (c_minute c * 60 + c_second c)"
  have "?D c = ?D c' \<and> ?T c = ?T c'" using v eq by (intro scaled_unique [where k = 86400]) linarith+
  moreover from this have "c_hour c = c_hour c' \<and> ?S c = ?S c'"
    using v by (intro scaled_unique [where k = 3600]) linarith+
  moreover from this have "c_minute c = c_minute c' \<and> c_second c = c_second c'"
    using v by (intro scaled_unique [where k = 60]) linarith+
  ultimately have D: "?D c = ?D c'" and h: "c_hour c = c_hour c'" and m: "c_minute c = c_minute c'"
    and s: "c_second c = c_second c'" by blast+
  have y: "c_year c = c_year c' \<and> ?M c = ?M c'"
    by (rule strict_parts_unique [where P = "\<lambda>y. 1970 \<le> y" and f = days_before_year and g = days_in_year])
      (use v M [OF assms(1)] M [OF assms(2)] D days_before_year_mono in auto)
  have "nat (c_month c) - 1 = nat (c_month c') - 1 \<and> c_day c - 1 = c_day c' - 1"
    by (rule strict_parts_unique [where P = "\<lambda>i. i < 12" and f = "days_before_month (c_year c)"
          and g = "days_in_month (c_year c)"])
      (use v M [OF assms(1)] M [OF assms(2)] y days_before_month_mono in auto)
  then have "c_month c = c_month c'" "c_day c = c_day c'" using v by auto
  with y h m s show ?thesis by simp
qed

theorem ctime_fields_inverse:
  assumes "valid_date c" and "0 \<le> epoch_seconds c"
  shows "ctime_fields (epoch_seconds c) = Some c"
  using ctime_fields_correct [OF assms(2)] epoch_seconds_inj [OF assms(1)] by metis

section \<open>The text of a date\<close>

definition ctime_text :: "calendar \<Rightarrow> byte list" where
  "ctime_text c = int_text (c_year c) @ 47 # int_text (c_month c) @ 47 # int_text (c_day c) @
     32 # int_text (c_hour c) @ 58 # int_text (c_minute c) @ 58 # int_text (c_second c)"

definition ctime_format :: "byte list" where
  "ctime_format = cs ''%i/%i/%i %i:%i:%i''"

lemma int_text_length: "0 \<le> i \<Longrightarrow> i < 10 ^ k \<Longrightarrow> 0 < k \<Longrightarrow> length (int_text i) \<le> k"
  using digits_length_base [of 10 "nat i" k]
  by (auto simp: int_text_def numeral_bytes_def nat_less_iff)

lemma int_text_nonzero: "0 \<notin> set (int_text i)"
  using numeral_bytes_nonzero [of 10] by (auto simp: int_text_def)

lemma sint_word_of_int: "- (2 ^ 31) \<le> i \<Longrightarrow> i < 2 ^ 31 \<Longrightarrow> sint (word_of_int i :: u32) = i"
  by (simp add: signed_of_int signed_take_bit_int_eq_self)

lemma renders_int:
  assumes "- (2 ^ 31) \<le> i" and "i < 2 ^ 31" and "renders m R s vlist out"
  shows "renders m R (37 # 105 # s) (word_of_int i # vlist) (int_text i @ out)"
  by (rule renders_conv [OF _ assms(3)]) (simp add: arg_text_def sint_word_of_int [OF assms(1,2)])

lemma days_before_year_ge: "1970 \<le> y \<Longrightarrow> 365 * (y - 1970) \<le> days_before_year y"
proof -
  assume "1970 \<le> y"
  have "(\<Sum>i<nat (y - 1970). 365 :: int) \<le> days_before_year y"
    unfolding days_before_year_def by (intro sum_mono) (simp add: days_in_year_def)
  with \<open>1970 \<le> y\<close> show ?thesis by simp
qed

lemma days_before_month_nonneg: "i < 12 \<Longrightarrow> 0 \<le> days_before_month y i"
  unfolding days_before_month_def by (intro sum_nonneg days_in_month_nonneg) auto

lemma valid_month_index: "valid_date c \<Longrightarrow> nat (c_month c) - 1 < 12"
  by (auto simp: valid_date_def)

lemma year_bound: "valid_date c \<Longrightarrow> epoch_seconds c < 2 ^ 31 \<Longrightarrow> c_year c < 2040"
  using days_before_year_ge [of "c_year c"] days_before_month_nonneg [of "nat (c_month c) - 1" "c_year c"]
  using valid_month_index [of c] by (auto simp: valid_date_def epoch_seconds_def)

lemma days_in_month_le: "i < 12 \<Longrightarrow> days_in_month y i < 100"
proof -
  have "\<forall>i\<in>{..<12}. month_days ! i < 32" by code_simp
  moreover assume "i < 12"
  ultimately have "month_days ! i < 32" by blast
  moreover have "(if i = 1 \<and> is_leap y then 1 else 0 :: int) \<le> 1" by simp
  ultimately show ?thesis unfolding days_in_month_def by linarith
qed

lemma valid_day: "valid_date c \<Longrightarrow> c_day c < 100"
  using days_in_month_le [OF valid_month_index, of c "c_year c"] by (simp add: valid_date_def)

lemma ctime_text_length:
  assumes "valid_date c" and "c_year c < 10000"
  shows "length (ctime_text c) \<le> 19"
proof -
  have "c_day c < 100" using assms(1) by (rule valid_day)
  then show ?thesis
    using assms int_text_length [of "c_year c" 4] int_text_length [of "c_month c" 2]
      int_text_length [of "c_day c" 2] int_text_length [of "c_hour c" 2]
      int_text_length [of "c_minute c" 2] int_text_length [of "c_second c" 2]
    by (simp add: ctime_text_def valid_date_def)
qed

lemma ctime_format_bytes:
  "ctime_format = [37, 105, 47, 37, 105, 47, 37, 105, 32, 37, 105, 58, 37, 105, 58, 37, 105]"
  by (simp add: ctime_format_def)

lemma ctime_renders:
  assumes "valid_date c" and "c_year c < 10000"
  shows "renders m R ctime_format
    (map word_of_int [c_year c, c_month c, c_day c, c_hour c, c_minute c, c_second c]) (ctime_text c)"
proof -
  have "c_day c < 100" using assms(1) by (rule valid_day)
  then have "renders m R ctime_format
    (map word_of_int [c_year c, c_month c, c_day c, c_hour c, c_minute c, c_second c]) 
    (int_text (c_year c) @ 47 # int_text (c_month c) @ 47 # int_text (c_day c) @
     32 # int_text (c_hour c) @ 58 # int_text (c_minute c) @ 58 # int_text (c_second c) @ [])"
    using assms unfolding ctime_format_bytes list.map
    by (intro renders_int renders_char renders_end; simp add: valid_date_def)
  then show ?thesis by (simp add: ctime_text_def)
qed


text \<open>
  For every time from the epoch on, \<open>ctime\<close> leaves the date's text in its buffer: the date is valid,
  and its seconds since the epoch are the argument.
\<close>

theorem ctime_correct:
  assumes t: "0 \<le> t" "t < 2 ^ 31"
    and lit: "cstr m pct [37]" "cstr m fmt ctime_format" "unat fmt + 18 < 2 ^ 32"
    and apart: "\<And>i. i \<le> 1 \<Longrightarrow> pct + of_nat i \<notin> buffer tstr 26"
      "\<And>i. i \<le> 17 \<Longrightarrow> fmt + of_nat i \<notin> buffer tstr 26"
    and "tstr \<noteq> NULL"
  obtains m' c where "ctime m pct tstr fmt t = Some (m', tstr)"
    and "valid_date c" and "epoch_seconds c = t" and "cstr m' tstr (ctime_text c)"
    and "\<And>a. a \<notin> buffer tstr 26 \<Longrightarrow> m' a = m a"
proof -
  obtain c where c: "ctime_fields t = Some c" "valid_date c" "epoch_seconds c = t"
    using ctime_fields_correct [OF t(1)] by blast
  have y: "c_year c < 10000" using year_bound [OF c(2)] c(3) t(2) by simp
  have len: "length (ctime_text c) \<le> 19" by (rule ctime_text_length [OF c(2) y])
  let ?m = "fst (memset m tstr 0 26)"
  have frame: "?m a = m a" if "a \<notin> buffer tstr 26" for a
    using that by (simp add: memset_filled filled_def buffer_def word_less_nat_alt)
  have "cstr ?m pct [37]" "cstr ?m fmt ctime_format"
    using lit(1,2) apart cstr_cong [of "[37]" ?m pct m] cstr_cong [of ctime_format ?m fmt m]
    by (auto simp: frame ctime_format_bytes simp del: cstr.simps)
  moreover have "pct \<notin> buffer tstr 26" "pct + 1 \<notin> buffer tstr 26"
    using apart(1) [of 0] apart(1) [of 1] by simp_all
  moreover have "length ctime_format = 17" by (simp add: ctime_format_bytes)
  moreover from this have "fmt + of_nat i \<notin> buffer tstr 26" if "i \<le> length ctime_format" for i
    using apart(2) that by simp
  ultimately have "vsnprintf ?m pct tstr 26 fmt
      (map word_of_int [c_year c, c_month c, c_day c, c_hour c, c_minute c, c_second c]) =
      Some (stored ?m tstr (ctime_text c), of_nat (length (ctime_text c)))"
    using lit(3) ctime_renders [OF c(2) y] len assms(8) by (intro vsnprintf_renders) auto
  then have "ctime m pct tstr fmt t = Some (stored ?m tstr (ctime_text c), tstr)"
    by (simp add: ctime_def c(1))
  moreover have "cstr (stored ?m tstr (ctime_text c)) tstr (ctime_text c)"
  proof -
    have "0 \<notin> set (ctime_text c)" using int_text_nonzero by (simp add: ctime_text_def)
    moreover have "stored ?m tstr (ctime_text c) (tstr + of_nat (length (ctime_text c))) = 0"
      using len by (simp add: stored_def memset_filled filled_def word_less_nat_alt unat_of_nat_less)
    ultimately show ?thesis using len by (simp add: cstr_iff stored_in)
  qed
  moreover have "stored ?m tstr (ctime_text c) a = m a" if "a \<notin> buffer tstr 26" for a
    using that len frame [OF that] by (simp add: stored_def buffer_def)
  ultimately show thesis using that c by blast
qed
end
