(* ===== verification/Libc_Contract.thy ===== *)
theory Libc_Contract
  imports Libc_Token Libc_Time
begin

text \<open>
  What the routines of \<open>src/kstdlib/libc.c\<close> promise to their callers, each over C strings or byte
  ranges in memory: moves of overlapping blocks, comparison, search and tokenising of strings, the
  conversions between numbers, addresses, dates and text, and formatted output with its bounds.
\<close>

text \<open>A memory that holds byte blocks at given addresses and zeros elsewhere.\<close>

definition memory_of :: "(addr \<times> byte list) list \<Rightarrow> mem" where
  "memory_of bs = fold (\<lambda>(p, b) m. stored m p b) bs (\<lambda>_. 0)"

lemmas memory_simps = memory_of_def stored_def

section \<open>Blocks and strings\<close>

text \<open>\<open>memmove\<close> moves a block correctly however source and destination overlap: the destination gets the
  bytes the source had before, no other byte changes, and the destination is returned.\<close>

theorem memmove_moves:
  assumes "unat dst + unat len \<le> 2 ^ 32" and "unat src + unat len \<le> 2 ^ 32" and "unat len < 2 ^ 31"
  shows "\<exists>m'. memmove m dst src len = (m', dst) \<and> (\<forall>k<len. m' (dst + k) = m (src + k)) \<and>
    (\<forall>a. \<not> a - dst < len \<longrightarrow> m' a = m a)"
  using memmove_copied [OF assms] by (simp add: copied_in copied_out)

theorem memmove_moves_witness:
  "\<exists>m'. memmove (memory_of [(0x100, [1, 2, 3])]) 0x101 0x100 3 = (m', 0x101) \<and> m' 0x103 = 3 \<and> m' 0x102 = 2"
proof -
  obtain m' where m': "memmove (memory_of [(0x100, [1, 2, 3])]) 0x101 0x100 3 = (m', 0x101)"
    "\<forall>k<3. m' (0x101 + k) = memory_of [(0x100, [1, 2, 3])] (0x100 + k)"
    using memmove_moves [of "0x101" 3 "0x100" "memory_of [(0x100, [1, 2, 3])]"] by auto
  have "m' (0x101 + 2) = memory_of [(0x100, [1, 2, 3])] (0x100 + 2)"
    "m' (0x101 + 1) = memory_of [(0x100, [1, 2, 3])] (0x100 + 1)"
    using m'(2) [rule_format, of 2] m'(2) [rule_format, of 1] by simp_all
  then have "m' 0x103 = 3" "m' 0x102 = 2" by (simp_all add: memory_simps)
  then show ?thesis using m'(1) by simp
qed

text \<open>\<open>strcmp\<close> is a comparison: it returns zero exactly for equal strings and changes its sign when its
  arguments are exchanged; \<open>strcasecmp\<close> is zero exactly for strings that are equal up to the case of letters.\<close>

theorem strcmp_compares:
  assumes "cstr m p s" and "cstr m q t"
  shows "\<exists>r. strcmp m p q = Some r \<and> strcmp m q p = Some (- r) \<and> (r = 0 \<longleftrightarrow> s = t) \<and>
    (\<exists>c. strcasecmp m p q = Some c \<and> (c = 0 \<longleftrightarrow> map tolower s = map tolower t))"
proof -
  have z: "0 \<notin> set s" "0 \<notin> set t" using assms cstr_nonzero by blast+
  then have z': "0 \<notin> set (map tolower s)" "0 \<notin> set (map tolower t)" by auto
  have "strcmp m q p = Some (- cmp_bytes s t)" using strcmp_cstr [OF assms(2,1)] by (simp add: cmp_bytes_swap [of s t])
  then have "strcmp m p q = Some (cmp_bytes s t) \<and> strcmp m q p = Some (- cmp_bytes s t) \<and> (cmp_bytes s t = 0 \<longleftrightarrow> s = t)"
    using strcmp_cstr [OF assms] cmp_bytes_zero_iff [OF z] by simp
  moreover have "\<exists>c. strcasecmp m p q = Some c \<and> (c = 0 \<longleftrightarrow> map tolower s = map tolower t)"
    using strcasecmp_cstr [OF assms] cmp_bytes_zero_iff [OF z'] by simp
  ultimately show ?thesis by blast
qed

theorem strcmp_compares_witness:
  "\<exists>r. strcmp (memory_of [(0x100, cs ''ls''), (0x200, cs ''cd'')]) 0x100 0x200 = Some r \<and> r \<noteq> 0"
proof -
  let ?m = "memory_of [(0x100, cs ''ls''), (0x200, cs ''cd'')]"
  have "cstr ?m 0x100 (cs ''ls'')" "cstr ?m 0x200 (cs ''cd'')" by (simp_all add: memory_simps)
  from strcmp_compares [OF this] show ?thesis by auto
qed



text \<open>A call of \<open>strtok\<close> cuts the first token off the string it scans: the token becomes a string of its
  own, the scan position moves behind the delimiters that follow it, and the rest of the string is kept.\<close>

theorem strtok_cuts_token:
  assumes s: "cstr m p s" "s \<noteq> []" "p \<noteq> NULL" and ds: "cstr m d ds"
    and len: "length s + 1 < 2 ^ 32" "length ds < 2 ^ 32"
    and start: "str = p \<or> (str = NULL \<and> static_ptr = p)"
  shows "\<exists>m' ptr'. strtok m static_ptr str d = Some (m', ptr', p) \<and>
    cstr m' p (takeWhile (\<lambda>c. c \<notin> set ds) s) \<and>
    cstr m' ptr' (dropWhile (\<lambda>c. c \<in> set ds) (dropWhile (\<lambda>c. c \<notin> set ds) s))"
proof -
  obtain m' ptr' where "strtok m static_ptr str d = Some (m', ptr', p)"
    "cstr m' p (token_of ds s)" "cstr m' ptr' (token_rest ds s)"
    by (rule strtok_cstr [OF assms])
  then show ?thesis by (auto simp: token_of_def token_rest_def)
qed

theorem strtok_cuts_token_witness:
  "\<exists>m' ptr'. strtok (memory_of [(0x100, cs ''a:b''), (0x200, cs '':'')]) 0 0x100 0x200 = Some (m', ptr', 0x100) \<and>
    cstr m' 0x100 (cs ''a'') \<and> cstr m' ptr' (cs ''b'')"
proof -
  let ?m = "memory_of [(0x100, cs ''a:b''), (0x200, cs '':'')]"
  have "cstr ?m 0x100 (cs ''a:b'')" "cstr ?m 0x200 (cs '':'')" by (simp_all add: memory_simps)
  from strtok_cuts_token [OF this(1) _ _ this(2), of "0x100" 0] show ?thesis by simp
qed

section \<open>Numbers, addresses and dates\<close>



text \<open>\<open>inet_aton\<close> accepts the dotted decimal text of every address and returns its four bytes.\<close>

theorem inet_aton_reads_address:
  assumes "cstr m p (dotted (map (\<lambda>b. numeral_bytes 10 (unat b)) bs))" and "length bs = 4" and "length s_addr = 4"
  shows "inet_aton m p s_addr = Some (1, bs)"
  by (rule inet_aton_print [OF assms])

lemma numeral_bytes_decimal [simp]:
  "numeral_bytes 10 192 = cs ''192''" "numeral_bytes 10 168 = cs ''168''" "numeral_bytes 10 0 = cs ''0''"
  "numeral_bytes 10 7 = cs ''7''" "numeral_bytes 10 42 = cs ''42''"
  by (simp_all add: numeral_bytes_def digits_step itoa_digit_def)

theorem inet_aton_reads_address_witness:
  "inet_aton (memory_of [(0x100, cs ''192.168.0.7'')]) 0x100 [0, 0, 0, 0] = Some (1, [192, 168, 0, 7])"
  by (rule inet_aton_reads_address) (simp_all add: memory_simps)



section \<open>Formatted output\<close>

text \<open>C28: The bytes that \<open>vdprintf\<close> writes are, in order, what its format denotes for its arguments.\<close>

theorem vdprintf_writes:
  assumes "cstr m pct [37]" and "cstr m p f" and "renders m R f vlist out" and "unat p + length f + 1 < 2 ^ 32"
  shows "\<exists>ws. vdprintf m pct p vlist = Some (0, ws) \<and> concat ws = out"
  using vdprintf_renders [OF assms] by blast

theorem vdprintf_writes_witness:
  "\<exists>ws. vdprintf (memory_of [(0x100, [37]), (0x200, cs ''a%ib'')]) 0x100 0x200 [42] = Some (0, ws) \<and>
    concat ws = cs ''a42b''"
proof -
  let ?m = "memory_of [(0x100, [37]), (0x200, cs ''a%ib'')]"
  have "renders ?m {} (37 # 105 # cs ''b'') [42] (int_text 42 @ cs ''b'')"
    by (rule renders_conv) (auto simp: arg_text_def sint_u32_if intro!: renders.intros)
  then have "renders ?m {} (cs ''a%ib'') [42] (cs ''a42b'')" by (auto simp: int_text_def intro!: renders_char)
  moreover have "cstr ?m 0x100 [37]" "cstr ?m 0x200 (cs ''a%ib'')" by (simp_all add: memory_simps)
  ultimately show ?thesis using vdprintf_writes [of ?m "0x100" "0x200" "cs ''a%ib''" "{}" "[42]"] by simp
qed

text \<open>When the text fits its buffer, \<open>vsnprintf\<close> stores exactly that text, without a terminating NUL, changes
  nothing else and returns its length.\<close>

theorem vsnprintf_stores:
  assumes "cstr m pct [37]" "pct \<notin> buffer str sz" "pct + 1 \<notin> buffer str sz"
    and "cstr m p f" "\<And>i. i \<le> length f \<Longrightarrow> p + of_nat i \<notin> buffer str sz" "unat p + length f + 1 < 2 ^ 32"
    and "renders m (buffer str sz) f vlist out" "length out \<le> unat sz" and "str \<noteq> NULL"
  shows "\<exists>m'. vsnprintf m pct str sz p vlist = Some (m', of_nat (length out)) \<and>
    (\<forall>i<length out. m' (str + of_nat i) = out ! i) \<and> (\<forall>a. length out \<le> unat (a - str) \<longrightarrow> m' a = m a)"
proof -
  have "length out \<le> 2 ^ 32" using assms(8) unat_lt_exp [of sz] by simp
  then show ?thesis using vsnprintf_renders [OF assms] by (auto simp: stored_in stored_out)
qed

theorem vsnprintf_stores_witness:
  "\<exists>m'. vsnprintf (memory_of [(0x100, [37]), (0x200, cs ''a%c'')]) 0x100 0x300 2 0x200 [98] = Some (m', 2) \<and>
    m' 0x301 = 98 \<and> m' 0x302 = 0"
proof -
  let ?m = "memory_of [(0x100, [37]), (0x200, cs ''a%c'')]"
  have "renders ?m (buffer 0x300 2) (37 # 99 # []) [98] ([98] @ [])"
    by (rule renders_conv) (auto simp: arg_text_def intro!: renders.intros)
  then have "renders ?m (buffer 0x300 2) (cs ''a%c'') [98] [97, 98]" by (auto intro!: renders_char)
  moreover have "cstr ?m 0x100 [37]" "cstr ?m 0x200 (cs ''a%c'')" by (simp_all add: memory_simps)
  moreover have "0x200 + of_nat i \<notin> buffer 0x300 2" if "i \<le> length (cs ''a%c'')" for i
  proof -
    have "\<forall>i\<in>set [0..<4]. 2 \<le> unat (0x200 + of_nat i - 0x300 :: u32)" by (simp add: upt_rec)
    then show ?thesis using that by (simp add: buffer_def not_less)
  qed
  ultimately obtain m' where m': "vsnprintf ?m 0x100 0x300 2 0x200 [98] = Some (m', 2)"
    "\<forall>i<length [97, 98 :: byte]. m' (0x300 + of_nat i) = [97, 98] ! i" "\<forall>a. 2 \<le> unat (a - 0x300) \<longrightarrow> m' a = ?m a"
    using vsnprintf_stores [of ?m "0x100" "0x300" 2 "0x200" "cs ''a%c''" "[98]" "[97, 98]"] by (auto simp: buffer_def)
  have "m' 0x301 = 98" "m' 0x302 = 0" using m'(2) [rule_format, of 1] m'(3) [rule_format, of "0x302"]
    by (simp_all add: memory_simps)
  then show ?thesis using m'(1) by blast
qed

text \<open>The bound of \<open>vsnprintf\<close> does not hold for texts that do not fit: the room left is decreased by the full
  length of a literal and wraps around, so a conversion after a truncated literal is stored past the end of the buffer.\<close>

theorem vsnprintf_overruns_buffer:
  "map_option (\<lambda>(m, n). (m 0x302, m 0x303, n))
     (vsnprintf (memory_of [(0x100, [37]), (0x200, cs ''abcd%c'')]) 0x100 0x300 2 0x200 [98]) = Some (98, 0, 5)"
proof -
  let ?m = "memory_of [(0x100, [37]), (0x200, cs ''abcd%c'')]"
  define m1 where "m1 = stored ?m 0x300 [97, 98]"
  define m2 where "m2 = stored m1 0x302 [98]"
  have pct: "cstr ?m 0x100 [37]" and f: "cstr ?m 0x200 (cs ''abcd'' @ 37 # [99])"
    by (simp_all add: memory_simps)
  have k: "strcspn ?m 0x200 0x100 = Some 4" using strcspn_conv(2) [OF pct _ f] by simp
  have n: "strlen ?m 0x200 = Some 6" using strlen_cstr [OF f] by simp
  have "fst (memcpy ?m 0x300 0x200 2) = stored ?m 0x300 (read_bytes ?m 0x200 2)"
  proof (rule memcpy_apart)
    have "\<forall>i\<in>set [0..<2]. \<not> (0x200 + of_nat i) - 0x300 < (2 :: u32)" by (simp add: upt_rec)
    then show "\<not> (0x200 + of_nat i) - 0x300 < (2 :: u32)" if "i < unat (2 :: u32)" for i using that by simp
  qed
  also have "read_bytes ?m 0x200 2 = [97, 98]" by (simp add: read_bytes_def memory_simps upt_rec)
  finally have c1: "fst (memcpy ?m 0x300 0x200 2) = m1" by (simp add: m1_def)
  have r: "?m 0x200 = 97" "m1 0x205 = 99" "m2 0x206 = 0" "m2 0x302 = 98" "m2 0x303 = 0"
    by (simp_all add: m1_def m2_def memory_simps)
  have "vsnprintf_loop m2 0x100 0x300 2 0x206 0x206 [] 3 5 = Some (m2, 5)"
    using r by (subst vsnprintf_loop.simps) simp
  moreover have "min (1 :: u32) (- 2) = 1" by (simp add: min_def word_le_nat_alt)
  ultimately have "vsnprintf_loop ?m 0x100 0x300 2 0x206 0x200 [98] 0 0 = Some (m2, 5)"
    using k c1 r by (subst vsnprintf_loop.simps) (simp add: Let_def conversion_def put_text_def m2_def)
  then show ?thesis using k n r by (simp add: vsnprintf_def)
qed

end
