(* ===== verification/Archive.thy ===== *)
theory Archive
  imports Vfs Libc_Contract "HOL-Library.Signed_Division"
begin

text \<open>
  The first user program unpacks an archive with the files of the system: \<open>load_initramfs\<close> in
  \<open>src/init/archive_loader.c\<close>. Its system calls are a parameter. An archive is built from its entries by
  \<open>cpio_archive\<close>, and unpacking it creates every directory and every file with its content, in order, whenever
  the calls do what POSIX says of them. Messages are left out.
\<close>

section \<open>System calls of the program\<close>

text \<open>
  What a system call does and returns, with the bytes that a read leaves in the buffer, and what \<open>malloc\<close> returns: the
  address and content of a new block, or nothing for a null pointer. A path is the C string in the buffer of the caller.
\<close>

record 's file_calls =
  f_open :: "byte list \<Rightarrow> u32 \<Rightarrow> 's \<Rightarrow> ('s \<times> int) option"
  f_read :: "int \<Rightarrow> u32 \<Rightarrow> 's \<Rightarrow> ('s \<times> byte list \<times> int) option"
  f_write :: "int \<Rightarrow> byte list \<Rightarrow> 's \<Rightarrow> ('s \<times> int) option"
  f_lseek :: "int \<Rightarrow> int \<Rightarrow> int \<Rightarrow> 's \<Rightarrow> ('s \<times> int) option"
  f_close :: "int \<Rightarrow> 's \<Rightarrow> ('s \<times> int) option"
  u_malloc :: "u32 \<Rightarrow> 's \<Rightarrow> 's \<times> (addr \<times> byte list) option"
  u_free :: "addr \<Rightarrow> 's \<Rightarrow> 's"

text \<open>A read that is shorter than its buffer leaves the rest of the buffer.\<close>

definition overlay :: "byte list \<Rightarrow> byte list \<Rightarrow> byte list" where
  "overlay old new = new @ drop (length new) old"

definition c_path :: "byte list \<Rightarrow> byte list option" where
  "c_path buf = (if 0 \<in> set buf then Some (takeWhile (\<lambda>b. b \<noteq> 0) buf) else None)"

section \<open>Unpacking\<close>

text \<open>The members of \<open>struct cpio_newc_header\<close> that are used are eight hexadecimal digits each, at these offsets.\<close>

definition cpio_header_len :: nat where "cpio_header_len = 110"
definition c_mode_at :: nat where "c_mode_at = 14"
definition c_filesize_at :: nat where "c_filesize_at = 54"
definition c_namesize_at :: nat where "c_namesize_at = 94"

definition header_field :: "byte list \<Rightarrow> nat \<Rightarrow> byte list" where
  "header_field header i = take 8 (drop i header)"

definition header_number :: "byte list \<Rightarrow> nat \<Rightarrow> u32 option" where
  "header_number header i = do { (v, _) \<leftarrow> strtoul (local_mem (header_field header i @ [0])) 0 16; Some v }"

definition skip_padding :: "'s file_calls \<Rightarrow> int \<Rightarrow> 's \<Rightarrow> 's option" where
  "skip_padding c fd s = do {
     (s, offset) \<leftarrow> f_lseek c fd 0 SEEK_CUR s;
     let padding = 4 - offset smod 4;
     (s, _) \<leftarrow> f_lseek c fd (padding smod 4) SEEK_CUR s;
     Some s
   }"

definition unpack_directory :: "'s file_calls \<Rightarrow> int \<Rightarrow> byte list \<Rightarrow> 's \<Rightarrow> 's option" where
  "unpack_directory c fd path s = do {
     (s, dirfd) \<leftarrow> f_open c path (O_DIRECTORY OR O_CREAT) s;
     (s, _) \<leftarrow> f_close c dirfd s;
     skip_padding c fd s
   }"

definition unpack_file :: "'s file_calls \<Rightarrow> int \<Rightarrow> byte list \<Rightarrow> u32 \<Rightarrow> 's \<Rightarrow> 's option" where
  "unpack_file c fd path filesize s = do {
     (s, created_fd) \<leftarrow> f_open c path O_CREAT s;
     s \<leftarrow> skip_padding c fd s;
     let (s, block) = u_malloc c filesize s;
     (file_buffer, contents) \<leftarrow> block;
     (s, data, _) \<leftarrow> f_read c fd filesize s;
     (s, _) \<leftarrow> f_write c created_fd (overlay contents data) s;
     let s = u_free c file_buffer s;
     (s, _) \<leftarrow> f_close c created_fd s;
     skip_padding c fd s
   }"

text \<open>
  One round of the loop: the left result ends it. \<open>junk\<close> is what the two arrays of a round hold before they are read
  into; a header that is too short is only reported.
\<close>

definition unpack_entry :: "'s file_calls \<Rightarrow> byte list \<Rightarrow> byte list \<Rightarrow> int \<Rightarrow> 's \<Rightarrow> ('s + 's) option" where
  "unpack_entry c junk junk_next fd s = do {
     (s, bytes, _) \<leftarrow> f_read c fd (of_nat cpio_header_len) s;
     let header = overlay junk bytes;
     (if take 6 header \<noteq> cs ''070701'' then Some (Inl s)
      else do {
        (s, current_offset) \<leftarrow> f_lseek c fd 0 SEEK_CUR s;
        (s, bytes, _) \<leftarrow> f_read c fd 10 s;
        (if overlay junk_next bytes = cs ''TRAILER!!!'' then Some (Inl s)
         else do {
           (s, _) \<leftarrow> f_lseek c fd current_offset SEEK_SET s;
           mode \<leftarrow> header_number header c_mode_at;
           namesize \<leftarrow> header_number header c_namesize_at;
           filesize \<leftarrow> header_number header c_filesize_at;
           (if 128 < namesize then Some (Inl s)
            else do {
              let buf = header_field header c_filesize_at @ replicate 120 0;
              (s, name, _) \<leftarrow> f_read c fd namesize s;
              path \<leftarrow> c_path (overlay buf name);
              s \<leftarrow> (if mode AND 0xf000 = 0x4000 then unpack_directory c fd path s else unpack_file c fd path filesize s);
              Some (Inr s)
            })
         })
      })
   }"

partial_function (option) unpack_loop :: "'s file_calls \<Rightarrow> byte list \<Rightarrow> byte list \<Rightarrow> int \<Rightarrow> 's \<Rightarrow> 's option" where
  "unpack_loop c junk junk_next fd s = do {
     r \<leftarrow> unpack_entry c junk junk_next fd s;
     (case r of Inl s \<Rightarrow> Some s | Inr s \<Rightarrow> unpack_loop c junk junk_next fd s)
   }"

declare unpack_loop.simps [code]

text \<open>The function returns an error when the archive cannot be opened, and no value otherwise.\<close>

definition load_initramfs :: "'s file_calls \<Rightarrow> byte list \<Rightarrow> byte list \<Rightarrow> 's \<Rightarrow> ('s \<times> int option) option" where
  "load_initramfs c junk junk_next s = do {
     (s, fd) \<leftarrow> f_open c (cs ''/mnt/disk0/initrfs.cio'') 0 s;
     (if fd < 0 then Some (s, Some ENOENT)
      else do { s \<leftarrow> unpack_loop c junk junk_next fd s; Some (s, None) })
   }"

section \<open>Archives\<close>

text \<open>
  The format: a header of eight-digit numbers, the name with its zero, and the data, name and data filled up to multiples
  of four bytes. The last entry has a special name.
\<close>

definition hex8 :: "nat \<Rightarrow> byte list" where
  "hex8 n = map (\<lambda>i. itoa_digit (of_nat (n div 16 ^ i mod 16))) (rev [0..<8])"

definition pad_len :: "nat \<Rightarrow> nat" where
  "pad_len k = (4 - k mod 4) mod 4"

definition padded :: "byte list \<Rightarrow> byte list" where
  "padded bs = bs @ replicate (pad_len (length bs)) 0"

definition cpio_header :: "nat \<Rightarrow> nat \<Rightarrow> nat \<Rightarrow> byte list" where
  "cpio_header mode filesize namesize = cs ''070701'' @ hex8 0 @ hex8 mode @ concat (replicate 4 (hex8 0)) @ hex8 filesize @
     concat (replicate 4 (hex8 0)) @ hex8 namesize @ hex8 0"

record entry =
  e_path :: "byte list"
  e_mode :: nat
  e_data :: "byte list"

definition cpio_entry :: "entry \<Rightarrow> byte list" where
  "cpio_entry e = padded (cpio_header (e_mode e) (length (e_data e)) (length (e_path e) + 1) @ e_path e @ [0]) @ padded (e_data e)"

definition cpio_archive :: "entry list \<Rightarrow> byte list" where
  "cpio_archive es = concat (map cpio_entry es) @ padded (cpio_header 0 0 11 @ cs ''TRAILER!!!'' @ [0])"

definition is_directory :: "entry \<Rightarrow> bool" where
  "is_directory e \<longleftrightarrow> (of_nat (e_mode e) :: u32) AND 0xf000 = 0x4000"

definition entry_ok :: "entry \<Rightarrow> bool" where
  "entry_ok e \<longleftrightarrow> 0 \<notin> set (e_path e) \<and> length (e_path e) < 128 \<and> take 10 (e_path e) \<noteq> cs ''TRAILER!!!'' \<and>
     e_mode e < 2 ^ 32 \<and> (if is_directory e then e_data e = [] else True)"

section \<open>What the system calls promise\<close>

datatype fs_event = Opened "byte list" u32 | Written "byte list" | Closed

definition entry_events :: "entry \<Rightarrow> fs_event list" where
  "entry_events e = (if is_directory e then [Opened (e_path e) (O_DIRECTORY OR O_CREAT), Closed]
     else [Opened (e_path e) O_CREAT, Written (e_data e), Closed])"

text \<open>
  While the descriptor of the archive is open, it is a file with the content \<open>file\<close> and a position; the other calls do not
  move it, and what they open has another descriptor. \<open>events\<close> is what has happened to other files.
\<close>

definition archive_open :: "'s file_calls \<Rightarrow> int \<Rightarrow> byte list \<Rightarrow> ('s \<Rightarrow> nat option) \<Rightarrow> ('s \<Rightarrow> fs_event list) \<Rightarrow> bool" where
  "archive_open c fd file pos events \<longleftrightarrow>
     length file < 2 ^ 31 \<and>
     (\<forall>s p n. pos s = Some p \<longrightarrow> (\<exists>s' r. f_read c fd n s = Some (s', take (unat n) (drop p file), r) \<and>
        pos s' = Some (min (length file) (p + unat n)) \<and> events s' = events s)) \<and>
     (\<forall>s p k. pos s = Some p \<and> k \<le> length file \<longrightarrow> (\<exists>s'. f_lseek c fd (int k) SEEK_SET s = Some (s', int k) \<and>
        pos s' = Some k \<and> events s' = events s)) \<and>
     (\<forall>s p k. pos s = Some p \<and> p + k \<le> length file \<longrightarrow> (\<exists>s'. f_lseek c fd (int k) SEEK_CUR s = Some (s', int (p + k)) \<and>
        pos s' = Some (p + k) \<and> events s' = events s)) \<and>
     (\<forall>s p path flags. pos s = Some p \<longrightarrow> (\<exists>s' other. f_open c path flags s = Some (s', other) \<and> other \<noteq> fd \<and>
        pos s' = Some p \<and> events s' = events s @ [Opened path flags])) \<and>
     (\<forall>s p other bytes. pos s = Some p \<and> other \<noteq> fd \<longrightarrow> (\<exists>s' r. f_write c other bytes s = Some (s', r) \<and>
        pos s' = Some p \<and> events s' = events s @ [Written bytes])) \<and>
     (\<forall>s p other. pos s = Some p \<and> other \<noteq> fd \<longrightarrow> (\<exists>s' r. f_close c other s = Some (s', r) \<and>
        pos s' = Some p \<and> events s' = events s @ [Closed])) \<and>
     (\<forall>s p n. pos s = Some p \<longrightarrow> (\<exists>s' a block. u_malloc c n s = (s', Some (a, block)) \<and> length block = unat n \<and>
        pos s' = Some p \<and> events s' = events s)) \<and>
     (\<forall>s a. pos (u_free c a s) = pos s \<and> events (u_free c a s) = events s)"

lemma digits_value_by_div:
  "digits_value b (map (\<lambda>i. n div b ^ i mod b) (rev [0..<k])) = n mod b ^ k"
proof (induction k)
  case (Suc k)
  show ?case using mod_mult2_eq [of n "b ^ k" b] by (simp add: digits_value_Cons Suc mult.commute)
qed (simp add: digits_value_def)

lemma hex8_reads:
  assumes "n < 2 ^ 32"
  shows "strtoul (local_mem (hex8 n @ [0])) 0 16 = Some (of_nat n, 8)"
proof -
  let ?ds = "map (\<lambda>i. n div 16 ^ i mod 16) (rev [0..<8])"
  have ds: "digit_string 16 (hex8 n) ?ds"
    by (simp add: digit_string_def hex8_def list_all2_map1 list_all2_map2 list.rel_refl strtoul_itoa_digit del: upt_Suc)
  have "0 \<notin> set (hex8 n)"
    using itoa_digit_nonzero [of "n div 16 ^ i mod 16" for i] by (auto simp: hex8_def simp del: upt_Suc)
  then have "cstr (local_mem (hex8 n @ [0])) 0 (hex8 n)" using local_mem_cstr [of "hex8 n" "[]"] by (simp add: hex8_def)
  from strtoul_digits [OF this ds] digits_value_by_div [of 16 n 8] assms show ?thesis
    by (simp add: hex8_def mod_less del: upt_Suc)
qed

lemma length_hex8 [simp]: "length (hex8 n) = 8"
  by (simp add: hex8_def)

lemma length_cpio_header [simp]: "length (cpio_header mode filesize namesize) = 110"
  by (simp add: cpio_header_def eval_nat_numeral)

lemma header_field_append: "length pre = i \<Longrightarrow> header_field (pre @ hex8 n @ post) i = hex8 n"
  by (simp add: header_field_def)

lemma header_fields:
  "header_field (cpio_header mode filesize namesize) c_mode_at = hex8 mode"
  "header_field (cpio_header mode filesize namesize) c_filesize_at = hex8 filesize"
  "header_field (cpio_header mode filesize namesize) c_namesize_at = hex8 namesize"
  using header_field_append [of "cs ''070701'' @ hex8 0" c_mode_at mode
      "concat (replicate 4 (hex8 0)) @ hex8 filesize @ concat (replicate 4 (hex8 0)) @ hex8 namesize @ hex8 0"]
    header_field_append [of "cs ''070701'' @ hex8 0 @ hex8 mode @ concat (replicate 4 (hex8 0))" c_filesize_at filesize
      "concat (replicate 4 (hex8 0)) @ hex8 namesize @ hex8 0"]
    header_field_append [of "cs ''070701'' @ hex8 0 @ hex8 mode @ concat (replicate 4 (hex8 0)) @ hex8 filesize @
      concat (replicate 4 (hex8 0))" c_namesize_at namesize "hex8 0"]
  by (simp_all add: cpio_header_def c_mode_at_def c_filesize_at_def c_namesize_at_def length_concat sum_list_replicate)

lemma header_numbers:
  assumes "mode < 2 ^ 32" and "filesize < 2 ^ 32" and "namesize < 2 ^ 32"
  shows "header_number (cpio_header mode filesize namesize) c_mode_at = Some (of_nat mode)"
    and "header_number (cpio_header mode filesize namesize) c_filesize_at = Some (of_nat filesize)"
    and "header_number (cpio_header mode filesize namesize) c_namesize_at = Some (of_nat namesize)"
  using assms by (simp_all add: header_number_def header_fields hex8_reads)

lemma header_magic: "take 6 (cpio_header mode filesize namesize) = cs ''070701''"
  by (simp add: cpio_header_def)

section \<open>Steps\<close>

lemma archive_reads:
  assumes "archive_open c fd file pos events" and "file = pre @ x @ rest" and "pos s = Some (length pre)" and "unat n = length x"
  obtains s' r where "f_read c fd n s = Some (s', x, r)" and "pos s' = Some (length pre + length x)" and "events s' = events s"
proof -
  from assms(1,3) have "\<exists>s' r. f_read c fd n s = Some (s', take (unat n) (drop (length pre) file), r) \<and>
      pos s' = Some (min (length file) (length pre + unat n)) \<and> events s' = events s" by (simp add: archive_open_def)
  with that assms(2,4) show ?thesis by auto
qed

lemma archive_seeks:
  assumes "archive_open c fd file pos events" and "pos s = Some p"
  shows "p + k \<le> length file \<Longrightarrow> \<exists>s'. f_lseek c fd (int k) SEEK_CUR s = Some (s', int (p + k)) \<and> pos s' = Some (p + k) \<and>
      events s' = events s"
    and "k \<le> length file \<Longrightarrow> \<exists>s'. f_lseek c fd (int k) SEEK_SET s = Some (s', int k) \<and> pos s' = Some k \<and> events s' = events s"
  using assms by (simp_all add: archive_open_def)

lemma archive_others:
  assumes "archive_open c fd file pos events" and "pos s = Some p"
  shows "\<exists>s' other. f_open c path flags s = Some (s', other) \<and> other \<noteq> fd \<and> pos s' = Some p \<and>
      events s' = events s @ [Opened path flags]"
    and "other \<noteq> fd \<Longrightarrow> \<exists>s' r. f_write c other bytes s = Some (s', r) \<and> pos s' = Some p \<and> events s' = events s @ [Written bytes]"
    and "other \<noteq> fd \<Longrightarrow> \<exists>s' r. f_close c other s = Some (s', r) \<and> pos s' = Some p \<and> events s' = events s @ [Closed]"
    and "\<exists>s' a block. u_malloc c n s = (s', Some (a, block)) \<and> length block = unat n \<and> pos s' = Some p \<and> events s' = events s"
    and "pos (u_free c a s) = pos s" "events (u_free c a s) = events s"
  using assms unfolding archive_open_def by blast+

lemma smod_nonneg: "0 \<le> a \<Longrightarrow> (a :: int) smod 4 = a mod 4"
  by (auto simp: smod_int_alt_def sgn_if)

lemma padding_smod: "(4 - int k smod 4) smod 4 = int ((4 - k mod 4) mod 4)"
proof -
  have "4 - int (k mod 4) = int (4 - k mod 4)" by (simp add: of_nat_diff)
  then show ?thesis by (simp add: smod_nonneg zmod_int)
qed

lemma pad_len_aligned [simp]: "k mod 4 = 0 \<Longrightarrow> pad_len (k + n) = pad_len n"
  by (simp add: pad_len_def mod_add_left_eq [symmetric])

lemma aligned_pad_len: "(k + pad_len k) mod 4 = 0"
proof -
  have "(k + pad_len k) mod 4 = (k mod 4 + (4 - k mod 4)) mod 4" unfolding pad_len_def by (simp only: mod_add_right_eq mod_add_left_eq)
  also have "k mod 4 + (4 - k mod 4) = 4" by simp
  finally show ?thesis by simp
qed

lemma skip_padding_moves:
  assumes a: "archive_open c fd file pos events" and p: "pos s = Some p" and le: "p + pad_len p \<le> length file"
  obtains s' where "skip_padding c fd s = Some s'" and "pos s' = Some (p + pad_len p)" and "events s' = events s"
proof -
  from archive_seeks(1) [OF a p, of 0] le obtain s1
    where s1: "f_lseek c fd 0 SEEK_CUR s = Some (s1, int p)" "pos s1 = Some p" "events s1 = events s" by auto
  from archive_seeks(1) [OF a s1(2) le] obtain s2 where "f_lseek c fd (int (pad_len p)) SEEK_CUR s1 = Some (s2, int (p + pad_len p))"
    "pos s2 = Some (p + pad_len p)" "events s2 = events s1" by auto
  with s1 that show ?thesis by (simp add: skip_padding_def padding_smod Let_def pad_len_def)
qed

lemma overlay_same [simp]: "length old = length new \<Longrightarrow> overlay old new = new"
  by (simp add: overlay_def)

lemma c_path_overlay [simp]: "0 \<notin> set path \<Longrightarrow> c_path (overlay buf (path @ [0])) = Some path"
  by (subgoal_tac "\<forall>b\<in>set path. b \<noteq> 0") (auto simp: c_path_def overlay_def takeWhile_append2)

lemma archive_small: "archive_open c fd file pos events \<Longrightarrow> length file < 2 ^ 31"
  by (simp add: archive_open_def)

lemma unpack_directory_makes:
  assumes a: "archive_open c fd file pos events" and p: "pos s = Some p" and le: "p + pad_len p \<le> length file"
  obtains s' where "unpack_directory c fd path s = Some s'" and "pos s' = Some (p + pad_len p)"
    and "events s' = events s @ [Opened path (O_DIRECTORY OR O_CREAT), Closed]"
proof -
  from archive_others(1) [OF a p, of path "O_DIRECTORY OR O_CREAT"] obtain s1 dirfd
    where s1: "f_open c path (O_DIRECTORY OR O_CREAT) s = Some (s1, dirfd)" "dirfd \<noteq> fd" "pos s1 = Some p"
      "events s1 = events s @ [Opened path (O_DIRECTORY OR O_CREAT)]" by auto
  from archive_others(3) [OF a s1(3,2)] obtain s2 r
    where s2: "f_close c dirfd s1 = Some (s2, r)" "pos s2 = Some p" "events s2 = events s1 @ [Closed]" by auto
  obtain s3 where "skip_padding c fd s2 = Some s3" "pos s3 = Some (p + pad_len p)" "events s3 = events s2"
    using skip_padding_moves [OF a s2(2) le] by metis
  with s1 s2 that show ?thesis by (simp add: unpack_directory_def)
qed

lemma unpack_file_copies:
  assumes a: "archive_open c fd file pos events" and p: "pos s = Some (length pre)"
    and content: "file = pre @ replicate (pad_len (length pre)) 0 @ padded data @ rest"
  obtains s' where "unpack_file c fd path (of_nat (length data)) s = Some s'"
    and "pos s' = Some (length (pre @ replicate (pad_len (length pre)) 0 @ padded data))"
    and "events s' = events s @ [Opened path O_CREAT, Written data, Closed]"
proof -
  let ?pre = "pre @ replicate (pad_len (length pre)) 0"
  have aligned: "length ?pre mod 4 = 0" by (simp add: aligned_pad_len)
  have n: "unat (of_nat (length data) :: u32) = length data"
    using archive_small [OF a] content by (simp add: padded_def unat_of_nat_less)
  from archive_others(1) [OF a p, of path O_CREAT] obtain s1 other
    where s1: "f_open c path O_CREAT s = Some (s1, other)" "other \<noteq> fd" "pos s1 = Some (length pre)"
      "events s1 = events s @ [Opened path O_CREAT]" by auto
  obtain s2 where s2: "skip_padding c fd s1 = Some s2" "pos s2 = Some (length ?pre)" "events s2 = events s1"
    using skip_padding_moves [OF a s1(3)] content by auto
  from archive_others(4) [OF a s2(2), of "of_nat (length data)"] n obtain s3 b block
    where s3: "u_malloc c (of_nat (length data)) s2 = (s3, Some (b, block))" "length block = length data"
      "pos s3 = Some (length ?pre)" "events s3 = events s2" by auto
  have "file = ?pre @ data @ replicate (pad_len (length data)) 0 @ rest" by (simp add: content padded_def)
  from archive_reads [OF a this s3(3) n] obtain s4 r4
    where s4: "f_read c fd (of_nat (length data)) s3 = Some (s4, data, r4)" "pos s4 = Some (length ?pre + length data)"
      "events s4 = events s3" .
  from archive_others(2) [OF a s4(2) s1(2), of data] obtain s5 r5
    where s5: "f_write c other data s4 = Some (s5, r5)" "pos s5 = Some (length ?pre + length data)"
      "events s5 = events s4 @ [Written data]" by auto
  have freed: "pos (u_free c b s5) = Some (length ?pre + length data)" using archive_others(5) [OF a s5(2)] s5(2) by simp
  from archive_others(3) [OF a freed s1(2)] archive_others(6) [OF a s5(2), of b] obtain s6 r6
    where s6: "f_close c other (u_free c b s5) = Some (s6, r6)" "pos s6 = Some (length ?pre + length data)" "events s6 = events s5 @ [Closed]"
    by auto
  have pad: "pad_len (length ?pre + length data) = pad_len (length data)" using aligned by (rule pad_len_aligned)
  obtain s7 where "skip_padding c fd s6 = Some s7" "pos s7 = Some (length (?pre @ padded data))" "events s7 = events s6"
    using skip_padding_moves [OF a s6(2)] content pad by (auto simp: padded_def add.assoc)
  with s1 s2 s3 s4 s5 s6 that show ?thesis by (simp add: unpack_file_def Let_def add.assoc)
qed

section \<open>A round of the loop\<close>

lemma not_trailer:
  assumes "take 10 path \<noteq> cs ''TRAILER!!!''"
  shows "take 10 (path @ 0 # rest) \<noteq> cs ''TRAILER!!!''"
proof
  assume eq: "take 10 (path @ 0 # rest) = cs ''TRAILER!!!''"
  show False
  proof (cases "10 \<le> length path")
    case True
    with eq assms show False by simp
  next
    case False
    then have "0 \<in> set (take 10 (path @ 0 # rest))" by (cases "10 - length path") auto
    then show False unfolding eq by simp
  qed
qed

lemma unpack_entry_starts:
  assumes a: "archive_open c fd file pos events" and p: "pos s = Some (length pre)"
    and content: "file = pre @ cpio_header mode filesize namesize @ rest" and next10: "10 \<le> length rest"
    and junk: "length junk = 110" "length junk_next = 10"
  obtains s1 r1 s2 s3 r3 s4 where "f_read c fd (of_nat cpio_header_len) s = Some (s1, cpio_header mode filesize namesize, r1)"
    and "f_lseek c fd 0 SEEK_CUR s1 = Some (s2, int (length pre + 110))" and "f_read c fd 10 s2 = Some (s3, take 10 rest, r3)"
    and "f_lseek c fd (int (length pre + 110)) SEEK_SET s3 = Some (s4, int (length pre + 110))"
    and "pos s4 = Some (length pre + 110)" and "events s3 = events s" and "events s4 = events s"
proof -
  let ?header = "cpio_header mode filesize namesize"
  from archive_reads [OF a content p, of "of_nat cpio_header_len"] obtain s1 r1
    where s1: "f_read c fd (of_nat cpio_header_len) s = Some (s1, ?header, r1)" "pos s1 = Some (length pre + 110)"
      "events s1 = events s" by (auto simp: cpio_header_len_def)
  from archive_seeks(1) [OF a s1(2), of 0] content obtain s2
    where s2: "f_lseek c fd 0 SEEK_CUR s1 = Some (s2, int (length pre + 110))" "pos s2 = Some (length (pre @ ?header))"
      "events s2 = events s1" by auto
  have "file = (pre @ ?header) @ take 10 rest @ drop 10 rest" by (simp add: content)
  from archive_reads [OF a this s2(2), of 10] next10 obtain s3 r3
    where s3: "f_read c fd 10 s2 = Some (s3, take 10 rest, r3)" "pos s3 = Some (length pre + 110 + 10)" "events s3 = events s2"
    by auto
  from archive_seeks(2) [OF a s3(2), of "length pre + 110"] content obtain s4
    where s4: "f_lseek c fd (int (length pre + 110)) SEEK_SET s3 = Some (s4, int (length pre + 110))"
      "pos s4 = Some (length pre + 110)" "events s4 = events s3" by auto
  show thesis by (rule that [OF s1(1) s2(1) s3(1) s4(1,2)]) (simp_all add: s1 s2 s3 s4)
qed

lemma padded_Nil [simp]: "padded [] = []"
  by (simp add: padded_def pad_len_def)

lemma length_padded: "length (padded bs) = length bs + pad_len (length bs)"
  by (simp add: padded_def)

lemma cpio_entry_aligned: "length (cpio_entry e) mod 4 = 0"
  using aligned_pad_len by (simp add: cpio_entry_def length_padded mod_add_eq [symmetric, of "_ + _"] del: mod_add_eq)

lemma unpack_body:
  assumes a: "archive_open c fd file pos events" and ok: "entry_ok e" and p: "pos s = Some (length pre)"
    and content: "file = pre @ replicate (pad_len (length pre)) 0 @ padded (e_data e) @ rest"
  obtains s' where "(if of_nat (e_mode e) AND (0xf000 :: u32) = 0x4000 then unpack_directory c fd (e_path e) s
      else unpack_file c fd (e_path e) (of_nat (length (e_data e))) s) = Some s'"
    and "pos s' = Some (length (pre @ replicate (pad_len (length pre)) 0 @ padded (e_data e)))"
    and "events s' = events s @ entry_events e"
proof (cases "is_directory e")
  case True
  then have "e_data e = []" using ok by (simp add: entry_ok_def)
  then show ?thesis
    using that unpack_directory_makes [OF a p, of "e_path e"] content True
    by (auto simp: entry_events_def is_directory_def)
next
  case False
  with that unpack_file_copies [OF a p content, of "e_path e"] show ?thesis
    by (auto simp: entry_events_def is_directory_def)
qed

lemma unpack_entry_done:
  assumes a: "archive_open c fd file pos events" and ok: "entry_ok e" and p: "pos s = Some (length pre)"
    and aligned: "length pre mod 4 = 0" and content: "file = pre @ cpio_entry e @ rest" and next10: "10 \<le> length rest"
    and junk: "length junk = 110" "length junk_next = 10"
  obtains s' where "unpack_entry c junk junk_next fd s = Some (Inr s')" and "pos s' = Some (length (pre @ cpio_entry e))"
    and "events s' = events s @ entry_events e"
proof -
  let ?name = "e_path e @ [0]" and ?header = "cpio_header (e_mode e) (length (e_data e)) (length (e_path e) + 1)"
  let ?tail = "replicate (pad_len (length (?header @ ?name))) 0 @ padded (e_data e) @ rest"
  let ?pre = "pre @ ?header @ ?name"
  have file1: "file = pre @ ?header @ ?name @ ?tail" by (simp add: content cpio_entry_def padded_def)
  have pad: "pad_len (length ?pre) = pad_len (length (?header @ ?name))" using pad_len_aligned [OF aligned] by simp
  have len: "length (e_data e) < 2 ^ 32" "length (e_path e) + 1 \<le> 128"
    using archive_small [OF a] ok by (simp_all add: content cpio_entry_def padded_def entry_ok_def)
  note numbers = header_numbers [of "e_mode e" "length (e_data e)" "length (e_path e) + 1"]
  have name_word: "unat (of_nat (length (e_path e) + 1) :: u32) = length ?name"
    using len(2) by (simp add: unat_of_nat_less del: of_nat_Suc of_nat_add)
  from next10 have "10 \<le> length (?name @ ?tail)" by simp
  from unpack_entry_starts [OF a p file1 this junk] obtain s1 r1 s2 s3 r3 s4
    where s: "f_read c fd (of_nat cpio_header_len) s = Some (s1, ?header, r1)"
      "f_lseek c fd 0 SEEK_CUR s1 = Some (s2, int (length pre + 110))" "f_read c fd 10 s2 = Some (s3, take 10 (?name @ ?tail), r3)"
      "f_lseek c fd (int (length pre + 110)) SEEK_SET s3 = Some (s4, int (length pre + 110))"
    and s4': "pos s4 = Some (length pre + 110)" "events s3 = events s" "events s4 = events s" .
  then have s4: "pos s4 = Some (length (pre @ ?header))" "events s4 = events s" by simp_all
  have "file = (pre @ ?header) @ ?name @ ?tail" by (simp add: file1)
  from archive_reads [OF a this s4(1) name_word] obtain s5 r5
    where s5: "f_read c fd (of_nat (length (e_path e) + 1)) s4 = Some (s5, ?name, r5)" "pos s5 = Some (length ?pre)"
      "events s5 = events s4" by (auto simp: ac_simps)
  have "file = ?pre @ replicate (pad_len (length ?pre)) 0 @ padded (e_data e) @ rest" unfolding pad by (simp add: file1)
  from unpack_body [OF a ok s5(2) this] obtain s6
    where s6: "(if of_nat (e_mode e) AND (0xf000 :: u32) = 0x4000 then unpack_directory c fd (e_path e) s5
      else unpack_file c fd (e_path e) (of_nat (length (e_data e))) s5) = Some s6"
    "pos s6 = Some (length (?pre @ replicate (pad_len (length ?pre)) 0 @ padded (e_data e)))"
    "events s6 = events s5 @ entry_events e" .
  have next_name: "take 10 (?name @ ?tail) \<noteq> cs ''TRAILER!!!''"
    using ok not_trailer [of "e_path e" ?tail] by (simp add: entry_ok_def)
  have short: "\<not> 128 < (of_nat (length (e_path e) + 1) :: u32)"
    using len(2) name_word by (simp add: word_less_nat_alt del: of_nat_Suc of_nat_add)
  show thesis
  proof (rule that)
    show "unpack_entry c junk junk_next fd s = Some (Inr s6)"
      using s s5(1) s6(1) next_name short numbers len ok next10 junk
      by (simp add: unpack_entry_def header_magic entry_ok_def Let_def del: of_nat_Suc of_nat_add)
    show "pos s6 = Some (length (pre @ cpio_entry e))"
      using s6(2) pad by (simp add: cpio_entry_def padded_def)
    show "events s6 = events s @ entry_events e" by (simp add: s6(3) s5(3) s4(2))
  qed
qed

lemma unpack_entry_stops:
  assumes a: "archive_open c fd file pos events" and p: "pos s = Some (length pre)"
    and content: "file = pre @ padded (cpio_header 0 0 11 @ cs ''TRAILER!!!'' @ [0])"
    and junk: "length junk = 110" "length junk_next = 10"
  obtains s' where "unpack_entry c junk junk_next fd s = Some (Inl s')" and "events s' = events s"
proof -
  let ?rest = "cs ''TRAILER!!!'' @ 0 # replicate (pad_len 121) 0"
  have content': "file = pre @ cpio_header 0 0 11 @ ?rest" by (simp add: content padded_def)
  have "10 \<le> length ?rest" by simp
  from unpack_entry_starts [OF a p content' this junk] obtain s1 r1 s2 s3 r3 s4
    where s: "f_read c fd (of_nat cpio_header_len) s = Some (s1, cpio_header 0 0 11, r1)"
      "f_lseek c fd 0 SEEK_CUR s1 = Some (s2, int (length pre + 110))" "f_read c fd 10 s2 = Some (s3, take 10 ?rest, r3)"
    and "f_lseek c fd (int (length pre + 110)) SEEK_SET s3 = Some (s4, int (length pre + 110))"
      "pos s4 = Some (length pre + 110)" and kept: "events s3 = events s" "events s4 = events s" .
  with that junk kept(1) show ?thesis by (simp add: unpack_entry_def header_magic Let_def)
qed

lemma unpack_loop_done:
  assumes a: "archive_open c fd file pos events" and junk: "length junk = 110" "length junk_next = 10"
  shows "pos s = Some (length pre) \<Longrightarrow> length pre mod 4 = 0 \<Longrightarrow> file = pre @ cpio_archive es \<Longrightarrow> list_all entry_ok es \<Longrightarrow>
    \<exists>s'. unpack_loop c junk junk_next fd s = Some s' \<and> events s' = events s @ concat (map entry_events es)"
proof (induction es arbitrary: s pre)
  case Nil
  then have "file = pre @ padded (cpio_header 0 0 11 @ cs ''TRAILER!!!'' @ [0])" by (simp add: cpio_archive_def)
  from unpack_entry_stops [OF a Nil.prems(1) this junk] obtain s' where "unpack_entry c junk junk_next fd s = Some (Inl s')"
    "events s' = events s" .
  then show ?case by (simp add: unpack_loop.simps)
next
  case (Cons e es)
  have content: "file = pre @ cpio_entry e @ cpio_archive es" using Cons.prems(3) by (simp add: cpio_archive_def)
  have ok: "entry_ok e" using Cons.prems(4) by simp
  have "10 \<le> length (cpio_archive es)" by (simp add: cpio_archive_def padded_def)
  from unpack_entry_done [OF a ok Cons.prems(1,2) content this junk] obtain s1
    where s1: "unpack_entry c junk junk_next fd s = Some (Inr s1)" "pos s1 = Some (length (pre @ cpio_entry e))"
      "events s1 = events s @ entry_events e" .
  have "length (pre @ cpio_entry e) mod 4 = 0" using Cons.prems(2) cpio_entry_aligned [of e] by (simp add: mod_eq_0_iff_dvd)
  from Cons.IH [OF s1(2) this] content Cons.prems(4) obtain s2
    where "unpack_loop c junk junk_next fd s1 = Some s2" "events s2 = events s1 @ concat (map entry_events es)" by auto
  with s1 show ?case by (simp add: unpack_loop.simps)
qed

text \<open>C39: Unpacking reads back every archive that is written in the format: the directories and files of its entries are
  created in order, and each file gets exactly its data. Names have less than 128 bytes and do not begin with the name of
  the last entry; the archive is opened at its start, and the calls behave as POSIX says.\<close>

theorem initramfs_unpacks:
  assumes "archive_open c fd (cpio_archive es) pos events" and "list_all entry_ok es"
    and "length junk = 110" and "length junk_next = 10" and "0 \<le> fd"
    and "f_open c (cs ''/mnt/disk0/initrfs.cio'') 0 s = Some (s1, fd)" and "pos s1 = Some 0"
  shows "\<exists>s'. load_initramfs c junk junk_next s = Some (s', None) \<and> events s' = events s1 @ concat (map entry_events es)"
  using unpack_loop_done [OF assms(1,3,4), of s1 "[]" es] assms by (auto simp: load_initramfs_def)

section \<open>An example\<close>

text \<open>System calls over a state that has the position in the archive and what was done to other files.\<close>

type_synonym unpacking = "nat option \<times> fs_event list"

definition seek_from :: "nat option \<Rightarrow> int \<Rightarrow> int \<Rightarrow> nat" where
  "seek_from p k whence = nat (if whence = SEEK_SET then k else int (case p of None \<Rightarrow> 0 | Some p \<Rightarrow> p) + k)"

definition archive_calls :: "byte list \<Rightarrow> unpacking file_calls" where
  "archive_calls file = \<lparr>
     f_open = \<lambda>path flags (p, events).
       if p = None then Some ((Some 0, events), 3) else Some ((p, events @ [Opened path flags]), 4),
     f_read = \<lambda>fd n (p, events). (case p of None \<Rightarrow> Some ((p, events), [], - 9)
       | Some p \<Rightarrow> Some ((Some (min (length file) (p + unat n)), events), take (unat n) (drop p file),
           int (length (take (unat n) (drop p file))))),
     f_write = \<lambda>fd bytes (p, events). Some ((p, events @ [Written bytes]), int (length bytes)),
     f_lseek = \<lambda>fd k whence (p, events). Some ((Some (seek_from p k whence), events), int (seek_from p k whence)),
     f_close = \<lambda>fd (p, events). Some ((p, events @ [Closed]), 0),
     u_malloc = \<lambda>n s. (s, Some (0x1000, replicate (unat n) 0)),
     u_free = \<lambda>a s. s\<rparr>"

lemma archive_calls_open: "length file < 2 ^ 31 \<Longrightarrow> archive_open (archive_calls file) 3 file fst snd"
  by (simp add: archive_open_def archive_calls_def seek_from_def SEEK_SET_def SEEK_CUR_def nat_int_add)

definition small_archive :: "entry list" where
  "small_archive =
     [\<lparr>e_path = cs ''bin'', e_mode = 0x41ED, e_data = []\<rparr>, \<lparr>e_path = cs ''bin/a'', e_mode = 0x81A4, e_data = cs ''hi!''\<rparr>]"

theorem initramfs_unpacks_witness:
  "\<exists>s'. load_initramfs (archive_calls (cpio_archive small_archive)) (replicate 110 0) (replicate 10 0) (None, []) = Some (s', None) \<and>
     snd s' = [Opened (cs ''bin'') (O_DIRECTORY OR O_CREAT), Closed, Opened (cs ''bin/a'') O_CREAT, Written (cs ''hi!''), Closed]"
proof -
  let ?c = "archive_calls (cpio_archive small_archive)"
  have "length (cpio_archive small_archive) < 2 ^ 31"
    by (simp add: cpio_archive_def small_archive_def cpio_entry_def padded_def pad_len_def)
  then have a: "archive_open ?c 3 (cpio_archive small_archive) fst snd" by (rule archive_calls_open)
  have ok: "list_all entry_ok small_archive"
    by (simp add: small_archive_def entry_ok_def is_directory_def)
  have events: "concat (map entry_events small_archive) =
    [Opened (cs ''bin'') (O_DIRECTORY OR O_CREAT), Closed, Opened (cs ''bin/a'') O_CREAT, Written (cs ''hi!''), Closed]"
    by (simp add: small_archive_def entry_events_def is_directory_def)
  have "f_open ?c (cs ''/mnt/disk0/initrfs.cio'') 0 (None, []) = Some ((Some 0, []), 3)" by (simp add: archive_calls_def)
  from initramfs_unpacks [OF a ok _ _ _ this, of "replicate 110 0" "replicate 10 0"] show ?thesis
    unfolding events by simp
qed

end
