(* ===== verification/Address_Text.thy ===== *)
theory Address_Text
  imports Network Libc_Contract
begin

text \<open>
  The texts of addresses: the loops of \<open>str2ip\<close> and \<open>str2mac\<close> are one loop over the parts of a text, which reads back
  what the printed parts say.
\<close>

section \<open>Texts of several parts\<close>

fun joined :: "byte \<Rightarrow> byte list list \<Rightarrow> byte list" where
  "joined c [] = []"
| "joined c [g] = g"
| "joined c (g # gs) = g @ c # joined c gs"

lemma joined_Cons: "gs \<noteq> [] \<Longrightarrow> joined c (g # gs) = g @ c # joined c gs"
  by (cases gs) auto

text \<open>The loops of \<open>str2mac\<close> and \<open>str2ip\<close> are one loop with the conversion of a part as its parameter.\<close>

fun parts_loop ::
    "(mem \<Rightarrow> addr \<Rightarrow> byte option option) \<Rightarrow> mem \<Rightarrow> addr \<Rightarrow> addr \<Rightarrow> addr \<Rightarrow> addr \<Rightarrow> nat \<Rightarrow> (mem \<times> addr \<times> int) option" where
  "parts_loop conv m scan sep part buf 0 = Some (m, scan, 0)"
| "parts_loop conv m scan sep part buf (Suc n) = do {
     require (part \<noteq> NULL);
     r \<leftarrow> conv m part;
     (case r of
        None \<Rightarrow> Some (m, scan, - EINVAL)
      | Some v \<Rightarrow> do {
          (m, scan, part) \<leftarrow> strtok (m(buf := v)) scan NULL sep;
          parts_loop conv m scan sep part (buf + 1) n
        })
   }"

definition mac_part :: "mem \<Rightarrow> addr \<Rightarrow> byte option option" where
  "mac_part m part = do {
     len \<leftarrow> strlen m part;
     (if len \<noteq> 2 then Some None else do { (v, _) \<leftarrow> strtoul m part 16; Some (Some (ucast v)) })
   }"

definition ip_part :: "mem \<Rightarrow> addr \<Rightarrow> byte option option" where
  "ip_part m part = do {
     len \<leftarrow> strlen m part;
     (if 3 < len then Some None
      else do { (octet, _) \<leftarrow> strtoul m part 10; Some (if 255 < octet then None else Some (ucast octet)) })
   }"

lemma mac_loop_parts: "mac_loop m scan sep part buf n = parts_loop mac_part m scan sep part buf n"
proof (induction n arbitrary: m scan part buf)
  case (Suc n)
  then show ?case
    by (cases "strlen m part"; cases "strtoul m part 16")
      (simp_all add: mac_part_def split_beta)
qed simp

lemma ip_loop_parts: "ip_loop m scan sep part buf n = parts_loop ip_part m scan sep part buf n"
proof (induction n arbitrary: m scan part buf)
  case (Suc n)
  then show ?case
    by (cases "strlen m part"; cases "strtoul m part 10")
      (simp_all add: ip_part_def split_beta)
qed simp

lemma cut_at:
  assumes "c \<notin> set g"
  shows "takeWhile (\<lambda>x. x \<notin> set [c]) (g @ c # r) = g" "dropWhile (\<lambda>x. x \<notin> set [c]) (g @ c # r) = c # r"
    "takeWhile (\<lambda>x. x \<notin> set [c]) g = g" "dropWhile (\<lambda>x. x \<notin> set [c]) g = []"
  using assms by (induction g) auto

lemma token_joined:
  assumes "c \<notin> set g" "gs = [] \<or> (hd (joined c gs) \<noteq> c \<and> joined c gs \<noteq> [])"
  shows "token_of [c] (joined c (g # gs)) = g" "token_rest [c] (joined c (g # gs)) = joined c gs"
proof -
  have rest: "dropWhile (\<lambda>x. x \<in> set [c]) (joined c gs) = joined c gs" if "gs \<noteq> []"
    using assms(2) that by (cases "joined c gs") auto
  have "token_of [c] (joined c (g # gs)) = g \<and> token_rest [c] (joined c (g # gs)) = joined c gs"
  proof (cases "gs = []")
    case True
    then show ?thesis by (simp add: token_of_def token_rest_def cut_at [OF assms(1)] del: list.set)
  next
    case False
    have "dropWhile (\<lambda>x. x \<in> set [c]) (c # joined c gs) = joined c gs" using rest [OF False] by simp
    then show ?thesis by (simp only: token_of_def token_rest_def joined_Cons [OF False] cut_at [OF assms(1)] simp_thms)
  qed
  then show "token_of [c] (joined c (g # gs)) = g" "token_rest [c] (joined c (g # gs)) = joined c gs" by blast+
qed

lemma joined_head: "\<forall>g\<in>set gs. g \<noteq> [] \<and> c \<notin> set g \<Longrightarrow> gs = [] \<or> (hd (joined c gs) \<noteq> c \<and> joined c gs \<noteq> [])"
proof (cases gs)
  case (Cons g gs')
  assume a: "\<forall>g\<in>set gs. g \<noteq> [] \<and> c \<notin> set g"
  then have g: "g \<noteq> []" "c \<notin> set g" by (simp_all add: Cons)
  then have "hd g \<noteq> c" by (metis list.set_sel(1))
  then show ?thesis using g by (cases gs') (auto simp: Cons)
qed simp

text \<open>What is needed of a part, and of the place of the arrays.\<close>

definition converts :: "(mem \<Rightarrow> addr \<Rightarrow> byte option option) \<Rightarrow> byte \<Rightarrow> byte list \<Rightarrow> byte \<Rightarrow> bool" where
  "converts conv c g v \<longleftrightarrow> g \<noteq> [] \<and> c \<notin> set g \<and> (\<forall>m p. cstr m p g \<longrightarrow> conv m p = Some (Some v))"

definition clear_of :: "addr \<Rightarrow> nat \<Rightarrow> addr \<Rightarrow> bool" where
  "clear_of p n a \<longleftrightarrow> (\<forall>k<n. a \<noteq> p + of_nat k)"

lemma clear_of_mono: "clear_of p n a \<Longrightarrow> j + n' \<le> n \<Longrightarrow> clear_of (p + of_nat j) n' a"
  unfolding clear_of_def
proof (intro allI impI)
  fix k assume c: "\<forall>k<n. a \<noteq> p + of_nat k" and k: "j + n' \<le> n" "k < n'"
  then have "j + k < n" by linarith
  with c have "a \<noteq> p + of_nat (j + k)" by blast
  then show "a \<noteq> p + of_nat j + of_nat k" by (simp add: add.assoc)
qed

lemma clear_of_offset: "clear_of p n a \<Longrightarrow> n \<le> unat (a - p)"
proof (rule ccontr)
  assume c: "clear_of p n a" "\<not> n \<le> unat (a - p)"
  then have "a \<noteq> p + of_nat (unat (a - p))" unfolding clear_of_def not_le by blast
  then show False by simp
qed

lemma cstr_upd: "clear_of p (Suc (length s)) a \<Longrightarrow> cstr m p s \<Longrightarrow> cstr (m(a := v)) p s"
  by (subst cstr_cong [where m = m]) (auto simp: clear_of_def less_Suc_eq_le)

lemma parts_loop_reads:
  assumes "list_all2 (converts conv c) (g # gs) (v # vs)" "cstr m part g" "part \<noteq> NULL"
    and "cstr m scan (joined c gs)" "\<forall>k\<le>length (joined c gs). scan + of_nat k \<noteq> NULL"
    and "cstr m sep [c]" "length (joined c gs) + 1 < 2 ^ 32" "length gs < 2 ^ 31"
    and "\<forall>i\<le>length gs. clear_of scan (Suc (length (joined c gs))) (buf + of_nat i) \<and> clear_of sep 2 (buf + of_nat i)"
    and "clear_of scan (length (joined c gs)) sep" "clear_of scan (length (joined c gs)) (sep + 1)"
  shows "\<exists>m' scan'. parts_loop conv m scan sep part buf (Suc (length gs)) = Some (m', scan', 0) \<and>
    (\<forall>i\<le>length gs. m' (buf + of_nat i) = (v # vs) ! i) \<and>
    (\<forall>a. clear_of buf (Suc (length gs)) a \<longrightarrow> clear_of scan (length (joined c gs)) a \<longrightarrow> m' a = m a)"
  using assms
proof (induction gs arbitrary: g v vs m part scan buf)
  case Nil
  have "conv m part = Some (Some v)" using Nil.prems(1,2) by (auto simp: converts_def)
  moreover have "(m(buf := v)) scan = 0"
  proof -
    have "scan \<noteq> buf" "m scan = 0" using Nil.prems(4,9) by (auto simp: clear_of_def)
    then show ?thesis by simp
  qed
  then have "strtok (m(buf := v)) scan NULL sep = Some (m(buf := v), scan, NULL)" by (simp add: strtok_def Let_def)
  ultimately have "parts_loop conv m scan sep part buf (Suc 0) = Some (m(buf := v), scan, 0)" using Nil.prems(3) by simp
  then show ?case by (auto simp: clear_of_def)
next
  case (Cons g' gs)
  let ?s = "joined c (g' # gs)" and ?r = "joined c gs" and ?m1 = "m(buf := v)"
  obtain v' vs' where vs: "vs = v' # vs'" "list_all2 (converts conv c) (g' # gs) (v' # vs')" and conv: "converts conv c g v"
    using Cons.prems(1) by (auto simp: list_all2_Cons1)
  have cv: "conv m part = Some (Some v)" using conv Cons.prems(2) by (simp add: converts_def)
  have gs: "\<forall>g\<in>set (g' # gs). g \<noteq> [] \<and> c \<notin> set g"
    using vs(2) by (auto simp: list_all2_iff converts_def in_set_conv_nth set_zip) (metis nth_Cons_0 nth_mem list.set_intros length_Cons)+
  have tok: "token_of [c] ?s = g'" "token_rest [c] ?s = ?r"
    using token_joined [of c g' gs] joined_head [of gs c] gs by auto
  have s: "?s \<noteq> []" "length ?r \<le> length ?s" using gs by (cases gs; auto)+
  define d where "d = length ?s - length ?r"
  have d: "d + length ?r = length ?s" using s(2) by (simp add: d_def)
  have buf0: "clear_of scan (Suc (length ?s)) buf" "clear_of sep 2 buf" using Cons.prems(9) [rule_format, of 0] by simp_all
  have scan: "scan \<noteq> NULL" using Cons.prems(5) [rule_format, of 0] by simp
  have c1: "cstr ?m1 scan ?s" "cstr ?m1 sep [c]"
    using cstr_upd [OF buf0(1) Cons.prems(4)] cstr_upd [of sep "[c]" buf m v] buf0(2) Cons.prems(6) by (simp_all add: numeral_2_eq_2)
  have l: "length [c] < 2 ^ 32" "(NULL :: addr) = scan \<or> (NULL :: addr) = NULL \<and> scan = scan" by simp_all
  have "\<exists>m2 scan2. strtok ?m1 scan NULL sep = Some (m2, scan2, scan) \<and> cstr m2 scan (token_of [c] ?s) \<and>
      cstr m2 scan2 (token_rest [c] ?s) \<and> (\<forall>i. length ?s \<le> i \<longrightarrow> i < 2 ^ 32 \<longrightarrow> m2 (scan + of_nat i) = ?m1 (scan + of_nat i)) \<and>
      scan2 = scan + of_nat (length ?s - length (token_rest [c] ?s))"
    by (rule strtok_cstr [OF c1(1) s(1) scan c1(2) Cons.prems(7) l]) blast
  then obtain m2 scan2 where raw: "strtok ?m1 scan NULL sep = Some (m2, scan2, scan)" "cstr m2 scan (token_of [c] ?s)"
      "cstr m2 scan2 (token_rest [c] ?s)"
    and fr: "\<forall>i. length ?s \<le> i \<longrightarrow> i < 2 ^ 32 \<longrightarrow> m2 (scan + of_nat i) = ?m1 (scan + of_nat i)"
    and raw': "scan2 = scan + of_nat (length ?s - length (token_rest [c] ?s))"
    by blast
  note st = raw [unfolded tok] raw' [unfolded tok, folded d_def]
  have frame: "m2 a = ?m1 a" if "clear_of scan (length ?s) a" for a
    using fr [rule_format, of "unat (a - scan)"] clear_of_offset [OF that] unat_lt_exp [of "a - scan"] by simp
  have sub: "clear_of scan2 (Suc (length ?r)) a" if "clear_of scan (Suc (length ?s)) a" for a
    unfolding st(4) using clear_of_mono [OF that, of d "Suc (length ?r)"] d by simp
  have sub': "clear_of scan2 (length ?r) a" if "clear_of scan (length ?s) a" for a
    unfolding st(4) using clear_of_mono [OF that, of d "length ?r"] d by simp
  have "cstr m2 sep [c]"
    using c1(2) frame [OF Cons.prems(10)] frame [OF Cons.prems(11)] by (simp add: add.commute)
  moreover have "\<forall>k\<le>length ?r. scan2 + of_nat k \<noteq> NULL"
  proof (intro allI impI)
    fix k assume "k \<le> length ?r"
    then have "d + k \<le> length ?s" using d by linarith
    then have "scan + of_nat (d + k) \<noteq> NULL" using Cons.prems(5) by blast
    then show "scan2 + of_nat k \<noteq> NULL" by (simp add: st(4) add.assoc)
  qed
  moreover have "\<forall>i\<le>length gs. clear_of scan2 (Suc (length ?r)) (buf + 1 + of_nat i) \<and> clear_of sep 2 (buf + 1 + of_nat i)"
    using Cons.prems(9) [rule_format, of "Suc _"] sub by (simp add: add.assoc)
  moreover have "length ?r + 1 < 2 ^ 32" "length gs < 2 ^ 31" using Cons.prems(7,8) s(2) by simp_all
  ultimately obtain m3 scan3 where IH: "parts_loop conv m2 scan2 sep scan (buf + 1) (Suc (length gs)) = Some (m3, scan3, 0)"
      "\<forall>i\<le>length gs. m3 (buf + 1 + of_nat i) = (v' # vs') ! i"
      "\<forall>a. clear_of (buf + 1) (Suc (length gs)) a \<longrightarrow> clear_of scan2 (length ?r) a \<longrightarrow> m3 a = m2 a"
    using Cons.IH [OF vs(2) st(2) scan st(3)] sub' [OF Cons.prems(10)] sub' [OF Cons.prems(11)] by blast
  have "parts_loop conv m scan sep part buf (Suc (length (g' # gs))) = Some (m3, scan3, 0)"
    using cv st(1) IH(1) Cons.prems(3) by simp
  moreover have "m3 (buf + of_nat i) = (v # vs) ! i" if i: "i \<le> length (g' # gs)" for i
  proof (cases i)
    case 0
    have "clear_of (buf + 1) (Suc (length gs)) buf"
      unfolding clear_of_def
    proof (intro allI impI notI)
      fix k assume k: "k < Suc (length gs)" "buf = buf + 1 + of_nat k"
      then have "unat (of_nat (Suc k) :: u32) = 0" by (simp add: add.assoc)
      moreover have "unat (of_nat (Suc k) :: u32) = Suc k" using k(1) Cons.prems(8) by (intro unat_of_nat_less) simp
      ultimately show False by simp
    qed
    moreover have "clear_of scan (length ?s) buf" using clear_of_mono [OF buf0(1), of 0 "length ?s"] by simp
    ultimately show ?thesis using IH(3) sub' frame by (simp add: 0)
  next
    case (Suc j)
    then show ?thesis using IH(2) i by (simp add: vs(1) add.assoc)
  qed
  moreover have "m3 a = m a" if a: "clear_of buf (Suc (length (g' # gs))) a" "clear_of scan (length ?s) a" for a
  proof -
    have "a \<noteq> buf" using a(1) by (auto simp: clear_of_def)
    moreover have "clear_of (buf + 1) (Suc (length gs)) a" using clear_of_mono [OF a(1), of 1 "Suc (length gs)"] by simp
    ultimately show ?thesis using IH(3) sub' [OF a(2)] frame [OF a(2)] by simp
  qed
  ultimately show ?case by blast
qed

lemma converts_all: "list_all2 (converts conv c) gs vs \<Longrightarrow> \<forall>g\<in>set gs. g \<noteq> [] \<and> c \<notin> set g"
  by (induction gs vs rule: list_all2_induct) (auto simp: converts_def)

lemma parse_text:
  assumes parts: "list_all2 (converts conv c) (g # gs) (v # vs)" and s: "s = joined c (g # gs)" "cstr m src s"
    and small: "length s + 1 < 2 ^ 32" "length gs < 2 ^ 31"
    and copy: "fwd_safe copy src (of_nat (length s + 1))" "\<forall>k\<le>length s. copy + of_nat k \<noteq> NULL"
    and sep: "cstr m sep [c]" "clear_of copy (Suc (length s)) sep" "clear_of copy (Suc (length s)) (sep + 1)"
    and buf: "\<forall>i\<le>length gs. clear_of copy (Suc (length s)) (buf + of_nat i) \<and> clear_of sep 2 (buf + of_nat i)"
  shows "\<exists>m' scan'. do { (m, _) \<leftarrow> strcpy m copy src; (m, scan, part) \<leftarrow> strtok m scan copy sep;
      parts_loop conv m scan sep part buf (Suc (length gs)) } = Some (m', scan', 0) \<and>
    (\<forall>i\<le>length gs. m' (buf + of_nat i) = (v # vs) ! i)"
proof -
  let ?r = "joined c gs"
  have gs: "\<forall>g\<in>set (g # gs). g \<noteq> [] \<and> c \<notin> set g" using converts_all [OF parts] .
  have tok: "token_of [c] s = g" "token_rest [c] s = ?r" and ne: "s \<noteq> []" "length ?r \<le> length s"
    using token_joined [of c g gs] joined_head [of gs c] gs s(1) by (cases gs; auto)+
  define d where "d = length s - length ?r"
  have d: "d + length ?r = length s" using ne(2) by (simp add: d_def)
  have "\<exists>m1. strcpy m copy src = Some (m1, copy) \<and> cstr m1 copy s \<and> m1 = copied m copy src (of_nat (length s + 1))"
    by (rule strcpy_cstr [OF s(2) small(1) copy(1)]) blast
  then obtain m1 where m1: "strcpy m copy src = Some (m1, copy)" "cstr m1 copy s"
    and m1': "m1 = copied m copy src (of_nat (length s + 1))" by blast
  have out: "m1 a = m a" if "clear_of copy (Suc (length s)) a" for a
  proof -
    have "unat (of_nat (length s + 1) :: u32) = length s + 1" using small(1) by (intro unat_of_nat_less) simp
    then have "\<not> a - copy < of_nat (length s + 1)" using clear_of_offset [OF that] by (simp add: word_less_nat_alt)
    then show ?thesis by (simp add: m1' copied_out)
  qed
  have sep1: "cstr m1 sep [c]" using sep(1) out [OF sep(2)] out [OF sep(3)] by (simp add: add.commute)
  have c0: "copy \<noteq> NULL" using copy(2) [rule_format, of 0] by simp
  have l: "length [c] < 2 ^ 32" "copy = copy \<or> copy = NULL \<and> scan = copy" by simp_all
  have "\<exists>m2 scan2. strtok m1 scan copy sep = Some (m2, scan2, copy) \<and> cstr m2 copy (token_of [c] s) \<and>
      cstr m2 scan2 (token_rest [c] s) \<and> (\<forall>i. length s \<le> i \<longrightarrow> i < 2 ^ 32 \<longrightarrow> m2 (copy + of_nat i) = m1 (copy + of_nat i)) \<and>
      scan2 = copy + of_nat (length s - length (token_rest [c] s))"
    by (rule strtok_cstr [OF m1(2) ne(1) c0 sep1 small(1) l]) blast
  then obtain m2 scan2 where m2: "strtok m1 scan copy sep = Some (m2, scan2, copy)" "cstr m2 copy g" "cstr m2 scan2 ?r"
    and fr: "\<forall>i. length s \<le> i \<longrightarrow> i < 2 ^ 32 \<longrightarrow> m2 (copy + of_nat i) = m1 (copy + of_nat i)"
    and scan2: "scan2 = copy + of_nat d" unfolding tok d_def by blast
  have sub: "clear_of copy (length s) a" "clear_of scan2 (Suc (length ?r)) a" "clear_of scan2 (length ?r) a"
    if "clear_of copy (Suc (length s)) a" for a
    unfolding scan2 using clear_of_mono [OF that, of 0 "length s"] clear_of_mono [OF that, of d "Suc (length ?r)"]
      clear_of_mono [OF that, of d "length ?r"] d by simp_all
  have frame: "m2 a = m1 a" if "clear_of copy (Suc (length s)) a" for a
    using fr [rule_format, of "unat (a - copy)"] clear_of_offset [OF sub(1) [OF that]] unat_lt_exp [of "a - copy"] by simp
  have "cstr m2 sep [c]" using sep1 frame [OF sep(2)] frame [OF sep(3)] by (simp add: add.commute)
  moreover have "\<forall>k\<le>length ?r. scan2 + of_nat k \<noteq> NULL"
  proof (intro allI impI)
    fix k assume "k \<le> length ?r"
    then have "d + k \<le> length s" using d by linarith
    then have "copy + of_nat (d + k) \<noteq> NULL" using copy(2) by blast
    then show "scan2 + of_nat k \<noteq> NULL" by (simp add: scan2 add.assoc)
  qed
  moreover have "\<forall>i\<le>length gs. clear_of scan2 (Suc (length ?r)) (buf + of_nat i) \<and> clear_of sep 2 (buf + of_nat i)"
    using buf sub(2) by blast
  moreover have "length ?r + 1 < 2 ^ 32" using small(1) ne(2) by simp
  ultimately obtain m3 scan3 where
    "parts_loop conv m2 scan2 sep copy buf (Suc (length gs)) = Some (m3, scan3, 0)" "\<forall>i\<le>length gs. m3 (buf + of_nat i) = (v # vs) ! i"
    using parts_loop_reads [OF parts m2(2) c0 m2(3)] small(2) sub(3) [OF sep(2)] sub(3) [OF sep(3)] by blast
  then show ?thesis using m1(1) m2(1) by simp
qed

section \<open>Octets\<close>

lemma byte_u32: "ucast (of_nat (unat b) :: u32) = (b :: byte)"
proof (rule bit_eqI)
  show "bit (ucast (of_nat (unat b) :: u32) :: byte) n = bit b n" if "possible_bit TYPE(byte) n" for n
    using that by (simp add: bit_simps)
qed

lemma octet_converts: "converts ip_part 46 (numeral_bytes 10 (unat b)) b"
proof -
  let ?g = "numeral_bytes 10 (unat b)"
  note o1 = numeral_bytes_octet [of b]
  have "c \<noteq> 46" if "c \<in> set ?g" for c
  proof
    assume "c = 46"
    then have "46 \<in> set ?g" using that by simp
    then obtain i where "i < length ?g" "?g ! i = 46" unfolding in_set_conv_nth by blast
    then have "\<exists>d. strtoul_digit 46 = Some d" using o1(1) unfolding digit_string_def list_all2_conv_all_nth by metis
    then show False by simp
  qed
  moreover have "ip_part m p = Some (Some b)" if c: "cstr m p ?g" for m p
  proof -
    have "strlen m p = Some (of_nat (length ?g))" by (rule strlen_cstr [OF c])
    moreover have "unat (of_nat (length ?g) :: u32) = length ?g" using o1(3) by (intro unat_of_nat_less) simp
    then have "\<not> 3 < (of_nat (length ?g) :: u32)" using o1(3) by (simp add: word_less_nat_alt)
    moreover have "length ?g < 2 ^ 31" using o1(3) by simp
    from strtoul_digits [OF c o1(1) _ this] have "strtoul m p 10 = Some (of_nat (unat b), p + of_nat (length ?g))"
      by (simp add: o1(4))
    moreover have "unat (of_nat (unat b) :: u32) = unat b" using unat_lt_exp [of b] by (intro unat_of_nat_less) simp
    then have "\<not> 255 < (of_nat (unat b) :: u32)" using unat_lt_exp [of b] by (simp add: word_less_nat_alt del: unat_lt_exp)
    moreover have "ucast (of_nat (unat b) :: u32) = b" by (rule byte_u32)
    ultimately show ?thesis by (simp add: ip_part_def)
  qed
  ultimately show ?thesis using o1(2) by (auto simp: converts_def)
qed

definition hex2 :: "byte \<Rightarrow> byte list" where
  "hex2 b = [itoa_digit (of_nat (unat b div 16)), itoa_digit (of_nat (unat b mod 16))]"

lemma hex2_digits: "digit_string 16 (hex2 b) [unat b div 16, unat b mod 16]"
proof -
  have "unat b div 16 < 16" "unat b mod 16 < 16" using unat_lt_exp [of b] by (simp_all add: less_mult_imp_div_less)
  then show ?thesis using strtoul_itoa_digit by (simp add: digit_string_def hex2_def)
qed

text \<open>Two hexadecimal digits, of either case, that say a byte.\<close>

definition hex_pair :: "byte list \<Rightarrow> byte \<Rightarrow> bool" where
  "hex_pair g b \<longleftrightarrow> digit_string 16 g [unat b div 16, unat b mod 16]"

lemma hex2_pair: "hex_pair (hex2 b) b"
  using hex2_digits by (simp add: hex_pair_def)

lemma length_hex_pair: "hex_pair g b \<Longrightarrow> length g = 2"
  by (auto simp: hex_pair_def digit_string_def dest: list_all2_lengthD)

lemma hex_pair_converts:
  assumes "hex_pair g b"
  shows "converts mac_part 58 g b"
proof -
  have len: "length g = 2" using assms by (rule length_hex_pair)
  have ds: "digit_string 16 g [unat b div 16, unat b mod 16]" using assms by (simp add: hex_pair_def)
  have d58: "strtoul_digit 58 = None" by code_simp
  have "58 \<notin> set g"
  proof
    assume "58 \<in> set g"
    then show False using ds d58 by (auto simp: digit_string_def list_all2_Cons2)
  qed
  moreover have "mac_part m p = Some (Some b)" if c: "cstr m p g" for m p
  proof -
    have "strlen m p = Some 2" using strlen_cstr [OF c] by (simp add: len)
    moreover have "length g < 2 ^ 31" by (simp add: len)
    from strtoul_digits [OF c ds _ this] have "strtoul m p 16 = Some (of_nat (unat b), p + 2)"
      by (simp add: digits_value_def len)
    moreover have "ucast (of_nat (unat b) :: u32) = b" by (rule byte_u32)
    ultimately show ?thesis by (simp add: mac_part_def)
  qed
  moreover have "g \<noteq> []" using len by auto
  ultimately show ?thesis by (simp add: converts_def)
qed

section \<open>Addresses in text\<close>

definition arrays_apart :: "addr \<Rightarrow> nat \<Rightarrow> addr \<Rightarrow> addr \<Rightarrow> nat \<Rightarrow> bool" where
  "arrays_apart copy n sep buf k \<longleftrightarrow> (\<forall>j<n. copy + of_nat j \<noteq> NULL) \<and> clear_of copy n sep \<and> clear_of copy n (sep + 1) \<and>
     (\<forall>i<k. clear_of copy n (buf + of_nat i) \<and> clear_of sep 2 (buf + of_nat i))"

lemma clear_of_less: "clear_of p n a \<Longrightarrow> n' \<le> n \<Longrightarrow> clear_of p n' a"
  by (auto simp: clear_of_def)

lemma arrays_apartD:
  assumes "arrays_apart copy n sep buf (Suc k)" "Suc l \<le> n"
  shows "\<forall>j\<le>l. copy + of_nat j \<noteq> NULL" "clear_of copy (Suc l) sep" "clear_of copy (Suc l) (sep + 1)"
    "\<forall>i\<le>k. clear_of copy (Suc l) (buf + of_nat i) \<and> clear_of sep 2 (buf + of_nat i)"
  using assms by (auto simp: arrays_apart_def less_Suc_eq_le clear_of_less)

lemma mem_bytes_eq: "\<forall>i\<le>k. m (p + of_nat i) = bs ! i \<Longrightarrow> length bs = Suc k \<Longrightarrow> mem_bytes m p (Suc k) = bs"
  by (rule nth_equalityI) (auto simp: mem_bytes_def nth_append less_Suc_eq simp del: upt_Suc)

lemma joined_dotted: "joined 46 gs = dotted gs"
  by (induction gs rule: dotted.induct) simp_all

lemma clear_of_unat:
  assumes "unat a < unat p \<or> unat p + n \<le> unat a" "unat p + n < 2 ^ 32"
  shows "clear_of p n a"
  unfolding clear_of_def
proof (intro allI impI notI)
  fix k assume k: "k < n" "a = p + of_nat k"
  have "unat (p + of_nat k) = unat p + k" using k(1) assms(2) by (intro unat_add_of_nat) linarith
  then show False using assms(1) k by simp
qed

lemma arrays_apart_in_order:
  assumes "unat sep + 2 \<le> unat copy" "unat copy + n \<le> unat buf" "unat buf + k < 2 ^ 32"
  shows "arrays_apart copy n sep buf k"
proof -
  have s1: "unat (sep + of_nat 1) = unat sep + 1" using assms by (intro unat_add_of_nat) linarith
  have b: "unat (buf + of_nat i) = unat buf + i" if "i < k" for i using that assms by (intro unat_add_of_nat) linarith
  have "copy + of_nat j \<noteq> NULL" if "j < n" for j
  proof -
    have "unat (copy + of_nat j) = unat copy + j" using that assms by (intro unat_add_of_nat) linarith
    then show ?thesis using assms(1) by auto
  qed
  moreover have "clear_of copy n sep" using assms by (intro clear_of_unat) linarith+
  moreover have "clear_of copy n (sep + of_nat 1)" using assms by (intro clear_of_unat) (unfold s1, linarith+)
  moreover have "clear_of copy n (buf + of_nat i)" if "i < k" for i
    using assms that by (intro clear_of_unat) (unfold b [OF that], linarith+)
  moreover have "clear_of sep 2 (buf + of_nat i)" if "i < k" for i
    using assms that by (intro clear_of_unat) (unfold b [OF that], linarith+)
  ultimately show ?thesis by (simp add: arrays_apart_def)
qed

lemma length_joined4: "length gs = 4 \<Longrightarrow> \<forall>g\<in>set gs. length g \<le> 3 \<Longrightarrow> length (joined c gs) \<le> 15"
  by (auto simp: numeral_eq_Suc length_Suc_conv)

text \<open>\<open>str2ip\<close> reads back every address: for the dotted decimal text of four bytes it returns zero and stores the four
  bytes.\<close>

theorem str2ip_reads_address:
  assumes "cstr m src (dotted (map (\<lambda>b. numeral_bytes 10 (unat b)) bs))" "length bs = 4" "src \<noteq> NULL" "buf \<noteq> NULL"
    and "fwd_safe copy src 18" "cstr m sep [46]" "arrays_apart copy 18 sep buf 4"
  shows "\<exists>m' scan'. str2ip m scan copy sep src buf = Some (m', scan', 0) \<and> mem_bytes m' buf 4 = bs"
proof -
  let ?t = "\<lambda>b. numeral_bytes 10 (unat (b :: byte))"
  define s where "s = joined 46 (map ?t bs)"
  obtain b bs' where bs: "bs = b # bs'" "length bs' = 3" using assms(2) by (auto simp: numeral_eq_Suc length_Suc_conv)
  have s: "s = joined 46 (?t b # map ?t bs')" "cstr m src s" using assms(1) by (simp_all add: s_def bs(1) joined_dotted)
  have len: "length s \<le> 15" unfolding s_def using assms(2) numeral_bytes_octet(3) by (intro length_joined4) auto
  have parts: "list_all2 (converts ip_part 46) (?t b # map ?t bs') (b # bs')"
    using octet_converts by (simp add: list_all2_map1 list_all2_same)
  have safe: "fwd_safe copy src (of_nat (length s + 1))"
  proof -
    have "unat (of_nat (length s + 1) :: u32) = length s + 1" using len by (intro unat_of_nat_less) simp
    then show ?thesis using assms(5) len by (simp add: fwd_safe_def)
  qed
  have n: "length (map ?t bs') = 3" "length s + 1 < 2 ^ 32" "length (map ?t bs') < 2 ^ 31" "Suc (length s) \<le> 18" using bs(2) len by simp_all
  have "arrays_apart copy 18 sep buf (Suc (length (map ?t bs')))" using assms(7) by (simp add: bs(2))
  note a = arrays_apartD [OF this n(4)]
  obtain m' scan' where r: "do { (m, _) \<leftarrow> strcpy m copy src; (m, scan, part) \<leftarrow> strtok m scan copy sep;
      parts_loop ip_part m scan sep part buf (Suc (length (map ?t bs'))) } = Some (m', scan', 0)"
      "\<forall>i\<le>length (map ?t bs'). m' (buf + of_nat i) = (b # bs') ! i"
    using parse_text [OF parts s n(2,3) safe a(1) assms(6) a(2-4), of scan] by blast
  have "\<not> 15 < (of_nat (length s) :: u32)"
  proof -
    have "unat (of_nat (length s) :: u32) = length s" using len by (intro unat_of_nat_less) simp
    then show ?thesis using len by (simp add: word_less_nat_alt)
  qed
  moreover have "Suc (length (map ?t bs')) = 4" using bs(2) by simp
  ultimately have "str2ip m scan copy sep src buf = Some (m', scan', 0)"
    using r(1) assms(3,4) strlen_cstr [OF s(2)] by (simp only: str2ip_def ip_loop_parts) simp
  moreover have "mem_bytes m' buf 4 = bs" using mem_bytes_eq [OF r(2)] bs by simp
  ultimately show ?thesis by blast
qed

theorem str2ip_reads_address_witness:
  "\<exists>m' scan'. str2ip (memory_of [(0x100, cs ''192.168.0.7''), (0x200, cs ''.'')]) 0 0x300 0x200 0x100 0x400 = Some (m', scan', 0) \<and>
    mem_bytes m' 0x400 4 = [192, 168, 0, 7]"
proof -
  let ?m = "memory_of [(0x100, cs ''192.168.0.7''), (0x200, cs ''.'')]"
  have t: "cstr ?m 0x100 (dotted (map (\<lambda>b. numeral_bytes 10 (unat (b :: byte))) [192, 168, 0, 7]))" "cstr ?m 0x200 [46]"
    by (simp_all add: memory_simps)
  have a: "arrays_apart 0x300 18 0x200 0x400 4" by (rule arrays_apart_in_order) simp_all
  have f: "fwd_safe 0x300 0x100 18" by (simp add: fwd_safe_def)
  show ?thesis using str2ip_reads_address [OF t(1) _ _ _ f t(2) a] by simp
qed

lemma length_joined_hex: "list_all2 hex_pair gs bs \<Longrightarrow> bs \<noteq> [] \<Longrightarrow> length (joined c gs) = 3 * length bs - 1"
proof (induction rule: list_all2_induct)
  case (Cons g gs b bs)
  then show ?case by (cases "bs = []"; cases gs) (auto simp: length_hex_pair)
qed simp

text \<open>C25: \<open>str2mac\<close> reads back every hardware address: for the text of six bytes, each as two hexadecimal digits of
  either case, with colons between them, it returns zero and stores the six bytes.\<close>

theorem str2mac_reads_address:
  assumes "cstr m src (joined 58 gs)" "list_all2 hex_pair gs bs" "length bs = 6" "src \<noteq> NULL" "buf \<noteq> NULL"
    and "fwd_safe copy src 18" "cstr m sep [58]" "arrays_apart copy 18 sep buf 6"
  shows "\<exists>m' scan'. str2mac m scan copy sep src buf = Some (m', scan', 0) \<and> mem_bytes m' buf 6 = bs"
proof -
  define s where "s = joined 58 gs"
  obtain b bs' where bs: "bs = b # bs'" "length bs' = 5" using assms(3) by (auto simp: numeral_eq_Suc length_Suc_conv)
  then obtain g gs' where gs: "gs = g # gs'" "length gs' = 5" using assms(2) by (auto simp: list_all2_Cons2 dest: list_all2_lengthD)
  have s: "s = joined 58 (g # gs')" "cstr m src s" using assms(1) by (simp_all add: s_def gs(1))
  have len: "length s = 17" unfolding s_def using length_joined_hex [OF assms(2)] assms(3) by (cases bs) simp_all
  have parts: "list_all2 (converts mac_part 58) (g # gs') (b # bs')"
    using assms(2) hex_pair_converts unfolding bs(1) gs(1) by (rule list_all2_mono)
  have n: "length s + 1 < 2 ^ 32" "length gs' < 2 ^ 31" "Suc (length s) \<le> 18" using gs(2) len by simp_all
  have safe: "fwd_safe copy src (of_nat (length s + 1))" using assms(6) by (simp add: len)
  have "arrays_apart copy 18 sep buf (Suc (length gs'))" using assms(8) by (simp add: gs(2))
  note a = arrays_apartD [OF this n(3)]
  obtain m' scan' where r: "do { (m, _) \<leftarrow> strcpy m copy src; (m, scan, part) \<leftarrow> strtok m scan copy sep;
      parts_loop mac_part m scan sep part buf (Suc (length gs')) } = Some (m', scan', 0)"
      "\<forall>i\<le>length gs'. m' (buf + of_nat i) = (b # bs') ! i"
    using parse_text [OF parts s n(1,2) safe a(1) assms(7) a(2-4), of scan] by blast
  have "Suc (length gs') = 6" using gs(2) by simp
  then have "str2mac m scan copy sep src buf = Some (m', scan', 0)"
    using r(1) assms(4,5) strlen_cstr [OF s(2)] by (simp only: str2mac_def mac_loop_parts) (simp add: len)
  moreover have "mem_bytes m' buf 6 = bs" using mem_bytes_eq [OF r(2)] bs gs(2) by simp
  ultimately show ?thesis by blast
qed

theorem str2mac_reads_address_witness:
  "\<exists>m' scan'. str2mac (memory_of [(0x100, cs ''de:ad:01:10:be:ef''), (0x200, cs '':'')]) 0 0x300 0x200 0x100 0x400 = Some (m', scan', 0) \<and>
    mem_bytes m' 0x400 6 = [0xde, 0xad, 0x01, 0x10, 0xbe, 0xef]"
proof -
  let ?m = "memory_of [(0x100, cs ''de:ad:01:10:be:ef''), (0x200, cs '':'')]"
  let ?gs = "[cs ''de'', cs ''ad'', cs ''01'', cs ''10'', cs ''be'', cs ''ef'']"
  have t: "cstr ?m 0x100 (joined 58 ?gs)" "cstr ?m 0x200 [58]" by (simp_all add: memory_simps)
  have h: "list_all2 hex_pair ?gs [0xde, 0xad, 0x01, 0x10, 0xbe, 0xef]"
    by (simp add: hex_pair_def digit_string_def strtoul_digit_def)
  have a: "arrays_apart 0x300 18 0x200 0x400 6" by (rule arrays_apart_in_order) simp_all
  have f: "fwd_safe 0x300 0x100 18" by (simp add: fwd_safe_def)
  show ?thesis using str2mac_reads_address [OF t(1) h _ _ _ f t(2) a] by simp
qed

end
