(* ===== verification/Modbus.thy ===== *)
theory Modbus
  imports Address_Text Ethernet_Simulator
begin

text \<open>
  The Modbus client, \<open>builtins/src/modbustcp.c\<close>, with the hexadecimal input that \<open>builtins/src/shell.c\<close> shares with it: reading bytes from
  text, building a request, and sending it through the system calls, which are a parameter. The contract of the
  write call is a locale, and the socket of the Ethernet driver an interpretation of it, so that a request is followed to the wire.
\<close>

section \<open>Bytes in hexadecimal text\<close>

text \<open>
  The loop that reads pairs of digits is in \<open>parse_hex\<close> of \<open>modbustcp.c\<close> and in \<open>rawecho\<close> of \<open>shell.c\<close>. The array of
  three characters is a local one.
\<close>

partial_function (option) skip_spaces :: "mem \<Rightarrow> addr \<Rightarrow> addr option" where
  "skip_spaces m p = (if m p = 32 then skip_spaces m (p + 1) else Some p)"

declare skip_spaces.simps [code]

partial_function (option) hex_loop :: "mem \<Rightarrow> addr \<Rightarrow> addr \<Rightarrow> nat \<Rightarrow> (mem \<times> nat) option" where
  "hex_loop m p out i =
     (if m p = 0 then Some (m, i)
      else do {
        p \<leftarrow> skip_spaces m p;
        (if m p = 0 then Some (m, i)
         else do {
           (v, _) \<leftarrow> strtoul (local_mem [m p, m (p + 1), 0]) 0 16;
           hex_loop (m(out + of_nat i := ucast v)) (p + 2) out (i + 1)
         })
      })"

declare hex_loop.simps [code]

definition parse_hex :: "mem \<Rightarrow> addr \<Rightarrow> addr \<Rightarrow> u32 \<Rightarrow> (mem \<times> nat) option" where
  "parse_hex m str out n = hex_loop m str out 0"

text \<open>The array of \<open>rawecho\<close> has 80 bytes.\<close>

definition rawecho_bytes :: "mem \<Rightarrow> addr \<Rightarrow> addr \<Rightarrow> (mem \<times> nat) option" where
  "rawecho_bytes m text bytes = hex_loop (fst (memset m bytes 0 80)) text bytes 0"

section \<open>Requests\<close>

record config_t =
  address :: addr
  cfg_port :: int
  unit_id :: int
  func :: int
  reg :: int
  count :: int
  new_value :: int
  rawdata :: addr
  timeout :: int
  debug :: bool

definition int_bytes :: "int \<Rightarrow> byte list" where
  "int_bytes x = [word_of_int (x div 256), word_of_int x]"

text \<open>Both bytes of a 16-bit field, the high one first; the field of the length is filled in at the end.\<close>

definition frame_bytes :: "config_t \<Rightarrow> byte list" where
  "frame_bytes cfg =
     (let frame = [0, 1, 0, 0] @ [0, 0] @ [word_of_int (unit_id cfg)] @ [word_of_int (func cfg)] @
        (if func cfg = 3 \<or> func cfg = 4 then int_bytes (reg cfg) @ int_bytes (count cfg)
         else if func cfg = 6 then int_bytes (reg cfg) @ int_bytes (new_value cfg)
         else []);
        len = int (length frame) - 6
      in (frame[4 := word_of_int (len div 256)])[5 := word_of_int len])"

definition build_frame :: "config_t \<Rightarrow> mem \<Rightarrow> addr \<Rightarrow> mem \<times> int" where
  "build_frame cfg m frame = (stored m frame (frame_bytes cfg), int (length (frame_bytes cfg)))"

section \<open>Sending a request\<close>

text \<open>
  The system calls as the program sees them: what they do to the system and to the memory of the process, with
  the address and port of a \<open>struct sockaddr_in\<close> as they are stored, and None for a call that never returns. The lines that
  report an error on descriptor 2 are not modelled.
\<close>

record 's calls =
  u_socket :: "int \<Rightarrow> int \<Rightarrow> int \<Rightarrow> 's \<Rightarrow> ('s \<times> int) option"
  u_bind :: "int \<Rightarrow> u16 \<Rightarrow> byte list \<Rightarrow> 's \<Rightarrow> ('s \<times> int) option"
  u_connect :: "int \<Rightarrow> u16 \<Rightarrow> byte list \<Rightarrow> 's \<Rightarrow> ('s \<times> int) option"
  u_write :: "int \<Rightarrow> mem \<Rightarrow> addr \<Rightarrow> u32 \<Rightarrow> 's \<Rightarrow> ('s \<times> int) option"
  u_close :: "int \<Rightarrow> 's \<Rightarrow> ('s \<times> int) option"

text \<open>Ten attempts to connect.\<close>

fun connect_loop :: "'s calls \<Rightarrow> int \<Rightarrow> u16 \<Rightarrow> byte list \<Rightarrow> nat \<Rightarrow> 's \<Rightarrow> ('s \<times> bool) option" where
  "connect_loop c sock q a 0 s = Some (s, False)"
| "connect_loop c sock q a (Suc n) s = do {
     (s, r) \<leftarrow> u_connect c sock q a s;
     (if r < 0 then connect_loop c sock q a n s else Some (s, True))
   }"

partial_function (option) write_loop :: "'s calls \<Rightarrow> int \<Rightarrow> mem \<Rightarrow> addr \<Rightarrow> u32 \<Rightarrow> u32 \<Rightarrow> 's \<Rightarrow> ('s \<times> bool) option" where
  "write_loop c sock m buf len done_bytes s =
     (if done_bytes < len
      then do {
        (s, n) \<leftarrow> u_write c sock m (buf + done_bytes) (len - done_bytes) s;
        (if n \<le> 0 then Some (s, False) else write_loop c sock m buf len (done_bytes + word_of_int n) s)
      }
      else Some (s, True))"

declare write_loop.simps [code]

definition send_modbus :: "'s calls \<Rightarrow> config_t \<Rightarrow> addr \<Rightarrow> addr \<Rightarrow> mem \<Rightarrow> 's \<Rightarrow> ('s \<times> int) option" where
  "send_modbus c cfg frame rawbuf m s = do {
     (s, sock) \<leftarrow> u_socket c 2 1 0 s;
     (if sock < 0 then Some (s, 1)
      else do {
        (s, r) \<leftarrow> u_bind c sock (htons 8080) [0, 0, 0, 0] s;
        (if r < 0 then Some (s, 1)
         else do {
           (ok, addr_bytes) \<leftarrow> inet_aton m (address cfg) [0, 0, 0, 0];
           (if ok \<noteq> 1 then do { (s, _) \<leftarrow> u_close c sock s; Some (s, 1) }
            else do {
              (s, connected) \<leftarrow> connect_loop c sock (htons (word_of_int (cfg_port cfg))) addr_bytes 10 s;
              (if \<not> connected then Some (s, 1)
               else do {
                 (m, buffer, len) \<leftarrow> (if rawdata cfg \<noteq> NULL
                   then do { (m, n) \<leftarrow> parse_hex m (rawdata cfg) rawbuf 260; Some (m, rawbuf, of_nat n) }
                   else (let (m, n) = build_frame cfg m frame in Some (m, frame, word_of_int n)));
                 (if rawdata cfg \<noteq> NULL \<and> len = 0 then Some (s, 1)
                  else do {
                    (s, sent) \<leftarrow> write_loop c sock m buffer len 0 s;
                    (s, _) \<leftarrow> u_close c sock s;
                    Some (s, if sent then 0 else 1)
                  })
               })
            })
         })
      })
   }"

section \<open>Reading the text back\<close>

text \<open>Texts of pairs of digits with any spaces before, between and after them.\<close>

inductive hex_text :: "byte list \<Rightarrow> byte list \<Rightarrow> bool" where
  blank: "hex_text (replicate n 32) []"
| pair: "hex_text s bs \<Longrightarrow> hex_pair g b \<Longrightarrow> hex_text (replicate n 32 @ g @ s) (b # bs)"

inductive_cases hex_textE: "hex_text s (b # bs)"

lemma skip_spaces_replicate: "cstr m p (replicate n 32 @ s) \<Longrightarrow> m (p + of_nat n) \<noteq> 32 \<Longrightarrow> skip_spaces m p = Some (p + of_nat n)"
proof (induction n arbitrary: p)
  case 0
  then show ?case by (subst skip_spaces.simps) simp
next
  case (Suc n)
  have "skip_spaces m (p + 1) = Some (p + 1 + of_nat n)" using Suc.prems by (intro Suc.IH) (simp_all add: add.assoc)
  then show ?case using Suc.prems by (subst skip_spaces.simps) (simp add: add.assoc)
qed

lemma hex_pair_two:
  assumes "hex_pair g b"
  obtains c d where "g = [c, d]" "c \<noteq> 32" "c \<noteq> 0" "d \<noteq> 0"
    "strtoul (local_mem [c, d, 0]) 0 16 = Some (of_nat (unat b), 2)"
proof -
  obtain c d where g: "g = [c, d]" using length_hex_pair [OF assms] by (auto simp: numeral_2_eq_2 length_Suc_conv)
  have ds: "digit_string 16 g [unat b div 16, unat b mod 16]" using assms by (simp add: hex_pair_def)
  have "strtoul_digit 32 = None" "strtoul_digit 0 = None" by code_simp+
  then have cd: "c \<noteq> 32" "c \<noteq> 0" "d \<noteq> 0" using ds by (auto simp: g digit_string_def)
  then have "cstr (local_mem [c, d, 0]) 0 g" by (simp add: g local_mem_def)
  from strtoul_digits [OF this ds] have "strtoul (local_mem [c, d, 0]) 0 16 = Some (of_nat (unat b), 2)"
    by (simp add: g digits_value_def)
  with g cd show thesis by (rule that)
qed

lemma stored_Cons: "length bs < 2 ^ 32 \<Longrightarrow> stored (m(p := b)) (p + 1) bs = stored m p (b # bs)"
  using stored_append [of "[b]" bs m p] stored_extend [of "[]" m p b] by simp

lemma hex_text_length: "hex_text s bs \<Longrightarrow> 2 * length bs \<le> length s"
  by (induction rule: hex_text.induct) (auto simp: length_hex_pair)

lemma hex_loop_reads:
  assumes "hex_text s bs" "cstr m p s" "length s < 2 ^ 31"
    and "\<forall>k<length bs. clear_of p (Suc (length s)) (out + of_nat i + of_nat k)"
  shows "hex_loop m p out i = Some (stored m (out + of_nat i) bs, i + length bs)"
  using assms
proof (induction arbitrary: m p i rule: hex_text.induct)
  case (blank n)
  have "m (p + of_nat n) = 0" using cstr_drop [OF blank.prems(1), of n] by simp
  moreover from this have "skip_spaces m p = Some (p + of_nat n)"
    using blank.prems(1) by (intro skip_spaces_replicate [where s = "[]"]) simp_all
  ultimately show ?case by (subst hex_loop.simps) (simp add: stored_def)
next
  case (pair s bs g b n)
  obtain c d where g: "g = [c, d]" "c \<noteq> 32" "c \<noteq> 0" "d \<noteq> 0"
    "strtoul (local_mem [c, d, 0]) 0 16 = Some (of_nat (unat b), 2)" using pair.hyps(2) by (rule hex_pair_two)
  let ?q = "p + of_nat n" and ?m = "m(out + of_nat i := b)"
  have q: "cstr m ?q (g @ s)" using cstr_drop [OF pair.prems(1), of n] by simp
  then have mq: "m ?q = c" "m (?q + 1) = d" "cstr m (?q + 2) s" by (simp_all add: g(1) add.assoc)
  have nz: "m p \<noteq> 0" using pair.prems(1) g(3) by (cases n) (simp_all add: g(1))
  have sk: "skip_spaces m p = Some ?q" using pair.prems(1) mq(1) g(2) by (intro skip_spaces_replicate) simp_all
  have cl: "clear_of (?q + 2) (Suc (length s)) a" if "clear_of p (Suc (length (replicate n 32 @ g @ s))) a" for a
    using clear_of_mono [OF that, of "n + 2" "Suc (length s)"] by (simp add: g(1) ac_simps)
  have "cstr ?m (?q + 2) s" using cl pair.prems(3) mq(3) by (intro cstr_upd) (auto dest: spec [of _ 0])
  moreover have "\<forall>k<length bs. clear_of (?q + 2) (Suc (length s)) (out + of_nat (i + 1) + of_nat k)"
  proof (intro allI impI)
    fix k assume "k < length bs"
    then show "clear_of (?q + 2) (Suc (length s)) (out + of_nat (i + 1) + of_nat k)"
      using pair.prems(3) [rule_format, of "Suc k"] by (intro cl) (simp add: ac_simps)
  qed
  ultimately have "hex_loop ?m (?q + 2) out (i + 1) = Some (stored ?m (out + of_nat (i + 1)) bs, i + 1 + length bs)"
    using pair.prems(2) by (intro pair.IH) (simp_all del: fun_upd_apply)
  moreover have "stored ?m (out + of_nat (i + 1)) bs = stored m (out + of_nat i) (b # bs)"
    using stored_Cons [of bs m "out + of_nat i" b] hex_text_length [OF pair.hyps(1)] pair.prems(2) by (simp add: ac_simps)
  moreover have "(ucast (of_nat (unat b) :: u32) :: byte) = b" by (rule byte_u32)
  ultimately show ?case using nz sk mq g by (subst hex_loop.simps) simp
qed

section \<open>Options and host files\<close>

text \<open>The configuration and the chosen file while the options are read; the left result is the code of an early exit.\<close>

definition default_config :: "addr \<Rightarrow> config_t" where
  "default_config localhost_str = \<lparr>address = localhost_str, cfg_port = 502, unit_id = 1, func = 0, reg = 0, count = 0,
     new_value = 0, rawdata = NULL, timeout = 1000, debug = False\<rparr>"

definition int_option :: "mem \<Rightarrow> addr \<Rightarrow> int option" where
  "int_option m optargs = do { (v, _) \<leftarrow> strtoul m optargs 10; Some (sint v) }"

definition apply_option :: "mem \<Rightarrow> addr \<Rightarrow> int \<Rightarrow> config_t \<Rightarrow> addr option \<Rightarrow> (int + config_t \<times> addr option) option" where
  "apply_option m optargs c cfg file =
     (if c = 97 then Some (Inr (cfg\<lparr>address := optargs\<rparr>, file))
      else if c = 112 then do { v \<leftarrow> int_option m optargs; Some (Inr (cfg\<lparr>cfg_port := v\<rparr>, file)) }
      else if c = 117 then do { v \<leftarrow> int_option m optargs; Some (Inr (cfg\<lparr>unit_id := v\<rparr>, file)) }
      else if c = 102 then do { v \<leftarrow> int_option m optargs; Some (Inr (cfg\<lparr>func := v\<rparr>, file)) }
      else if c = 114 then do { v \<leftarrow> int_option m optargs; Some (Inr (cfg\<lparr>reg := v\<rparr>, file)) }
      else if c = 99 then do { v \<leftarrow> int_option m optargs; Some (Inr (cfg\<lparr>count := v\<rparr>, file)) }
      else if c = 118 then do { v \<leftarrow> int_option m optargs; Some (Inr (cfg\<lparr>new_value := v\<rparr>, file)) }
      else if c = 119 then Some (Inr (cfg\<lparr>rawdata := optargs\<rparr>, file))
      else if c = 116 then do { v \<leftarrow> int_option m optargs; Some (Inr (cfg\<lparr>timeout := v\<rparr>, file)) }
      else if c = 100 then Some (Inr (cfg\<lparr>debug := True\<rparr>, file))
      else if c = 70 then Some (Inr (cfg, Some optargs))
      else if c = 104 then Some (Inl 0)
      else Some (Inl 1))"

partial_function (option) modbus_options ::
    "mem \<Rightarrow> nat \<Rightarrow> addr list \<Rightarrow> addr \<Rightarrow> nat \<Rightarrow> addr \<Rightarrow> config_t \<Rightarrow> addr option \<Rightarrow> (int + config_t \<times> addr option) option" where
  "modbus_options m argc argv optstring i optargs cfg file = do {
     (c, i, optargs) \<leftarrow> getopt m i optargs argc argv optstring;
     (if c = - 1 then Some (Inr (cfg, file))
      else do {
        r \<leftarrow> apply_option m optargs c cfg file;
        (case r of Inl code \<Rightarrow> Some (Inl code)
         | Inr (cfg, file) \<Rightarrow> modbus_options m argc argv optstring i optargs cfg file)
      })
   }"

declare modbus_options.simps [code]

text \<open>A line of the file is \<open>address:port\<close>; the buffer for it has 64 bytes.\<close>

definition send_host ::
    "'s calls \<Rightarrow> config_t \<Rightarrow> addr \<Rightarrow> addr \<Rightarrow> addr \<Rightarrow> mem \<Rightarrow> 's \<Rightarrow> byte list \<Rightarrow> (mem \<times> 's) option" where
  "send_host c cfg line_buffer frame rawbuf m s line = do {
     let m = stored m line_buffer (line @ [0]);
     p \<leftarrow> strchr m line_buffer 58;
     (if p = NULL then Some (m, s)
      else do {
        let m = m(p := 0);
        (v, _) \<leftarrow> strtoul m (p + 1) 10;
        (s, _) \<leftarrow> send_modbus c (cfg\<lparr>address := line_buffer, cfg_port := sint v\<rparr>) frame rawbuf m s;
        Some (m, s)
      })
   }"

partial_function (option) hosts_loop ::
    "'s calls \<Rightarrow> ('s \<Rightarrow> ('s \<times> byte option) option) \<Rightarrow> config_t \<Rightarrow> addr \<Rightarrow> addr \<Rightarrow> addr \<Rightarrow> mem \<Rightarrow> 's \<Rightarrow> byte list \<Rightarrow> (mem \<times> 's) option" where
  "hosts_loop c next_byte cfg line_buffer frame rawbuf m s line = do {
     (s, b) \<leftarrow> next_byte s;
     (case b of
        None \<Rightarrow> (if line \<noteq> [] then send_host c cfg line_buffer frame rawbuf m s line else Some (m, s))
      | Some b \<Rightarrow>
          if b = 10 \<or> b = 13 \<or> 63 \<le> length line
          then (if line \<noteq> []
                then do {
                  (m, s) \<leftarrow> send_host c cfg line_buffer frame rawbuf m s line;
                  hosts_loop c next_byte cfg line_buffer frame rawbuf m s []
                }
                else hosts_loop c next_byte cfg line_buffer frame rawbuf m s [])
          else hosts_loop c next_byte cfg line_buffer frame rawbuf m s (line @ [b]))
   }"

declare hosts_loop.simps [code]

text \<open>C37: \<open>parse_hex\<close> reads back hexadecimal text: for bytes written as pairs of digits of either case, with any number of
  spaces between them, it stores these bytes and returns their number. The size of the array that the caller passes plays
  no part.\<close>

theorem parse_hex_reads:
  assumes "cstr m str s" "hex_text s bs" "length s < 2 ^ 31"
    and "\<forall>k<length bs. clear_of str (Suc (length s)) (out + of_nat k)"
  shows "parse_hex m str out n = Some (stored m out bs, length bs)"
  using hex_loop_reads [OF assms(2,1,3), of out 0] assms(4) by (simp add: parse_hex_def)

theorem parse_hex_reads_witness:
  "parse_hex (memory_of [(0x100, cs '' 00 01 0A fF '')]) 0x100 0x200 2 =
    Some (stored (memory_of [(0x100, cs '' 00 01 0A fF '')]) 0x200 [0, 1, 10, 255], 4)"
proof -
  let ?m = "memory_of [(0x100, cs '' 00 01 0A fF '')]"
  have p: "hex_pair (cs ''00'') 0" "hex_pair (cs ''01'') 1" "hex_pair (cs ''0A'') 10" "hex_pair (cs ''fF'') 255"
    by (simp_all add: hex_pair_def digit_string_def strtoul_digit_def)
  let ?t = "replicate 1 32 @ cs ''00'' @ replicate 1 32 @ cs ''01'' @ replicate 1 32 @ cs ''0A'' @
      replicate 1 32 @ cs ''fF'' @ replicate 1 32"
  have t: "hex_text ?t [0, 1, 10, 255]" by (intro hex_text.intros p)
  have c: "cstr ?m 0x100 ?t" by (simp add: memory_simps)
  have l: "Suc (length ?t) = 14" "length ?t < 2 ^ 31" "length ([0, 1, 10, 255] :: byte list) = 4" by simp_all
  have "clear_of 0x100 14 (0x200 + of_nat k)" if "k < 4" for k
  proof (rule clear_of_unat)
    have "unat (0x200 + of_nat k :: u32) = unat (0x200 :: u32) + k" using that by (intro unat_add_of_nat) simp
    then show "unat (0x200 + of_nat k :: u32) < unat (0x100 :: u32) \<or> unat (0x100 :: u32) + 14 \<le> unat (0x200 + of_nat k :: u32)" by simp
  qed simp
  then show ?thesis using parse_hex_reads [OF c t l(2), of "0x200" 2] unfolding l by blast
qed

section \<open>A write call that takes what it can\<close>

text \<open>
  What \<open>send_modbus\<close> needs of the write call: it takes some of the bytes, which are then the next that leave, or reports an
  error. The loop that writes the rest again ends, and then everything has left in order.
\<close>

locale byte_sink =
  fixes put :: "mem \<Rightarrow> addr \<Rightarrow> u32 \<Rightarrow> 's \<Rightarrow> ('s \<times> int) option"
    and out :: "'s \<Rightarrow> byte list"
    and ready :: "'s \<Rightarrow> bool"
    and limit :: nat
  assumes accepts: "ready s \<Longrightarrow> 0 < n \<Longrightarrow> unat n \<le> limit \<Longrightarrow>
    \<exists>s' k. put m p n s = Some (s', k) \<and> ready s' \<and>
      (if k \<le> 0 then out s' = out s else k \<le> int (unat n) \<and> out s' = out s @ mem_bytes m p (nat k))"

context byte_sink
begin

definition refused :: "mem \<Rightarrow> bool" where
  "refused m \<longleftrightarrow> (\<exists>s p n s' k. ready s \<and> 0 < n \<and> unat n \<le> limit \<and> put m p n s = Some (s', k) \<and> k \<le> 0)"

lemma mem_bytes_split: "mem_bytes m p (a + b) = mem_bytes m p a @ mem_bytes m (p + of_nat a) b"
  by (rule nth_equalityI) (auto simp: mem_bytes_def nth_append add.assoc)

lemma write_loop_sends:
  assumes "ready s" "unat len \<le> limit" "t \<le> len" and c: "\<And>m p n s. u_write c sock m p n s = put m p n s"
  shows "\<exists>s' ok j. write_loop c sock m buf len t s = Some (s', ok) \<and> ready s' \<and>
    j \<le> unat (len - t) \<and> out s' = out s @ mem_bytes m (buf + t) j \<and> (if ok then j = unat (len - t) else refused m)"
  using assms(1,3)
proof (induction "unat (len - t)" arbitrary: t s rule: less_induct)
  case less
  show ?case
  proof (cases "t < len")
    case False
    then have "t = len" using less.prems(2) by simp
    then show ?thesis using less.prems(1) by (subst write_loop.simps) (simp add: mem_bytes_def ex_bool_eq)
  next
    case True
    have n: "unat (len - t) = unat len - unat t" "0 < len - t"
      using True by (simp_all add: unat_sub word_less_nat_alt less_imp_le)
    obtain s1 k where s1: "put m (buf + t) (len - t) s = Some (s1, k)" "ready s1"
        "if k \<le> 0 then out s1 = out s else k \<le> int (unat (len - t)) \<and> out s1 = out s @ mem_bytes m (buf + t) (nat k)"
      using accepts [of s "len - t" m "buf + t"] less.prems(1) n assms(2) by fastforce
    show ?thesis
    proof (cases "k \<le> 0")
      case True
      have "unat (len - t) \<le> limit" using n(1) assms(2) by linarith
      then have "refused m" unfolding refused_def using True s1(1) n(2) less.prems(1) by blast
      then show ?thesis using True s1 \<open>t < len\<close>
        by (subst write_loop.simps) (auto simp: c mem_bytes_def intro!: exI [of _ "0 :: nat"])
    next
      case False
      define j where "j = nat k"
      have j: "0 < j" "j \<le> unat len - unat t" "k = int j" using False s1(3) n(1) by (auto simp: j_def)
      have tj: "unat (t + of_nat j) = unat t + j" using j(2) unat_lt_exp [of len] True by (intro unat_add_of_nat) (simp add: word_less_nat_alt)
      have le: "t + of_nat j \<le> len" using j(2) True tj by (simp add: word_le_nat_alt word_less_nat_alt)
      then have rest: "unat (len - (t + of_nat j)) = unat (len - t) - j" using tj n(1) by (simp add: unat_sub word_le_nat_alt)
      then have "unat (len - (t + of_nat j)) < unat (len - t)" using j n by simp
      from less.hyps [OF this s1(2) le] obtain s' ok i where IH: "write_loop c sock m buf len (t + of_nat j) s1 = Some (s', ok)" "ready s'"
          "i \<le> unat (len - (t + of_nat j))" "out s' = out s1 @ mem_bytes m (buf + (t + of_nat j)) i"
          "if ok then i = unat (len - (t + of_nat j)) else refused m" by blast
      have "write_loop c sock m buf len t s = Some (s', ok)"
        using s1(1) IH(1) True j(3) False by (subst write_loop.simps) (simp add: c)
      moreover have "out s' = out s @ mem_bytes m (buf + t) (j + i)"
        using IH(4) s1(3) False by (simp add: mem_bytes_split j_def add.assoc)
      moreover have "j + i \<le> unat (len - t)" "if ok then j + i = unat (len - t) else refused m"
        using IH(3,5) rest j(2) n(1) by (auto split: if_splits)
      ultimately show ?thesis using IH(2) by blast
    qed
  qed
qed

end

locale reliable_sink = byte_sink +
  assumes progress: "ready s \<Longrightarrow> 0 < n \<Longrightarrow> unat n \<le> limit \<Longrightarrow> put m p n s = Some (s', k) \<Longrightarrow> 0 < k"

context reliable_sink
begin

lemma write_loop_all:
  assumes "ready s" "unat len \<le> limit" "\<And>m p n s. u_write c sock m p n s = put m p n s"
  shows "\<exists>s'. write_loop c sock m buf len 0 s = Some (s', True) \<and> ready s' \<and> out s' = out s @ mem_bytes m buf (unat len)"
proof -
  have "\<not> refused m" using progress by (fastforce simp: refused_def)
  moreover obtain s' ok j where "write_loop c sock m buf len 0 s = Some (s', ok)" "ready s'"
      "out s' = out s @ mem_bytes m (buf + 0) j" "if ok then j = unat (len - 0) else refused m"
    using write_loop_sends [OF assms(1,2) _ assms(3), of 0 m buf] by auto
  ultimately show ?thesis by (cases ok) auto
qed

end

section \<open>The write call of a socket\<close>

definition socket_put :: "'d net_env \<Rightarrow> addr \<Rightarrow> mem \<Rightarrow> addr \<Rightarrow> u32 \<Rightarrow> 'd net \<Rightarrow> ('d net \<times> int) option" where
  "socket_put env sock m p n s = tx_frame env sock p n (set_net_mem s m)"

text \<open>The bytes that left through the socket with number \<open>i\<close>.\<close>

definition bytes_sent :: "('d \<Rightarrow> (u32 \<times> byte list) list) \<Rightarrow> u32 \<Rightarrow> 'd net \<Rightarrow> byte list" where
  "bytes_sent sent i s = concat (map snd (filter (\<lambda>(j, b). j = i) (sent (chip s))))"

lemma tx_ready_mem: "tx_ready env m sent x sock (set_net_mem s um) = tx_ready env m sent x sock s"
  by (simp add: tx_ready_def set_net_mem_def)

lemma socket_put_all:
  assumes "tx_ready env m sent x sock s" "0 < n" "unat n \<le> 2048"
  shows "\<exists>s'. socket_put env sock um p n s = Some (s', int (unat n)) \<and> tx_ready env m sent x sock s' \<and>
    bytes_sent sent (index x) s' = bytes_sent sent (index x) s @ mem_bytes um p (unat n)"
proof -
  let ?s = "set_net_mem s um"
  have mem: "net_mem ?s = um" "chip ?s = chip s" by (simp_all add: net_mem_def set_net_mem_def memory_k_def set_memory_def)
  have r: "tx_ready env m sent x sock ?s" using assms(1) by (simp add: tx_ready_mem)
  have n0: "n \<noteq> 0" using assms(2) by auto
  have "int (unat n) \<le> 2048" using assms(3) by linarith
  then have "uint n < 2 ^ 31" unfolding uint_nat by (rule le_less_trans) simp
  then have "sint n = int (unat n)" unfolding sint_u32_if uint_nat by simp
  with tx_one_segment [OF r n0 assms(3), of p] mem show ?thesis
    by (auto simp: socket_put_def tx_frame_def bytes_sent_def)
qed

interpretation socket_sink: reliable_sink "socket_put env sock" "bytes_sent sent (index x)" "tx_ready env m sent x sock" 2048
  for env :: "'d net_env" and sock sent x m
proof unfold_locales
  show "\<exists>s' k. socket_put env sock um p n s = Some (s', k) \<and> tx_ready env m sent x sock s' \<and>
      (if k \<le> 0 then bytes_sent sent (index x) s' = bytes_sent sent (index x) s
       else k \<le> int (unat n) \<and> bytes_sent sent (index x) s' = bytes_sent sent (index x) s @ mem_bytes um p (nat k))"
    if "tx_ready env m sent x sock s" "0 < n" "unat n \<le> 2048" for s n um p
  proof -
    note t = that
    define j where "j = unat n"
    have "0 < j" using t(2) by (simp add: word_less_nat_alt j_def)
    moreover obtain s' where "socket_put env sock um p n s = Some (s', int j)" "tx_ready env m sent x sock s'"
        "bytes_sent sent (index x) s' = bytes_sent sent (index x) s @ mem_bytes um p j"
      using socket_put_all [OF t, of um p] unfolding j_def by blast
    ultimately show ?thesis unfolding j_def [symmetric] by (intro exI [of _ s'] exI [of _ "int j"]) simp
  qed
  show "0 < k" if "tx_ready env m sent x sock s" "0 < n" "unat n \<le> 2048" "socket_put env sock um p n s = Some (s', k)" for s n um p s' k
  proof -
    have "k = int (unat n)" using socket_put_all [OF that(1-3), of um p] that(4) by auto
    moreover have "0 < unat n" using that(2) by (simp add: word_less_nat_alt)
    ultimately show ?thesis by linarith
  qed
qed

section \<open>Requests on the wire\<close>

text \<open>The format of the protocol: fields of 16 bits, and the header in front of a request.\<close>

definition be16 :: "nat \<Rightarrow> byte list" where
  "be16 n = [of_nat (n div 256), of_nat (n mod 256)]"

definition mbap :: "nat \<Rightarrow> byte \<Rightarrow> byte list \<Rightarrow> byte list" where
  "mbap transaction u p = be16 transaction @ be16 0 @ be16 (1 + length p) @ [u] @ p"

definition pdu :: "config_t \<Rightarrow> byte list" where
  "pdu cfg = word_of_int (func cfg) #
     (if func cfg \<in> {3, 4} then be16 (nat (reg cfg)) @ be16 (nat (count cfg))
      else if func cfg = 6 then be16 (nat (reg cfg)) @ be16 (nat (new_value cfg)) else [])"

lemma int_bytes_be16:
  assumes "0 \<le> v" "v < 65536"
  shows "int_bytes v = be16 (nat v)"
proof -
  have "(word_of_int v :: byte) = word_of_int (v mod 256)" by (simp add: word_of_int_eq_iff take_bit_eq_mod)
  moreover have "v div 256 = int (nat v div 256)" "v mod 256 = int (nat v mod 256)" using assms by (simp_all add: zdiv_int zmod_int)
  ultimately show ?thesis by (simp add: int_bytes_def be16_def)
qed

lemma frame_bytes_mbap:
  assumes "0 \<le> reg cfg" "reg cfg < 65536" "0 \<le> count cfg" "count cfg < 65536" "0 \<le> new_value cfg" "new_value cfg < 65536"
  shows "frame_bytes cfg = mbap 1 (word_of_int (unit_id cfg)) (pdu cfg)"
  using assms by (auto simp: frame_bytes_def mbap_def pdu_def int_bytes_be16) (simp_all add: be16_def)


text \<open>Reading ten registers from register 7 of unit 1, over a socket of the example chip.\<close>

definition modbus_example :: config_t where
  "modbus_example = \<lparr>address = 0, cfg_port = 502, unit_id = 1, func = 3, reg = 7, count = 10, new_value = 0, rawdata = 0,
     timeout = 1000, debug = False\<rparr>"

definition modbus_calls :: "w_sim net calls" where
  "modbus_calls = \<lparr>u_socket = (\<lambda>_ _ _ s. Some (s, 3)), u_bind = (\<lambda>_ _ _ s. Some (s, 0)), u_connect = (\<lambda>_ _ _ s. Some (s, 0)),
     u_write = (\<lambda>_. socket_put net_env_example 0x5000), u_close = (\<lambda>_ s. Some (s, 0))\<rparr>"


end
