(* ===== verification/Shell.thy ===== *)
theory Shell
  imports Archive Modbus
begin

text \<open>
  The shell, \<open>builtins/src/shell.c\<close>: it reads a line, cuts it into words with \<open>strtok\<close>, and runs a command of its own or a
  program. The system calls are a parameter that extends the calls of \<open>Archive\<close>. Help and other messages are left out. What a line
  does is compared with \<open>run_words\<close>, which is a function of the words of the line and does not mention memory.
\<close>

section \<open>System calls and texts\<close>

record 's shell_calls = "'s file_calls" +
  g_spawn :: "int \<Rightarrow> byte list list \<Rightarrow> 's \<Rightarrow> ('s \<times> int) option"
  g_wait :: "'s \<Rightarrow> ('s \<times> int \<times> int) option"
  g_kill :: "int \<Rightarrow> int \<Rightarrow> 's \<Rightarrow> ('s \<times> int) option"
  g_chdir :: "byte list \<Rightarrow> 's \<Rightarrow> ('s \<times> int) option"
  g_getcwd :: "u32 \<Rightarrow> 's \<Rightarrow> ('s \<times> byte list) option"

definition O_WRONLY :: u32 where "O_WRONLY = 1"
definition O_BINARY :: u32 where "O_BINARY = 0x10000"

text \<open>Where the delimiters of the calls of \<open>strtok\<close> and \<open>strcspn\<close> are: a space, a newline, \<open>>\<close> and the empty string.\<close>

record shell_texts =
  t_space :: addr
  t_newline :: addr
  t_greater :: addr
  t_empty :: addr

text \<open>The bytes of the string at an address, for a call that takes one, and \<open>strcmp\<close> with a literal.\<close>

definition string_at :: "mem \<Rightarrow> addr \<Rightarrow> byte list option" where
  "string_at m p = do { n \<leftarrow> strlen m p; Some (map (\<lambda>i. m (p + of_nat i)) [0..<unat n]) }"

fun is_text :: "mem \<Rightarrow> addr \<Rightarrow> byte list \<Rightarrow> bool" where
  "is_text m p [] \<longleftrightarrow> m p = 0"
| "is_text m p (c # s) \<longleftrightarrow> m p = c \<and> is_text m (p + 1) s"

fun strings_at :: "mem \<Rightarrow> addr list \<Rightarrow> byte list list option" where
  "strings_at m [] = Some []"
| "strings_at m (p # ps) = do { t \<leftarrow> string_at m p; ts \<leftarrow> strings_at m ps; Some (t # ts) }"

section \<open>Running a program\<close>

text \<open>The array of the arguments has 20 members, the last one is a null pointer; 18 are left for the loop.\<close>

fun program_args :: "addr \<Rightarrow> mem \<Rightarrow> addr \<Rightarrow> nat \<Rightarrow> (mem \<times> addr \<times> addr list) option" where
  "program_args space m scan n = do {
     (m, scan, arg) \<leftarrow> strtok m scan NULL space;
     (if arg = NULL then Some (m, scan, [])
      else case n of
        0 \<Rightarrow> Some (m, scan, [])
      | Suc n \<Rightarrow> do { (m, scan, args) \<leftarrow> program_args space m scan n; Some (m, scan, arg # args) })
   }"

declare program_args.simps [simp del]

text \<open>The buffer for a path has 64 bytes and is filled with zeros: what does not fit has no defined result.\<close>

definition executable_locations :: "byte list list" where
  "executable_locations = [cs ''./'', cs ''bin/'', cs ''/mnt/disk0/'']"

fun open_command :: "('s, 'z) shell_calls_scheme \<Rightarrow> byte list \<Rightarrow> byte list list \<Rightarrow> int \<Rightarrow> 's \<Rightarrow> ('s \<times> int) option" where
  "open_command c cmd [] fd s = Some (s, fd)"
| "open_command c cmd (loc # locs) fd s =
     (if 64 \<le> length loc + length cmd then None
      else do {
        (s, fd) \<leftarrow> f_open c (loc @ cmd) O_BINARY s;
        (if 0 < fd then Some (s, fd) else open_command c cmd locs fd s)
      })"

definition run_program :: "('s, 'z) shell_calls_scheme \<Rightarrow> shell_texts \<Rightarrow> mem \<Rightarrow> addr \<Rightarrow> addr \<Rightarrow> 's \<Rightarrow> (mem \<times> addr \<times> 's) option" where
  "run_program c t m scan cmd s = do {
     (m, scan, args) \<leftarrow> program_args (t_space t) m scan 18;
     name \<leftarrow> string_at m cmd;
     (s, fd) \<leftarrow> open_command c name executable_locations (- 1) s;
     (if fd < 0 then Some (m, scan, s)
      else do {
        argv \<leftarrow> strings_at m (cmd # args);
        (s, _) \<leftarrow> g_spawn c fd argv s;
        (s, _) \<leftarrow> g_wait c s;
        (s, _) \<leftarrow> f_close c fd s;
        Some (m, scan, s)
      })
   }"

section \<open>Commands of the shell\<close>

text \<open>The part that \<open>echo\<close> and \<open>rawecho\<close> share: flags, text and path from the rest of the line. The text is absent when there is none.\<close>

definition redirection :: "shell_texts \<Rightarrow> mem \<Rightarrow> addr \<Rightarrow> (mem \<times> addr \<times> u32 \<times> addr \<times> addr) option" where
  "redirection t m scan = do {
     (m, scan, argument_line) \<leftarrow> strtok m scan NULL (t_empty t);
     (if argument_line = NULL then None
      else do {
        redirection_index \<leftarrow> strcspn m argument_line (t_greater t);
        n \<leftarrow> strlen m argument_line;
        let flags = (if redirection_index < n \<and> m (argument_line + redirection_index + 1) = 62 then O_APPEND
          else O_WRONLY OR O_TRUNC);
        (m, scan, text) \<leftarrow> strtok m scan argument_line (t_greater t);
        (if text = NULL then Some (m, scan, flags, NULL, NULL)
         else do {
           (m, scan, path) \<leftarrow> strtok m scan NULL (t_empty t);
           Some (m, scan, flags, text, path)
         })
      })
   }"

definition echo :: "('s, 'z) shell_calls_scheme \<Rightarrow> shell_texts \<Rightarrow> mem \<Rightarrow> addr \<Rightarrow> 's \<Rightarrow> (mem \<times> addr \<times> 's) option" where
  "echo c t m scan s = do {
     (m, scan, flags, text, path) \<leftarrow> redirection t m scan;
     (if text = NULL then Some (m, scan, s)
      else do {
        (s, fd) \<leftarrow> (if path \<noteq> NULL then do { name \<leftarrow> string_at m path; f_open c name flags s } else Some (s, 1));
        (if fd < 0 then Some (m, scan, s)
         else do {
           bytes \<leftarrow> string_at m text;
           (s, _) \<leftarrow> f_write c fd bytes s;
           (s, _) \<leftarrow> f_write c fd [10] s;
           (s, _) \<leftarrow> f_close c fd s;
           Some (m, scan, s)
         })
      })
   }"

definition rawecho :: "('s, 'z) shell_calls_scheme \<Rightarrow> shell_texts \<Rightarrow> addr \<Rightarrow> mem \<Rightarrow> addr \<Rightarrow> 's \<Rightarrow> (mem \<times> addr \<times> 's) option" where
  "rawecho c t bytes m scan s = do {
     (m, scan, flags, text, path) \<leftarrow> redirection t m scan;
     (if text = NULL \<or> path = NULL then Some (m, scan, s)
      else do {
        name \<leftarrow> string_at m path;
        (s, fd) \<leftarrow> f_open c name flags s;
        (if fd < 0 then Some (m, scan, s)
         else do {
           (m, n) \<leftarrow> rawecho_bytes m text bytes;
           (s, _) \<leftarrow> f_write c fd (map (\<lambda>i. m (bytes + of_nat i)) [0..<n]) s;
           (s, _) \<leftarrow> f_close c fd s;
           Some (m, scan, s)
         })
      })
   }"

text \<open>Which signal goes to which process: a missing parameter is dereferenced.\<close>

definition perform_kill :: "('s, 'z) shell_calls_scheme \<Rightarrow> shell_texts \<Rightarrow> mem \<Rightarrow> addr \<Rightarrow> 's \<Rightarrow> (mem \<times> addr \<times> 's) option" where
  "perform_kill c t m scan s = do {
     (m, scan, param) \<leftarrow> strtok m scan NULL (t_space t);
     (if param = NULL then None
      else if is_text m param (cs ''--h'') then Some (m, scan, s)
      else do {
        (m, scan, sig, process) \<leftarrow>
          (if is_text m param (cs ''-s'')
           then do {
             (m, scan, sig) \<leftarrow> strtok m scan NULL (t_space t);
             (m, scan, process) \<leftarrow> strtok m scan NULL (t_space t);
             Some (m, scan, sig, process)
           }
           else Some (m, scan, NULL, param));
        (if process = NULL then None
         else do {
           (v, _) \<leftarrow> strtoul m process 10;
           let pid = sint v;
           (if pid < 1 then Some (m, scan, s)
            else if sig = NULL \<or> is_text m sig (cs ''TERM'') then do { (s, _) \<leftarrow> g_kill c pid 15 s; Some (m, scan, s) }
            else if is_text m sig (cs ''KILL'') then do { (s, _) \<leftarrow> g_kill c pid 9 s; Some (m, scan, s) }
            else Some (m, scan, s))
         })
      })
   }"

section \<open>A line\<close>

text \<open>
  Help and the coloured text only print. \<open>raw_bytes\<close> is where the array of \<open>rawecho\<close> is. A line without a word is a null
  pointer that is compared.
\<close>

definition shell_line :: "('s, 'z) shell_calls_scheme \<Rightarrow> shell_texts \<Rightarrow> addr \<Rightarrow> addr \<Rightarrow> mem \<Rightarrow> addr \<Rightarrow> 's \<Rightarrow> (mem \<times> addr \<times> 's) option" where
  "shell_line c t raw_bytes line m scan s = do {
     (m, scan, cmd) \<leftarrow> strtok m scan line (t_space t);
     (if cmd = NULL then None
      else if is_text m cmd (cs ''help'') \<or> is_text m cmd (cs ''h'') then Some (m, scan, s)
      else if is_text m cmd (cs ''kill'') \<or> is_text m cmd (cs ''k'') then perform_kill c t m scan s
      else if is_text m cmd (cs ''morcik'') \<or> is_text m cmd (cs ''m'') then Some (m, scan, s)
      else if is_text m cmd (cs ''echo'') \<or> is_text m cmd (cs ''e'') then echo c t m scan s
      else if is_text m cmd (cs ''rawecho'') then rawecho c t raw_bytes m scan s
      else if is_text m cmd (cs ''cd'') then do {
        (m, scan, path) \<leftarrow> strtok m scan NULL (t_space t);
        (if path = NULL then None
         else do { name \<leftarrow> string_at m path; (s, _) \<leftarrow> g_chdir c name s; Some (m, scan, s) })
      }
      else if is_text m cmd (cs ''pwd'') then do {
        (s, cwd) \<leftarrow> g_getcwd c 64 s;
        (s, _) \<leftarrow> f_write c 1 cwd s;
        (s, _) \<leftarrow> f_write c 1 [10] s;
        Some (m, scan, s)
      }
      else run_program c t m scan cmd s)
   }"

text \<open>One round: a line is read from the terminal, and its newline becomes the end of the string.\<close>

definition shell_round :: "('s, 'z) shell_calls_scheme \<Rightarrow> shell_texts \<Rightarrow> addr \<Rightarrow> addr \<Rightarrow> mem \<Rightarrow> addr \<Rightarrow> 's \<Rightarrow> (mem \<times> addr \<times> 's) option" where
  "shell_round c t raw_bytes line m scan s = do {
     (s, bytes, r) \<leftarrow> f_read c 0 256 s;
     let m = stored m line bytes;
     (if r < 1 then Some (m, scan, s)
      else do {
        n \<leftarrow> strcspn m line (t_newline t);
        shell_line c t raw_bytes line (m(line + n := 0)) scan s
      })
   }"

section \<open>Words\<close>

function words :: "byte list \<Rightarrow> byte list list" where
  "words [] = []"
| "words (c # s) = (if c = 32 then words s else takeWhile (\<lambda>b. b \<noteq> 32) (c # s) # words (dropWhile (\<lambda>b. b \<noteq> 32) s))"
  by pat_completeness auto
termination
  by (relation "measure length") (auto simp: less_Suc_eq_le length_dropWhile_le)

text \<open>The comparison with a literal is the comparison of \<open>strcmp\<close>.\<close>

lemma is_text_cstr: "cstr m p s \<Longrightarrow> 0 \<notin> set lit \<Longrightarrow> is_text m p lit \<longleftrightarrow> s = lit"
  by (induction lit arbitrary: p s) (case_tac s; auto)+

lemma is_text_strcmp: "cstr m p s \<Longrightarrow> cstr m q lit \<Longrightarrow> is_text m p lit \<longleftrightarrow> strcmp m p q = Some 0"
  by (simp add: is_text_cstr [OF _ cstr_nonzero] strcmp_cstr cmp_bytes_zero_iff cstr_nonzero)

lemma string_at_cstr:
  assumes "cstr m p s" and "length s < 2 ^ 32"
  shows "string_at m p = Some s"
proof -
  have "map (\<lambda>i. m (p + of_nat i)) [0..<length s] = s" using cstr_nth [OF assms(1)] by (intro nth_equalityI) auto
  then show ?thesis using assms(2) by (simp add: string_at_def strlen_cstr [OF assms(1)] unat_of_nat_less)
qed

lemma strings_at_cstrs: "list_all2 (cstr m) ps ts \<Longrightarrow> \<forall>t\<in>set ts. length t < 2 ^ 32 \<Longrightarrow> strings_at m ps = Some ts"
  by (induction rule: list_all2_induct) (auto simp: string_at_cstr)

section \<open>Words and tokens\<close>

lemma words_spaces: "words (dropWhile (\<lambda>b. b = 32) s) = words s"
  by (induction s) auto

lemma words_token:
  assumes "s \<noteq> []" and "hd s \<noteq> 32"
  shows "words s = token_of [32] s # words (token_rest [32] s)"
  using assms by (cases s) (simp_all add: token_of_def token_rest_def words_spaces)

lemma token_rest_hd: "token_rest [32] s \<noteq> [] \<Longrightarrow> hd (token_rest [32] s) \<noteq> 32"
  using hd_dropWhile [of "\<lambda>c. c \<in> set [32]" "dropWhile (\<lambda>c. c \<notin> set [32]) s"] by (simp add: token_rest_def)

lemma words_short: "w \<in> set (words s) \<Longrightarrow> length w \<le> length s"
proof (induction s rule: words.induct)
  case (2 c s)
  then show ?case
    using length_takeWhile_le [of "\<lambda>b. b \<noteq> 32" "c # s"] length_dropWhile_le [of "\<lambda>b. b \<noteq> 32" s]
    by (auto split: if_splits intro: le_SucI order_trans)
qed simp

section \<open>Cutting words off\<close>

text \<open>A word of a line without a space at its start: the token stays where it is, and only the line changes.\<close>

lemma strtok_word:
  assumes s: "cstr m p s" "s \<noteq> []" and p: "p \<noteq> NULL" "length s + 1 < 2 ^ 32" and d: "cstr m d [32]"
    and start: "str = p \<or> (str = NULL \<and> static = p)"
  obtains m' p' where "strtok m static str d = Some (m', p', p)" and "cstr m' p (token_of [32] s)"
    and "cstr m' p' (token_rest [32] s)" and "\<And>a. length s \<le> unat (a - p) \<Longrightarrow> m' a = m a"
    and "p' = p + of_nat (length s - length (token_rest [32] s))"
proof (rule strtok_cstr [OF s p(1) d p(2) _ start])
  show "length [32 :: byte] < 2 ^ 32" by simp
  fix m' p'
  assume r: "strtok m static str d = Some (m', p', p)" "cstr m' p (token_of [32] s)" "cstr m' p' (token_rest [32] s)"
    "\<And>i. length s \<le> i \<Longrightarrow> i < 2 ^ 32 \<Longrightarrow> m' (p + of_nat i) = m (p + of_nat i)"
    "p' = p + of_nat (length s - length (token_rest [32] s))"
  have "m' a = m a" if "length s \<le> unat (a - p)" for a
    using r(4) [OF that] unat_lt_exp [of "a - p"] by simp
  with r show thesis using that by blast
qed

lemma token_before_rest:
  assumes "token_rest ds s \<noteq> []"
  shows "length (token_of ds s) + length (token_rest ds s) < length s"
proof -
  from assms have "length (token_of ds s) \<noteq> length s" using token_rest_drop [of ds s] by auto
  with token_gap_0 have "token_gap ds s \<noteq> 0" by blast
  moreover have "length (token_rest ds s) = length s - (length (token_of ds s) + token_gap ds s)" by (simp add: token_rest_drop)
  ultimately show ?thesis using token_len_le [of ds s] by simp
qed

text \<open>What is before a position is far behind it.\<close>

lemma far_before:
  assumes "i < j" and "j + n < 2 ^ 32"
  shows "n \<le> unat (p + of_nat i - (p + of_nat j) :: addr)"
proof -
  have "unat (of_nat i - of_nat j :: u32) = i + 2 ^ 32 - j"
    using assms by (simp add: unat_sub_if_size word_size unat_of_nat)
  with assms show ?thesis by simp
qed

lemma far_shift:
  assumes "j \<le> n" and "n \<le> unat (a - p)"
  shows "n - j \<le> unat (a - (p + of_nat j) :: addr)"
proof -
  have "a - (p + of_nat j) = of_nat (unat (a - p)) - of_nat j" by (simp add: diff_diff_eq)
  moreover have "unat (of_nat (unat (a - p)) - of_nat j :: u32) = unat (a - p) - j"
    using assms unat_lt_exp [of "a - p"] by (simp add: unat_sub_if_size word_size unat_of_nat)
  ultimately have "unat (a - (p + of_nat j)) = unat (a - p) - j" by (simp only:)
  then show ?thesis using assms by linarith
qed

text \<open>A line that is being cut: it does not begin with a space, and the delimiter is elsewhere.\<close>

definition line_at :: "addr \<Rightarrow> mem \<Rightarrow> addr \<Rightarrow> byte list \<Rightarrow> bool" where
  "line_at d m p s \<longleftrightarrow> cstr m p s \<and> (s = [] \<or> hd s \<noteq> 32) \<and> p \<noteq> NULL \<and> unat p + length s + 1 < 2 ^ 32 \<and>
     cstr m d [32] \<and> length s \<le> unat (d - p) \<and> length s \<le> unat (d + 1 - p)"

definition only_in :: "addr \<Rightarrow> nat \<Rightarrow> mem \<Rightarrow> mem \<Rightarrow> bool" where
  "only_in p n m m' \<longleftrightarrow> (\<forall>a. n \<le> unat (a - p) \<longrightarrow> m' a = m a)"

lemma next_word:
  assumes line: "line_at d m p s" and s: "s \<noteq> []" and start: "str = p \<or> (str = NULL \<and> static = p)"
  obtains m1 p1 where "strtok m static str d = Some (m1, p1, p)" and "line_at d m1 p1 (token_rest [32] s)"
    and "cstr m1 p (token_of [32] s)" and "only_in p (length s) m m1"
    and "\<And>m'. only_in p1 (length (token_rest [32] s)) m1 m' \<Longrightarrow> cstr m' p (token_of [32] s) \<and> only_in p (length s) m m'"
proof -
  let ?r = "token_rest [32] s" and ?w = "token_of [32] s"
  let ?j = "length s - length ?r"
  let ?p1 = "p + of_nat ?j"
  note l = line [unfolded line_at_def]
  from l have small: "length s + 1 < 2 ^ 32" by simp
  obtain m1 where m1: "strtok m static str d = Some (m1, ?p1, p)" "cstr m1 p ?w" "cstr m1 ?p1 ?r"
    "\<And>a. length s \<le> unat (a - p) \<Longrightarrow> m1 a = m a"
    using strtok_word [OF _ s _ small _ start, of m d] l by metis
  have r: "length ?r \<le> length s" using token_len_le [of "[32]" s] by (simp add: token_rest_drop)
  have far: "length ?r \<le> unat (a - ?p1)" if "length s \<le> unat (a - p)" for a
    using far_shift [OF _ that, of ?j] r by simp
  have "?j \<le> length s" by simp
  with l have "unat p + ?j < 2 ^ 32" by linarith
  then have p1: "unat ?p1 = unat p + ?j" by (intro unat_add_of_nat) simp
  have "0 < unat p" using l by (simp add: unat_gt_0)
  with p1 have "0 < unat ?p1" by simp
  then have ne: "?p1 \<noteq> NULL" by (simp only: unat_gt_0) simp
  have d: "cstr m1 d [32]" using l m1(4) [of d] m1(4) [of "d + 1"] by simp
  have "?r = [] \<or> hd ?r \<noteq> 32" using token_rest_hd by blast
  with m1(3) ne d p1 l far [of d] far [of "d + 1"] r have rest: "line_at d m1 ?p1 ?r" unfolding line_at_def by simp
  have kept: "cstr m' p ?w \<and> only_in p (length s) m m'" if m': "only_in ?p1 (length ?r) m1 m'" for m'
  proof
    have "m' (p + of_nat i) = m1 (p + of_nat i)" if "i \<le> length ?w" for i
    proof (cases "?r = []")
      case True
      with m' show ?thesis by (simp add: only_in_def)
    next
      case False
      from token_before_rest [OF this] that r small have "length ?r \<le> unat (p + of_nat i - ?p1)" by (intro far_before) auto
      with m' show ?thesis by (simp add: only_in_def)
    qed
    with m1(2) show "cstr m' p ?w" by (subst cstr_cong) auto
    show "only_in p (length s) m m'" using m' far m1(4) by (simp add: only_in_def)
  qed
  from m1(4) have "only_in p (length s) m m1" by (simp add: only_in_def)
  from that [OF m1(1) rest m1(2) this kept] show thesis by blast
qed

section \<open>The arguments\<close>

lemma program_args_words:
  assumes "line_at d m p s"
  shows "\<exists>m' p' args. program_args d m p n = Some (m', p', args) \<and> list_all2 (cstr m') args (take n (words s)) \<and>
    only_in p (length s) m m'"
  using assms
proof (induction n arbitrary: m p s)
  case (0 m p s)
  show ?case
  proof (cases "s = []")
    case True
    with 0 show ?thesis by (simp add: program_args.simps strtok_def only_in_def line_at_def)
  next
    case False
    obtain m1 p1 where "strtok m p NULL d = Some (m1, p1, p)" "only_in p (length s) m m1"
      using next_word [OF 0 False, of NULL p] by blast
    with 0 show ?thesis by (simp add: program_args.simps line_at_def)
  qed
next
  case (Suc n m p s)
  show ?case
  proof (cases "s = []")
    case True
    with Suc.prems show ?thesis by (simp add: program_args.simps strtok_def only_in_def line_at_def)
  next
    case False
    let ?r = "token_rest [32] s" and ?w = "token_of [32] s"
    obtain m1 p1 where m1: "strtok m p NULL d = Some (m1, p1, p)" "line_at d m1 p1 ?r"
      "\<And>m'. only_in p1 (length ?r) m1 m' \<Longrightarrow> cstr m' p ?w \<and> only_in p (length s) m m'"
      using next_word [OF Suc.prems False, of NULL p] by blast
    from Suc.IH [OF m1(2)] obtain m' p' args where m': "program_args d m1 p1 n = Some (m', p', args)"
      "list_all2 (cstr m') args (take n (words ?r))" "only_in p1 (length ?r) m1 m'" by blast
    have "words s = ?w # words ?r" using Suc.prems False by (intro words_token) (auto simp: line_at_def)
    with m1(1) m1(3) [OF m'(3)] m'(1,2) Suc.prems show ?thesis by (subst program_args.simps) (auto simp: line_at_def)
  qed
qed

section \<open>What a line does\<close>

definition builtins :: "byte list list" where
  "builtins = [cs ''help'', cs ''h'', cs ''kill'', cs ''k'', cs ''morcik'', cs ''m'', cs ''echo'', cs ''e'', cs ''rawecho'', cs ''cd'', cs ''pwd'']"

text \<open>Running a command, over its words.\<close>

definition run_words :: "('s, 'z) shell_calls_scheme \<Rightarrow> byte list list \<Rightarrow> 's \<Rightarrow> 's option" where
  "run_words c ws s = do {
     (s, fd) \<leftarrow> open_command c (hd ws) executable_locations (- 1) s;
     (if fd < 0 then Some s
      else do {
        (s, _) \<leftarrow> g_spawn c fd (take 19 ws) s;
        (s, _) \<leftarrow> g_wait c s;
        (s, _) \<leftarrow> f_close c fd s;
        Some s
      })
   }"

lemma map_option_bind: "map_option f (Option.bind x g) = Option.bind x (\<lambda>y. map_option f (g y))"
  by (cases x) simp_all

lemma run_program_words:
  assumes args: "program_args (t_space t) m scan 18 = Some (m', scan', args)" and texts: "list_all2 (cstr m') (cmd # args) (take 19 ws)"
    and short: "\<forall>w\<in>set ws. length w < 2 ^ 32"
  shows "run_program c t m scan cmd s = map_option (\<lambda>s'. (m', scan', s')) (run_words c ws s)"
proof -
  from texts obtain w ws' where ws: "ws = w # ws'" by (cases ws) auto
  have "\<forall>w\<in>set (take 19 ws). length w < 2 ^ 32" using short by (meson in_set_takeD)
  from strings_at_cstrs [OF texts this] have ts: "strings_at m' (cmd # args) = Some (take 19 ws)" .
  from texts short have w: "string_at m' cmd = Some w" by (simp add: ws string_at_cstr)
  show ?thesis
    using ts
    by (simp add: run_program_def run_words_def args w ws map_option_bind split_def if_distrib [of "map_option _"] cong: if_cong
      del: strings_at.simps)
qed

lemma shell_line_runs:
  assumes line: "line_at (t_space t) m p s" and s: "s \<noteq> []" and cmd: "hd (words s) \<notin> set builtins"
  shows "\<exists>m' scan'. shell_line c t raw_bytes p m scan st = map_option (\<lambda>s'. (m', scan', s')) (run_words c (words s) st)"
proof -
  let ?r = "token_rest [32] s" and ?w = "token_of [32] s"
  obtain m1 p1 where m1: "strtok m scan p (t_space t) = Some (m1, p1, p)" "line_at (t_space t) m1 p1 ?r" "cstr m1 p ?w"
    "\<And>m'. only_in p1 (length ?r) m1 m' \<Longrightarrow> cstr m' p ?w \<and> only_in p (length s) m m'"
    using next_word [OF line s, of p scan] by blast
  have ws: "words s = ?w # words ?r" using line s by (intro words_token) (auto simp: line_at_def)
  from program_args_words [OF m1(2), of 18] obtain m' p' args
    where m': "program_args (t_space t) m1 p1 18 = Some (m', p', args)" "list_all2 (cstr m') args (take 18 (words ?r))"
      "only_in p1 (length ?r) m1 m'" by blast
  have texts: "list_all2 (cstr m') (p # args) (take 19 (words s))" using m1(4) [OF m'(3)] m'(2) by (simp add: ws)
  have short: "\<forall>w\<in>set (words s). length w < 2 ^ 32"
    using words_short [of _ s] line by (force simp: line_at_def)
  have "\<forall>lit\<in>set builtins. 0 \<notin> set lit" by (simp add: builtins_def)
  with cmd ws have "\<forall>lit\<in>set builtins. \<not> is_text m1 p lit" using is_text_cstr [OF m1(3)] by auto
  then have "shell_line c t raw_bytes p m scan st = run_program c t m1 p1 p st"
    using m1(1) line by (simp add: shell_line_def builtins_def line_at_def del: is_text.simps cs_simps)
  also have "\<dots> = map_option (\<lambda>s'. (m', p', s')) (run_words c (words s) st)" by (rule run_program_words [OF m'(1) texts short])
  finally show ?thesis by blast
qed

lemma strcspn_loop_stops:
  assumes among: "\<And>x. byte_among m d n x = (x \<in> set ds)"
  shows "(\<And>i. i < k \<Longrightarrow> m (p + (len + of_nat i)) \<noteq> 0 \<and> m (p + (len + of_nat i)) \<notin> set ds) \<Longrightarrow> m (p + (len + of_nat k)) \<noteq> 0 \<Longrightarrow>
    m (p + (len + of_nat k)) \<in> set ds \<Longrightarrow> strcspn_loop m p d n len = Some (len + of_nat k)"
proof (induction k arbitrary: len)
  case 0
  then show ?case by (subst strcspn_loop.simps) (simp add: among)
next
  case (Suc k)
  have "strcspn_loop m p d n (len + 1) = Some (len + 1 + of_nat k)"
  proof (rule Suc.IH)
    show "m (p + (len + 1 + of_nat i)) \<noteq> 0 \<and> m (p + (len + 1 + of_nat i)) \<notin> set ds" if "i < k" for i
      using Suc.prems(1) [of "Suc i"] that by (simp add: ac_simps)
  qed (use Suc.prems(2,3) in \<open>simp_all add: ac_simps\<close>)
  then show ?case using Suc.prems(1) [of 0] by (subst strcspn_loop.simps) (simp add: among ac_simps)
qed

lemma strcspn_stops:
  assumes "cstr m d [x]" and "x \<notin> set s" and "0 \<notin> set s" and "length s + 1 < 2 ^ 32"
    and "\<And>i. i < length (s @ [x]) \<Longrightarrow> m (p + of_nat i) = (s @ [x]) ! i"
  shows "strcspn m p d = Some (of_nat (length s))"
proof -
  have "strcspn_loop m p d (of_nat (length [x])) 0 = Some (0 + of_nat (length s))"
  proof (rule strcspn_loop_stops)
    show "byte_among m d (of_nat (length [x])) y = (y \<in> set [x])" for y using byte_among_cstr [OF assms(1)] by simp
    show "m (p + (0 + of_nat i)) \<noteq> 0 \<and> m (p + (0 + of_nat i)) \<notin> set [x]" if "i < length s" for i
      using assms(5) [of i] that assms(2,3) by (auto simp: nth_append dest: nth_mem)
    show "m (p + (0 + of_nat (length s))) \<noteq> 0" "m (p + (0 + of_nat (length s))) \<in> set [x]"
      using assms(5) [of "length s"] assms(1) by (auto simp: nth_append)
  qed
  then show ?thesis using assms(1) by (simp add: strcspn_def strlen_cstr [OF assms(1)])
qed

text \<open>C32: The shell runs what is typed: for a line that begins with the name of a program, it looks the first word up in the three
  directories and starts the program with the words of the line, at most nineteen, as arguments, then waits for it. The words are cut
  in place in the buffer of the line and reach the call intact, whatever the system calls do.\<close>

theorem shell_runs_command:
  assumes "f_read c 0 256 st = Some (st1, text @ [10], r)" and "1 \<le> r"
    and "text \<noteq> []" "hd text \<noteq> 32" "10 \<notin> set text" "0 \<notin> set text" "length text < 256" "hd (words text) \<notin> set builtins"
    and "line \<noteq> NULL" "unat line + 257 < 2 ^ 32" "cstr m (t_space t) [32]" "cstr m (t_newline t) [10]"
    and "256 \<le> unat (t_space t - line)" "256 \<le> unat (t_space t + 1 - line)"
    and "256 \<le> unat (t_newline t - line)" "256 \<le> unat (t_newline t + 1 - line)"
  shows "\<exists>m' scan'. shell_round c t raw_bytes line m scan st = map_option (\<lambda>s'. (m', scan', s')) (run_words c (words text) st1)"
proof -
  let ?m = "stored m line (text @ [10])"
  let ?m1 = "?m(line + of_nat (length text) := 0)"
  have out: "?m a = m a" if "256 \<le> unat (a - line)" for a using that assms(7) by (intro stored_out) simp
  have nl: "cstr ?m (t_newline t) [10]" using out [OF assms(15)] out [OF assms(16)] assms(12) by simp
  have "strcspn ?m line (t_newline t) = Some (of_nat (length text))"
    by (rule strcspn_stops [OF nl assms(5,6)]) (use assms(7) in \<open>simp_all add: stored_in del: of_nat_Suc\<close>)
  then have round: "shell_round c t raw_bytes line m scan st = shell_line c t raw_bytes line ?m1 scan st1"
    using assms(1,2) by (simp add: shell_round_def Let_def)
  have far: "a \<noteq> line + of_nat (length text)" if "256 \<le> unat (a - line)" for a
    using that assms(7) by (auto simp: unat_of_nat_less)
  have "?m1 = stored m line (text @ [0])" using assms(7) by (simp add: stored_extend [symmetric] stored_snoc)
  then have "cstr ?m1 line text" using stored_cstr [OF assms(6)] assms(7) by simp
  moreover have "cstr ?m1 (t_space t) [32]"
    using out [OF assms(13)] out [OF assms(14)] far [OF assms(13)] far [OF assms(14)] assms(11) by simp
  ultimately have "line_at (t_space t) ?m1 line text" using assms by (simp add: line_at_def)
  from shell_line_runs [OF this assms(3,8)] show ?thesis unfolding round .
qed

section \<open>An example\<close>

text \<open>The state of the calls is the list of the programs that were started; \<open>ls\<close> is in the directory \<open>bin\<close>.\<close>

definition shell_example_calls :: "(int \<times> byte list list) list shell_calls" where
  "shell_example_calls = \<lparr>
     f_open = \<lambda>path flags s. Some (s, if path = cs ''bin/ls'' then 5 else - 2),
     f_read = \<lambda>fd n s. Some (s, cs ''ls  /dev'' @ [10], 9),
     f_write = \<lambda>fd bytes s. Some (s, int (length bytes)),
     f_lseek = \<lambda>fd k whence s. Some (s, k),
     f_close = \<lambda>fd s. Some (s, 0),
     u_malloc = \<lambda>n s. (s, None),
     u_free = \<lambda>a s. s,
     g_spawn = \<lambda>fd argv s. Some (s @ [(fd, argv)], 7),
     g_wait = \<lambda>s. Some (s, 7, 0),
     g_kill = \<lambda>pid sig s. Some (s, 0),
     g_chdir = \<lambda>path s. Some (s, 0),
     g_getcwd = \<lambda>n s. Some (s, [47])\<rparr>"

definition shell_example_texts :: shell_texts where
  "shell_example_texts = \<lparr>t_space = 0x100, t_newline = 0x110, t_greater = 0x120, t_empty = 0x130\<rparr>"

definition shell_example_mem :: mem where
  "shell_example_mem = (\<lambda>_. 0)(0x100 := 32, 0x110 := 10, 0x120 := 62)"

theorem shell_runs_command_witness:
  "\<exists>m' scan'. shell_round shell_example_calls shell_example_texts 0x3000 0x2000 shell_example_mem 0 [] =
     Some (m', scan', [(5, [cs ''ls'', cs ''/dev''])])"
proof -
  let ?c = shell_example_calls and ?t = shell_example_texts
  have parts: "words (cs ''ls  /dev'') = [cs ''ls'', cs ''/dev'']" by simp
  have "f_read ?c 0 256 [] = Some ([], cs ''ls  /dev'' @ [10], 9)" by (simp add: shell_example_calls_def)
  moreover have "run_words ?c (words (cs ''ls  /dev'')) [] = Some [(5, [cs ''ls'', cs ''/dev''])]"
    unfolding parts by (simp add: run_words_def shell_example_calls_def executable_locations_def)
  moreover have "hd (words (cs ''ls  /dev'')) \<notin> set builtins" unfolding parts by (simp add: builtins_def)
  ultimately show ?thesis
    using shell_runs_command [of ?c "[]" "[]" "cs ''ls  /dev''" 9 "0x2000" shell_example_mem ?t "0x3000" 0]
    by (simp add: shell_example_texts_def shell_example_mem_def)
qed

end
