(* ===== verification/Spec2Isabelle.thy ===== *)
theory Spec2Isabelle
  imports Sd_Protocol Tty_Line Fat16_Names Spawn Sockets Clock Shell
begin

text \<open>
  GeT OS is an operating system for a 32-bit ARM microcontroller. Its kernel (\<open>src/kernel/\<close>) has an allocator, a scheduler
  with processes, signals, pipes and wait queues, a loader for ELF images, a terminal and a network layer; \<open>src/fs/\<close> has
  a virtual file system over a file system in memory and FAT16; \<open>src/drivers/\<close> drives a VGA display, an SD card and an
  Ethernet chip; \<open>src/kstdlib/libc.c\<close> is the C library of kernel and programs, and \<open>builtins/\<close> has user programs.

  How the code is modelled. A pointer is a 32-bit word, memory is a function from addresses to bytes, and words keep
  their width, so that address arithmetic and counters wrap as on the target. The structures that the kernel allocates are
  typed maps from their address, next to the bytes; allocation itself goes through the model of the allocator. Every
  function takes and returns the state that it uses. None is the absence of a defined result: a dereferenced null
  pointer, a wrong access, or a loop that never ends. Error codes of the code are ordinary results. What the code calls
  through a table of functions, and what hardware, the scheduler or a user does in between, are parameters: \<open>vfs\<close> (file
  system operations by the address of the function), \<open>hard_drive\<close>, \<open>hardware\<close> (buses, pins, clock), \<open>net_env\<close>
  (what happens while a process waits), \<open>calls\<close> (system calls of a program), and the addresses of string literals.
  Variables of the code that a callee also changes are passed back and forth, the static ones are members of the state.

  The theories, in the order of the code's layers:

    \<^item> \<open>Prelude\<close>, \<open>Bytes\<close>: types, memory, little-endian words, shared lemmas and the collections for the simplifier.
    \<^item> \<open>Libc_Mem\<close>, \<open>Libc_String\<close>, \<open>Libc_Token\<close>, \<open>Libc_Num\<close>, \<open>Libc_Fmt\<close>, \<open>Libc_Time\<close>, \<open>Libc_Contract\<close>: the C library of
      \<open>src/kstdlib/libc.c\<close>. The specifications are C strings (\<open>cstr\<close>), simultaneous copies, digit lists, the relation
      \<open>renders\<close> between a format, its arguments and the text, and a calendar. \<open>Libc_Contract\<close> states what callers rely on.
    \<^item> \<open>Memory\<close>: the allocator of \<open>src/kernel/memory.c\<close>. The invariant \<open>heap_inv\<close> relates the linked headers to a list of
      disjoint ordered blocks; the locale \<open>heap_contract\<close> is the interface and \<open>kheap\<close> its interpretation. \<open>heap_run\<close> is the
      step relation of any sequence of calls.
    \<^item> \<open>Queues\<close>: the linked queues of signals and waiting processes, one contract (\<open>fifo\<close>) for both.
    \<^item> \<open>Kernel_State\<close>, \<open>Signal\<close>, \<open>Resources\<close>, \<open>Proc\<close>, \<open>Lifecycle\<close>, \<open>Spawn\<close>: processes. \<open>Signal\<close> is \<open>signal.c\<close> with the frames of
      \<open>ctx.S\<close>, \<open>Resources\<close> is \<open>resources.c\<close>, the others are \<open>proc.c\<close>: scheduling, creation, exit, waiting, pipes, running an
      executable, the first process.
    \<^item> \<open>Ramfs\<close>, \<open>Ramfs_Dirs\<close>, \<open>Vfs\<close>: \<open>src/fs/ramfs.c\<close> and \<open>src/fs/file.c\<close>. \<open>ramfs_storage\<close> says what a file contains.
    \<^item> \<open>Loader\<close>: \<open>src/kernel/loader.c\<close>, sections, segments, relocations, the dynamic library.
    \<^item> \<open>Font\<close>, \<open>Vga\<close>, \<open>Monitor\<close>, \<open>Monitor_Text\<close>: \<open>include/font.h\<close>, \<open>src/drivers/vga.c\<close> and \<open>monitor_text_mode.c\<close>; the abstract
      screen is a list of rows and a position.
    \<^item> \<open>Tty\<close>, \<open>Tty_Line\<close>: \<open>src/kernel/tty.c\<close>; the locale \<open>line_editor\<close> is the editor that a user sees.
    \<^item> \<open>Fat16\<close>, \<open>Fat16_Ops\<close>, \<open>Fat16_Table\<close>, \<open>Fat16_Read\<close>, \<open>Fat16_Names\<close>: \<open>src/fs/fat16.c\<close> and \<open>mbr.c\<close>; the locale
      \<open>cluster_table\<close> is the allocation table, and chains of clusters are handled over it.
    \<^item> \<open>Board\<close>, \<open>Sd_Card\<close>, \<open>Sd_Protocol\<close>: buses and the card of \<open>src/drivers/sd_card.c\<close>. On a card that follows the protocol
      the driver is the \<open>block_device\<close> that \<open>Fat16_Table\<close> assumes.
    \<^item> \<open>Ethernet\<close>, \<open>Ethernet_Chip\<close>, \<open>Ethernet_Frames\<close>, \<open>Ethernet_Simulator\<close>: \<open>src/drivers/ethernet.c\<close>. \<open>w5100s\<close> collects what the
      data sheet of the chip says about accesses, commands and buffers; a program \<open>w_sim\<close> meets it.
    \<^item> \<open>Network\<close>, \<open>Address_Text\<close>, \<open>Sockets\<close>: \<open>src/kernel/network.c\<close> and who holds a socket over time (\<open>socket_run\<close>).
    \<^item> \<open>Modbus\<close>: the client of \<open>builtins/src/modbustcp.c\<close>. The locales \<open>byte_sink\<close> and \<open>reliable_sink\<close> are what it needs
      of the write call; the socket of the driver is their interpretation.
    \<^item> \<open>Clock\<close>: \<open>src/kernel/time.c\<close>.
    \<^item> \<open>Archive\<close>: \<open>src/init/archive_loader.c\<close>, which unpacks the files of the system at the start.
    \<^item> \<open>Shell\<close>: \<open>builtins/src/shell.c\<close>, lines, words, commands and programs.

  What is shown. Invariants: the heap stays well formed, sockets have one holder, the cached sector of the allocation table
  agrees with the drive. Refinements: the terminal refines the line editor, the text screen its rows, the card driver a
  block device. Equivalences with reference definitions: search, formatting, the calendar. Round trips: numbers, names,
  pipes, files, time, archives. Behaviour on every branch: allocation, signals, lookups, wake-ups. Composition: bytes that the Modbus
  client writes pass through socket, driver and bus, and leave the chip; what the card driver
  provides is what FAT16 needs. Several theorems state faults of the code: the allocator may place a chunk beyond the end of the
  heap, closing never releases a socket, creating the first process clears the whole memory.

  Bounds and fuel. The scheduler's loop counts down from twice the size of the table, as the code does; the copy of a
  row of the screen counts its 3200 cells; waiting for the card counts 8, 30 and 100 rounds, as the code
  does. Loops without a bound of their own are partial functions, and their theorems say when they return a result. The
  parsers assume texts of less than \<open>2 ^ 31\<close> bytes, where the length fits into a signed integer.

  Not modelled: the assembly of \<open>src/drivers/*.S\<close> and of the context switch but for what is named above (register
  accesses, interrupt entry; the C code only calls it), the start-up sequence \<open>main.c\<close>, \<open>init.c\<close> and \<open>config.c\<close> (calls of modelled functions
  and messages), the query of a time server in \<open>init/time.c\<close>, the table of system calls (a table of addresses), the system call stubs of libc (one instruction each),
  the programs in \<open>builtins/\<close> other than the above, and the tests. The chunks of the
  allocator live outside of the byte memory, so that a write through a wild pointer does not damage them.
\<close>

end
